(* ===== verification/Prelude.thy ===== *)
theory Prelude
  imports Main "HOL-Library.Word" "HOL-Library.Sublist" "HOL-Library.Signed_Division"
begin

text \<open>
  Shared material of the development: the Go values the program computes with (bytes, machine
  words, truncating division, slices, \<^verbatim>\<open>copy\<close>, decimal printing and parsing), finite maps as the
  model of Go maps, sharding by a hash of the key, and reachability of states under interleaved
  steps with the rule that lifts a step invariant to every reachable state.
\<close>

unbundle bit_operations_syntax

named_theorems go_simps \<open>evaluation rules for the Go primitives\<close>
named_theorems map_kit \<open>domain, lookup and sum of the finite-map operations\<close>
named_theorems shard_kit \<open>reading and writing one shard of a sharded structure\<close>

section \<open>Go values\<close>

type_synonym byte = "8 word"
type_synonym u64 = "64 word"
type_synonym path = string

text \<open>Go's integer division truncates towards zero; on the operands the program uses (a
  non-negative offset and a positive size) it is the mathematical quotient.\<close>

lemma sdiv_nonneg [go_simps]: "0 \<le> a \<Longrightarrow> 0 < b \<Longrightarrow> a sdiv b = a div (b::int)"
  by (cases "a = 0") (simp_all add: signed_divide_int_def)

text \<open>The slice expression \<^verbatim>\<open>xs[lo:hi]\<close>: \<open>None\<close> is the run-time panic for bounds out of range.\<close>

definition slice :: "'a list \<Rightarrow> int \<Rightarrow> int \<Rightarrow> 'a list option" where
  "slice xs lo hi =
     (if 0 \<le> lo \<and> lo \<le> hi \<and> hi \<le> int (length xs)
      then Some (take (nat (hi - lo)) (drop (nat lo) xs)) else None)"

text \<open>The built-in \<^verbatim>\<open>copy(dst, src)\<close>: the new contents of \<open>dst\<close>, and the number of elements
  copied.\<close>

definition go_copy :: "'a list \<Rightarrow> 'a list \<Rightarrow> 'a list" where
  "go_copy dst src = take (length dst) src @ drop (length src) dst"

definition go_copied :: "'a list \<Rightarrow> 'a list \<Rightarrow> nat" where
  "go_copied dst src = min (length dst) (length src)"

lemma length_go_copy [simp]: "length (go_copy dst src) = length dst"
  by (simp add: go_copy_def)

lemma go_copy_same_length: "length dst = length src \<Longrightarrow> go_copy dst src = src"
  by (simp add: go_copy_def)

lemma take_go_copy: "take (go_copied dst src) (go_copy dst src) = take (length dst) src"
  by (simp add: go_copy_def go_copied_def min_def)

lemma slice_Some_iff:
  "slice xs lo hi = Some ys \<longleftrightarrow>
     0 \<le> lo \<and> lo \<le> hi \<and> hi \<le> int (length xs) \<and> ys = take (nat (hi - lo)) (drop (nat lo) xs)"
  by (auto simp: slice_def)

lemma length_slice: "slice xs lo hi = Some ys \<Longrightarrow> int (length ys) = hi - lo"
  by (auto simp: slice_Some_iff)

lemma nth_slice:
  "slice xs lo hi = Some ys \<Longrightarrow> i < length ys \<Longrightarrow> ys ! i = xs ! (nat lo + i)"
  by (auto simp: slice_Some_iff nat_add_distrib)

lemma slice_map_upto:
  assumes "a \<le> lo" "lo \<le> hi + 1" "hi \<le> b"
  shows "slice (map f [a..b]) (lo - a) (hi - a + 1) = Some (map f [lo..hi])"
proof -
  have "take (nat (hi - lo + 1)) (drop (nat (lo - a)) (map f [a..b])) = map f [lo..hi]"
    using assms by (intro nth_equalityI) (auto simp: nth_append)
  then show ?thesis using assms by (simp add: slice_def algebra_simps)
qed

lemma go_copy_two:
  assumes "length xs + length ys \<le> length dst"
  shows "take (go_copied dst xs) (go_copy dst xs) @ go_copy (drop (go_copied dst xs) (go_copy dst xs)) ys
           = xs @ ys @ drop (length xs + length ys) dst"
    and "go_copied dst xs + go_copied (drop (go_copied dst xs) (go_copy dst xs)) ys = length xs + length ys"
  using assms by (auto simp: go_copy_def go_copied_def add_ac)

lemma upto_map_split: "off \<le> m \<Longrightarrow> m < e \<Longrightarrow> map f [off..m] @ map f [m + 1..e] = map f [off..e]"
  by (subst upto_split2 [of off m e]) auto

lemma sum_list_replicate_0 [simp]: "sum_list (replicate n 0) = (0 :: 'a::monoid_add)"
  by (induction n) auto

section \<open>Decimal numbers\<close>

text \<open>\<^verbatim>\<open>%d\<close>, \<^verbatim>\<open>strconv.Itoa\<close>, \<^verbatim>\<open>FormatUint\<close> and \<^verbatim>\<open>FormatInt\<close> print in base ten.\<close>

definition digit :: "nat \<Rightarrow> char" where
  "digit d = char_of (48 + d)"

lemma digit_chars [go_simps]:
  "digit 0 = CHR ''0''"
  "digit 1 = CHR ''1''"
  "digit 2 = CHR ''2''"
  "digit 3 = CHR ''3''"
  "digit 4 = CHR ''4''"
  "digit 5 = CHR ''5''"
  "digit 6 = CHR ''6''"
  "digit 7 = CHR ''7''"
  "digit 8 = CHR ''8''"
  "digit 9 = CHR ''9''"
  "digit (Suc 0) = CHR ''1''"
  by (simp_all add: digit_def char_of_def bit_iff_odd)

fun show_nat :: "nat \<Rightarrow> string" where
  "show_nat n = (if n < 10 then [digit n] else show_nat (n div 10) @ [digit (n mod 10)])"

declare show_nat.simps [simp del]

definition show_int :: "int \<Rightarrow> string" where
  "show_int i = (if i < 0 then CHR ''-'' # show_nat (nat (- i)) else show_nat (nat i))"

definition is_digit :: "char \<Rightarrow> bool" where
  "is_digit c \<longleftrightarrow> 48 \<le> (of_char c :: nat) \<and> (of_char c :: nat) \<le> 57"

definition digit_val :: "char \<Rightarrow> nat" where
  "digit_val c = of_char c - 48"

fun digits_val :: "nat \<Rightarrow> string \<Rightarrow> nat" where
  "digits_val acc [] = acc"
| "digits_val acc (c # cs) = digits_val (10 * acc + digit_val c) cs"

text \<open>\<^verbatim>\<open>strconv.ParseUint(s, 10, 64)\<close> and \<^verbatim>\<open>strconv.ParseInt(s, 10, 64)\<close>: a non-empty run of
  digits (for the signed version after an optional sign) whose value fits 64 bits.\<close>

definition parse_uint64 :: "string \<Rightarrow> nat option" where
  "parse_uint64 s =
     (if s \<noteq> [] \<and> list_all is_digit s \<and> digits_val 0 s < 2 ^ 64 then Some (digits_val 0 s) else None)"

definition parse_int64 :: "string \<Rightarrow> int option" where
  "parse_int64 s =
     (let neg = (s \<noteq> [] \<and> hd s = CHR ''-'');
          ds = (if s \<noteq> [] \<and> (hd s = CHR ''-'' \<or> hd s = CHR ''+'') then tl s else s);
          v = (if neg then - int (digits_val 0 ds) else int (digits_val 0 ds))
      in if ds \<noteq> [] \<and> list_all is_digit ds \<and> - (2 ^ 63) \<le> v \<and> v < 2 ^ 63 then Some v else None)"

text \<open>\<^verbatim>\<open>strings.ToLower\<close> on ASCII.\<close>

definition lower :: "char \<Rightarrow> char" where
  "lower c = (let n = (of_char c :: nat) in if 65 \<le> n \<and> n \<le> 90 then char_of (n + 32) else c)"

definition ToLower :: "string \<Rightarrow> string" where
  "ToLower s = map lower s"

lemma of_char_digit: "d < 10 \<Longrightarrow> of_char (digit d) = 48 + (d::nat)"
  by (simp add: digit_def)

lemma is_digit_digit [simp]: "d < 10 \<Longrightarrow> is_digit (digit d)"
  by (simp add: is_digit_def of_char_digit)

lemma digit_val_digit [simp]: "d < 10 \<Longrightarrow> digit_val (digit d) = d"
  by (simp add: digit_val_def of_char_digit)

lemma digits_val_append: "digits_val acc (xs @ ys) = digits_val (digits_val acc xs) ys"
  by (induction xs arbitrary: acc) auto

lemma show_nat_nonempty [simp]: "show_nat n \<noteq> []"
  by (subst show_nat.simps) simp

lemma show_nat_small [simp]: "n < 10 \<Longrightarrow> show_nat n = [digit n]"
  by (subst show_nat.simps) simp

lemma show_nat_big [go_simps]: "\<not> n < 10 \<Longrightarrow> show_nat n = show_nat (n div 10) @ [digit (n mod 10)]"
  by (subst show_nat.simps) simp

lemma show_nat_digits: "list_all is_digit (show_nat n)"
proof (induction n rule: show_nat.induct)
  case (1 n)
  then show ?case by (subst show_nat.simps) auto
qed

lemma digits_val_show_nat: "digits_val 0 (show_nat n) = n"
proof (induction n rule: show_nat.induct)
  case (1 n)
  show ?case
  proof (cases "n < 10")
    case True
    then show ?thesis by (subst show_nat.simps) simp
  next
    case False
    with 1 have "digits_val 0 (show_nat (n div 10)) = n div 10" by simp
    with False show ?thesis
      by (subst show_nat.simps) (simp add: digits_val_append)
  qed
qed

lemma show_nat_inj: "show_nat m = show_nat n \<longleftrightarrow> m = n"
  by (metis digits_val_show_nat)

lemma parse_uint64_show [simp]: "n < 2 ^ 64 \<Longrightarrow> parse_uint64 (show_nat n) = Some n"
  by (simp add: parse_uint64_def show_nat_digits digits_val_show_nat)

lemma not_digit_minus [simp]: "\<not> is_digit (CHR ''-'')" "\<not> is_digit (CHR ''+'')" "\<not> is_digit (CHR '':'')"
  by (simp_all add: is_digit_def)

lemma hd_show_nat_digit: "is_digit (hd (show_nat n))"
  using show_nat_digits [of n] by (cases "show_nat n") auto

lemma hd_show_nat_sign [simp]: "hd (show_nat n) \<noteq> CHR ''-''" "hd (show_nat n) \<noteq> CHR ''+''"
  using hd_show_nat_digit [of n] by (metis not_digit_minus(1), metis not_digit_minus(2))

lemma parse_int64_show [simp]:
  "- (2 ^ 63) \<le> i \<Longrightarrow> i < 2 ^ 63 \<Longrightarrow> parse_int64 (show_int i) = Some i"
  by (auto simp: parse_int64_def show_int_def Let_def show_nat_digits digits_val_show_nat)

lemma show_nat_not_minus [simp]: "show_nat n \<noteq> CHR ''-'' # s" "CHR ''-'' # s \<noteq> show_nat n"
  using hd_show_nat_sign(1) [of n] by (metis list.sel(1))+

lemma show_int_inj: "show_int i = show_int j \<longleftrightarrow> i = j"
  by (auto simp: show_int_def show_nat_inj)

lemma colon_not_in_show_int: "CHR '':'' \<notin> set (show_int i)"
proof -
  have "CHR '':'' \<notin> set (show_nat n)" for n
    using show_nat_digits [of n] by (auto simp: list_all_iff)
  then show ?thesis by (simp add: show_int_def)
qed

text \<open>A key \<^verbatim>\<open>"%s:%d"\<close> determines its two parts: the number holds no colon, so the last colon of
  the key separates them.\<close>

definition colon_key :: "string \<Rightarrow> int \<Rightarrow> string" where
  "colon_key s i = s @ CHR '':'' # show_int i"

lemma append_sep_inj:
  assumes "xs @ c # ys = xs' @ c # ys'" and "c \<notin> set ys" and "c \<notin> set ys'"
  shows "xs = xs' \<and> ys = ys'"
proof -
  from assms(1) have "rev ys @ c # rev xs = rev ys' @ c # rev xs'"
    by (metis append_assoc rev.simps(2) rev_append append_Cons append_Nil)
  moreover have "takeWhile (\<lambda>x. x \<noteq> c) (rev zs @ c # ws) = rev zs" if "c \<notin> set zs" for zs ws
    using that by (subst takeWhile_append2) auto
  ultimately have "rev ys = rev ys'" using assms(2,3) by metis
  with assms(1) show ?thesis by simp
qed

lemma colon_key_inj: "colon_key s i = colon_key t j \<longleftrightarrow> s = t \<and> i = j"
  using append_sep_inj [of s "CHR '':''" "show_int i" t "show_int j"] colon_not_in_show_int show_int_inj
  by (auto simp: colon_key_def)

section \<open>Finite maps\<close>

text \<open>A Go map is a map with a finite domain. \<open>mfilter\<close> is the loop that deletes the entries for
  which the test fails; \<open>msum\<close> adds up a measure of the entries; \<open>mlen\<close> is \<^verbatim>\<open>len(m)\<close>.\<close>

definition mfilter :: "('k \<Rightarrow> 'v \<Rightarrow> bool) \<Rightarrow> ('k \<rightharpoonup> 'v) \<Rightarrow> ('k \<rightharpoonup> 'v)" where
  "mfilter p m = (\<lambda>k. case m k of None \<Rightarrow> None | Some v \<Rightarrow> if p k v then Some v else None)"

definition msum :: "('v \<Rightarrow> int) \<Rightarrow> ('k \<rightharpoonup> 'v) \<Rightarrow> int" where
  "msum f m = (\<Sum>k\<in>dom m. f (the (m k)))"

definition mlen :: "('k \<rightharpoonup> 'v) \<Rightarrow> int" where
  "mlen m = int (card (dom m))"

lemma mfilter_Some_iff [map_kit]: "mfilter p m k = Some v \<longleftrightarrow> m k = Some v \<and> p k v"
  by (auto simp: mfilter_def split: option.splits if_splits)

lemma mfilter_None_iff [map_kit]: "mfilter p m k = None \<longleftrightarrow> (\<forall>v. m k = Some v \<longrightarrow> \<not> p k v)"
  by (auto simp: mfilter_def split: option.splits if_splits)

lemma dom_mfilter_subset: "dom (mfilter p m) \<subseteq> dom m"
  by (auto simp: dom_def mfilter_def split: option.splits if_splits)

lemma finite_dom_mfilter [intro, simp]: "finite (dom m) \<Longrightarrow> finite (dom (mfilter p m))"
  by (rule finite_subset [OF dom_mfilter_subset])

lemma mfilter_empty [simp]: "mfilter p Map.empty = Map.empty"
  by (simp add: mfilter_def)

lemma mfilter_upd [simp]:
  "mfilter p (m(k \<mapsto> v)) = (if p k v then (mfilter p m)(k \<mapsto> v) else (mfilter p m)(k := None))"
  by (auto simp: mfilter_def fun_eq_iff)

lemma mfilter_none [simp]: "mfilter p (m(k := None)) = (mfilter p m)(k := None)"
  by (auto simp: mfilter_def fun_eq_iff)

lemma msum_empty [simp]: "msum f Map.empty = 0"
  by (simp add: msum_def)

lemma mlen_empty [simp]: "mlen Map.empty = 0"
  by (simp add: mlen_def)

lemma msum_cong: "(\<And>k v. m k = Some v \<Longrightarrow> f v = g v) \<Longrightarrow> msum f m = msum g m"
  unfolding msum_def by (rule sum.cong) auto

lemma msum_delete [map_kit]:
  "finite (dom m) \<Longrightarrow> m k = Some v \<Longrightarrow> msum f (m(k := None)) = msum f m - f v"
  unfolding msum_def by (subst sum.remove [of "dom m" k]) (auto intro!: sum.cong)

lemma msum_insert [map_kit]:
  "finite (dom m) \<Longrightarrow> m k = None \<Longrightarrow> msum f (m(k \<mapsto> v)) = msum f m + f v"
  unfolding msum_def by (subst dom_fun_upd) (auto simp: domIff intro!: sum.cong)

lemma msum_upd [map_kit]:
  assumes "finite (dom m)"
  shows "msum f (m(k \<mapsto> v)) = msum f m - (case m k of None \<Rightarrow> 0 | Some u \<Rightarrow> f u) + f v"
proof (cases "m k")
  case None
  with assms show ?thesis by (simp add: msum_insert)
next
  case (Some u)
  have "msum f ((m(k := None))(k \<mapsto> v)) = msum f m - f u + f v"
    using assms Some by (subst msum_insert) (auto simp: msum_delete)
  with Some show ?thesis by simp
qed

lemma msum_mfilter_split:
  assumes "finite (dom m)"
  shows "msum f m = msum f (mfilter p m) + msum f (mfilter (\<lambda>k v. \<not> p k v) m)"
proof -
  have d: "dom m = dom (mfilter p m) \<union> dom (mfilter (\<lambda>k v. \<not> p k v) m)"
    by (auto simp: dom_def mfilter_def split: option.splits if_splits)
  have "(\<Sum>k\<in>dom m. f (the (m k))) =
      (\<Sum>k\<in>dom (mfilter p m). f (the (m k))) + (\<Sum>k\<in>dom (mfilter (\<lambda>k v. \<not> p k v) m). f (the (m k)))"
    unfolding d using assms
    by (intro sum.union_disjoint) (auto simp: map_kit)
  also have "(\<Sum>k\<in>dom (mfilter p m). f (the (m k))) = msum f (mfilter p m)"
    unfolding msum_def by (rule sum.cong) (auto simp: mfilter_def split: option.splits if_splits)
  also have "(\<Sum>k\<in>dom (mfilter (\<lambda>k v. \<not> p k v) m). f (the (m k))) = msum f (mfilter (\<lambda>k v. \<not> p k v) m)"
    unfolding msum_def by (rule sum.cong) (auto simp: mfilter_def split: option.splits if_splits)
  finally show ?thesis by (simp add: msum_def)
qed

lemma msum_nonneg: "(\<And>k v. m k = Some v \<Longrightarrow> 0 \<le> f v) \<Longrightarrow> 0 \<le> msum f m"
  unfolding msum_def by (rule sum_nonneg) auto

lemma msum_as_sum_list:
  assumes "distinct ks" and "set ks = dom m"
  shows "msum f m = (\<Sum>k\<leftarrow>ks. f (the (m k)))"
  using assms unfolding msum_def by (metis sum_list_distinct_conv_sum_set)

section \<open>Sharding\<close>

text \<open>The caches split their state over 32 shards and pick the shard of a key by the low bits of
  its hash (\<^verbatim>\<open>xxhash.Sum64String(key) & shardMask\<close>). The hash function is a parameter.\<close>

type_synonym hasher = "string \<Rightarrow> u64"

definition shard_idx :: "hasher \<Rightarrow> u64 \<Rightarrow> string \<Rightarrow> nat" where
  "shard_idx xx msk key = unat (xx key AND msk)"

lemma shard_idx_less: "shard_idx xx 31 key < 32"
proof -
  have "unat (xx key AND 31) \<le> unat (31 :: u64)"
    by (rule word_and_le1 [THEN word_le_nat_alt [THEN iffD1]])
  then show ?thesis by (simp add: shard_idx_def)
qed

lemma sum_list_update_int:
  "i < length xs \<Longrightarrow> sum_list (map f (xs[i := x])) = sum_list (map f xs) - f (xs ! i) + (f x :: int)"
  by (induction xs arbitrary: i) (auto split: nat.splits)

text \<open>The interface a sharded structure relies on: every key has a shard. The laws say what
  reading and writing the shard of a key does to the other shards and to a sum over all of them.\<close>

locale sharded =
  fixes pick :: "'k \<Rightarrow> nat" and n :: nat
  assumes pick_less: "pick k < n"
begin

lemma shard_at_upd: "length xs = n \<Longrightarrow> xs[pick k := s] ! pick j = (if pick j = pick k then s else xs ! pick j)"
  using pick_less by (auto simp: nth_list_update)

lemma shard_in_set: "length xs = n \<Longrightarrow> xs ! pick k \<in> set xs"
  using pick_less by simp

lemma shard_sum_upd:
  "length xs = n \<Longrightarrow> sum_list (map f (xs[pick k := s])) = sum_list (map f xs) - f (xs ! pick k) + (f s :: int)"
  using pick_less by (simp add: sum_list_update_int)

lemma shard_all_upd:
  "length xs = n \<Longrightarrow> (\<And>x. x \<in> set xs \<Longrightarrow> P x) \<Longrightarrow> P s \<Longrightarrow> y \<in> set (xs[pick k := s]) \<Longrightarrow> P y"
  using set_update_subset_insert by fastforce

end

interpretation xx_shard: sharded "shard_idx xx 31" 32 for xx
  by unfold_locales (rule shard_idx_less)

declare shard_idx_less [shard_kit] xx_shard.shard_at_upd [shard_kit] xx_shard.shard_sum_upd [shard_kit]

section \<open>Reachable states\<close>

text \<open>A component whose operations run one after another under its lock is a transition relation;
  the states of any interleaving are the reachable ones.\<close>

inductive reachable :: "('s \<Rightarrow> bool) \<Rightarrow> ('s \<Rightarrow> 's \<Rightarrow> bool) \<Rightarrow> 's \<Rightarrow> bool" for init step where
  reach_init: "init s \<Longrightarrow> reachable init step s"
| reach_step: "reachable init step s \<Longrightarrow> step s t \<Longrightarrow> reachable init step t"

text \<open>An invariant of a transition relation, as an interface: what a component shows of its
  initial states and of each operation, and what its clients get.\<close>

locale step_invariant =
  fixes init :: "'s \<Rightarrow> bool" and step :: "'s \<Rightarrow> 's \<Rightarrow> bool" and inv :: "'s \<Rightarrow> bool"
  assumes inv_init: "init s \<Longrightarrow> inv s"
    and inv_step: "inv s \<Longrightarrow> step s t \<Longrightarrow> inv t"
begin

lemma reachable_inv: "reachable init step s \<Longrightarrow> inv s"
  by (induction rule: reachable.induct) (auto intro: inv_init inv_step)

end

end
