(* ===== verification/ReadAhead.thy ===== *)
theory ReadAhead
  imports Prelude "HOL-Library.Multiset"
begin

text \<open>
  The read-ahead cache of \<^verbatim>\<open>main.go\<close> (\<^verbatim>\<open>RaBuffer\<close>, \<^verbatim>\<open>raShard\<close>, \<^verbatim>\<open>ReadAheadCache\<close>): chunks of
  streamed files in 32 shards, a global byte budget, least-recently-inserted eviction inside a
  shard, eviction of stale sessions over all shards, and a pool of recycled chunk arrays. Chunk
  arrays live in an explicit store, because \<^verbatim>\<open>Put\<close> writes into recycled arrays in place: that a
  reader sees the bytes of its own file rests on the pool never sharing an array with a cached
  chunk. Each operation runs under its shard's lock and is one step; the goroutines it starts are
  returned as requests and are steps of their own. The hash that picks a shard is a parameter;
  an operation reads the clock once.
\<close>

section \<open>State\<close>

record ra_config =
  ReadAheadBase :: int
  ReadAheadBudget :: int

record ra_buffer =
  rb_start :: int
  rb_end :: int
  rb_data :: nat
  rb_lastAccess :: int
  rb_sessionID :: int
  rb_responsiveOnly :: bool

record ra_shard =
  rs_buffers :: "string \<rightharpoonup> ra_buffer"
  rs_order :: "string list"
  rs_total :: int

record ra_cache =
  ra_shards :: "ra_shard list"
  ra_shardMask :: u64
  ra_used :: int
  ra_pool :: "nat list"
  ra_activePath :: path
  ra_currentSessionID :: int
  ra_isEvicting :: bool
  ra_heap :: "nat \<Rightarrow> byte list"
  ra_next :: nat

definition newReadAheadCache :: ra_cache where
  "newReadAheadCache =
     \<lparr>ra_shards = replicate 32 \<lparr>rs_buffers = Map.empty, rs_order = [], rs_total = 0\<rparr>,
      ra_shardMask = 31, ra_used = 0, ra_pool = [], ra_activePath = [], ra_currentSessionID = 0,
      ra_isEvicting = False, ra_heap = (\<lambda>_. []), ra_next = 0\<rparr>"

section \<open>Operations\<close>

definition chunk_size :: "ra_config \<Rightarrow> int" where
  "chunk_size cfg = (if ReadAheadBase cfg > 0 then ReadAheadBase cfg else 16 * 1024 * 1024)"

definition raChunkKey :: "ra_config \<Rightarrow> path \<Rightarrow> int \<Rightarrow> string" where
  "raChunkKey cfg p off = colon_key p (off sdiv chunk_size cfg)"

definition ra_getShard :: "hasher \<Rightarrow> ra_cache \<Rightarrow> path \<Rightarrow> nat" where
  "ra_getShard xx c p = shard_idx xx (ra_shardMask c) p"

text \<open>\<^verbatim>\<open>len(b.data)\<close>: the array of a buffer read from the store.\<close>

definition data_len :: "ra_cache \<Rightarrow> ra_buffer \<Rightarrow> int" where
  "data_len c b = int (length (ra_heap c (rb_data b)))"

text \<open>\<^verbatim>\<open>recycle\<close>: an array of exactly one chunk goes back to the pool channel while it has room
  for it (32 arrays).\<close>

definition recycle :: "ra_config \<Rightarrow> nat \<Rightarrow> ra_cache \<Rightarrow> ra_cache" where
  "recycle cfg a c =
     (if int (length (ra_heap c a)) = chunk_size cfg \<and> length (ra_pool c) < 32
      then c\<lparr>ra_pool := ra_pool c @ [a]\<rparr> else c)"

definition alloc :: "nat \<Rightarrow> ra_cache \<Rightarrow> nat \<times> ra_cache" where
  "alloc n c = (ra_next c, c\<lparr>ra_heap := (ra_heap c)(ra_next c := replicate n 0), ra_next := Suc (ra_next c)\<rparr>)"

text \<open>The \<^verbatim>\<open>select\<close> at the head of \<^verbatim>\<open>Put\<close>: receive an array from the pool and use it when its
  length fits, allocate otherwise.\<close>

definition take_array :: "nat \<Rightarrow> ra_cache \<Rightarrow> nat \<times> ra_cache" where
  "take_array n c =
     (case ra_pool c of
        [] \<Rightarrow> alloc n c
      | a # as \<Rightarrow> (if length (ra_heap c a) = n then (a, c\<lparr>ra_pool := as\<rparr>)
                  else alloc n (c\<lparr>ra_pool := as\<rparr>)))"

text \<open>The eviction loop of \<^verbatim>\<open>Put\<close>: while over budget, drop the oldest key, but keep the last one.\<close>

fun evict_over_budget ::
    "ra_config \<Rightarrow> int \<Rightarrow> string list \<Rightarrow> ra_cache \<Rightarrow> ra_shard \<Rightarrow> ra_cache \<times> ra_shard" where
  "evict_over_budget cfg limit [] c s = (c, s\<lparr>rs_order := []\<rparr>)"
| "evict_over_budget cfg limit (v # rest) c s =
     (if ra_used c > limit \<and> rest \<noteq> [] then
        (case rs_buffers s v of
           None \<Rightarrow> evict_over_budget cfg limit rest c s
         | Some old \<Rightarrow>
             evict_over_budget cfg limit rest
               (recycle cfg (rb_data old) (c\<lparr>ra_used := ra_used c - data_len c old\<rparr>))
               (s\<lparr>rs_total := rs_total s - data_len c old, rs_buffers := (rs_buffers s)(v := None)\<rparr>))
      else (c, s\<lparr>rs_order := v # rest\<rparr>))"

definition global_limit :: "ra_config \<Rightarrow> int" where
  "global_limit cfg = (if ReadAheadBudget cfg \<le> 0 then 256 * 1024 * 1024 else ReadAheadBudget cfg)"

text \<open>Step 1 of \<^verbatim>\<open>Put\<close>: an overwritten chunk is taken off the accounts, recycled, and its key
  removed from the order.\<close>

definition drop_overwritten :: "ra_config \<Rightarrow> string \<Rightarrow> ra_cache \<Rightarrow> ra_shard \<Rightarrow> ra_cache \<times> ra_shard" where
  "drop_overwritten cfg key c s =
     (case rs_buffers s key of
        None \<Rightarrow> (c, s)
      | Some old \<Rightarrow>
          (recycle cfg (rb_data old) (c\<lparr>ra_used := ra_used c - data_len c old\<rparr>),
           s\<lparr>rs_total := rs_total s - data_len c old, rs_order := remove1 key (rs_order s)\<rparr>))"

definition compact_order :: "ra_shard \<Rightarrow> ra_shard" where
  "compact_order s =
     (if length (rs_order s) > 100 \<and> int (length (rs_order s)) > mlen (rs_buffers s) * 2
      then s\<lparr>rs_order := filter (\<lambda>v. rs_buffers s v \<noteq> None) (rs_order s)\<rparr> else s)"

text \<open>\<^verbatim>\<open>Put\<close>, with the result of \<^verbatim>\<open>torrstor.IsResponsive()\<close> as an argument. The second component
  is the request for a global eviction that \<^verbatim>\<open>Put\<close> starts as a goroutine.\<close>

definition ra_Put ::
    "ra_config \<Rightarrow> hasher \<Rightarrow> int \<Rightarrow> bool \<Rightarrow> path \<Rightarrow> int \<Rightarrow> int \<Rightarrow> byte list \<Rightarrow> ra_cache
     \<Rightarrow> ra_cache \<times> (path \<times> int) option" where
  "ra_Put cfg xx now responsive p start end' d c =
     (let sessID = (if p \<noteq> ra_activePath c then 0 else ra_currentSessionID c);
          i = ra_getShard xx c p;
          key = raChunkKey cfg p start;
          (a, c1) = take_array (length d) c;
          c2 = c1\<lparr>ra_heap := (ra_heap c1)(a := go_copy (ra_heap c1 a) d)\<rparr>;
          limit = global_limit cfg;
          (c3, s3) = drop_overwritten cfg key c2 (ra_shards c2 ! i);
          c4 = c3\<lparr>ra_used := ra_used c3 + int (length d)\<rparr>;
          s4 = s3\<lparr>rs_order := rs_order s3 @ [key], rs_total := rs_total s3 + int (length d),
                  rs_buffers := (rs_buffers s3)(key \<mapsto>
                    \<lparr>rb_start = start, rb_end = end', rb_data = a, rb_lastAccess = now,
                     rb_sessionID = sessID, rb_responsiveOnly = responsive\<rparr>)\<rparr>;
          (c5, s5) = evict_over_budget cfg limit (rs_order s4) c4 s4;
          spawn = (if ra_used c5 > limit \<and> length (rs_order s5) \<le> 1
                   then Some (ra_activePath c5, ra_currentSessionID c5) else None)
      in (c5\<lparr>ra_shards := (ra_shards c5)[i := compact_order s5]\<rparr>, spawn))"

definition MaxCachedOffset :: "hasher \<Rightarrow> path \<Rightarrow> ra_cache \<Rightarrow> int" where
  "MaxCachedOffset xx p c =
     (let m = rs_buffers (ra_shards c ! ra_getShard xx c p)
      in Max (insert 0 ((\<lambda>k. rb_end (the (m k))) ` {k \<in> dom m. prefix (p @ '':'') k})))"

definition ra_Exists :: "ra_config \<Rightarrow> hasher \<Rightarrow> path \<Rightarrow> int \<Rightarrow> ra_cache \<Rightarrow> bool" where
  "ra_Exists cfg xx p off c = (rs_buffers (ra_shards c ! ra_getShard xx c p) (raChunkKey cfg p off) \<noteq> None)"

text \<open>The \<^verbatim>\<open>atomic.StoreInt64(&b.lastAccess, ...)\<close> of a hit.\<close>

definition touch :: "hasher \<Rightarrow> int \<Rightarrow> path \<Rightarrow> string \<Rightarrow> ra_cache \<Rightarrow> ra_cache" where
  "touch xx now p key c =
     (let i = ra_getShard xx c p; s = ra_shards c ! i
      in case rs_buffers s key of
           None \<Rightarrow> c
         | Some b \<Rightarrow> c\<lparr>ra_shards := (ra_shards c)[i := s\<lparr>rs_buffers := (rs_buffers s)(key \<mapsto> b\<lparr>rb_lastAccess := now\<rparr>)\<rparr>]\<rparr>)"

text \<open>What \<^verbatim>\<open>Get\<close> and \<^verbatim>\<open>CopyTo\<close> find for the byte range \<open>off..end\<close> (both ends included): nothing,
  one chunk that holds the range, or two adjacent chunks.\<close>

datatype ra_hit = Miss | Partial ra_buffer | Whole ra_buffer | Stitched ra_buffer ra_buffer

definition ra_find :: "ra_config \<Rightarrow> hasher \<Rightarrow> path \<Rightarrow> int \<Rightarrow> int \<Rightarrow> ra_cache \<Rightarrow> ra_hit" where
  "ra_find cfg xx p off end' c =
     (let m = rs_buffers (ra_shards c ! ra_getShard xx c p)
      in case m (raChunkKey cfg p off) of
           None \<Rightarrow> Miss
         | Some b \<Rightarrow>
             if \<not> (rb_start b \<le> off \<and> off \<le> rb_end b) then Miss
             else if end' \<le> rb_end b then Whole b
             else (case m (raChunkKey cfg p end') of
                     None \<Rightarrow> Partial b
                   | Some b2 \<Rightarrow> if rb_start b2 = rb_end b + 1 \<and> end' \<le> rb_end b2 then Stitched b b2 else Partial b))"

definition ra_touch_hit :: "ra_config \<Rightarrow> hasher \<Rightarrow> int \<Rightarrow> path \<Rightarrow> int \<Rightarrow> int \<Rightarrow> ra_cache \<Rightarrow> ra_cache" where
  "ra_touch_hit cfg xx now p off end' c =
     (case ra_find cfg xx p off end' c of
        Miss \<Rightarrow> c
      | Partial b \<Rightarrow> touch xx now p (raChunkKey cfg p off) c
      | Whole b \<Rightarrow> touch xx now p (raChunkKey cfg p off) c
      | Stitched b b2 \<Rightarrow> touch xx now p (raChunkKey cfg p end') (touch xx now p (raChunkKey cfg p off) c))"

text \<open>\<^verbatim>\<open>Get\<close>: \<open>None\<close> is a slice panic, \<open>Some None\<close> the nil result.\<close>

definition ra_Get ::
    "ra_config \<Rightarrow> hasher \<Rightarrow> int \<Rightarrow> path \<Rightarrow> int \<Rightarrow> int \<Rightarrow> ra_cache \<Rightarrow> ra_cache \<times> byte list option option" where
  "ra_Get cfg xx now p off end' c =
     (ra_touch_hit cfg xx now p off end' c,
      case ra_find cfg xx p off end' c of
        Miss \<Rightarrow> Some None
      | Partial b \<Rightarrow> Some None
      | Whole b \<Rightarrow>
          (case slice (ra_heap c (rb_data b)) (off - rb_start b) (end' - rb_start b + 1) of
             None \<Rightarrow> None
           | Some src \<Rightarrow> Some (Some (go_copy (replicate (length src) 0) src)))
      | Stitched b b2 \<Rightarrow>
          (case (slice (ra_heap c (rb_data b)) (off - rb_start b) (data_len c b),
                 slice (ra_heap c (rb_data b2)) 0 (end' - rb_start b2 + 1)) of
             (Some src1, Some src2) \<Rightarrow>
               (let out = replicate (nat (end' - off + 1)) 0;
                    n1 = go_copied out src1;
                    out1 = go_copy out src1
                in Some (Some (take n1 out1 @ go_copy (drop n1 out1) src2)))
           | _ \<Rightarrow> None))"

text \<open>\<^verbatim>\<open>CopyTo\<close>: the new contents of \<open>dest\<close> and the number of bytes copied.\<close>

definition ra_CopyTo ::
    "ra_config \<Rightarrow> hasher \<Rightarrow> int \<Rightarrow> path \<Rightarrow> int \<Rightarrow> int \<Rightarrow> byte list \<Rightarrow> ra_cache
     \<Rightarrow> ra_cache \<times> (byte list \<times> nat) option" where
  "ra_CopyTo cfg xx now p off end' dest c =
     (ra_touch_hit cfg xx now p off end' c,
      case ra_find cfg xx p off end' c of
        Miss \<Rightarrow> Some (dest, 0)
      | Partial b \<Rightarrow> Some (dest, 0)
      | Whole b \<Rightarrow>
          (case slice (ra_heap c (rb_data b)) (off - rb_start b) (end' - rb_start b + 1) of
             None \<Rightarrow> None
           | Some src \<Rightarrow> Some (go_copy dest src, go_copied dest src))
      | Stitched b b2 \<Rightarrow>
          (case (slice (ra_heap c (rb_data b)) (off - rb_start b) (data_len c b),
                 slice (ra_heap c (rb_data b2)) 0 (end' - rb_start b2 + 1)) of
             (Some src1, Some src2) \<Rightarrow>
               (let n1 = go_copied dest src1;
                    dest1 = go_copy dest src1;
                    n2 = go_copied (drop n1 dest1) src2
                in Some (take n1 dest1 @ go_copy (drop n1 dest1) src2, n1 + n2))
           | _ \<Rightarrow> None))"

definition SwitchContext :: "path \<Rightarrow> ra_cache \<Rightarrow> ra_cache \<times> (path \<times> int) option" where
  "SwitchContext newPath c =
     (if newPath \<noteq> ra_activePath c
      then (c\<lparr>ra_activePath := newPath, ra_currentSessionID := ra_currentSessionID c + 1\<rparr>,
            Some (newPath, ra_currentSessionID c + 1))
      else (c, None))"

definition ra_Stats :: "int \<Rightarrow> ra_cache \<Rightarrow> int \<times> int \<times> int" where
  "ra_Stats now c =
     (ra_used c,
      sum_list (map (\<lambda>s. msum (\<lambda>b. if now - rb_lastAccess b < 120 * 10 ^ 9 then data_len c b else 0)
                              (rs_buffers s)) (ra_shards c)),
      sum_list (map (\<lambda>s. mlen (rs_buffers s)) (ra_shards c)))"

text \<open>One shard of \<^verbatim>\<open>EvictPath\<close>, with the bytes it freed.\<close>

definition evict_path_shard :: "ra_cache \<Rightarrow> string \<Rightarrow> ra_shard \<Rightarrow> ra_shard \<times> int" where
  "evict_path_shard c pre s =
     (let doomed = mfilter (\<lambda>k b. prefix pre k) (rs_buffers s);
          freed = msum (data_len c) doomed;
          s' = s\<lparr>rs_buffers := mfilter (\<lambda>k b. \<not> prefix pre k) (rs_buffers s)\<rparr>
      in (if doomed \<noteq> Map.empty
          then s'\<lparr>rs_order := filter (\<lambda>k. doomed k = None) (rs_order s), rs_total := rs_total s - freed\<rparr>
          else s', freed))"

definition EvictPath :: "path \<Rightarrow> ra_cache \<Rightarrow> ra_cache" where
  "EvictPath p c =
     (let rs = map (evict_path_shard c (p @ '':'')) (ra_shards c)
      in c\<lparr>ra_shards := map fst rs, ra_used := ra_used c - sum_list (map snd rs)\<rparr>)"

text \<open>The test of \<^verbatim>\<open>triggerGlobalEviction\<close>: a chunk stays when it belongs to the active session or
  the active path and has been read recently.\<close>

definition ra_keep :: "int \<Rightarrow> path \<Rightarrow> int \<Rightarrow> string \<Rightarrow> ra_buffer \<Rightarrow> bool" where
  "ra_keep now ap sid key buf =
     (if rb_sessionID buf \<noteq> sid \<and> \<not> prefix (ap @ '':'') key then False
      else \<not> now - rb_lastAccess buf > (if prefix (ap @ '':'') key then 60 * 10 ^ 9 else 120 * 10 ^ 9))"

fun evictShard ::
    "ra_config \<Rightarrow> int \<Rightarrow> path \<Rightarrow> int \<Rightarrow> string list \<Rightarrow> string list \<Rightarrow> ra_cache \<Rightarrow> ra_shard \<Rightarrow> ra_cache \<times> ra_shard" where
  "evictShard cfg now ap sid newOrder [] c s = (c, s\<lparr>rs_order := newOrder\<rparr>)"
| "evictShard cfg now ap sid newOrder (key # keys) c s =
     (case rs_buffers s key of
        None \<Rightarrow> evictShard cfg now ap sid (newOrder @ [key]) keys c s
      | Some buf \<Rightarrow>
          if ra_keep now ap sid key buf
          then evictShard cfg now ap sid (newOrder @ [key]) keys c s
          else evictShard cfg now ap sid newOrder keys
                 (recycle cfg (rb_data buf) (c\<lparr>ra_used := ra_used c - data_len c buf\<rparr>))
                 (s\<lparr>rs_total := rs_total s - data_len c buf, rs_buffers := (rs_buffers s)(key := None)\<rparr>))"

definition evict_one :: "ra_config \<Rightarrow> int \<Rightarrow> path \<Rightarrow> int \<Rightarrow> nat \<Rightarrow> ra_cache \<Rightarrow> ra_cache" where
  "evict_one cfg now ap sid i c =
     (let (c', s') = evictShard cfg now ap sid [] (rs_order (ra_shards c ! i)) c (ra_shards c ! i)
      in c'\<lparr>ra_shards := (ra_shards c')[i := s']\<rparr>)"

text \<open>The loop over the shards; \<open>busy i\<close> says that \<^verbatim>\<open>TryLock\<close> fails on shard \<open>i\<close>.\<close>

fun evict_shards ::
    "ra_config \<Rightarrow> int \<Rightarrow> path \<Rightarrow> int \<Rightarrow> (nat \<Rightarrow> bool) \<Rightarrow> nat list \<Rightarrow> ra_cache \<Rightarrow> ra_cache" where
  "evict_shards cfg now ap sid busy [] c = c"
| "evict_shards cfg now ap sid busy (i # is) c =
     (if busy i then evict_shards cfg now ap sid busy is c
      else evict_shards cfg now ap sid busy is (evict_one cfg now ap sid i c))"

definition triggerGlobalEviction ::
    "ra_config \<Rightarrow> int \<Rightarrow> path \<Rightarrow> int \<Rightarrow> (nat \<Rightarrow> bool) \<Rightarrow> ra_cache \<Rightarrow> ra_cache" where
  "triggerGlobalEviction cfg now ap sid busy c =
     (if ra_isEvicting c then c
      else (let is = [0..<length (ra_shards c)];
                c1 = evict_shards cfg now ap sid busy is (c\<lparr>ra_isEvicting := True\<rparr>);
                c2 = (if list_all busy is then evict_one cfg now ap sid 0 c1 else c1)
            in c2\<lparr>ra_isEvicting := False\<rparr>))"

text \<open>Interleaved executions: writers store chunks of the files' own bytes (\<open>F p i\<close> is byte \<open>i\<close> of
  file \<open>p\<close>), readers look up any range, paths are switched and evicted, and eviction passes run with
  any arguments and any set of busy shards. A pass takes one shard lock at a time, so the setting of
  its flag and the eviction of a single shard are steps too, and other operations may come between
  them.\<close>

inductive ra_step :: "ra_config \<Rightarrow> hasher \<Rightarrow> (path \<Rightarrow> int \<Rightarrow> byte) \<Rightarrow> ra_cache \<Rightarrow> ra_cache \<Rightarrow> bool"
  for cfg xx F where
  ra_put: "0 \<le> st \<Longrightarrow> d = map (F p) [st .. st + int (length d) - 1] \<Longrightarrow>
     ra_step cfg xx F c (fst (ra_Put cfg xx now responsive p st (st + int (length d) - 1) d c))"
| ra_get: "ra_step cfg xx F c (fst (ra_Get cfg xx now p off e c))"
| ra_copy: "ra_step cfg xx F c (fst (ra_CopyTo cfg xx now p off e dest c))"
| ra_switch: "ra_step cfg xx F c (fst (SwitchContext p c))"
| ra_evict_path: "ra_step cfg xx F c (EvictPath p c)"
| ra_evict_global: "ra_step cfg xx F c (triggerGlobalEviction cfg now ap sid busy c)"
| ra_evict_flag: "ra_step cfg xx F c (c\<lparr>ra_isEvicting := f\<rparr>)"
| ra_evict_one: "i < length (ra_shards c) \<Longrightarrow> ra_step cfg xx F c (evict_one cfg now ap sid i c)"

abbreviation ra_reachable :: "ra_config \<Rightarrow> hasher \<Rightarrow> (path \<Rightarrow> int \<Rightarrow> byte) \<Rightarrow> ra_cache \<Rightarrow> bool" where
  "ra_reachable cfg xx F \<equiv> reachable (\<lambda>c. c = newReadAheadCache) (ra_step cfg xx F)"

section \<open>The invariant\<close>

text \<open>A shard is consistent when its order lists exactly its keys and its total is the sum of the
  stored lengths.\<close>

definition shard_ok :: "(nat \<Rightarrow> byte list) \<Rightarrow> ra_shard \<Rightarrow> bool" where
  "shard_ok h s \<longleftrightarrow>
     finite (dom (rs_buffers s)) \<and> distinct (rs_order s) \<and> set (rs_order s) = dom (rs_buffers s) \<and>
     rs_total s = msum (\<lambda>b. int (length (h (rb_data b)))) (rs_buffers s)"

text \<open>The arrays a shard's chunks and the pool own; no array has two owners.\<close>

definition addrs :: "ra_shard \<Rightarrow> nat multiset" where
  "addrs s = image_mset (\<lambda>k. rb_data (the (rs_buffers s k))) (mset (rs_order s))"

definition owned :: "ra_cache \<Rightarrow> nat multiset" where
  "owned c = mset (ra_pool c) + sum_list (map addrs (ra_shards c))"

definition uniq :: "'a multiset \<Rightarrow> bool" where
  "uniq M \<longleftrightarrow> (\<forall>a. count M a \<le> 1)"

definition ra_inv :: "ra_cache \<Rightarrow> bool" where
  "ra_inv c \<longleftrightarrow>
     length (ra_shards c) = 32 \<and> ra_shardMask c = 31 \<and>
     (\<forall>s \<in> set (ra_shards c). shard_ok (ra_heap c) s) \<and>
     ra_used c = sum_list (map rs_total (ra_shards c)) \<and>
     uniq (owned c) \<and> (\<forall>a. a \<in># owned c \<longrightarrow> a < ra_next c)"

text \<open>Coherence with the files: every chunk is filed under its own key and holds the bytes of its
  file.\<close>

definition shard_coh :: "ra_config \<Rightarrow> (path \<Rightarrow> int \<Rightarrow> byte) \<Rightarrow> (nat \<Rightarrow> byte list) \<Rightarrow> ra_shard \<Rightarrow> bool" where
  "shard_coh cfg F h s \<longleftrightarrow>
     (\<forall>k b. rs_buffers s k = Some b \<longrightarrow>
        (\<exists>p. k = raChunkKey cfg p (rb_start b) \<and> 0 \<le> rb_start b \<and>
             h (rb_data b) = map (F p) [rb_start b .. rb_end b]))"

definition ra_coh :: "ra_config \<Rightarrow> (path \<Rightarrow> int \<Rightarrow> byte) \<Rightarrow> ra_cache \<Rightarrow> bool" where
  "ra_coh cfg F c \<longleftrightarrow> (\<forall>s \<in> set (ra_shards c). shard_coh cfg F (ra_heap c) s)"

subsection \<open>Ownership\<close>

lemma uniq_subset: "uniq M \<Longrightarrow> N \<subseteq># M \<Longrightarrow> uniq N"
  unfolding uniq_def by (meson le_trans subseteq_mset_def)

lemma uniq_add_notin: "uniq (add_mset a M) \<Longrightarrow> a \<notin># M"
  unfolding uniq_def by (metis count_add_mset not_in_iff le_zero_eq nat_le_linear not_less_eq_eq One_nat_def)

lemma sum_addrs_update:
  "i < length ss \<Longrightarrow> sum_list (map addrs (ss[i := s])) + addrs (ss ! i) = sum_list (map addrs ss) + addrs s"
proof (induction ss arbitrary: i)
  case (Cons x ss)
  then show ?case by (cases i) (auto simp: add_ac)
qed simp

lemma addrs_in_sum: "s \<in> set ss \<Longrightarrow> addrs s \<subseteq># sum_list (map addrs ss)"
  by (induction ss) (auto intro: subset_mset.order_trans)

lemma addr_in_addrs: "shard_ok h s \<Longrightarrow> rs_buffers s k = Some b \<Longrightarrow> rb_data b \<in># addrs s"
  by (force simp: addrs_def shard_ok_def)

lemma live_addr_owned:
  assumes "s \<in> set (ra_shards c)" "shard_ok h s" "rs_buffers s k = Some b"
  shows "rb_data b \<in># sum_list (map addrs (ra_shards c))"
  using addr_in_addrs [OF assms(2,3)] addrs_in_sum [OF assms(1)] by (meson mset_subset_eqD)

subsection \<open>Removing one chunk\<close>

text \<open>All eviction goes through the same step: take a key off the order, its chunk out of the map and
  off both accounts, and hand its array to the pool. \<open>shrinks\<close> is what this step, and so any
  sequence of it, keeps.\<close>

definition shrinks :: "ra_cache \<Rightarrow> ra_shard \<Rightarrow> ra_cache \<Rightarrow> ra_shard \<Rightarrow> bool" where
  "shrinks c s c' s' \<longleftrightarrow>
     c' = c\<lparr>ra_pool := ra_pool c', ra_used := ra_used c'\<rparr> \<and>
     ra_used c' - rs_total s' = ra_used c - rs_total s \<and>
     mset (ra_pool c') + addrs s' \<subseteq># mset (ra_pool c) + addrs s \<and>
     shard_ok (ra_heap c) s' \<and> rs_buffers s' \<subseteq>\<^sub>m rs_buffers s"

lemma shrinks_heap: "shrinks c s c' s' \<Longrightarrow> ra_heap c' = ra_heap c"
  unfolding shrinks_def by (elim conjE) (drule arg_cong [of _ _ ra_heap], simp)

lemma shrinks_refl: "shard_ok (ra_heap c) s \<Longrightarrow> shrinks c s c s"
  by (simp add: shrinks_def)

lemma shrinks_trans:
  assumes "shrinks c s c' s'" and "shrinks c' s' c'' s''"
  shows "shrinks c s c'' s''"
proof -
  from assms(1) have "ra_heap c' = ra_heap c" by (rule shrinks_heap)
  moreover from assms have "c'' = c\<lparr>ra_pool := ra_pool c'', ra_used := ra_used c''\<rparr>"
    unfolding shrinks_def by (cases c; cases c'; cases c'') simp
  ultimately show ?thesis
    using assms unfolding shrinks_def by (auto intro: subset_mset.order_trans map_le_trans)
qed

lemma recycle_eq: "\<exists>pool. recycle cfg a c = c\<lparr>ra_pool := pool\<rparr> \<and> mset pool \<subseteq># add_mset a (mset (ra_pool c))"
  unfolding recycle_def
  by (cases "int (length (ra_heap c a)) = chunk_size cfg \<and> length (ra_pool c) < 32")
     (auto intro: exI [of _ "ra_pool c @ [a]"] exI [of _ "ra_pool c"])

lemma shard_ok_remove:
  assumes ok: "shard_ok h s" and v: "rs_buffers s v = Some b"
  shows "shard_ok h (s\<lparr>rs_total := rs_total s - int (length (h (rb_data b))),
                      rs_buffers := (rs_buffers s)(v := None), rs_order := remove1 v (rs_order s)\<rparr>)"
  using assms by (auto simp: shard_ok_def map_kit set_remove1_eq)

lemma addrs_remove:
  assumes ok: "shard_ok h s" and v: "rs_buffers s v = Some b"
  shows "addrs s = add_mset (rb_data b) (addrs (s\<lparr>rs_total := t, rs_buffers := (rs_buffers s)(v := None),
                                                 rs_order := remove1 v (rs_order s)\<rparr>))"
proof -
  have v': "v \<in># mset (rs_order s)" using assms by (auto simp: shard_ok_def)
  have "addrs s = image_mset (\<lambda>k. rb_data (the (rs_buffers s k))) (add_mset v (mset (rs_order s) - {#v#}))"
    using v' by (simp add: addrs_def)
  also have "\<dots> = add_mset (rb_data b) (image_mset (\<lambda>k. rb_data (the (rs_buffers s k))) (mset (remove1 v (rs_order s))))"
    using v by simp
  also have "image_mset (\<lambda>k. rb_data (the (rs_buffers s k))) (mset (remove1 v (rs_order s))) =
     image_mset (\<lambda>k. rb_data (the (((rs_buffers s)(v := None)) k))) (mset (remove1 v (rs_order s)))"
  proof (intro image_mset_cong)
    fix k assume "k \<in># mset (remove1 v (rs_order s))"
    with ok have "k \<noteq> v" by (auto simp: shard_ok_def simp del: mset_remove1)
    then show "rb_data (the (rs_buffers s k)) = rb_data (the (((rs_buffers s)(v := None)) k))" by simp
  qed
  finally show ?thesis by (simp add: addrs_def)
qed

lemma remove_one_shrinks:
  assumes ok: "shard_ok (ra_heap c) s" and v: "rs_buffers s v = Some b"
  shows "shrinks c s (recycle cfg (rb_data b) (c\<lparr>ra_used := ra_used c - data_len c b\<rparr>))
           (s\<lparr>rs_total := rs_total s - data_len c b, rs_buffers := (rs_buffers s)(v := None),
              rs_order := remove1 v (rs_order s)\<rparr>)"
proof -
  obtain pool where r: "recycle cfg (rb_data b) (c\<lparr>ra_used := ra_used c - data_len c b\<rparr>)
        = c\<lparr>ra_used := ra_used c - data_len c b\<rparr>\<lparr>ra_pool := pool\<rparr>"
      and pool: "mset pool \<subseteq># add_mset (rb_data b) (mset (ra_pool c))"
    using recycle_eq [of cfg "rb_data b" "c\<lparr>ra_used := ra_used c - data_len c b\<rparr>"] by auto
  let ?s' = "s\<lparr>rs_total := rs_total s - data_len c b, rs_buffers := (rs_buffers s)(v := None),
              rs_order := remove1 v (rs_order s)\<rparr>"
  have "mset pool + addrs ?s' \<subseteq># mset (ra_pool c) + addrs s"
    using pool by (subst addrs_remove [OF ok v, of "rs_total s - data_len c b"]) simp
  then show ?thesis
    unfolding shrinks_def r using shard_ok_remove [OF ok v]
    by (auto simp: data_len_def map_le_def)
qed

lemma shrinks_ok: "shrinks c s c' s' \<Longrightarrow> shard_ok (ra_heap c') s'"
  unfolding shrinks_heap by (unfold shrinks_def) (elim conjE)

lemma shrinks_le: "shrinks c s c' s' \<Longrightarrow> rs_buffers s' \<subseteq>\<^sub>m rs_buffers s"
  by (unfold shrinks_def) (elim conjE)

lemma evict_over_budget_shrinks:
  assumes "shard_ok (ra_heap c) (s\<lparr>rs_order := ord\<rparr>)" "evict_over_budget cfg limit ord c s = (c', s')"
  shows "shrinks c (s\<lparr>rs_order := ord\<rparr>) c' s' \<and> (ord \<noteq> [] \<longrightarrow> last ord \<in> set (rs_order s')) \<and>
         (ra_used c' \<le> limit \<or> length (rs_order s') \<le> 1)"
  using assms
proof (induction cfg limit ord c s rule: evict_over_budget.induct)
  case (1 cfg limit c s)
  then show ?case by (auto intro: shrinks_refl)
next
  case (2 cfg limit v rest c s)
  show ?case
  proof (cases "ra_used c > limit \<and> rest \<noteq> []")
    case False
    with 2(3,4) show ?thesis by (auto intro: shrinks_refl)
  next
    case True
    from 2(3) have "v \<in> dom (rs_buffers s)" by (auto simp: shard_ok_def)
    then obtain old where old: "rs_buffers s v = Some old" by auto
    let ?c1 = "recycle cfg (rb_data old) (c\<lparr>ra_used := ra_used c - data_len c old\<rparr>)"
    let ?s1 = "s\<lparr>rs_total := rs_total s - data_len c old, rs_buffers := (rs_buffers s)(v := None)\<rparr>"
    have 1: "shrinks c (s\<lparr>rs_order := v # rest\<rparr>) ?c1 (?s1\<lparr>rs_order := rest\<rparr>)"
      using remove_one_shrinks [OF 2(3), of v old cfg] old by simp
    have "shrinks ?c1 (?s1\<lparr>rs_order := rest\<rparr>) c' s' \<and> (rest \<noteq> [] \<longrightarrow> last rest \<in> set (rs_order s')) \<and>
         (ra_used c' \<le> limit \<or> length (rs_order s') \<le> 1)"
      using 2(2) [OF True old shrinks_ok [OF 1]] 2(4) True old by simp
    with True show ?thesis using shrinks_trans [OF 1] by simp
  qed
qed

lemma evictShard_shrinks:
  assumes "shard_ok (ra_heap c) (s\<lparr>rs_order := kept @ ord\<rparr>)" "evictShard cfg now ap sid kept ord c s = (c', s')"
    and "\<forall>k\<in>set kept. \<forall>b. rs_buffers s k = Some b \<longrightarrow> ra_keep now ap sid k b"
  shows "shrinks c (s\<lparr>rs_order := kept @ ord\<rparr>) c' s' \<and>
         rs_buffers s' = mfilter (ra_keep now ap sid) (rs_buffers s)"
  using assms
proof (induction cfg now ap sid kept ord c s rule: evictShard.induct)
  case (1 cfg now ap sid kept c s)
  from 1(1) have "set kept = dom (rs_buffers s)" by (simp add: shard_ok_def)
  with 1(3) have "mfilter (ra_keep now ap sid) (rs_buffers s) = rs_buffers s"
    by (fastforce simp: mfilter_def fun_eq_iff split: option.splits)
  with 1(1,2) show ?case by (auto intro: shrinks_refl)
next
  case (2 cfg now ap sid kept v rest c s)
  from 2(4) have "v \<in> dom (rs_buffers s)" and d: "v \<notin> set kept" "v \<notin> set rest" by (auto simp: shard_ok_def)
  then obtain old where old: "rs_buffers s v = Some old" by auto
  show ?case
  proof (cases "ra_keep now ap sid v old")
    case True
    then have "\<forall>k\<in>set (kept @ [v]). \<forall>b. rs_buffers s k = Some b \<longrightarrow> ra_keep now ap sid k b"
      using 2(6) old by simp
    then show ?thesis using 2(2) [OF old True] 2(4,5) old True by simp
  next
    case False
    let ?c1 = "recycle cfg (rb_data old) (c\<lparr>ra_used := ra_used c - data_len c old\<rparr>)"
    let ?s1 = "s\<lparr>rs_total := rs_total s - data_len c old, rs_buffers := (rs_buffers s)(v := None)\<rparr>"
    have 1: "shrinks c (s\<lparr>rs_order := kept @ v # rest\<rparr>) ?c1 (?s1\<lparr>rs_order := kept @ rest\<rparr>)"
      using remove_one_shrinks [OF 2(4), of v old cfg] old d by (simp add: remove1_append)
    have "evictShard cfg now ap sid kept rest ?c1 ?s1 = (c', s')"
      using 2(5) False old by simp
    moreover have "\<forall>k\<in>set kept. \<forall>b. rs_buffers ?s1 k = Some b \<longrightarrow> ra_keep now ap sid k b"
      using 2(6) d by simp
    ultimately have "shrinks ?c1 (?s1\<lparr>rs_order := kept @ rest\<rparr>) c' s' \<and>
         rs_buffers s' = mfilter (ra_keep now ap sid) (rs_buffers ?s1)"
      by (rule 2(3) [OF old False shrinks_ok [OF 1]])
    moreover have "mfilter (ra_keep now ap sid) (rs_buffers ?s1) = mfilter (ra_keep now ap sid) (rs_buffers s)"
      using old False by (auto simp: mfilter_def)
    ultimately show ?thesis using shrinks_trans [OF 1] by simp
  qed
qed

subsection \<open>Writing a shrunk shard back\<close>

lemma owned_upd:
  assumes "i < length (ra_shards c)" and "mset pool + addrs s' \<subseteq># mset (ra_pool c) + addrs (ra_shards c ! i)"
  shows "mset pool + sum_list (map addrs ((ra_shards c)[i := s'])) \<subseteq># owned c"
proof -
  let ?A = "sum_list (map addrs ((ra_shards c)[i := s']))" and ?B = "sum_list (map addrs (ra_shards c))"
  have "(mset pool + ?A) + addrs (ra_shards c ! i) = (mset pool + addrs s') + ?B"
    using sum_addrs_update [OF assms(1), of s'] by (simp add: add_ac)
  also have "\<dots> \<subseteq># (mset (ra_pool c) + addrs (ra_shards c ! i)) + ?B"
    using assms(2) by (rule subset_mset.add_right_mono)
  finally show ?thesis by (simp add: owned_def add_ac)
qed

lemma shrinks_inv:
  assumes inv: "ra_inv c" and i: "i < length (ra_shards c)" and sh: "shrinks c (ra_shards c ! i) c' s'"
  shows "ra_inv (c'\<lparr>ra_shards := (ra_shards c')[i := s']\<rparr>)"
proof -
  obtain pool used where c': "c' = c\<lparr>ra_pool := pool, ra_used := used\<rparr>"
    using sh by (auto simp only: shrinks_def)
  have own: "mset pool + sum_list (map addrs ((ra_shards c)[i := s'])) \<subseteq># owned c"
    using owned_upd [OF i, of pool s'] sh by (simp add: shrinks_def c')
  have "shard_ok (ra_heap c) s'" and "used - rs_total s' = ra_used c - rs_total (ra_shards c ! i)"
    using sh by (simp_all add: shrinks_def c')
  moreover have sub: "owned (c'\<lparr>ra_shards := (ra_shards c')[i := s']\<rparr>) \<subseteq># owned c"
    using own by (simp add: owned_def c')
  have "uniq (owned (c'\<lparr>ra_shards := (ra_shards c')[i := s']\<rparr>))"
    using uniq_subset [OF _ sub] inv by (simp add: ra_inv_def)
  moreover have "\<forall>a. a \<in># owned (c'\<lparr>ra_shards := (ra_shards c')[i := s']\<rparr>) \<longrightarrow> a < ra_next c"
    using mset_subset_eqD [OF sub] inv by (simp add: ra_inv_def)
  ultimately show ?thesis
    using inv i unfolding ra_inv_def
    by (auto simp: c' sum_list_update_int dest!: set_update_subset_insert [THEN subsetD])
qed

lemma shrinks_coh:
  assumes "ra_coh cfg F c" and i: "i < length (ra_shards c)" and sh: "shrinks c (ra_shards c ! i) c' s'"
  shows "ra_coh cfg F (c'\<lparr>ra_shards := (ra_shards c')[i := s']\<rparr>)"
proof -
  obtain pool used where c': "c' = c\<lparr>ra_pool := pool, ra_used := used\<rparr>"
    using sh by (auto simp only: shrinks_def)
  have "rs_buffers s' \<subseteq>\<^sub>m rs_buffers (ra_shards c ! i)" using sh by (rule shrinks_le)
  moreover have "shard_coh cfg F (ra_heap c) (ra_shards c ! i)" using assms(1) i by (simp add: ra_coh_def)
  ultimately have "shard_coh cfg F (ra_heap c) s'" by (force simp: shard_coh_def map_le_def dom_def)
  then show ?thesis
    using assms(1) by (auto simp: ra_coh_def c' dest!: set_update_subset_insert [THEN subsetD])
qed

subsection \<open>The eviction pass\<close>

lemma evict_one_shrinks:
  assumes "ra_inv c" and i: "i < length (ra_shards c)"
  obtains c' s' where "evict_one cfg now ap sid i c = c'\<lparr>ra_shards := (ra_shards c')[i := s']\<rparr>"
    and "shrinks c (ra_shards c ! i) c' s'" and "rs_buffers s' = mfilter (ra_keep now ap sid) (rs_buffers (ra_shards c ! i))"
proof -
  let ?s = "ra_shards c ! i"
  obtain c' s' where e: "evictShard cfg now ap sid [] (rs_order ?s) c ?s = (c', s')" by fastforce
  have ok: "shard_ok (ra_heap c) (?s\<lparr>rs_order := [] @ rs_order ?s\<rparr>)" using assms by (simp add: ra_inv_def)
  show thesis using that [of c' s'] evictShard_shrinks [OF ok e] e by (simp add: evict_one_def)
qed

lemma evict_one_inv:
  assumes "ra_inv c" "i < length (ra_shards c)" shows "ra_inv (evict_one cfg now ap sid i c)"
  by (rule evict_one_shrinks [OF assms, of cfg now ap sid]) (simp only: shrinks_inv [OF assms])

lemma evict_one_coh:
  assumes "ra_inv c" "ra_coh cfg F c" "i < length (ra_shards c)" shows "ra_coh cfg F (evict_one cfg now ap sid i c)"
  by (rule evict_one_shrinks [OF assms(1,3), of cfg now ap sid]) (simp only: shrinks_coh [OF assms(2,3)])

lemma evict_one_shards:
  assumes "ra_inv c" "i < length (ra_shards c)" "j < length (ra_shards c)"
  shows "j \<noteq> i \<Longrightarrow> ra_shards (evict_one cfg now ap sid i c) ! j = ra_shards c ! j"
    and "rs_buffers (ra_shards (evict_one cfg now ap sid i c) ! i) = mfilter (ra_keep now ap sid) (rs_buffers (ra_shards c ! i))"
proof -
  obtain c' s' where e: "evict_one cfg now ap sid i c = c'\<lparr>ra_shards := (ra_shards c')[i := s']\<rparr>"
    and sh: "shrinks c (ra_shards c ! i) c' s'" and k: "rs_buffers s' = mfilter (ra_keep now ap sid) (rs_buffers (ra_shards c ! i))"
    by (rule evict_one_shrinks [OF assms(1,2)])
  have c': "ra_shards c' = ra_shards c"
    using sh unfolding shrinks_def by (elim conjE) (drule arg_cong [of _ _ ra_shards], simp)
  show "j \<noteq> i \<Longrightarrow> ra_shards (evict_one cfg now ap sid i c) ! j = ra_shards c ! j" by (simp add: e c')
  show "rs_buffers (ra_shards (evict_one cfg now ap sid i c) ! i) = mfilter (ra_keep now ap sid) (rs_buffers (ra_shards c ! i))"
    using k assms(2) by (simp add: e c')
qed

lemma evict_one_length: "ra_inv c \<Longrightarrow> i < length (ra_shards c) \<Longrightarrow> length (ra_shards (evict_one cfg now ap sid i c)) = 32"
  using evict_one_inv by (auto simp: ra_inv_def)

lemma evict_shards_inv:
  "ra_inv c \<Longrightarrow> ra_coh cfg F c \<Longrightarrow> set is \<subseteq> {..<32} \<Longrightarrow>
   ra_inv (evict_shards cfg now ap sid busy is c) \<and> ra_coh cfg F (evict_shards cfg now ap sid busy is c)"
proof (induction "is" arbitrary: c)
  case (Cons i "is")
  then have "i < length (ra_shards c)" by (auto simp: ra_inv_def)
  with Cons show ?case by (simp add: evict_one_inv evict_one_coh)
qed simp

lemma inv_flag [simp]: "ra_inv (c\<lparr>ra_isEvicting := f\<rparr>) = ra_inv c" "ra_coh cfg F (c\<lparr>ra_isEvicting := f\<rparr>) = ra_coh cfg F c"
  by (simp_all add: ra_inv_def ra_coh_def owned_def)

lemma triggerGlobalEviction_inv:
  assumes "ra_inv c" "ra_coh cfg F c"
  shows "ra_inv (triggerGlobalEviction cfg now ap sid busy c) \<and> ra_coh cfg F (triggerGlobalEviction cfg now ap sid busy c)"
proof -
  let ?c1 = "evict_shards cfg now ap sid busy [0..<length (ra_shards c)] (c\<lparr>ra_isEvicting := True\<rparr>)"
  have 1: "ra_inv ?c1 \<and> ra_coh cfg F ?c1" 
    by (rule evict_shards_inv) (use assms in \<open>auto simp: ra_inv_def [of c]\<close>)
  moreover from this have "0 < length (ra_shards ?c1)" by (simp add: ra_inv_def)
  ultimately show ?thesis using assms by (simp add: triggerGlobalEviction_def Let_def evict_one_inv evict_one_coh)
qed

text \<open>A pass over a shard that was not busy removes exactly the chunks that fail the test.\<close>

lemma evict_shards_other:
  "ra_inv c \<Longrightarrow> j \<notin> set is \<Longrightarrow> set is \<subseteq> {..<32} \<Longrightarrow> j < 32 \<Longrightarrow>
   ra_shards (evict_shards cfg now ap sid busy is c) ! j = ra_shards c ! j"
proof (induction "is" arbitrary: c)
  case (Cons i "is")
  then have "i < length (ra_shards c)" "length (ra_shards c) = 32" by (auto simp: ra_inv_def)
  with Cons show ?case by (simp add: evict_one_inv evict_one_shards)
qed simp

lemma evict_shards_filter:
  "ra_inv c \<Longrightarrow> distinct is \<Longrightarrow> set is \<subseteq> {..<32} \<Longrightarrow> j \<in> set is \<Longrightarrow> \<not> busy j \<Longrightarrow>
   rs_buffers (ra_shards (evict_shards cfg now ap sid busy is c) ! j) =
     mfilter (ra_keep now ap sid) (rs_buffers (ra_shards c ! j))"
proof (induction "is" arbitrary: c)
  case (Cons i "is")
  then have i: "i < length (ra_shards c)" and l: "length (ra_shards c) = 32" by (auto simp: ra_inv_def)
  show ?case
  proof (cases "i = j")
    case True
    with Cons.prems i l show ?thesis by (simp add: evict_one_inv evict_shards_other evict_one_shards)
  next
    case False
    define c' where "c' = (if busy i then c else evict_one cfg now ap sid i c)"
    have "ra_inv c'" using Cons.prems(1) i by (simp add: c'_def evict_one_inv)
    moreover have "ra_shards c' ! j = ra_shards c ! j"
      using False Cons.prems i l by (auto simp: c'_def evict_one_shards)
    ultimately show ?thesis using Cons.IH [of c'] Cons.prems False by (cases "busy i") (simp_all add: c'_def)
  qed
qed simp

subsection \<open>Evicting a path\<close>

lemma evict_path_shard_ok:
  assumes ok: "shard_ok (ra_heap c) s" and e: "evict_path_shard c pre s = (s', freed)"
  shows "shard_ok (ra_heap c) s' \<and> freed = rs_total s - rs_total s' \<and> addrs s' \<subseteq># addrs s \<and>
         rs_buffers s' = mfilter (\<lambda>k b. \<not> prefix pre k) (rs_buffers s)"
proof -
  let ?m = "rs_buffers s" and ?d = "mfilter (\<lambda>k b. prefix pre k) (rs_buffers s)"
  let ?r = "mfilter (\<lambda>k b. \<not> prefix pre k) (rs_buffers s)"
  have fin: "finite (dom ?m)" and dist: "distinct (rs_order s)" and ord: "set (rs_order s) = dom ?m"
    and tot: "rs_total s = msum (data_len c) ?m"
    using ok by (auto simp: shard_ok_def data_len_def [abs_def])
  have split: "msum (data_len c) ?m = msum (data_len c) ?d + msum (data_len c) ?r"
    using fin by (rule msum_mfilter_split)
  have f: "filter (\<lambda>k. ?d k = None) (rs_order s) = filter (\<lambda>k. \<not> prefix pre k) (rs_order s)"
    using ord by (intro filter_cong) (auto simp: map_kit)
  have o': "rs_order s' = filter (\<lambda>k. \<not> prefix pre k) (rs_order s)"
  proof (cases "?d = Map.empty")
    case True
    then have "\<forall>k\<in>set (rs_order s). \<not> prefix pre k"
      using ord by (auto simp: fun_eq_iff map_kit)
    with True e show ?thesis by (auto simp: evict_path_shard_def Let_def)
  next
    case False
    with e f show ?thesis by (auto simp: evict_path_shard_def Let_def)
  qed
  have s': "rs_buffers s' = ?r" "freed = msum (data_len c) ?d" "rs_total s' = rs_total s - freed"
    using e by (auto simp: evict_path_shard_def Let_def split: if_splits)
  have "addrs s' = image_mset (\<lambda>k. rb_data (the (?m k))) (filter_mset (\<lambda>k. \<not> prefix pre k) (mset (rs_order s)))"
    unfolding addrs_def s' o' mset_filter using ord
    by (intro image_mset_cong) (auto simp: mfilter_def split: option.splits)
  then have "addrs s' \<subseteq># addrs s" by (simp add: addrs_def image_mset_subseteq_mono)
  moreover have "dom ?r = {k \<in> dom ?m. \<not> prefix pre k}" by (auto simp: dom_def map_kit)
  then have "set (rs_order s') = dom ?r" using ord by (simp add: o')
  ultimately show ?thesis
    using fin dist tot split s' o' by (auto simp: shard_ok_def data_len_def [abs_def])
qed

lemma sum_addrs_mono:
  "list_all2 (\<lambda>s' s. addrs s' \<subseteq># addrs s) ss' ss \<Longrightarrow> sum_list (map addrs ss') \<subseteq># sum_list (map addrs ss)"
  by (induction rule: list_all2_induct) (auto intro: subset_mset.add_mono)

lemma sum_diff_map:
  "(\<And>x. x \<in> set xs \<Longrightarrow> g x = f x - h x) \<Longrightarrow> sum_list (map f xs) - sum_list (map g xs) = (sum_list (map h xs) :: int)"
  by (induction xs) (auto simp: algebra_simps)

lemma EvictPath_inv:
  assumes inv: "ra_inv c" and coh: "ra_coh cfg F c"
  shows "ra_inv (EvictPath p c) \<and> ra_coh cfg F (EvictPath p c)"
proof -
  let ?f = "evict_path_shard c (p @ '':'')" and ?c = "EvictPath p c"
  have ok: "shard_ok (ra_heap c) (fst (?f s)) \<and> snd (?f s) = rs_total s - rs_total (fst (?f s)) \<and>
      addrs (fst (?f s)) \<subseteq># addrs s \<and> rs_buffers (fst (?f s)) = mfilter (\<lambda>k b. \<not> prefix (p @ '':'') k) (rs_buffers s)"
    if "s \<in> set (ra_shards c)" for s
    using evict_path_shard_ok [of c s "p @ '':''" "fst (?f s)" "snd (?f s)"] inv that by (simp add: ra_inv_def)
  have sh: "ra_shards ?c = map (fst \<circ> ?f) (ra_shards c)" by (simp add: EvictPath_def Let_def)
  have used: "ra_used ?c = sum_list (map rs_total (ra_shards ?c))"
    using sum_diff_map [of "ra_shards c" "snd \<circ> ?f" rs_total "\<lambda>s. rs_total (fst (?f s))"] ok inv
    by (simp add: EvictPath_def Let_def ra_inv_def comp_def)
  have "list_all2 (\<lambda>s' s. addrs s' \<subseteq># addrs s) (ra_shards ?c) (ra_shards c)"
    using ok by (auto simp: sh list_all2_conv_all_nth)
  from sum_addrs_mono [OF this] have sub: "owned ?c \<subseteq># owned c" by (simp add: owned_def EvictPath_def Let_def)
  have rest: "ra_heap ?c = ra_heap c" "ra_next ?c = ra_next c" "ra_shardMask ?c = ra_shardMask c"
    by (simp_all add: EvictPath_def Let_def)
  have "ra_inv ?c"
    unfolding ra_inv_def rest used using inv ok uniq_subset [OF _ sub] mset_subset_eqD [OF sub]
    by (simp add: sh ra_inv_def)
  moreover have "ra_coh cfg F ?c"
    using coh ok by (fastforce simp: ra_coh_def rest sh shard_coh_def map_kit)
  ultimately show ?thesis by simp
qed

subsection \<open>Reading\<close>

lemma touch_inv:
  assumes inv: "ra_inv c" and coh: "ra_coh cfg F c"
  shows "ra_inv (touch xx now p key c) \<and> ra_coh cfg F (touch xx now p key c)"
proof (cases "rs_buffers (ra_shards c ! ra_getShard xx c p) key")
  case None
  then show ?thesis using assms by (simp add: touch_def)
next
  case (Some b)
  let ?i = "ra_getShard xx c p"
  let ?s = "ra_shards c ! ?i"
  let ?s' = "?s\<lparr>rs_buffers := (rs_buffers ?s)(key \<mapsto> b\<lparr>rb_lastAccess := now\<rparr>)\<rparr>"
  have i: "?i < length (ra_shards c)" using inv by (simp add: ra_inv_def ra_getShard_def shard_kit)
  then have ok: "shard_ok (ra_heap c) ?s" and ch: "shard_coh cfg F (ra_heap c) ?s"
    using inv coh by (simp_all add: ra_inv_def ra_coh_def)
  have t: "touch xx now p key c = c\<lparr>ra_shards := (ra_shards c)[?i := ?s']\<rparr>"
    using Some by (simp add: touch_def Let_def)
  have ok': "shard_ok (ra_heap c) ?s'"
    using ok Some by (auto simp: shard_ok_def msum_upd)
  have ch': "shard_coh cfg F (ra_heap c) ?s'" using ch Some by (auto simp: shard_coh_def)
  have "addrs ?s' = addrs ?s" using Some by (auto simp: addrs_def intro!: image_mset_cong)
  then have "sum_list (map addrs ((ra_shards c)[?i := ?s'])) = sum_list (map addrs (ra_shards c))"
    using sum_addrs_update [OF i, of ?s'] by simp
  then have own: "owned (touch xx now p key c) = owned c" by (simp add: t owned_def)
  show ?thesis
    using inv coh ok' ch' i own
    by (auto simp: ra_inv_def ra_coh_def t sum_list_update_int dest!: set_update_subset_insert [THEN subsetD])
qed

lemma ra_touch_hit_inv:
  assumes "ra_inv c" "ra_coh cfg F c"
  shows "ra_inv (ra_touch_hit cfg xx now p off e c) \<and> ra_coh cfg F (ra_touch_hit cfg xx now p off e c)"
  using assms by (auto simp: ra_touch_hit_def touch_inv [of _ cfg F] split: ra_hit.splits)

subsection \<open>Storing\<close>

lemma take_array_cases:
  assumes "take_array n c = (a, c1)"
  obtains (pooled) as where "mset (ra_pool c) = add_mset a (mset as)" "length (ra_heap c a) = n" "c1 = c\<lparr>ra_pool := as\<rparr>"
    | (fresh) as where "mset as \<subseteq># mset (ra_pool c)" "a = ra_next c"
        "c1 = c\<lparr>ra_pool := as, ra_heap := (ra_heap c)(a := replicate n 0), ra_next := Suc a\<rparr>"
proof (cases "ra_pool c")
  case Nil
  with assms fresh [of "[]"] show thesis by (auto simp: take_array_def alloc_def)
next
  case (Cons x as)
  show thesis
  proof (cases "length (ra_heap c x) = n")
    case True
    with assms Cons pooled [of as] show thesis by (auto simp: take_array_def)
  next
    case False
    with assms Cons fresh [of as] show thesis by (auto simp: take_array_def alloc_def)
  qed
qed

lemma uniq_add: "uniq M \<Longrightarrow> a \<notin># M \<Longrightarrow> uniq (add_mset a M)"
  by (auto simp: uniq_def not_in_iff)

text \<open>The array \<^verbatim>\<open>Put\<close> fills is owned by nobody, so filling it changes no cached chunk.\<close>

lemma fill_owned:
  assumes inv: "ra_inv c" and t: "take_array (length d) c = (a, c1)"
    and c2: "c2 = c1\<lparr>ra_heap := (ra_heap c1)(a := go_copy (ra_heap c1 a) d)\<rparr>"
  shows "uniq (add_mset a (owned c2)) \<and> (\<forall>x. x \<in># add_mset a (owned c2) \<longrightarrow> x < ra_next c2) \<and>
    ra_shards c2 = ra_shards c \<and> ra_shardMask c2 = ra_shardMask c \<and> ra_used c2 = ra_used c \<and>
    ra_heap c2 a = d \<and> (\<forall>x. x \<noteq> a \<longrightarrow> ra_heap c2 x = ra_heap c x)"
  using t
proof (cases rule: take_array_cases)
  case (pooled as)
  then have "owned c = add_mset a (owned c2)" by (simp add: owned_def c2)
  with inv pooled show ?thesis by (auto simp: ra_inv_def c2 go_copy_same_length)
next
  case (fresh as)
  have sub: "owned c2 \<subseteq># owned c" using fresh(1) by (simp add: owned_def c2 fresh(3))
  have "a \<notin># owned c2" using mset_subset_eqD [OF sub] inv fresh(2) by (auto simp: ra_inv_def)
  moreover have "uniq (owned c2)" using uniq_subset [OF _ sub] inv by (simp add: ra_inv_def)
  ultimately have "uniq (add_mset a (owned c2))" by (intro uniq_add)
  moreover have "\<forall>x. x \<in># owned c2 \<longrightarrow> x < Suc a"
    using mset_subset_eqD [OF sub] inv fresh(2) by (auto simp: ra_inv_def less_SucI)
  ultimately show ?thesis using fresh(2) by (simp add: c2 fresh(3) go_copy_same_length)
qed

lemma fill_inv:
  assumes inv: "ra_inv c" and coh: "ra_coh cfg F c" and t: "take_array (length d) c = (a, c1)"
    and c2: "c2 = c1\<lparr>ra_heap := (ra_heap c1)(a := go_copy (ra_heap c1 a) d)\<rparr>"
  shows "ra_inv c2 \<and> ra_coh cfg F c2"
proof -
  note fill = fill_owned [OF inv t c2]
  have live: "ra_heap c2 (rb_data b) = ra_heap c (rb_data b)"
    if "s \<in> set (ra_shards c)" "rs_buffers s k = Some b" for s k b
  proof -
    have "shard_ok (ra_heap c) s" using inv that(1) by (simp add: ra_inv_def)
    then have "rb_data b \<in># owned c2"
      using live_addr_owned [of s c2] that fill by (simp add: owned_def)
    then have "rb_data b \<noteq> a" using uniq_add_notin [of a "owned c2"] fill by auto
    then show ?thesis using fill by simp
  qed
  have "shard_ok (ra_heap c2) s" if "s \<in> set (ra_shards c)" for s
  proof -
    have "msum (\<lambda>b. int (length (ra_heap c2 (rb_data b)))) (rs_buffers s) =
        msum (\<lambda>b. int (length (ra_heap c (rb_data b)))) (rs_buffers s)"
      by (rule msum_cong) (simp add: live [OF that])
    then show ?thesis using inv that by (simp add: ra_inv_def shard_ok_def)
  qed
  moreover have "uniq (owned c2)" by (rule uniq_subset [of "add_mset a (owned c2)"]) (use fill in auto)
  ultimately have "ra_inv c2" using fill inv by (simp add: ra_inv_def)
  moreover have "ra_coh cfg F c2"
    using coh live fill by (auto simp: ra_coh_def shard_coh_def)
  ultimately show ?thesis by simp
qed

lemma insert_inv:
  assumes inv: "ra_inv c" and i: "i < length (ra_shards c)" and key: "rs_buffers (ra_shards c ! i) key = None"
    and own: "uniq (add_mset (rb_data b) (owned c))" "rb_data b < ra_next c"
    and n: "n = int (length (ra_heap c (rb_data b)))"
    and s': "s' = (ra_shards c ! i)\<lparr>rs_order := rs_order (ra_shards c ! i) @ [key],
          rs_total := rs_total (ra_shards c ! i) + n, rs_buffers := (rs_buffers (ra_shards c ! i))(key \<mapsto> b)\<rparr>"
  shows "ra_inv (c\<lparr>ra_used := ra_used c + n, ra_shards := (ra_shards c)[i := s']\<rparr>)"
proof -
  let ?s = "ra_shards c ! i"
  have ok: "shard_ok (ra_heap c) ?s" using inv i by (simp add: ra_inv_def)
  then have nin: "key \<notin> set (rs_order ?s)" using key by (auto simp: shard_ok_def)
  have "shard_ok (ra_heap c) s'"
    using ok key nin by (auto simp: shard_ok_def s' n msum_insert)
  moreover have "addrs s' = add_mset (rb_data b) (addrs ?s)"
    using nin by (auto simp: addrs_def s' intro!: image_mset_cong)
  then have "sum_list (map addrs ((ra_shards c)[i := s'])) = add_mset (rb_data b) (sum_list (map addrs (ra_shards c)))"
    using sum_addrs_update [OF i, of s'] by simp
  then have "owned (c\<lparr>ra_used := ra_used c + n, ra_shards := (ra_shards c)[i := s']\<rparr>) = add_mset (rb_data b) (owned c)"
    by (simp add: owned_def)
  ultimately show ?thesis
    using inv own i by (auto simp: ra_inv_def sum_list_update_int s' dest!: set_update_subset_insert [THEN subsetD])
qed

lemma shrinks_shards: "shrinks c s c' s' \<Longrightarrow> shrinks (c\<lparr>ra_shards := ss\<rparr>) s (c'\<lparr>ra_shards := ss\<rparr>) s'"
  unfolding shrinks_def by (elim conjE, intro conjI; (cases c; cases c'; simp)?)

lemma compact_order_id: "shard_ok h s \<Longrightarrow> compact_order s = s"
proof -
  assume "shard_ok h s"
  then have "int (length (rs_order s)) = mlen (rs_buffers s)"
    by (simp add: shard_ok_def mlen_def distinct_card [symmetric])
  then show ?thesis by (simp add: compact_order_def)
qed

lemma drop_overwritten_shrinks:
  assumes ok: "shard_ok (ra_heap c) s" and d: "drop_overwritten cfg key c s = (c', s')"
  shows "shrinks c s c' (s'\<lparr>rs_buffers := (rs_buffers s)(key := None)\<rparr>) \<and> rs_buffers s' = rs_buffers s"
proof (cases "rs_buffers s key")
  case None
  then have "(rs_buffers s)(key := None) = rs_buffers s" by auto
  with None d ok show ?thesis by (simp add: drop_overwritten_def shrinks_refl)
next
  case (Some b)
  with d have s': "s'\<lparr>rs_buffers := (rs_buffers s)(key := None)\<rparr> = s\<lparr>rs_total := rs_total s - data_len c b,
      rs_buffers := (rs_buffers s)(key := None), rs_order := remove1 key (rs_order s)\<rparr>"
    by (cases s) (auto simp: drop_overwritten_def)
  show ?thesis unfolding s' using d Some remove_one_shrinks [OF ok Some, of cfg]
    by (auto simp: drop_overwritten_def)
qed

lemma shrinks_frame:
  "shrinks c s c' s' \<Longrightarrow> ra_shards c' = ra_shards c \<and> ra_next c' = ra_next c \<and> ra_heap c' = ra_heap c"
  unfolding shrinks_def by (cases c; cases c') simp

lemma overwrite_inv:
  assumes inv: "ra_inv c" and coh: "ra_coh cfg F c" and i: "i < length (ra_shards c)"
    and own: "uniq (add_mset (rb_data b) (owned c))" "rb_data b < ra_next c"
    and b: "key = raChunkKey cfg p (rb_start b)" "0 \<le> rb_start b" "ra_heap c (rb_data b) = map (F p) [rb_start b .. rb_end b]"
    and n: "n = int (length (ra_heap c (rb_data b)))"
    and d3: "drop_overwritten cfg key c (ra_shards c ! i) = (c3, s3)"
    and s4: "s4 = s3\<lparr>rs_order := rs_order s3 @ [key], rs_total := rs_total s3 + n, rs_buffers := (rs_buffers s3)(key \<mapsto> b)\<rparr>"
    and g4: "g4 = c3\<lparr>ra_used := ra_used c3 + n, ra_shards := (ra_shards c3)[i := s4]\<rparr>"
  shows "ra_inv g4 \<and> ra_coh cfg F g4"
proof -
  define s3' where "s3' = s3\<lparr>rs_buffers := (rs_buffers (ra_shards c ! i))(key := None)\<rparr>"
  have ok: "shard_ok (ra_heap c) (ra_shards c ! i)" using inv i by (simp add: ra_inv_def)
  have sh: "shrinks c (ra_shards c ! i) c3 s3'" and b3: "rs_buffers s3 = rs_buffers (ra_shards c ! i)"
    using drop_overwritten_shrinks [OF ok d3] by (simp_all add: s3'_def)
  note fr = shrinks_frame [OF sh]
  define g3 where "g3 = c3\<lparr>ra_shards := (ra_shards c3)[i := s3']\<rparr>"
  have inv3: "ra_inv g3" and coh3: "ra_coh cfg F g3"
    using shrinks_inv [OF inv i sh] shrinks_coh [OF coh i sh] by (simp_all add: g3_def)
  have i3: "i < length (ra_shards g3)" and at: "ra_shards g3 ! i = s3'" using i fr by (simp_all add: g3_def)
  have "mset (ra_pool c3) + addrs s3' \<subseteq># mset (ra_pool c) + addrs (ra_shards c ! i)"
    using sh by (unfold shrinks_def) (elim conjE)
  from owned_upd [OF i this] have "owned g3 \<subseteq># owned c" by (simp add: g3_def owned_def fr)
  then have u3: "uniq (add_mset (rb_data b) (owned g3))" by (intro uniq_subset [OF own(1)]) simp
  have k3: "rs_buffers (ra_shards g3 ! i) key = None" by (simp add: at, simp add: s3'_def)
  have n3: "rb_data b < ra_next g3" "n = int (length (ra_heap g3 (rb_data b)))" using own(2) n fr by (simp_all add: g3_def)
  have s4': "s4 = s3'\<lparr>rs_order := rs_order s3' @ [key], rs_total := rs_total s3' + n, rs_buffers := (rs_buffers s3')(key \<mapsto> b)\<rparr>"
    by (simp add: s4 s3'_def b3)
  have g4': "g4 = g3\<lparr>ra_used := ra_used g3 + n, ra_shards := (ra_shards g3)[i := s4]\<rparr>" by (simp add: g4 g3_def)
  have "ra_inv g4" unfolding g4'
    by (rule insert_inv [OF inv3 i3 k3 u3 n3]) (simp add: at s4')
  moreover have "shard_coh cfg F (ra_heap c) s4"
  proof -
    have "shard_coh cfg F (ra_heap g3) (ra_shards g3 ! i)" using coh3 i3 by (simp add: ra_coh_def)
    then have "shard_coh cfg F (ra_heap c) s3'" unfolding at using fr by (simp add: g3_def)
    then show ?thesis using b by (auto simp: shard_coh_def s4')
  qed
  then have "ra_coh cfg F g4"
    using coh fr by (auto simp: ra_coh_def g4 dest!: set_update_subset_insert [THEN subsetD])
  ultimately show ?thesis by simp
qed

lemma evict_writeback:
  assumes inv: "ra_inv g4 \<and> ra_coh cfg F g4" and g4: "g4 = c4\<lparr>ra_shards := (ra_shards c4)[i := s4]\<rparr>"
    and i: "i < length (ra_shards c4)" and last: "rs_order s4 \<noteq> []" "last (rs_order s4) = key"
    and e: "evict_over_budget cfg limit (rs_order s4) c4 s4 = (c5, s5)"
    and g5: "g5 = c5\<lparr>ra_shards := (ra_shards c5)[i := compact_order s5]\<rparr>"
  shows "ra_inv g5 \<and> ra_coh cfg F g5 \<and> (ra_used g5 \<le> limit \<or> length (rs_order (ra_shards g5 ! i)) \<le> 1) \<and>
    rs_buffers (ra_shards g5 ! i) key = rs_buffers s4 key \<and> ra_heap g5 = ra_heap c4"
proof -
  have i4: "i < length (ra_shards g4)" and at4: "ra_shards g4 ! i = s4" and h4: "ra_heap g4 = ra_heap c4"
    using i by (simp_all add: g4)
  have "shard_ok (ra_heap c4) (s4\<lparr>rs_order := rs_order s4\<rparr>)" using inv i4 at4 h4 by (auto simp: ra_inv_def)
  from evict_over_budget_shrinks [OF this e] last have sh: "shrinks c4 s4 c5 s5" and key: "key \<in> set (rs_order s5)"
    and lim: "ra_used c5 \<le> limit \<or> length (rs_order s5) \<le> 1" by simp_all
  have ok: "shard_ok (ra_heap c5) s5" by (rule shrinks_ok [OF sh])
  have fr: "ra_shards c5 = ra_shards c4" "ra_heap c5 = ra_heap c4" using shrinks_frame [OF sh] by simp_all
  have "shrinks g4 (ra_shards g4 ! i) (c5\<lparr>ra_shards := (ra_shards c4)[i := s4]\<rparr>) s5"
    using shrinks_shards [OF sh] at4 by (simp add: g4)
  from shrinks_inv [OF _ i4 this] shrinks_coh [OF _ i4 this] inv have "ra_inv g5 \<and> ra_coh cfg F g5"
    by (simp add: g5 fr compact_order_id [OF ok])
  moreover have "rs_buffers s5 key = rs_buffers s4 key"
    using key ok shrinks_le [OF sh] by (auto simp: shard_ok_def map_le_def)
  ultimately show ?thesis using lim i by (simp add: g5 fr compact_order_id [OF ok])
qed

text \<open>\<^verbatim>\<open>Put\<close> leaves a consistent cache in which the new chunk is present with the given bytes, and
  either the budget holds or the chunk's shard is down to this one chunk.\<close>

lemma ra_Put_spec:
  assumes inv: "ra_inv c" and coh: "ra_coh cfg F c" and st: "0 \<le> st" and d: "d = map (F p) [st .. e]"
    and r: "ra_Put cfg xx now resp p st e d c = (c', spawn)"
  shows "ra_inv c' \<and> ra_coh cfg F c' \<and>
    (ra_used c' \<le> global_limit cfg \<or> length (rs_order (ra_shards c' ! shard_idx xx 31 p)) \<le> 1) \<and>
    (\<exists>b. rs_buffers (ra_shards c' ! shard_idx xx 31 p) (raChunkKey cfg p st) = Some b \<and>
         rb_start b = st \<and> rb_end b = e \<and> ra_heap c' (rb_data b) = d)"
proof -
  define i where "i = shard_idx xx 31 p"
  define key where "key = raChunkKey cfg p st"
  obtain a c1 where t: "take_array (length d) c = (a, c1)" by fastforce
  define c2 where "c2 = c1\<lparr>ra_heap := (ra_heap c1)(a := go_copy (ra_heap c1 a) d)\<rparr>"
  note fill = fill_owned [OF inv t c2_def] and inv2 = fill_inv [OF inv coh t c2_def]
  have gs: "ra_getShard xx c p = i" using inv by (simp add: ra_getShard_def ra_inv_def i_def)
  have i: "i < length (ra_shards c2)" using inv2 by (simp add: ra_inv_def i_def shard_kit)
  obtain c3 s3 where d3: "drop_overwritten cfg key c2 (ra_shards c2 ! i) = (c3, s3)" by fastforce
  define b where "b = \<lparr>rb_start = st, rb_end = e, rb_data = a, rb_lastAccess = now,
     rb_sessionID = (if p \<noteq> ra_activePath c then 0 else ra_currentSessionID c), rb_responsiveOnly = resp\<rparr>"
  define s4 where "s4 = s3\<lparr>rs_order := rs_order s3 @ [key], rs_total := rs_total s3 + int (length d),
     rs_buffers := (rs_buffers s3)(key \<mapsto> b)\<rparr>"
  define g4 where "g4 = c3\<lparr>ra_used := ra_used c3 + int (length d), ra_shards := (ra_shards c3)[i := s4]\<rparr>"
  have inv4: "ra_inv g4 \<and> ra_coh cfg F g4"
    by (rule overwrite_inv [OF _ _ i _ _ _ _ _ _ d3 s4_def g4_def, where p = p])
       (use inv2 fill st d in \<open>simp_all add: b_def key_def\<close>)
  let ?c4 = "c3\<lparr>ra_used := ra_used c3 + int (length d)\<rparr>"
  obtain c5 s5 where e5: "evict_over_budget cfg (global_limit cfg) (rs_order s4) ?c4 s4 = (c5, s5)" by fastforce
  have l3: "i < length (ra_shards ?c4)" using inv4 by (simp add: ra_inv_def g4_def i_def shard_kit)
  have "c' = c5\<lparr>ra_shards := (ra_shards c5)[i := compact_order s5]\<rparr>"
    using r unfolding ra_Put_def Let_def gs t prod.case c2_def [symmetric] key_def [symmetric] d3
      b_def [symmetric] s4_def [symmetric] e5 by simp
  from evict_writeback [OF inv4 _ l3 _ _ e5 this, of key]
  have "ra_inv c' \<and> ra_coh cfg F c' \<and> (ra_used c' \<le> global_limit cfg \<or> length (rs_order (ra_shards c' ! i)) \<le> 1) \<and>
      rs_buffers (ra_shards c' ! i) key = Some b \<and> ra_heap c' = ra_heap c3"
    by (simp add: g4_def) (simp add: s4_def)
  moreover have "ra_heap c3 a = d" using drop_overwritten_shrinks [OF _ d3] shrinks_frame inv2 fill i by (metis ra_inv_def nth_mem)
  ultimately show ?thesis by (simp add: i_def [symmetric] key_def [symmetric]) (simp add: b_def)
qed

subsection \<open>Lookups return the file's bytes\<close>

lemma ra_inv_shard: "ra_inv c \<Longrightarrow> ra_getShard xx c p = shard_idx xx 31 p \<and> shard_idx xx 31 p < length (ra_shards c)"
  by (simp add: ra_inv_def ra_getShard_def shard_kit)

lemma ra_lookup_coh:
  assumes "ra_inv c" "ra_coh cfg F c" "rs_buffers (ra_shards c ! ra_getShard xx c p) (raChunkKey cfg p off) = Some b"
  shows "0 \<le> rb_start b \<and> ra_heap c (rb_data b) = map (F p) [rb_start b .. rb_end b]"
proof -
  have "shard_coh cfg F (ra_heap c) (ra_shards c ! ra_getShard xx c p)"
    using assms(1,2) ra_inv_shard [of c xx p] by (simp add: ra_coh_def)
  then show ?thesis using assms(3) by (fastforce simp: shard_coh_def raChunkKey_def colon_key_inj)
qed

text \<open>What a hit refers to: one chunk holding the range, or two adjacent ones.\<close>

lemma ra_find_coh:
  assumes "ra_inv c" "ra_coh cfg F c" "off \<le> e"
  shows "case ra_find cfg xx p off e c of Miss \<Rightarrow> True | Partial b \<Rightarrow> True
     | Whole b \<Rightarrow> slice (ra_heap c (rb_data b)) (off - rb_start b) (e - rb_start b + 1) = Some (map (F p) [off..e])
     | Stitched b b2 \<Rightarrow> off \<le> rb_end b \<and> rb_end b < e \<and>
         slice (ra_heap c (rb_data b)) (off - rb_start b) (data_len c b) = Some (map (F p) [off..rb_end b]) \<and>
         slice (ra_heap c (rb_data b2)) 0 (e - rb_start b2 + 1) = Some (map (F p) [rb_end b + 1..e])"
proof -
  have whole: "slice (map (F p) [s..t]) (off - s) (int (nat (t - s + 1))) = Some (map (F p) [off..t])"
    if "s \<le> off" "off \<le> t" for s t
    using slice_map_upto [of s off t t "F p"] that by simp
  have first: "slice (map (F p) [s + 1..t]) 0 (e - s) = Some (map (F p) [s + 1..e])" if "s < e" "e \<le> t" for s t
    using slice_map_upto [of "s + 1" "s + 1" e t "F p"] that by (simp add: algebra_simps)
  show ?thesis
    using assms(3) ra_lookup_coh [OF assms(1,2), of xx p]
    by (auto simp: ra_find_def Let_def data_len_def slice_map_upto whole first split: option.splits)
qed

lemma ra_Get_coh:
  assumes "ra_inv c" "ra_coh cfg F c" "off \<le> e"
  shows "snd (ra_Get cfg xx now p off e c) \<in> {Some None, Some (Some (map (F p) [off..e]))}"
proof (cases "ra_find cfg xx p off e c")
  case (Stitched b b2)
  have f: "off \<le> rb_end b" "rb_end b < e"
      "slice (ra_heap c (rb_data b)) (off - rb_start b) (data_len c b) = Some (map (F p) [off..rb_end b])"
      "slice (ra_heap c (rb_data b2)) 0 (e - rb_start b2 + 1) = Some (map (F p) [rb_end b + 1..e])"
    using ra_find_coh [OF assms, of p xx] Stitched by simp_all
  define out :: "byte list" where "out = replicate (nat (e - off + 1)) 0"
  have "length (map (F p) [off..rb_end b]) + length (map (F p) [rb_end b + 1..e]) = length out"
    using f by (simp add: out_def nat_add_distrib [symmetric])
  then have "take (go_copied out (map (F p) [off..rb_end b])) (go_copy out (map (F p) [off..rb_end b])) @
      go_copy (drop (go_copied out (map (F p) [off..rb_end b])) (go_copy out (map (F p) [off..rb_end b])))
        (map (F p) [rb_end b + 1..e]) = map (F p) [off..e]"
    using upto_map_split [OF f(1,2), of "F p"] by (subst go_copy_two) auto
  then show ?thesis using f(3,4) Stitched by (simp add: ra_Get_def out_def [symmetric] Let_def)
qed (use ra_find_coh [OF assms, of p xx] in \<open>auto simp: ra_Get_def go_copy_same_length\<close>)

lemma ra_CopyTo_coh:
  assumes "ra_inv c" "ra_coh cfg F c" "off \<le> e" and l: "e - off + 1 \<le> int (length dest)"
  shows "snd (ra_CopyTo cfg xx now p off e dest c) \<in>
     {Some (dest, 0), Some (map (F p) [off..e] @ drop (nat (e - off + 1)) dest, nat (e - off + 1))}"
proof (cases "ra_find cfg xx p off e c")
  case (Whole b)
  then have "slice (ra_heap c (rb_data b)) (off - rb_start b) (e - rb_start b + 1) = Some (map (F p) [off..e])"
    using ra_find_coh [OF assms(1-3), of p xx] by simp
  then show ?thesis using Whole l assms(3) by (auto simp: ra_CopyTo_def go_copy_def go_copied_def)
next
  case (Stitched b b2)
  have f: "off \<le> rb_end b" "rb_end b < e"
      "slice (ra_heap c (rb_data b)) (off - rb_start b) (data_len c b) = Some (map (F p) [off..rb_end b])"
      "slice (ra_heap c (rb_data b2)) 0 (e - rb_start b2 + 1) = Some (map (F p) [rb_end b + 1..e])"
    using ra_find_coh [OF assms(1-3), of p xx] Stitched by simp_all
  let ?xs = "map (F p) [off..rb_end b]" and ?ys = "map (F p) [rb_end b + 1..e]"
  have len: "length ?xs + length ?ys = nat (e - off + 1)" using f by (simp add: nat_add_distrib [symmetric])
  then have "length ?xs + length ?ys \<le> length dest" using l by simp
  from go_copy_two [OF this] show ?thesis
    using f(3,4) Stitched upto_map_split [OF f(1,2), of "F p"] len
    by (simp add: ra_CopyTo_def Let_def)
qed (simp_all add: ra_CopyTo_def)

subsection \<open>Every reachable state\<close>

lemma newReadAheadCache_inv: "ra_inv newReadAheadCache" "ra_coh cfg F newReadAheadCache"
  by (auto simp: ra_inv_def ra_coh_def newReadAheadCache_def shard_ok_def shard_coh_def owned_def addrs_def uniq_def)

lemma SwitchContext_inv: "ra_inv c \<Longrightarrow> ra_coh cfg F c \<Longrightarrow> ra_inv (fst (SwitchContext p c)) \<and> ra_coh cfg F (fst (SwitchContext p c))"
  by (auto simp: SwitchContext_def ra_inv_def ra_coh_def owned_def)

lemma ra_step_inv:
  assumes "ra_inv c \<and> ra_coh cfg F c" "ra_step cfg xx F c c'"
  shows "ra_inv c' \<and> ra_coh cfg F c'"
  using assms(2,1)
proof cases
  case (ra_put st d p now responsive)
  then show ?thesis using ra_Put_spec [of c cfg F st d p "st + int (length d) - 1" xx now responsive c'] assms(1)
    by (metis prod.collapse)
qed (use assms(1) in \<open>auto simp: ra_Get_def ra_CopyTo_def ra_touch_hit_inv SwitchContext_inv EvictPath_inv
       triggerGlobalEviction_inv evict_one_inv evict_one_coh\<close>)

interpretation ra_cache: step_invariant "\<lambda>c. c = newReadAheadCache" "ra_step cfg xx F" "\<lambda>c. ra_inv c \<and> ra_coh cfg F c"
  for cfg xx F
  by (unfold_locales, simp add: newReadAheadCache_inv, rule ra_step_inv)





section \<open>Properties\<close>

text \<open>C1: in every state the read-ahead cache can reach, under any interleaving of its operations, a
  lookup of a byte range either reports a miss or returns exactly the bytes of that range of that file;
  it never panics and never returns bytes of another file or of a recycled array.\<close>

theorem ra_Get_file_bytes:
  assumes "ra_reachable cfg xx F c" "off \<le> e"
  shows "snd (ra_Get cfg xx now p off e c) \<in> {Some None, Some (Some (map (F p) [off..e]))}"
  using ra_cache.reachable_inv [OF assms(1)] ra_Get_coh assms(2) by blast

lemma ra_put_reachable:
  "0 \<le> st \<Longrightarrow> d = map (F p) [st .. st + int (length d) - 1] \<Longrightarrow> e = st + int (length d) - 1 \<Longrightarrow>
   ra_reachable cfg xx F c \<Longrightarrow> ra_reachable cfg xx F (fst (ra_Put cfg xx now r p st e d c))"
  by (auto intro: reach_step ra_step.ra_put)

lemma ra_new_reachable: "ra_reachable cfg xx F newReadAheadCache"
  by (rule reach_init) simp

theorem ra_Get_file_bytes_witness:
  "snd (ra_Get \<lparr>ReadAheadBase = 4, ReadAheadBudget = 100\<rparr> (\<lambda>_. 0) 9 ''a'' 1 2
     (fst (ra_Put \<lparr>ReadAheadBase = 4, ReadAheadBudget = 100\<rparr> (\<lambda>_. 0) 7 False ''a'' 0 3 [0, 1, 2, 3] newReadAheadCache)))
   \<in> {Some None, Some (Some [1, 2])}"
proof -
  have "ra_reachable \<lparr>ReadAheadBase = 4, ReadAheadBudget = 100\<rparr> (\<lambda>_. 0) (\<lambda>p. word_of_int)
     (fst (ra_Put \<lparr>ReadAheadBase = 4, ReadAheadBudget = 100\<rparr> (\<lambda>_. 0) 7 False ''a'' 0 3 [0, 1, 2, 3] newReadAheadCache))"
    by (rule ra_put_reachable [OF _ _ _ ra_new_reachable]) (simp_all add: upto.simps)
  from ra_Get_file_bytes [OF this, of 1 2 9 "''a''"] show ?thesis by (simp add: upto.simps)
qed

text \<open>C4: the copying lookup used by the FUSE read path either leaves the destination alone and
  reports zero bytes, or fills its front with exactly the requested bytes of the file and reports
  their number.\<close>

theorem ra_CopyTo_file_bytes:
  assumes "ra_reachable cfg xx F c" "off \<le> e" "e - off + 1 \<le> int (length dest)"
  shows "snd (ra_CopyTo cfg xx now p off e dest c) \<in>
     {Some (dest, 0), Some (map (F p) [off..e] @ drop (nat (e - off + 1)) dest, nat (e - off + 1))}"
  using ra_cache.reachable_inv [OF assms(1)] ra_CopyTo_coh assms(2,3) by blast

theorem ra_CopyTo_file_bytes_witness:
  "snd (ra_CopyTo \<lparr>ReadAheadBase = 4, ReadAheadBudget = 100\<rparr> (\<lambda>_. 0) 9 ''a'' 1 2 [7, 7, 7]
     (fst (ra_Put \<lparr>ReadAheadBase = 4, ReadAheadBudget = 100\<rparr> (\<lambda>_. 0) 7 False ''a'' 0 3 [0, 1, 2, 3] newReadAheadCache)))
   \<in> {Some ([7, 7, 7], 0), Some ([1, 2, 7], 2)}"
proof -
  have "ra_reachable \<lparr>ReadAheadBase = 4, ReadAheadBudget = 100\<rparr> (\<lambda>_. 0) (\<lambda>p. word_of_int)
     (fst (ra_Put \<lparr>ReadAheadBase = 4, ReadAheadBudget = 100\<rparr> (\<lambda>_. 0) 7 False ''a'' 0 3 [0, 1, 2, 3] newReadAheadCache))"
    by (rule ra_put_reachable [OF _ _ _ ra_new_reachable]) (simp_all add: upto.simps)
  from ra_CopyTo_file_bytes [OF this, of 1 2 "[7, 7, 7]" 9 "''a''"] show ?thesis by (simp add: upto.simps)
qed

text \<open>C2: a chunk that was just stored is found: \<^verbatim>\<open>Get\<close> of any range of it that starts in the same
  chunk slot returns its bytes whatever else the store had to evict, and after the store either the
  byte budget holds or the chunk is the only one left in its shard.\<close>

theorem ra_Put_then_Get:
  assumes r: "ra_reachable cfg xx F c" and st: "0 \<le> st" and d: "d = map (F p) [st..e]"
    and range: "st \<le> off" "off \<le> e'" "e' \<le> e" "off sdiv chunk_size cfg = st sdiv chunk_size cfg"
    and c': "c' = fst (ra_Put cfg xx now resp p st e d c)"
  shows "snd (ra_Get cfg xx now' p off e' c') = Some (Some (map (F p) [off..e'])) \<and>
     (ra_used c' \<le> global_limit cfg \<or> length (rs_order (ra_shards c' ! shard_idx xx 31 p)) \<le> 1)"
proof -
  have "ra_inv c" "ra_coh cfg F c" using ra_cache.reachable_inv [OF r] by simp_all
  from ra_Put_spec [OF this st d, of xx now resp c'] c'
  obtain b where b: "ra_inv c'" "ra_used c' \<le> global_limit cfg \<or> length (rs_order (ra_shards c' ! shard_idx xx 31 p)) \<le> 1"
      "rs_buffers (ra_shards c' ! shard_idx xx 31 p) (raChunkKey cfg p st) = Some b"
      "rb_start b = st" "rb_end b = e" "ra_heap c' (rb_data b) = d"
    by (metis prod.collapse)
  have "ra_find cfg xx p off e' c' = Whole b"
    using b range ra_inv_shard [of c' xx p] by (simp add: ra_find_def raChunkKey_def)
  moreover have "slice (ra_heap c' (rb_data b)) (off - rb_start b) (e' - rb_start b + 1) = Some (map (F p) [off..e'])"
    using slice_map_upto [of st off e' e "F p"] b range d by simp
  ultimately show ?thesis using b by (simp add: ra_Get_def go_copy_same_length)
qed

theorem ra_Put_then_Get_witness:
  "let cfg = \<lparr>ReadAheadBase = 4, ReadAheadBudget = 100\<rparr>;
       c' = fst (ra_Put cfg (\<lambda>_. 0) 7 False ''a'' 0 3 [0, 1, 2, 3] newReadAheadCache)
   in snd (ra_Get cfg (\<lambda>_. 0) 9 ''a'' 1 2 c') = Some (Some [1, 2])"
  using ra_Put_then_Get [OF ra_new_reachable, where st = 0 and d = "[0, 1, 2, 3]" and e = 3 and off = 1 and e' = 2
      and F = "\<lambda>p. word_of_int" and cfg = "\<lparr>ReadAheadBase = 4, ReadAheadBudget = 100\<rparr>" and xx = "\<lambda>_. 0"
      and now = 7 and now' = 9 and resp = False and p = "''a''"]
  by (simp add: Let_def upto.simps chunk_size_def go_simps)



text \<open>C5: a global eviction pass that finds no other pass running and no shard busy removes exactly the
  stale chunks: what stays in a shard are its chunks of the active session or the active path that
  were read within the last 120 seconds, or the last 60 for the active path.\<close>

theorem ra_global_eviction_filter:
  assumes "ra_reachable cfg xx F c" "\<not> ra_isEvicting c" "i < 32"
  shows "rs_buffers (ra_shards (triggerGlobalEviction cfg now ap sid (\<lambda>_. False) c) ! i) =
     mfilter (\<lambda>k b. (rb_sessionID b = sid \<or> prefix (ap @ '':'') k) \<and>
         now - rb_lastAccess b \<le> (if prefix (ap @ '':'') k then 60 * 10 ^ 9 else 120 * 10 ^ 9))
       (rs_buffers (ra_shards c ! i))"
proof -
  have inv: "ra_inv c" using ra_cache.reachable_inv [OF assms(1)] by simp
  then have len: "length (ra_shards c) = 32" by (simp add: ra_inv_def)
  have keep: "ra_keep now ap sid = (\<lambda>k b. (rb_sessionID b = sid \<or> prefix (ap @ '':'') k) \<and>
         now - rb_lastAccess b \<le> (if prefix (ap @ '':'') k then 60 * 10 ^ 9 else 120 * 10 ^ 9))"
    by (auto simp: ra_keep_def fun_eq_iff)
  have "rs_buffers (ra_shards (evict_shards cfg now ap sid (\<lambda>_. False) [0..<32] (c\<lparr>ra_isEvicting := True\<rparr>)) ! i) =
     mfilter (ra_keep now ap sid) (rs_buffers (ra_shards (c\<lparr>ra_isEvicting := True\<rparr>) ! i))"
    by (rule evict_shards_filter) (use inv assms(3) in auto)
  then show ?thesis
    unfolding keep [symmetric] using assms(2) len by (simp add: triggerGlobalEviction_def Let_def list_all_iff)
qed

theorem ra_global_eviction_filter_witness:
  "rs_buffers (ra_shards (triggerGlobalEviction \<lparr>ReadAheadBase = 4, ReadAheadBudget = 100\<rparr> (62 * 10 ^ 9) ''b'' 0 (\<lambda>_. False)
       (fst (ra_Put \<lparr>ReadAheadBase = 4, ReadAheadBudget = 100\<rparr> (\<lambda>_. 0) 7 False ''a'' 0 3 [0, 1, 2, 3] newReadAheadCache))) ! 0)
     ''a:0'' \<noteq> None"
proof -
  let ?cfg = "\<lparr>ReadAheadBase = 4, ReadAheadBudget = 100\<rparr>"
  let ?c = "fst (ra_Put ?cfg (\<lambda>_. 0) 7 False ''a'' 0 3 [0, 1, 2, 3] newReadAheadCache)"
  have r: "ra_reachable ?cfg (\<lambda>_. 0) (\<lambda>p. word_of_int) ?c"
    by (rule ra_put_reachable [OF _ _ _ ra_new_reachable]) (simp_all add: upto.simps)
  have fl: "\<not> ra_isEvicting ?c" and hit: "rs_buffers (ra_shards ?c ! 0) ''a:0'' = Some \<lparr>rb_start = 0, rb_end = 3,
      rb_data = 0, rb_lastAccess = 7, rb_sessionID = 0, rb_responsiveOnly = False\<rparr>"
    by (simp_all add: ra_Put_def newReadAheadCache_def Let_def take_array_def alloc_def go_copy_def drop_overwritten_def
      ra_getShard_def shard_idx_def global_limit_def compact_order_def raChunkKey_def chunk_size_def colon_key_def
      show_int_def go_simps)
  show ?thesis
    by (subst ra_global_eviction_filter [OF r fl]) (simp_all add: mfilter_def hit)
qed

end
