(* ===== verification/CacheSpec.thy ===== *)
theory CacheSpec
  imports Prelude
begin

text \<open>
  What the program's caches with a time to live promise their callers, as an interface: a stored value
  is found until it expires, a lookup returns nothing else than what was stored last, and looking up or
  sweeping changes no later answer. The laws are stated for one operation; the lemmas of the interface
  lift them to whole histories of operations. The metadata cache (\<^verbatim>\<open>lrucache.go\<close>) provides it, and
  the directory cache (\<^verbatim>\<open>dircache.go\<close>) the exact version, in which an entry is never dropped before
  it expires.
\<close>

datatype ('k, 'w) cache_op =
    Store int 'k 'w
  | Remove int 'k
  | Touch int 'k
  | Sweep int

fun op_time :: "('k, 'w) cache_op \<Rightarrow> int" where
  "op_time (Store now k w) = now"
| "op_time (Remove now k) = now"
| "op_time (Touch now k) = now"
| "op_time (Sweep now) = now"

fun writes :: "'k \<Rightarrow> ('k, 'w) cache_op \<Rightarrow> bool" where
  "writes k (Store now j w) = (j = k)"
| "writes k (Remove now j) = (j = k)"
| "writes k _ = False"

fun apply_op ::
    "(int \<Rightarrow> 'k \<Rightarrow> 'w \<Rightarrow> 'c \<Rightarrow> 'c) \<Rightarrow> ('k \<Rightarrow> 'c \<Rightarrow> 'c) \<Rightarrow> (int \<Rightarrow> 'k \<Rightarrow> 'c \<Rightarrow> 'c) \<Rightarrow> (int \<Rightarrow> 'c \<Rightarrow> 'c)
     \<Rightarrow> 'c \<Rightarrow> ('k, 'w) cache_op \<Rightarrow> 'c" where
  "apply_op store remove touch sweep c (Store now k w) = store now k w c"
| "apply_op store remove touch sweep c (Remove now k) = remove k c"
| "apply_op store remove touch sweep c (Touch now k) = touch now k c"
| "apply_op store remove touch sweep c (Sweep now) = sweep now c"

text \<open>A history of operations, with the clock never going back.\<close>

definition timely :: "('k, 'w) cache_op list \<Rightarrow> int \<Rightarrow> bool" where
  "timely ops t \<longleftrightarrow> sorted (map op_time ops @ [t])"

lemma timely_snoc: "timely (ops @ [x]) t \<longleftrightarrow> timely ops (op_time x) \<and> op_time x \<le> t"
  by (auto simp: timely_def sorted_append)

lemma timely_mono: "timely ops s \<Longrightarrow> s \<le> t \<Longrightarrow> timely ops t"
  by (auto simp: timely_def sorted_append)

text \<open>\<open>live ttl val ops t k v\<close>: in the history \<open>ops\<close> the last store or removal of \<open>k\<close> stored \<open>v\<close>,
  and at time \<open>t\<close> it has not expired.\<close>

definition live :: "int \<Rightarrow> ('w \<Rightarrow> 'v) \<Rightarrow> ('k, 'w) cache_op list \<Rightarrow> int \<Rightarrow> 'k \<Rightarrow> 'v \<Rightarrow> bool" where
  "live ttl val ops t k v \<longleftrightarrow>
     (\<exists>pre now w post. ops = pre @ Store now k w # post \<and> v = val w \<and> t \<le> now + ttl \<and>
        (\<forall>x \<in> set post. \<not> writes k x))"

lemma live_nil [simp]: "\<not> live ttl val [] t k v"
  by (simp add: live_def)

lemma live_snoc_other: "\<not> writes k x \<Longrightarrow> live ttl val (ops @ [x]) t k v \<longleftrightarrow> live ttl val ops t k v"
proof
  assume nr: "\<not> writes k x" and "live ttl val (ops @ [x]) t k v"
  then obtain pre now w post where o: "ops @ [x] = pre @ Store now k w # post" "v = val w" "t \<le> now + ttl"
      "\<forall>y \<in> set post. \<not> writes k y" unfolding live_def by blast
  with nr obtain post' where "post = post' @ [x]" by (cases post rule: rev_cases) auto
  with o show "live ttl val ops t k v" unfolding live_def by auto
next
  assume "\<not> writes k x" and "live ttl val ops t k v"
  then show "live ttl val (ops @ [x]) t k v" unfolding live_def by (fastforce simp: append_eq_append_conv2)
qed

lemma live_snoc_store: "live ttl val (ops @ [Store now k w]) t k v \<longleftrightarrow> v = val w \<and> t \<le> now + ttl"
proof
  assume "live ttl val (ops @ [Store now k w]) t k v"
  then obtain pre now' w' post where o: "ops @ [Store now k w] = pre @ Store now' k w' # post" "v = val w'"
      "t \<le> now' + ttl" "\<forall>y \<in> set post. \<not> writes k y" unfolding live_def by blast
  then have "post = []" by (cases post rule: rev_cases) auto
  with o show "v = val w \<and> t \<le> now + ttl" by auto
qed (auto simp: live_def intro!: exI [of _ ops])

lemma live_snoc_remove: "\<not> live ttl val (ops @ [Remove now k]) t k v"
proof
  assume "live ttl val (ops @ [Remove now k]) t k v"
  then obtain pre now' w' post where o: "ops @ [Remove now k] = pre @ Store now' k w' # post"
      "\<forall>y \<in> set post. \<not> writes k y" unfolding live_def by blast
  then show False by (cases post rule: rev_cases) auto
qed

locale ttl_cache =
  fixes inv :: "'c \<Rightarrow> bool" and lookup :: "'c \<Rightarrow> int \<Rightarrow> 'k \<Rightarrow> 'v option"
    and store :: "int \<Rightarrow> 'k \<Rightarrow> 'w \<Rightarrow> 'c \<Rightarrow> 'c" and remove :: "'k \<Rightarrow> 'c \<Rightarrow> 'c"
    and touch :: "int \<Rightarrow> 'k \<Rightarrow> 'c \<Rightarrow> 'c" and sweep :: "int \<Rightarrow> 'c \<Rightarrow> 'c"
    and ttl :: int and val :: "'w \<Rightarrow> 'v" and empty :: 'c
  assumes inv_empty: "inv empty" and lookup_empty: "lookup empty t k = None"
    and inv_store: "inv c \<Longrightarrow> inv (store now k w c)"
    and inv_remove: "inv c \<Longrightarrow> inv (remove k c)"
    and inv_touch: "inv c \<Longrightarrow> inv (touch now k c)"
    and inv_sweep: "inv c \<Longrightarrow> inv (sweep now c)"
    and lookup_store: "inv c \<Longrightarrow> lookup (store now k w c) t k = (if t \<le> now + ttl then Some (val w) else None)"
    and lookup_store_other: "inv c \<Longrightarrow> j \<noteq> k \<Longrightarrow> lookup (store now k w c) t j = Some v \<Longrightarrow> lookup c t j = Some v"
    and lookup_remove: "inv c \<Longrightarrow> lookup (remove k c) t j = (if j = k then None else lookup c t j)"
    and lookup_touch: "inv c \<Longrightarrow> now \<le> t \<Longrightarrow> lookup (touch now k c) t j = lookup c t j"
    and lookup_sweep: "inv c \<Longrightarrow> now \<le> t \<Longrightarrow> lookup (sweep now c) t j = lookup c t j"
begin

abbreviation run :: "('k, 'w) cache_op list \<Rightarrow> 'c" where
  "run \<equiv> foldl (apply_op store remove touch sweep) empty"

lemma inv_run: "inv (run ops)"
proof (induction ops rule: rev_induct)
  case (snoc x ops)
  then show ?case by (cases x) (auto intro: inv_store inv_remove inv_touch inv_sweep)
qed (simp add: inv_empty)

text \<open>A lookup answers with the value stored last, and only while it has not expired.\<close>

lemma lookup_run_live: "timely ops t \<Longrightarrow> lookup (run ops) t k = Some v \<Longrightarrow> live ttl val ops t k v"
proof (induction ops rule: rev_induct)
  case (snoc x ops)
  have c: "inv (run ops)" by (rule inv_run)
  have t: "timely ops t" "op_time x \<le> t" using snoc.prems(1) timely_mono by (auto simp: timely_snoc)
  show ?case
  proof (cases x)
    case (Store now j w)
    then show ?thesis
      using snoc c t lookup_store [OF c] lookup_store_other [OF c, of k j now w t v]
      by (cases "j = k") (auto simp: live_snoc_store live_snoc_other split: if_splits)
  next
    case (Remove now j)
    then show ?thesis using snoc t lookup_remove [OF c] by (cases "j = k") (auto simp: live_snoc_other)
  next
    case (Touch now j)
    then show ?thesis using snoc t lookup_touch [OF c] by (auto simp: live_snoc_other)
  next
    case (Sweep now)
    then show ?thesis using snoc t lookup_sweep [OF c] by (auto simp: live_snoc_other)
  qed
qed (simp add: lookup_empty)

end

text \<open>The exact cache: storing one key never drops another.\<close>

locale exact_ttl_cache = ttl_cache +
  assumes lookup_store_keep: "inv c \<Longrightarrow> j \<noteq> k \<Longrightarrow> lookup (store now k w c) t j = lookup c t j"
begin

lemma lookup_run_exact: "timely ops t \<Longrightarrow> lookup (run ops) t k = Some v \<longleftrightarrow> live ttl val ops t k v"
proof (induction ops rule: rev_induct)
  case (snoc x ops)
  have c: "inv (run ops)" by (rule inv_run)
  have t: "timely ops t" "op_time x \<le> t" using snoc.prems(1) timely_mono by (auto simp: timely_snoc)
  show ?case
  proof (cases x)
    case (Store now j w)
    then show ?thesis
      using snoc t lookup_store [OF c] lookup_store_keep [OF c]
      by (cases "j = k") (auto simp: live_snoc_store live_snoc_other)
  next
    case (Remove now j)
    then show ?thesis using snoc t lookup_remove [OF c]
      by (cases "j = k") (auto simp: live_snoc_other live_snoc_remove)
  next
    case (Touch now j)
    then show ?thesis using snoc t lookup_touch [OF c] by (auto simp: live_snoc_other)
  next
    case (Sweep now)
    then show ?thesis using snoc t lookup_sweep [OF c] by (auto simp: live_snoc_other)
  qed
qed (simp add: lookup_empty)

end

end
