(* ===== verification/LruCache.thy ===== *)
theory LruCache
  imports CacheSpec
begin

text \<open>
  The metadata cache of \<^verbatim>\<open>lrucache.go\<close>: 32 shards, each a least-recently-used cache with a byte
  capacity and a time to live. A shard is a map from keys to elements of a doubly linked list, newest
  first; list elements are objects with an identity, so the map and the list can disagree, and the
  invariant says that they do not. The stored values (\<^verbatim>\<open>*Metadata\<close>) are a type parameter.
\<close>

section \<open>State\<close>

record 'v cacheEntry =
  ce_key :: string
  ce_value :: 'v
  ce_size :: int
  ce_expiresAt :: int
  ce_lastPromoted :: int

text \<open>The \<^verbatim>\<open>container/list\<close> is the list of its elements, front first: an element is its identity and
  the entry in its \<^verbatim>\<open>Value\<close> field.\<close>

record 'v simpleLRUCache =
  sl_capacity :: int
  sl_currentSize :: int
  sl_ttl :: int
  sl_items :: "string \<rightharpoonup> nat"
  sl_order :: "(nat \<times> 'v cacheEntry) list"
  sl_next :: nat

record CacheStats =
  cs_Size :: int
  cs_Capacity :: int
  cs_Entries :: int

record 'v LRUCache =
  lc_shards :: "'v simpleLRUCache list"
  lc_shardMask :: u64

section \<open>Operations of a shard\<close>

definition effective_ttl :: "int \<Rightarrow> int" where
  "effective_ttl ttl = (if ttl = 0 then 24 * 3600 * 10 ^ 9 else ttl)"

definition newSimpleLRUCache :: "int \<Rightarrow> int \<Rightarrow> 'v simpleLRUCache" where
  "newSimpleLRUCache capacity ttl =
     \<lparr>sl_capacity = (if capacity = 0 then 500 * 1024 * 1024 else capacity), sl_currentSize = 0,
      sl_ttl = effective_ttl ttl, sl_items = Map.empty, sl_order = [], sl_next = 0\<rparr>"

text \<open>\<^verbatim>\<open>list.Remove\<close> and \<^verbatim>\<open>list.MoveToFront\<close> on an element of the list.\<close>

definition list_Remove :: "nat \<Rightarrow> (nat \<times> 'a) list \<Rightarrow> (nat \<times> 'a) list" where
  "list_Remove e xs = filter (\<lambda>x. fst x \<noteq> e) xs"

definition list_MoveToFront :: "nat \<Rightarrow> 'a \<Rightarrow> (nat \<times> 'a) list \<Rightarrow> (nat \<times> 'a) list" where
  "list_MoveToFront e a xs = (e, a) # list_Remove e xs"

definition removeElement :: "nat \<Rightarrow> 'v simpleLRUCache \<Rightarrow> 'v simpleLRUCache" where
  "removeElement e c =
     (case map_of (sl_order c) e of
        None \<Rightarrow> c
      | Some entry \<Rightarrow>
          c\<lparr>sl_items := (sl_items c)(ce_key entry := None), sl_order := list_Remove e (sl_order c),
            sl_currentSize := sl_currentSize c - ce_size entry\<rparr>)"

definition sl_Get :: "int \<Rightarrow> string \<Rightarrow> 'v simpleLRUCache \<Rightarrow> 'v simpleLRUCache \<times> 'v option" where
  "sl_Get now key c =
     (case sl_items c key of
        None \<Rightarrow> (c, None)
      | Some e \<Rightarrow>
          (case map_of (sl_order c) e of
             None \<Rightarrow> (c, None)
           | Some entry \<Rightarrow>
               if now > ce_expiresAt entry then (removeElement e c, None)
               else (c\<lparr>sl_order := list_MoveToFront e (entry\<lparr>ce_lastPromoted := now\<rparr>) (sl_order c)\<rparr>,
                     Some (ce_value entry))))"

text \<open>The loop of \<^verbatim>\<open>Put\<close> that removes the oldest element until the new entry fits.\<close>

lemma removeElement_length:
  "e \<in> fst ` set (sl_order c) \<Longrightarrow> length (sl_order (removeElement e c)) < length (sl_order c)"
proof -
  assume "e \<in> fst ` set (sl_order c)"
  then obtain entry where m: "map_of (sl_order c) e = Some entry" by (metis map_of_eq_None_iff not_Some_eq)
  then have "(e, entry) \<in> set (sl_order c)" by (rule map_of_SomeD)
  then have "length (filter (\<lambda>x. fst x \<noteq> e) (sl_order c)) < length (sl_order c)"
    by (intro length_filter_less [of "(e, entry)"]) auto
  with m show ?thesis by (simp add: removeElement_def list_Remove_def)
qed

function evict_oldest :: "int \<Rightarrow> 'v simpleLRUCache \<Rightarrow> 'v simpleLRUCache" where
  "evict_oldest sz c =
     (if sl_currentSize c + sz > sl_capacity c \<and> sl_order c \<noteq> []
      then evict_oldest sz (removeElement (fst (last (sl_order c))) c) else c)"
  by pat_completeness auto
termination
  by (relation "measure (\<lambda>(sz, c). length (sl_order c))") (auto intro!: removeElement_length)

declare evict_oldest.simps [simp del]

definition sl_Put :: "int \<Rightarrow> string \<Rightarrow> 'v \<Rightarrow> int \<Rightarrow> 'v simpleLRUCache \<Rightarrow> 'v simpleLRUCache" where
  "sl_Put now key v sz c =
     (case sl_items c key of
        Some e \<Rightarrow>
          (case map_of (sl_order c) e of
             None \<Rightarrow> c
           | Some entry \<Rightarrow>
               c\<lparr>sl_currentSize := sl_currentSize c - ce_size entry + sz,
                 sl_order := list_MoveToFront e (entry\<lparr>ce_value := v, ce_size := sz,
                     ce_expiresAt := now + sl_ttl c, ce_lastPromoted := now\<rparr>) (sl_order c)\<rparr>)
      | None \<Rightarrow>
          (let c1 = evict_oldest sz c;
               entry = \<lparr>ce_key = key, ce_value = v, ce_size = sz, ce_expiresAt = now + sl_ttl c1, ce_lastPromoted = now\<rparr>
           in c1\<lparr>sl_order := (sl_next c1, entry) # sl_order c1, sl_items := (sl_items c1)(key \<mapsto> sl_next c1),
                 sl_currentSize := sl_currentSize c1 + sz, sl_next := Suc (sl_next c1)\<rparr>))"

definition sl_CleanupExpired :: "int \<Rightarrow> 'v simpleLRUCache \<Rightarrow> 'v simpleLRUCache \<times> nat" where
  "sl_CleanupExpired now c =
     (let toRemove = map fst (filter (\<lambda>(e, entry). now > ce_expiresAt entry) (sl_order c))
      in (foldl (\<lambda>c e. removeElement e c) c toRemove, length toRemove))"

definition sl_Stats :: "'v simpleLRUCache \<Rightarrow> CacheStats" where
  "sl_Stats c = \<lparr>cs_Size = sl_currentSize c, cs_Capacity = sl_capacity c, cs_Entries = int (length (sl_order c))\<rparr>"

definition sl_Len :: "'v simpleLRUCache \<Rightarrow> nat" where
  "sl_Len c = length (sl_order c)"

definition sl_Delete :: "string \<Rightarrow> 'v simpleLRUCache \<Rightarrow> 'v simpleLRUCache" where
  "sl_Delete key c = (case sl_items c key of None \<Rightarrow> c | Some e \<Rightarrow> removeElement e c)"

definition sl_Clear :: "'v simpleLRUCache \<Rightarrow> 'v simpleLRUCache" where
  "sl_Clear c = c\<lparr>sl_items := Map.empty, sl_order := [], sl_currentSize := 0\<rparr>"

section \<open>The sharded cache\<close>

definition NewLRUCache :: "int \<Rightarrow> int \<Rightarrow> 'v LRUCache" where
  "NewLRUCache capacity ttl =
     (let shardCap = capacity sdiv 32;
          shardCap' = (if shardCap = 0 then 1024 * 1024 else shardCap)
      in \<lparr>lc_shards = replicate 32 (newSimpleLRUCache shardCap' ttl), lc_shardMask = 31\<rparr>)"

definition lc_getShard :: "hasher \<Rightarrow> 'v LRUCache \<Rightarrow> string \<Rightarrow> nat" where
  "lc_getShard xx c key = shard_idx xx (lc_shardMask c) key"

definition lc_Get :: "hasher \<Rightarrow> int \<Rightarrow> string \<Rightarrow> 'v LRUCache \<Rightarrow> 'v LRUCache \<times> 'v option" where
  "lc_Get xx now key c =
     (let i = lc_getShard xx c key; (s, r) = sl_Get now key (lc_shards c ! i)
      in (c\<lparr>lc_shards := (lc_shards c)[i := s]\<rparr>, r))"

definition lc_Put :: "hasher \<Rightarrow> int \<Rightarrow> string \<Rightarrow> 'v \<Rightarrow> int \<Rightarrow> 'v LRUCache \<Rightarrow> 'v LRUCache" where
  "lc_Put xx now key v sz c =
     (let i = lc_getShard xx c key
      in c\<lparr>lc_shards := (lc_shards c)[i := sl_Put now key v sz (lc_shards c ! i)]\<rparr>)"

definition lc_Delete :: "hasher \<Rightarrow> string \<Rightarrow> 'v LRUCache \<Rightarrow> 'v LRUCache" where
  "lc_Delete xx key c =
     (let i = lc_getShard xx c key
      in c\<lparr>lc_shards := (lc_shards c)[i := sl_Delete key (lc_shards c ! i)]\<rparr>)"

definition lc_Len :: "'v LRUCache \<Rightarrow> nat" where
  "lc_Len c = sum_list (map sl_Len (lc_shards c))"

definition lc_Clear :: "'v LRUCache \<Rightarrow> 'v LRUCache" where
  "lc_Clear c = c\<lparr>lc_shards := map sl_Clear (lc_shards c)\<rparr>"

definition lc_CleanupExpired :: "int \<Rightarrow> 'v LRUCache \<Rightarrow> 'v LRUCache \<times> nat" where
  "lc_CleanupExpired now c =
     (let rs = map (sl_CleanupExpired now) (lc_shards c)
      in (c\<lparr>lc_shards := map fst rs\<rparr>, sum_list (map snd rs)))"

definition lc_Stats :: "'v LRUCache \<Rightarrow> CacheStats" where
  "lc_Stats c =
     (let sts = map sl_Stats (lc_shards c)
      in \<lparr>cs_Size = sum_list (map cs_Size sts), cs_Capacity = sum_list (map cs_Capacity sts),
          cs_Entries = sum_list (map cs_Entries sts)\<rparr>)"

section \<open>The invariant of a shard\<close>

definition sl_inv :: "'v simpleLRUCache \<Rightarrow> bool" where
  "sl_inv c \<longleftrightarrow>
     distinct (map fst (sl_order c)) \<and>
     (\<forall>e en. (e, en) \<in> set (sl_order c) \<longrightarrow> e < sl_next c \<and> sl_items c (ce_key en) = Some e) \<and>
     (\<forall>k e. sl_items c k = Some e \<longrightarrow> (\<exists>en. (e, en) \<in> set (sl_order c) \<and> ce_key en = k)) \<and>
     sl_currentSize c = (\<Sum>x\<leftarrow>sl_order c. ce_size (snd x))"

lemma sl_inv_map_of: "sl_inv c \<Longrightarrow> map_of (sl_order c) e = Some en \<longleftrightarrow> (e, en) \<in> set (sl_order c)"
  by (auto simp: sl_inv_def)

lemma sl_inv_unique: "sl_inv c \<Longrightarrow> (e, en) \<in> set (sl_order c) \<Longrightarrow> (e, en') \<in> set (sl_order c) \<Longrightarrow> en = en'"
  by (auto simp: sl_inv_def eq_key_imp_eq_value)

lemma sl_items_iff:
  "sl_inv c \<Longrightarrow> sl_items c k = Some e \<longleftrightarrow> (\<exists>en. (e, en) \<in> set (sl_order c) \<and> ce_key en = k)"
  by (auto simp: sl_inv_def)

lemma set_list_Remove [simp]: "set (list_Remove e xs) = {x \<in> set xs. fst x \<noteq> e}"
  by (auto simp: list_Remove_def)

lemma distinct_list_Remove: "distinct (map fst xs) \<Longrightarrow> distinct (map fst (list_Remove e xs))"
  by (simp add: list_Remove_def distinct_map_filter)

lemma sum_list_Remove:
  "distinct (map fst xs) \<Longrightarrow> (e, en) \<in> set xs \<Longrightarrow>
   (\<Sum>x\<leftarrow>list_Remove e xs. f (snd x)) = (\<Sum>x\<leftarrow>xs. f (snd x)) - (f en :: int)"
proof (induction xs)
  case (Cons x xs)
  have "list_Remove e xs = xs" if "e \<notin> fst ` set xs"
    using that by (auto simp: list_Remove_def filter_id_conv)
  with Cons show ?case
    by (cases x; cases "fst x = e") (auto simp: list_Remove_def rev_image_eqI)
qed simp

lemma removeElement_eq:
  assumes "sl_inv c" "(e, en) \<in> set (sl_order c)"
  shows "removeElement e c = c\<lparr>sl_items := (sl_items c)(ce_key en := None), sl_order := list_Remove e (sl_order c),
            sl_currentSize := sl_currentSize c - ce_size en\<rparr>"
proof -
  have "map_of (sl_order c) e = Some en" using assms by (simp add: sl_inv_map_of)
  then show ?thesis by (simp add: removeElement_def)
qed

lemma removeElement_inv:
  assumes inv: "sl_inv c" and e: "(e, en) \<in> set (sl_order c)"
  shows "sl_inv (removeElement e c)"
proof -
  have key: "ce_key en' \<noteq> ce_key en" if "(e', en') \<in> set (sl_order c)" "e' \<noteq> e" for e' en'
    using inv e that by (metis sl_inv_def option.inject)
  let ?c = "removeElement e c"
  have "distinct (map fst (sl_order ?c))" "sl_currentSize ?c = (\<Sum>x\<leftarrow>sl_order ?c. ce_size (snd x))"
    using inv e by (simp_all add: removeElement_eq [OF assms] sl_inv_def distinct_list_Remove sum_list_Remove)
  moreover have "e' < sl_next ?c \<and> sl_items ?c (ce_key en') = Some e'" if "(e', en') \<in> set (sl_order ?c)" for e' en'
    using that inv key by (auto simp: removeElement_eq [OF assms] sl_inv_def)
  moreover have "\<exists>en'. (e', en') \<in> set (sl_order ?c) \<and> ce_key en' = k" if k: "sl_items ?c k = Some e'" for k e'
  proof -
    from k have "k \<noteq> ce_key en" "sl_items c k = Some e'" by (auto simp: removeElement_eq [OF assms] split: if_splits)
    then obtain en' where en': "(e', en') \<in> set (sl_order c)" "ce_key en' = k" using inv sl_items_iff by blast
    with \<open>k \<noteq> ce_key en\<close> have "e' \<noteq> e" using sl_inv_unique [OF inv e] by auto
    with en' show ?thesis by (auto simp: removeElement_eq [OF assms])
  qed
  ultimately show ?thesis unfolding sl_inv_def by blast
qed

lemma move_front_inv:
  assumes inv: "sl_inv c" and e: "(e, en) \<in> set (sl_order c)" and k: "ce_key en' = ce_key en"
    and c': "c' = c\<lparr>sl_currentSize := sl_currentSize c - ce_size en + ce_size en', sl_order := list_MoveToFront e en' (sl_order c)\<rparr>"
  shows "sl_inv c'"
proof -
  have "distinct (map fst (sl_order c'))" "sl_currentSize c' = (\<Sum>x\<leftarrow>sl_order c'. ce_size (snd x))"
    using inv e by (auto simp: c' list_MoveToFront_def sl_inv_def distinct_list_Remove sum_list_Remove)
  moreover have "e' < sl_next c' \<and> sl_items c' (ce_key en'') = Some e'" if "(e', en'') \<in> set (sl_order c')" for e' en''
    using that inv e k by (auto simp: c' sl_inv_def list_MoveToFront_def)
  moreover have "\<exists>en''. (e', en'') \<in> set (sl_order c') \<and> ce_key en'' = j" if j: "sl_items c' j = Some e'" for j e'
  proof -
    obtain en'' where "(e', en'') \<in> set (sl_order c)" "ce_key en'' = j" using j sl_items_iff [OF inv] by (auto simp: c')
    then show ?thesis using k sl_inv_unique [OF inv e] by (cases "e' = e") (auto simp: c' list_MoveToFront_def)
  qed
  ultimately show ?thesis unfolding sl_inv_def by blast
qed

lemma list_Remove_last:
  assumes "distinct (map fst xs)" "xs \<noteq> []"
  shows "list_Remove (fst (last xs)) xs = butlast xs"
proof -
  obtain ys y where xs: "xs = ys @ [y]" using assms(2) by (metis append_butlast_last_id)
  with assms(1) have "fst y \<notin> fst ` set ys" by simp
  then have "list_Remove (fst y) ys = ys" unfolding list_Remove_def by (intro filter_True) (metis image_eqI)
  with xs show ?thesis by (simp add: list_Remove_def)
qed

text \<open>The eviction loop keeps the longest front part of the list that leaves room for the new entry.\<close>

lemma evict_oldest_spec:
  assumes "sl_inv c"
  shows "sl_inv (evict_oldest sz c) \<and> sl_capacity (evict_oldest sz c) = sl_capacity c \<and> sl_ttl (evict_oldest sz c) = sl_ttl c \<and>
    (\<exists>n \<le> length (sl_order c). sl_order (evict_oldest sz c) = take n (sl_order c) \<and>
       (n = 0 \<or> sl_currentSize (evict_oldest sz c) + sz \<le> sl_capacity c) \<and>
       (n < length (sl_order c) \<longrightarrow> (\<Sum>x\<leftarrow>take (Suc n) (sl_order c). ce_size (snd x)) + sz > sl_capacity c))"
  using assms
proof (induction sz c rule: evict_oldest.induct)
  case (1 sz c)
  show ?case
  proof (cases "sl_currentSize c + sz > sl_capacity c \<and> sl_order c \<noteq> []")
    case False
    then show ?thesis using 1(2) by (subst (1 2 3 4 5) evict_oldest.simps) (auto intro: exI [of _ "length (sl_order c)"])
  next
    case True
    let ?e = "fst (last (sl_order c))" and ?xs = "sl_order c"
    let ?c1 = "removeElement ?e c"
    obtain en where en: "(?e, en) \<in> set ?xs" using True by (metis last_in_set prod.collapse)
    have d: "distinct (map fst ?xs)" using 1(2) by (simp add: sl_inv_def)
    have c1: "sl_order ?c1 = butlast ?xs" "sl_capacity ?c1 = sl_capacity c" "sl_ttl ?c1 = sl_ttl c"
      using removeElement_eq [OF 1(2) en] list_Remove_last [OF d] True by simp_all
    from 1(1) [OF True removeElement_inv [OF 1(2) en]] obtain n where n: "n \<le> length (butlast ?xs)"
        "sl_order (evict_oldest sz ?c1) = take n (butlast ?xs)"
        "n = 0 \<or> sl_currentSize (evict_oldest sz ?c1) + sz \<le> sl_capacity c"
        "n < length (butlast ?xs) \<longrightarrow> (\<Sum>x\<leftarrow>take (Suc n) (butlast ?xs). ce_size (snd x)) + sz > sl_capacity c"
      and inv1: "sl_inv (evict_oldest sz ?c1)" "sl_capacity (evict_oldest sz ?c1) = sl_capacity c"
        "sl_ttl (evict_oldest sz ?c1) = sl_ttl c"
      using c1 by auto
    have "length ?xs \<noteq> 0" using True by simp
    then have nl: "n < length ?xs" using n(1) unfolding length_butlast by arith
    have "(\<Sum>x\<leftarrow>take (Suc n) ?xs. ce_size (snd x)) + sz > sl_capacity c"
    proof (cases "n < length (butlast ?xs)")
      case True
      with n(4) show ?thesis by (auto simp: butlast_conv_take min_def split: if_splits)
    next
      case False
      with n(1) True have "take (Suc n) ?xs = ?xs" by simp
      then show ?thesis using True 1(2) by (simp add: sl_inv_def)
    qed
    then have "\<exists>n \<le> length ?xs. sl_order (evict_oldest sz ?c1) = take n ?xs \<and>
       (n = 0 \<or> sl_currentSize (evict_oldest sz ?c1) + sz \<le> sl_capacity c) \<and>
       (n < length ?xs \<longrightarrow> (\<Sum>x\<leftarrow>take (Suc n) ?xs. ce_size (snd x)) + sz > sl_capacity c)"
      using n nl by (intro exI [of _ n]) (simp add: take_butlast)
    with True inv1 show ?thesis by (subst (1 2 3 4 5) evict_oldest.simps) simp
  qed
qed

subsection \<open>What the operations find\<close>

text \<open>The answer of a lookup at time \<open>t\<close>.\<close>

lemma sl_Get_Some_iff:
  assumes inv: "sl_inv c"
  shows "snd (sl_Get t k c) = Some v \<longleftrightarrow>
     (\<exists>e en. (e, en) \<in> set (sl_order c) \<and> ce_key en = k \<and> t \<le> ce_expiresAt en \<and> ce_value en = v)"
proof (cases "sl_items c k")
  case None
  then have "\<not> (\<exists>e en. (e, en) \<in> set (sl_order c) \<and> ce_key en = k)" using sl_items_iff [OF inv, of k] by auto
  with None show ?thesis by (auto simp: sl_Get_def)
next
  case (Some e)
  then obtain en where en: "(e, en) \<in> set (sl_order c)" "ce_key en = k" using sl_items_iff [OF inv] by blast
  have u: "en' = en" if n: "(e', en') \<in> set (sl_order c)" "ce_key en' = k" for e' en'
  proof -
    have "sl_items c k = Some e'" using n sl_items_iff [OF inv] by blast
    with Some n(1) show ?thesis using sl_inv_unique [OF inv en(1)] by simp
  qed
  have "map_of (sl_order c) e = Some en" using inv en by (simp add: sl_inv_map_of)
  with Some have g: "snd (sl_Get t k c) = (if t \<le> ce_expiresAt en then Some (ce_value en) else None)"
    by (simp add: sl_Get_def)
  show ?thesis
  proof
    assume "snd (sl_Get t k c) = Some v"
    with g en show "\<exists>e en. (e, en) \<in> set (sl_order c) \<and> ce_key en = k \<and> t \<le> ce_expiresAt en \<and> ce_value en = v"
      by (auto split: if_splits)
  next
    assume "\<exists>e en. (e, en) \<in> set (sl_order c) \<and> ce_key en = k \<and> t \<le> ce_expiresAt en \<and> ce_value en = v"
    then obtain e' en' where "(e', en') \<in> set (sl_order c)" "ce_key en' = k" "t \<le> ce_expiresAt en'" "ce_value en' = v"
      by blast
    then show "snd (sl_Get t k c) = Some v" using u [of e' en'] g by simp
  qed
qed

lemma sl_Get_inv:
  assumes inv: "sl_inv c" shows "sl_inv (fst (sl_Get now k c))"
proof (cases "sl_items c k")
  case (Some e)
  then obtain en where en: "(e, en) \<in> set (sl_order c)" using sl_items_iff [OF inv] by blast
  then have m: "map_of (sl_order c) e = Some en" using inv by (simp add: sl_inv_map_of)
  show ?thesis
    using Some m removeElement_inv [OF inv en] move_front_inv [OF inv en, of "en\<lparr>ce_lastPromoted := now\<rparr>"]
    by (auto simp: sl_Get_def)
qed (use inv in \<open>simp add: sl_Get_def\<close>)

lemma sl_Put_update:
  assumes inv: "sl_inv c" and e: "(e, en) \<in> set (sl_order c)" "ce_key en = k"
    and en': "en' = en\<lparr>ce_value := v, ce_size := sz, ce_expiresAt := now + sl_ttl c, ce_lastPromoted := now\<rparr>"
  shows "sl_Put now k v sz c = c\<lparr>sl_currentSize := sl_currentSize c - ce_size en + ce_size en',
           sl_order := list_MoveToFront e en' (sl_order c)\<rparr>"
proof -
  have "sl_items c k = Some e" "map_of (sl_order c) e = Some en"
    using e sl_items_iff [OF inv] sl_inv_map_of [OF inv] by auto
  then show ?thesis by (simp add: sl_Put_def en')
qed

lemma insert_front_inv:
  assumes inv: "sl_inv c" and nk: "\<And>e' en'. (e', en') \<in> set (sl_order c) \<Longrightarrow> ce_key en' \<noteq> k"
    and en: "ce_key en = k" "ce_size en = sz"
  shows "sl_inv (c\<lparr>sl_order := (sl_next c, en) # sl_order c, sl_items := (sl_items c)(k \<mapsto> sl_next c),
           sl_currentSize := sl_currentSize c + sz, sl_next := Suc (sl_next c)\<rparr>)" (is "sl_inv ?c")
proof -
  have "sl_next c \<notin> fst ` set (sl_order c)" using inv by (force simp: sl_inv_def)
  then have "distinct (map fst (sl_order ?c))" "sl_currentSize ?c = (\<Sum>x\<leftarrow>sl_order ?c. ce_size (snd x))"
    using inv en by (simp_all add: sl_inv_def)
  moreover have "e' < sl_next ?c \<and> sl_items ?c (ce_key en') = Some e'" if "(e', en') \<in> set (sl_order ?c)" for e' en'
    using that inv nk en by (auto simp: sl_inv_def less_SucI)
  moreover have "\<exists>en'. (e', en') \<in> set (sl_order ?c) \<and> ce_key en' = j" if j: "sl_items ?c j = Some e'" for j e'
    using j inv en sl_items_iff [OF inv] by (auto split: if_splits)
  ultimately show ?thesis unfolding sl_inv_def by blast
qed

lemma sl_Put_insert:
  assumes inv: "sl_inv c" and k: "sl_items c k = None"
  obtains n en where "n \<le> length (sl_order c)" "sl_order (sl_Put now k v sz c) = (sl_next (evict_oldest sz c), en) # take n (sl_order c)"
    "en = \<lparr>ce_key = k, ce_value = v, ce_size = sz, ce_expiresAt = now + sl_ttl c, ce_lastPromoted = now\<rparr>"
    "n = 0 \<or> sl_currentSize (sl_Put now k v sz c) \<le> sl_capacity c"
    "n < length (sl_order c) \<longrightarrow> (\<Sum>x\<leftarrow>take (Suc n) (sl_order c). ce_size (snd x)) + sz > sl_capacity c"
    "sl_inv (sl_Put now k v sz c)" "sl_capacity (sl_Put now k v sz c) = sl_capacity c" "sl_ttl (sl_Put now k v sz c) = sl_ttl c"
proof -
  let ?c1 = "evict_oldest sz c"
  define en where "en = \<lparr>ce_key = k, ce_value = v, ce_size = sz, ce_expiresAt = now + sl_ttl c, ce_lastPromoted = now\<rparr>"
  from evict_oldest_spec [OF inv, of sz] obtain n where n: "n \<le> length (sl_order c)" "sl_order ?c1 = take n (sl_order c)"
      "n = 0 \<or> sl_currentSize ?c1 + sz \<le> sl_capacity c"
      "n < length (sl_order c) \<longrightarrow> (\<Sum>x\<leftarrow>take (Suc n) (sl_order c). ce_size (snd x)) + sz > sl_capacity c"
    and c1: "sl_inv ?c1" "sl_capacity ?c1 = sl_capacity c" "sl_ttl ?c1 = sl_ttl c" by blast
  have p: "sl_Put now k v sz c = ?c1\<lparr>sl_order := (sl_next ?c1, en) # sl_order ?c1, sl_items := (sl_items ?c1)(k \<mapsto> sl_next ?c1),
                 sl_currentSize := sl_currentSize ?c1 + sz, sl_next := Suc (sl_next ?c1)\<rparr>"
    using k c1(3) by (simp add: sl_Put_def en_def Let_def)
  have nk: "ce_key en' \<noteq> k" if "(e', en') \<in> set (sl_order ?c1)" for e' en'
    using that n(2) k sl_items_iff [OF inv, of k] by (auto dest: in_set_takeD)
  have "sl_inv (sl_Put now k v sz c)" unfolding p by (rule insert_front_inv [OF c1(1) nk]) (simp_all add: en_def)
  then show thesis using that [of n en] n c1 by (simp add: p en_def)
qed

lemma option_eqI: "(\<And>v. x = Some v \<longleftrightarrow> y = Some v) \<Longrightarrow> x = y"
  by (cases x; cases y) auto

lemma sl_Put_inv: "sl_inv c \<Longrightarrow> sl_inv (sl_Put now k v sz c) \<and> sl_ttl (sl_Put now k v sz c) = sl_ttl c"
proof (cases "sl_items c k")
  case None
  assume "sl_inv c"
  from sl_Put_insert [OF this None] show ?thesis by metis
next
  case (Some e)
  assume inv: "sl_inv c"
  with Some obtain en where en: "(e, en) \<in> set (sl_order c)" "ce_key en = k" using sl_items_iff by blast
  have "sl_inv (sl_Put now k v sz c)"
    unfolding sl_Put_update [OF inv en refl] by (rule move_front_inv [OF inv en(1) _ refl]) simp
  then show ?thesis using sl_Put_update [OF inv en refl] by simp
qed

lemma sl_Put_entries:
  assumes inv: "sl_inv c"
  obtains e' en' where "(e', en') \<in> set (sl_order (sl_Put now k v sz c))" "ce_key en' = k" "ce_value en' = v"
    "ce_expiresAt en' = now + sl_ttl c"
    "\<And>x. x \<in> set (sl_order (sl_Put now k v sz c)) \<Longrightarrow> x = (e', en') \<or> x \<in> set (sl_order c)"
proof (cases "sl_items c k")
  case None
  from sl_Put_insert [OF inv None, of now v sz] that show thesis
    by (smt (verit) cacheEntry.select_convs(1,2,4) in_set_takeD list.set_intros(1) set_ConsD)
next
  case (Some e)
  then obtain en where en: "(e, en) \<in> set (sl_order c)" "ce_key en = k" using sl_items_iff [OF inv] by blast
  show thesis
    by (rule that [of e "en\<lparr>ce_value := v, ce_size := sz, ce_expiresAt := now + sl_ttl c, ce_lastPromoted := now\<rparr>"])
       (auto simp: sl_Put_update [OF inv en refl] en list_MoveToFront_def)
qed

lemma sl_lookup_put:
  assumes inv: "sl_inv c"
  shows "snd (sl_Get t k (sl_Put now k v sz c)) = (if t \<le> now + sl_ttl c then Some v else None)"
proof -
  let ?c = "sl_Put now k v sz c"
  have inv': "sl_inv ?c" using sl_Put_inv [OF inv] by simp
  obtain e en where e: "(e, en) \<in> set (sl_order ?c)" "ce_key en = k" "ce_value en = v" "ce_expiresAt en = now + sl_ttl c"
    using sl_Put_entries [OF inv, of now k v sz] by metis
  have u: "en' = en" if "(e', en') \<in> set (sl_order ?c)" "ce_key en' = k" for e' en'
    using that e sl_items_iff [OF inv'] sl_inv_unique [OF inv'] by (metis option.inject)
  show ?thesis
  proof (rule option_eqI)
    fix w
    show "snd (sl_Get t k ?c) = Some w \<longleftrightarrow> (if t \<le> now + sl_ttl c then Some v else None) = Some w"
      unfolding sl_Get_Some_iff [OF inv'] using e u by (metis option.distinct(1) option.inject)
  qed
qed

lemma sl_lookup_put_other:
  assumes inv: "sl_inv c" and "j \<noteq> k" and "snd (sl_Get t j (sl_Put now k v sz c)) = Some w"
  shows "snd (sl_Get t j c) = Some w"
proof -
  have inv': "sl_inv (sl_Put now k v sz c)" using sl_Put_inv [OF inv] by simp
  obtain e en where e: "(e, en) \<in> set (sl_order (sl_Put now k v sz c))" "ce_key en = j" "t \<le> ce_expiresAt en" "ce_value en = w"
    using assms(3) unfolding sl_Get_Some_iff [OF inv'] by blast
  then have "(e, en) \<in> set (sl_order c)"
    using sl_Put_entries [OF inv, of now k v sz] assms(2) by (metis prod.inject)
  with e show ?thesis unfolding sl_Get_Some_iff [OF inv] by blast
qed

lemma sl_Delete_entries:
  assumes inv: "sl_inv c"
  shows "sl_inv (sl_Delete k c) \<and> sl_ttl (sl_Delete k c) = sl_ttl c \<and>
    set (sl_order (sl_Delete k c)) = {x \<in> set (sl_order c). ce_key (snd x) \<noteq> k}"
proof (cases "sl_items c k")
  case None
  then have "ce_key (snd x) \<noteq> k" if "x \<in> set (sl_order c)" for x
    using that sl_items_iff [OF inv, of k] by (metis option.distinct(1) prod.collapse)
  with None inv show ?thesis by (auto simp: sl_Delete_def)
next
  case (Some e)
  then obtain en where en: "(e, en) \<in> set (sl_order c)" "ce_key en = k" using sl_items_iff [OF inv] by blast
  have "fst x \<noteq> e \<longleftrightarrow> ce_key (snd x) \<noteq> k" if "x \<in> set (sl_order c)" for x
    using that en Some sl_items_iff [OF inv] sl_inv_unique [OF inv] by (metis option.inject prod.collapse)
  then show ?thesis using Some removeElement_inv [OF inv en(1)] by (auto simp: sl_Delete_def removeElement_eq [OF inv en(1)])
qed

lemma sl_lookup_delete:
  assumes inv: "sl_inv c"
  shows "snd (sl_Get t j (sl_Delete k c)) = (if j = k then None else snd (sl_Get t j c))"
proof (rule option_eqI)
  fix v
  have i: "sl_inv (sl_Delete k c)" using sl_Delete_entries [OF inv] by simp
  show "snd (sl_Get t j (sl_Delete k c)) = Some v \<longleftrightarrow> (if j = k then None else snd (sl_Get t j c)) = Some v"
    using sl_Get_Some_iff [OF i, of t j v] sl_Get_Some_iff [OF inv, of t j v] sl_Delete_entries [OF inv, of k] by auto
qed

text \<open>Looking up and sweeping keep every entry that is still valid.\<close>

definition same_entry :: "'v cacheEntry \<Rightarrow> 'v cacheEntry \<Rightarrow> bool" where
  "same_entry a b \<longleftrightarrow> ce_key a = ce_key b \<and> ce_expiresAt a = ce_expiresAt b \<and> ce_value a = ce_value b"

lemma same_entry_refl [simp]: "same_entry a a"
  by (simp add: same_entry_def)

lemma sl_lookup_same:
  assumes "sl_inv c" "sl_inv c'"
    and 1: "\<And>e en. (e, en) \<in> set (sl_order c') \<Longrightarrow> t \<le> ce_expiresAt en \<Longrightarrow> \<exists>e2 en2. (e2, en2) \<in> set (sl_order c) \<and> same_entry en en2"
    and 2: "\<And>e en. (e, en) \<in> set (sl_order c) \<Longrightarrow> t \<le> ce_expiresAt en \<Longrightarrow> \<exists>e2 en2. (e2, en2) \<in> set (sl_order c') \<and> same_entry en en2"
  shows "snd (sl_Get t j c') = snd (sl_Get t j c)"
proof (rule option_eqI)
  fix v
  show "snd (sl_Get t j c') = Some v \<longleftrightarrow> snd (sl_Get t j c) = Some v"
    unfolding sl_Get_Some_iff [OF assms(1)] sl_Get_Some_iff [OF assms(2)]
    using 1 2 unfolding same_entry_def by metis
qed

lemma sl_lookup_touch:
  assumes inv: "sl_inv c" and "now \<le> t"
  shows "snd (sl_Get t j (fst (sl_Get now k c))) = snd (sl_Get t j c)"
proof (cases "sl_items c k")
  case None
  then show ?thesis by (simp add: sl_Get_def)
next
  case (Some e)
  then obtain en where en: "(e, en) \<in> set (sl_order c)" using sl_items_iff [OF inv] by blast
  then have m: "map_of (sl_order c) e = Some en" using inv by (simp add: sl_inv_map_of)
  have u: "en' = en" if "(e, en') \<in> set (sl_order c)" for en' using that en sl_inv_unique [OF inv] by blast
  have exp: "set (sl_order (fst (sl_Get now k c))) = {x \<in> set (sl_order c). fst x \<noteq> e}" if "now > ce_expiresAt en"
    using that Some m by (simp add: sl_Get_def removeElement_eq [OF inv en])
  have hit: "set (sl_order (fst (sl_Get now k c))) = insert (e, en\<lparr>ce_lastPromoted := now\<rparr>) {x \<in> set (sl_order c). fst x \<noteq> e}"
    if "\<not> now > ce_expiresAt en" using that Some m by (simp add: sl_Get_def list_MoveToFront_def)
  have same: "same_entry en (en\<lparr>ce_lastPromoted := now\<rparr>)" "same_entry (en\<lparr>ce_lastPromoted := now\<rparr>) en"
    by (simp_all add: same_entry_def)
  show ?thesis
  proof (rule sl_lookup_same [OF inv sl_Get_inv [OF inv]], goal_cases)
    case (1 e' en')
    then have "(e', en') \<in> set (sl_order c) \<or> (e', en') = (e, en\<lparr>ce_lastPromoted := now\<rparr>)"
      using exp hit by (cases "now > ce_expiresAt en") auto
    then show ?case using en same same_entry_refl by blast
  next
    case (2 e' en')
    show ?case
    proof (cases "e' = e")
      case True
      then have "en' = en" using 2(1) u by simp
      then have "\<not> now > ce_expiresAt en" using 2(2) assms(2) by simp
      then show ?thesis using hit same \<open>en' = en\<close> by auto
    next
      case False
      then show ?thesis using 2(1) exp hit by (cases "now > ce_expiresAt en") (auto intro!: exI [of _ e'] exI [of _ en'])
    qed
  qed
qed

lemma sweep_fold:
  "sl_inv c \<Longrightarrow> set es \<subseteq> fst ` set (sl_order c) \<Longrightarrow> distinct es \<Longrightarrow>
   sl_inv (foldl (\<lambda>c e. removeElement e c) c es) \<and> sl_ttl (foldl (\<lambda>c e. removeElement e c) c es) = sl_ttl c \<and>
   set (sl_order (foldl (\<lambda>c e. removeElement e c) c es)) = {x \<in> set (sl_order c). fst x \<notin> set es}"
proof (induction es arbitrary: c)
  case (Cons e es)
  then obtain en where en: "(e, en) \<in> set (sl_order c)" by auto
  note r = removeElement_eq [OF Cons.prems(1) en]
  have "set es \<subseteq> fst ` set (sl_order (removeElement e c))" using Cons.prems(2,3) by (force simp: r)
  from Cons.IH [OF removeElement_inv [OF Cons.prems(1) en] this] Cons.prems(3) show ?case by (auto simp: r)
qed simp

lemma sl_Cleanup_entries:
  assumes inv: "sl_inv c"
  shows "sl_inv (fst (sl_CleanupExpired now c)) \<and> sl_ttl (fst (sl_CleanupExpired now c)) = sl_ttl c \<and>
    set (sl_order (fst (sl_CleanupExpired now c))) = {x \<in> set (sl_order c). now \<le> ce_expiresAt (snd x)}"
proof -
  let ?es = "map fst (filter (\<lambda>(e, entry). now > ce_expiresAt entry) (sl_order c))"
  have d: "distinct (map fst (sl_order c))" using inv by (simp add: sl_inv_def)
  have f: "e \<notin> set ?es \<longleftrightarrow> now \<le> ce_expiresAt en" if x: "(e, en) \<in> set (sl_order c)" for e en
  proof
    assume "e \<notin> set ?es"
    then have "(e, en) \<notin> set (filter (\<lambda>(e, entry). now > ce_expiresAt entry) (sl_order c))" by force
    with x show "now \<le> ce_expiresAt en" by simp
  next
    assume now: "now \<le> ce_expiresAt en"
    show "e \<notin> set ?es"
    proof
      assume "e \<in> set ?es"
      then obtain en' where "(e, en') \<in> set (sl_order c)" "now > ce_expiresAt en'" by auto
      with now show False using sl_inv_unique [OF inv x] by fastforce
    qed
  qed
  have "set ?es \<subseteq> fst ` set (sl_order c)" by auto
  note sw = sweep_fold [OF inv this distinct_map_filter [OF d]]
  have "{x \<in> set (sl_order c). fst x \<notin> set ?es} = {x \<in> set (sl_order c). now \<le> ce_expiresAt (snd x)}"
    using f by (intro Collect_cong) (metis prod.collapse)
  with sw show ?thesis by (simp only: sl_CleanupExpired_def Let_def fst_conv)
qed

lemma sl_lookup_sweep:
  assumes inv: "sl_inv c" and "now \<le> t"
  shows "snd (sl_Get t j (fst (sl_CleanupExpired now c))) = snd (sl_Get t j c)"
proof (rule sl_lookup_same [OF inv])
  show "sl_inv (fst (sl_CleanupExpired now c))" using sl_Cleanup_entries [OF inv] by simp
qed (use assms(2) sl_Cleanup_entries [OF inv, of now] in \<open>force intro: same_entry_refl\<close>)+

section \<open>The sharded cache provides the interface\<close>

definition lc_inv :: "int \<Rightarrow> 'v LRUCache \<Rightarrow> bool" where
  "lc_inv ttl c \<longleftrightarrow> length (lc_shards c) = 32 \<and> lc_shardMask c = 31 \<and>
     (\<forall>s \<in> set (lc_shards c). sl_inv s \<and> sl_ttl s = ttl)"

lemma lc_shard_inv:
  assumes "lc_inv ttl c"
  shows "sl_inv (lc_shards c ! shard_idx xx 31 k) \<and> sl_ttl (lc_shards c ! shard_idx xx 31 k) = ttl"
  using assms xx_shard.shard_in_set [of "lc_shards c" xx k] by (simp add: lc_inv_def)

lemma lc_upd_inv:
  assumes "lc_inv ttl c" "sl_inv s \<and> sl_ttl s = ttl"
  shows "lc_inv ttl (c\<lparr>lc_shards := (lc_shards c)[shard_idx xx 31 k := s]\<rparr>)"
  using assms by (auto simp: lc_inv_def dest!: set_update_subset_insert [THEN subsetD])

lemma lc_lookup_eq: "lc_inv ttl c \<Longrightarrow> snd (lc_Get xx t k c) = snd (sl_Get t k (lc_shards c ! shard_idx xx 31 k))"
  by (simp add: lc_Get_def lc_inv_def lc_getShard_def split_beta Let_def)

lemma sl_new_inv: "sl_inv (newSimpleLRUCache cap ttl)" "sl_ttl (newSimpleLRUCache cap ttl) = effective_ttl ttl"
  by (simp_all add: newSimpleLRUCache_def sl_inv_def)

lemma lc_ops_eq:
  assumes "lc_inv ttl c"
  shows "lc_Put xx now k v sz c = c\<lparr>lc_shards := (lc_shards c)[shard_idx xx 31 k := sl_Put now k v sz (lc_shards c ! shard_idx xx 31 k)]\<rparr>"
    and "lc_Delete xx k c = c\<lparr>lc_shards := (lc_shards c)[shard_idx xx 31 k := sl_Delete k (lc_shards c ! shard_idx xx 31 k)]\<rparr>"
    and "fst (lc_Get xx now k c) = c\<lparr>lc_shards := (lc_shards c)[shard_idx xx 31 k := fst (sl_Get now k (lc_shards c ! shard_idx xx 31 k))]\<rparr>"
    and "length (lc_shards c) = 32"
  using assms by (simp_all add: lc_Put_def lc_Delete_def lc_Get_def lc_inv_def lc_getShard_def Let_def split_beta)

lemma sl_Get_ttl: "sl_ttl (fst (sl_Get now k c)) = sl_ttl c"
  by (simp add: sl_Get_def removeElement_def split: option.splits)

lemma lc_Sweep_inv: "lc_inv ttl c \<Longrightarrow> lc_inv ttl (fst (lc_CleanupExpired now c))"
  using sl_Cleanup_entries by (auto simp: lc_inv_def lc_CleanupExpired_def Let_def)

lemma lc_Put_inv: "lc_inv ttl c \<Longrightarrow> lc_inv ttl (lc_Put xx now k v sz c)"
  using lc_shard_inv [of ttl c xx k] by (simp add: lc_ops_eq [of ttl c] lc_upd_inv sl_Put_inv)

lemma lc_Delete_inv: "lc_inv ttl c \<Longrightarrow> lc_inv ttl (lc_Delete xx k c)"
  using lc_shard_inv [of ttl c xx k] by (simp add: lc_ops_eq [of ttl c] lc_upd_inv sl_Delete_entries)

lemma lc_Get_inv: "lc_inv ttl c \<Longrightarrow> lc_inv ttl (fst (lc_Get xx now k c))"
  using lc_shard_inv [of ttl c xx k] by (simp add: lc_ops_eq [of ttl c] lc_upd_inv sl_Get_inv sl_Get_ttl)

text \<open>Reading the shard of one key after the shard of another was replaced.\<close>

lemma lc_lookup_upd:
  assumes "lc_inv ttl c" "sl_inv s \<and> sl_ttl s = ttl"
  shows "snd (lc_Get xx t j (c\<lparr>lc_shards := (lc_shards c)[shard_idx xx 31 k := s]\<rparr>)) =
    (if shard_idx xx 31 j = shard_idx xx 31 k then snd (sl_Get t j s) else snd (lc_Get xx t j c))"
  using lc_lookup_eq [OF lc_upd_inv [OF assms]] lc_lookup_eq [OF assms(1)] assms(1)
  by (simp add: xx_shard.shard_at_upd lc_inv_def)

interpretation lru: ttl_cache "lc_inv (effective_ttl ttl0)" "\<lambda>c t k. snd (lc_Get xx t k c)"
    "\<lambda>now k w. lc_Put xx now k (fst w) (snd w)" "lc_Delete xx" "\<lambda>now k c. fst (lc_Get xx now k c)"
    "\<lambda>now c. fst (lc_CleanupExpired now c)" "effective_ttl ttl0" fst "NewLRUCache cap ttl0" for ttl0 xx cap
proof (unfold_locales, goal_cases)
  case 1
  show ?case by (auto simp: NewLRUCache_def Let_def lc_inv_def sl_new_inv)
next
  case (2 t k)
  then show ?case by (simp add: NewLRUCache_def Let_def lc_Get_def lc_getShard_def shard_kit newSimpleLRUCache_def sl_Get_def)
next
  case (7 c now k w t)
  then show ?case
    using lc_shard_inv [OF 7, of xx k] by (simp add: lc_ops_eq [OF 7] lc_lookup_upd [OF 7] sl_Put_inv sl_lookup_put)
next
  case (8 c j k now w t v)
  note s = lc_shard_inv [OF 8(1), of xx k]
  show ?case
    using 8(2,3) s sl_lookup_put_other [of "lc_shards c ! shard_idx xx 31 k" j k t now "fst w" "snd w" v]
    by (simp add: lc_ops_eq [OF 8(1)] lc_lookup_upd [OF 8(1)] sl_Put_inv lc_lookup_eq [OF 8(1)] split: if_splits)
next
  case (9 c k t j)
  then show ?case
    using lc_shard_inv [OF 9, of xx k]
    by (simp add: lc_ops_eq [OF 9] lc_lookup_upd [OF 9] sl_Delete_entries sl_lookup_delete lc_lookup_eq [OF 9])
next
  case (10 c now t k j)
  then show ?case
    using lc_shard_inv [OF 10(1), of xx k]
    by (simp add: lc_ops_eq [OF 10(1)] lc_lookup_upd [OF 10(1)] sl_Get_inv sl_Get_ttl sl_lookup_touch lc_lookup_eq [OF 10(1)])
next
  case (11 c now t j)
  have "lc_shards (fst (lc_CleanupExpired now c)) ! shard_idx xx 31 j = fst (sl_CleanupExpired now (lc_shards c ! shard_idx xx 31 j))"
    using lc_ops_eq(4) [OF 11(1)] by (simp add: lc_CleanupExpired_def Let_def shard_idx_less)
  then show ?case
    using 11(2) lc_shard_inv [OF 11(1), of xx j]
    by (simp only: lc_lookup_eq [OF lc_Sweep_inv [OF 11(1)]] lc_lookup_eq [OF 11(1)]) (simp add: sl_lookup_sweep)
qed (simp_all add: lc_Put_inv lc_Delete_inv lc_Get_inv lc_Sweep_inv)

section \<open>Properties\<close>

text \<open>C9: after any timely history of stores, removals, lookups and sweeps on a fresh metadata cache, a
  lookup that answers returns the value the last store of that key stored, and only while it is not
  older than the time to live: no stale, removed or foreign metadata is ever served.\<close>

theorem lru_serves_last_store:
  assumes "timely ops t"
    and "snd (lc_Get xx t k (foldl (apply_op (\<lambda>now k w. lc_Put xx now k (fst w) (snd w)) (lc_Delete xx)
           (\<lambda>now k c. fst (lc_Get xx now k c)) (\<lambda>now c. fst (lc_CleanupExpired now c))) (NewLRUCache cap ttl) ops)) = Some v"
  shows "live (effective_ttl ttl) fst ops t k v"
  using lru.lookup_run_live [OF assms] .

theorem lru_serves_last_store_witness:
  "live (effective_ttl 5) fst [Store 0 ''k'' (True, 3 :: int), Touch 2 ''k'', Store 3 ''j'' (False, 3)] 4 ''k'' True"
proof -
  let ?c = "foldl (apply_op (\<lambda>now k w. lc_Put (\<lambda>_. 0) now k (fst w) (snd w)) (lc_Delete (\<lambda>_. 0))
     (\<lambda>now k c. fst (lc_Get (\<lambda>_. 0) now k c)) (\<lambda>now c. fst (lc_CleanupExpired now c))) (NewLRUCache 3200 5)
       [Store 0 ''k'' (True, 3), Touch 2 ''k'', Store 3 ''j'' (False, 3)]"
  have "snd (lc_Get (\<lambda>_. 0) 4 ''k'' ?c) = Some True"
    by (simp add: lc_Get_def lc_Put_def NewLRUCache_def newSimpleLRUCache_def Let_def sl_Put_def sl_Get_def
      lc_getShard_def shard_idx_def evict_oldest.simps effective_ttl_def list_MoveToFront_def list_Remove_def go_simps)
  then show ?thesis by (rule lru_serves_last_store [rotated]) (simp add: timely_def)
qed

text \<open>C10: storing a new entry evicts only from the least recently used end, and no more than needed:
  the shard's list afterwards is the new entry followed by a front part of the old list, cut at the
  last place where the entry fits. An entry that fits the shard's capacity leaves the shard within
  capacity.\<close>

theorem lru_put_evicts_lru:
  assumes inv: "sl_inv c" and new: "sl_items c k = None"
    and fits: "sz \<le> sl_capacity c"
  shows "\<exists>e en n. sl_order (sl_Put now k v sz c) = (e, en) # take n (sl_order c) \<and>
     ce_key en = k \<and> ce_value en = v \<and> ce_expiresAt en = now + sl_ttl c \<and>
     (n < length (sl_order c) \<longrightarrow> (\<Sum>x\<leftarrow>take (Suc n) (sl_order c). ce_size (snd x)) + sz > sl_capacity c) \<and>
     sl_inv (sl_Put now k v sz c) \<and> sl_currentSize (sl_Put now k v sz c) \<le> sl_capacity c"
proof -
  from sl_Put_insert [OF inv new, of now v sz] obtain n en where n:
      "sl_order (sl_Put now k v sz c) = (sl_next (evict_oldest sz c), en) # take n (sl_order c)"
      "en = \<lparr>ce_key = k, ce_value = v, ce_size = sz, ce_expiresAt = now + sl_ttl c, ce_lastPromoted = now\<rparr>"
      "n = 0 \<or> sl_currentSize (sl_Put now k v sz c) \<le> sl_capacity c"
      "n < length (sl_order c) \<longrightarrow> (\<Sum>x\<leftarrow>take (Suc n) (sl_order c). ce_size (snd x)) + sz > sl_capacity c"
      "sl_inv (sl_Put now k v sz c)" by metis
  have "sl_currentSize (sl_Put now k v sz c) \<le> sl_capacity c"
    using n fits by (cases "n = 0") (auto simp: sl_inv_def)
  then show ?thesis using n by auto
qed

theorem lru_put_evicts_lru_witness:
  "let c = newSimpleLRUCache 10 5; c1 = sl_Put 1 ''a'' True 6 c; c2 = sl_Put 2 ''b'' False 6 c1
   in sl_currentSize c2 \<le> 10 \<and> map (ce_key \<circ> snd) (sl_order c2) = [''b'']"
proof -
  define c1 :: "bool simpleLRUCache" where "c1 = sl_Put 1 ''a'' True 6 (newSimpleLRUCache 10 5)"
  have c1: "sl_items c1 ''b'' = None" "sl_capacity c1 = 10" "sl_inv c1"
    by (simp_all add: c1_def newSimpleLRUCache_def sl_Put_def evict_oldest.simps Let_def sl_inv_def)
  then have "sl_currentSize (sl_Put 2 ''b'' False 6 c1) \<le> 10"
    using lru_put_evicts_lru [of c1 "''b''" 6 2 False] by auto
  moreover have "map (ce_key \<circ> snd) (sl_order (sl_Put 2 ''b'' False 6 c1)) = [''b'']"
    by (simp add: c1_def newSimpleLRUCache_def sl_Put_def evict_oldest.simps Let_def removeElement_def list_Remove_def)
  ultimately show ?thesis by (simp add: c1_def Let_def)
qed

end
