(* ===== verification/DirCache.thy ===== *)
theory DirCache
  imports CacheSpec
begin

text \<open>
  The directory-listing cache of \<^verbatim>\<open>dircache.go\<close>: a map from paths to entries with an expiry time.
  The listing type (\<^verbatim>\<open>fuse.DirEntry\<close>) is a type parameter. A lookup of an expired entry removes it.
\<close>

record 'd DirCacheEntry =
  de_Entries :: "'d list"
  de_ExpiresAt :: int

record 'd DirCache =
  dc_cache :: "path \<rightharpoonup> 'd DirCacheEntry"
  dc_ttl :: int


definition dc_Delete :: "path \<Rightarrow> 'd DirCache \<Rightarrow> 'd DirCache" where
  "dc_Delete p c = c\<lparr>dc_cache := (dc_cache c)(p := None)\<rparr>"

definition dc_Get :: "int \<Rightarrow> path \<Rightarrow> 'd DirCache \<Rightarrow> 'd DirCache \<times> 'd list option" where
  "dc_Get now p c =
     (case dc_cache c p of
        None \<Rightarrow> (c, None)
      | Some entry \<Rightarrow> if now > de_ExpiresAt entry then (dc_Delete p c, None) else (c, Some (de_Entries entry)))"

text \<open>\<^verbatim>\<open>Put\<close> stores a copy: \<^verbatim>\<open>make\<close> of the same length filled by \<^verbatim>\<open>copy\<close>; \<open>z\<close> is the zero value.\<close>

definition dc_Put :: "'d \<Rightarrow> int \<Rightarrow> path \<Rightarrow> 'd list \<Rightarrow> 'd DirCache \<Rightarrow> 'd DirCache" where
  "dc_Put z now p entries c =
     (let entriesCopy = go_copy (replicate (length entries) z) entries
      in c\<lparr>dc_cache := (dc_cache c)(p \<mapsto> \<lparr>de_Entries = entriesCopy, de_ExpiresAt = now + dc_ttl c\<rparr>)\<rparr>)"



lemma dc_Put_cache [simp]:
  "dc_cache (dc_Put z now p es c) = (dc_cache c)(p \<mapsto> \<lparr>de_Entries = es, de_ExpiresAt = now + dc_ttl c\<rparr>)"
  "dc_ttl (dc_Put z now p es c) = dc_ttl c"
  by (simp_all add: dc_Put_def Let_def go_copy_same_length)


lemma dc_Get_ttl [simp]: "dc_ttl (fst (dc_Get now p c)) = dc_ttl c"
  by (auto simp: dc_Get_def dc_Delete_def split: option.splits)




end
