(* ===== verification/Locks.thy ===== *)
theory Locks
  imports Prelude
begin

text \<open>
  The per-file lock manager of \<^verbatim>\<open>locks.go\<close>: a map from paths to reference-counted mutexes. \<^verbatim>\<open>Lock\<close> and
  \<^verbatim>\<open>TryLock\<close> are not atomic: each takes the manager's own mutex to find or create the entry and count
  itself in, lets it go, and only then waits for (or tries) the entry's mutex; the returned unlock
  function releases the entry's mutex and takes the manager's mutex again to count itself out and drop
  the entry at zero. The model is a step relation over all threads with one step per critical section,
  so every interleaving of these parts is covered. Entries are objects with an identity: a path whose
  entry was dropped gets a new one.
\<close>

section \<open>State\<close>

text \<open>The mutex of an entry is its holder. Threads are numbers; \<open>Blocked\<close> and \<open>Trying\<close> are the points
  after the first critical section of \<^verbatim>\<open>Lock\<close> and \<^verbatim>\<open>TryLock\<close>, \<open>Released\<close> the point before the last
  one.\<close>

record lockEntry =
  le_mu :: "nat option"
  le_refCount :: int

datatype pc = Idle | Blocked path nat | Trying path nat | Holding path nat | Released path nat

record LockManager =
  lm_locks :: "path \<rightharpoonup> nat"
  lm_heap :: "nat \<Rightarrow> lockEntry"
  lm_next :: nat
  lm_pc :: "nat \<Rightarrow> pc"

definition NewLockManager :: LockManager where
  "NewLockManager = \<lparr>lm_locks = Map.empty, lm_heap = (\<lambda>_. \<lparr>le_mu = None, le_refCount = 0\<rparr>), lm_next = 0, lm_pc = (\<lambda>_. Idle)\<rparr>"

section \<open>The critical sections\<close>

text \<open>The first part of \<^verbatim>\<open>Lock\<close> and \<^verbatim>\<open>TryLock\<close>: find or create the entry and count in.\<close>

definition enter :: "path \<Rightarrow> LockManager \<Rightarrow> nat \<times> LockManager" where
  "enter p lm =
     (let (e, lm1) =
        (case lm_locks lm p of
           Some e \<Rightarrow> (e, lm)
         | None \<Rightarrow> (lm_next lm, lm\<lparr>lm_heap := (lm_heap lm)(lm_next lm := \<lparr>le_mu = None, le_refCount = 0\<rparr>),
                                lm_locks := (lm_locks lm)(p \<mapsto> lm_next lm), lm_next := Suc (lm_next lm)\<rparr>))
      in (e, lm1\<lparr>lm_heap := (lm_heap lm1)(e := (lm_heap lm1 e)\<lparr>le_refCount := le_refCount (lm_heap lm1 e) + 1\<rparr>)\<rparr>))"

text \<open>The last part of the unlock function and of a failed \<^verbatim>\<open>TryLock\<close>: count out, drop at zero.\<close>

definition leave :: "path \<Rightarrow> nat \<Rightarrow> LockManager \<Rightarrow> LockManager" where
  "leave p e lm =
     (let n = le_refCount (lm_heap lm e) - 1;
          lm1 = lm\<lparr>lm_heap := (lm_heap lm)(e := (lm_heap lm e)\<lparr>le_refCount := n\<rparr>)\<rparr>
      in if n \<le> 0 then lm1\<lparr>lm_locks := (lm_locks lm1)(p := None)\<rparr> else lm1)"

definition set_mu :: "nat \<Rightarrow> nat option \<Rightarrow> LockManager \<Rightarrow> LockManager" where
  "set_mu e o' lm = lm\<lparr>lm_heap := (lm_heap lm)(e := (lm_heap lm e)\<lparr>le_mu := o'\<rparr>)\<rparr>"

definition goto :: "nat \<Rightarrow> pc \<Rightarrow> LockManager \<Rightarrow> LockManager" where
  "goto t l lm = lm\<lparr>lm_pc := (lm_pc lm)(t := l)\<rparr>"

definition lm_Stats :: "LockManager \<Rightarrow> int" where
  "lm_Stats lm = mlen (lm_locks lm)"

inductive lm_step :: "LockManager \<Rightarrow> LockManager \<Rightarrow> bool" where
  Lock_enter: "lm_pc lm t = Idle \<Longrightarrow> enter p lm = (e, lm') \<Longrightarrow> lm_step lm (goto t (Blocked p e) lm')"
| Lock_acquire: "lm_pc lm t = Blocked p e \<Longrightarrow> le_mu (lm_heap lm e) = None \<Longrightarrow>
     lm_step lm (goto t (Holding p e) (set_mu e (Some t) lm))"
| TryLock_enter: "lm_pc lm t = Idle \<Longrightarrow> enter p lm = (e, lm') \<Longrightarrow> lm_step lm (goto t (Trying p e) lm')"
| TryLock_acquire: "lm_pc lm t = Trying p e \<Longrightarrow> le_mu (lm_heap lm e) = None \<Longrightarrow>
     lm_step lm (goto t (Holding p e) (set_mu e (Some t) lm))"
| TryLock_fail: "lm_pc lm t = Trying p e \<Longrightarrow> le_mu (lm_heap lm e) \<noteq> None \<Longrightarrow> lm_step lm (goto t (Released p e) lm)"
| Unlock: "lm_pc lm t = Holding p e \<Longrightarrow> lm_step lm (goto t (Released p e) (set_mu e None lm))"
| Count_out: "lm_pc lm t = Released p e \<Longrightarrow> lm_step lm (goto t Idle (leave p e lm))"

abbreviation lm_reachable :: "LockManager \<Rightarrow> bool" where
  "lm_reachable \<equiv> reachable (\<lambda>lm. lm = NewLockManager) lm_step"

section \<open>The invariant\<close>

fun at_entry :: "pc \<Rightarrow> (path \<times> nat) option" where
  "at_entry Idle = None"
| "at_entry (Blocked p e) = Some (p, e)"
| "at_entry (Trying p e) = Some (p, e)"
| "at_entry (Holding p e) = Some (p, e)"
| "at_entry (Released p e) = Some (p, e)"

definition users :: "LockManager \<Rightarrow> path \<Rightarrow> nat \<Rightarrow> nat set" where
  "users lm p e = {t. at_entry (lm_pc lm t) = Some (p, e)}"

text \<open>Every thread inside an operation uses the entry the map has for its path; an entry's count is the
  number of its users and is positive; an entry serves one path; its mutex is held by exactly the thread
  that is between acquiring and releasing it.\<close>

definition lm_inv :: "LockManager \<Rightarrow> bool" where
  "lm_inv lm \<longleftrightarrow>
     (\<forall>t p e. at_entry (lm_pc lm t) = Some (p, e) \<longrightarrow> lm_locks lm p = Some e) \<and>
     (\<forall>p e. lm_locks lm p = Some e \<longrightarrow>
        e < lm_next lm \<and> finite (users lm p e) \<and> users lm p e \<noteq> {} \<and>
        le_refCount (lm_heap lm e) = int (card (users lm p e)) \<and>
        (\<forall>t. le_mu (lm_heap lm e) = Some t \<longleftrightarrow> lm_pc lm t = Holding p e) \<and>
        (\<forall>q. lm_locks lm q = Some e \<longrightarrow> q = p))"

lemma lm_inv_new: "lm_inv NewLockManager"
  by (simp add: lm_inv_def NewLockManager_def)

lemma lm_invD:
  assumes "lm_inv lm"
  shows "at_entry (lm_pc lm t) = Some (p, e) \<Longrightarrow> lm_locks lm p = Some e"
    and "lm_locks lm p = Some e \<Longrightarrow> e < lm_next lm"
    and "lm_locks lm p = Some e \<Longrightarrow> finite (users lm p e)"
    and "lm_locks lm p = Some e \<Longrightarrow> users lm p e \<noteq> {}"
    and "lm_locks lm p = Some e \<Longrightarrow> le_refCount (lm_heap lm e) = int (card (users lm p e))"
    and "lm_locks lm p = Some e \<Longrightarrow> le_mu (lm_heap lm e) = Some t \<longleftrightarrow> lm_pc lm t = Holding p e"
    and "lm_locks lm p = Some e \<Longrightarrow> lm_locks lm q = Some e \<Longrightarrow> q = p"
  using assms unfolding lm_inv_def by blast+

lemma users_goto:
  "users (goto t l lm) p e = (if at_entry l = Some (p, e) then insert t (users lm p e) else users lm p e - {t})"
  by (auto simp: users_def goto_def)

lemma goto_simps [simp]:
  "lm_locks (goto t l lm) = lm_locks lm" "lm_heap (goto t l lm) = lm_heap lm" "lm_next (goto t l lm) = lm_next lm"
  "lm_pc (goto t l lm) u = (if u = t then l else lm_pc lm u)"
  by (simp_all add: goto_def)

lemma set_mu_simps [simp]:
  "lm_locks (set_mu e m lm) = lm_locks lm" "lm_next (set_mu e m lm) = lm_next lm" "lm_pc (set_mu e m lm) = lm_pc lm"
  "lm_heap (set_mu e m lm) d = (if d = e then (lm_heap lm e)\<lparr>le_mu := m\<rparr> else lm_heap lm d)"
  by (simp_all add: set_mu_def)

lemma users_pc: "lm_pc lm' = lm_pc lm \<Longrightarrow> users lm' = users lm"
  by (simp add: users_def fun_eq_iff)

text \<open>A step that stays at the same entry and moves the mutex with the position.\<close>

lemma lm_inv_move:
  assumes inv: "lm_inv lm" and t: "at_entry (lm_pc lm t) = Some (p, e)" and l: "at_entry l = Some (p, e)"
    and mu: "\<And>u. m = Some u \<longleftrightarrow> (if u = t then l else lm_pc lm u) = Holding p e"
  shows "lm_inv (goto t l (set_mu e m lm))"
proof -
  have pe: "lm_locks lm p = Some e" using lm_invD(1) [OF inv t] .
  have us: "users (goto t l (set_mu e m lm)) q d = users lm q d" for q d
    using t l by (auto simp: users_goto users_pc [of "set_mu e m lm" lm]) (auto simp: users_def)
  have pq: "q = p \<longleftrightarrow> d = e" if "lm_locks lm q = Some d" for q d
    using that pe lm_invD(7) [OF inv] by (metis option.inject)
  show ?thesis
    unfolding lm_inv_def us goto_simps set_mu_simps
  proof (intro conjI allI impI)
    fix u q d assume "at_entry (if u = t then l else lm_pc lm u) = Some (q, d)"
    then show "lm_locks lm q = Some d" using lm_invD(1) [OF inv] l pe by (auto split: if_splits)
  next
    fix q d u assume qd: "lm_locks lm q = Some d"
    show "le_mu (if d = e then lm_heap lm e\<lparr>le_mu := m\<rparr> else lm_heap lm d) = Some u \<longleftrightarrow>
        (if u = t then l else lm_pc lm u) = Holding q d"
      using pq [OF qd] mu [of u] lm_invD(6) [OF inv qd, of u] l t by auto
  qed (use lm_invD [OF inv] in auto)
qed

lemma enter_cases:
  assumes "enter p lm = (e, lm')"
  obtains (old) "lm_locks lm p = Some e" "lm' = lm\<lparr>lm_heap := (lm_heap lm)(e := (lm_heap lm e)\<lparr>le_refCount := le_refCount (lm_heap lm e) + 1\<rparr>)\<rparr>"
    | (new) "lm_locks lm p = None" "e = lm_next lm"
        "lm' = lm\<lparr>lm_heap := (lm_heap lm)(e := \<lparr>le_mu = None, le_refCount = 1\<rparr>), lm_locks := (lm_locks lm)(p \<mapsto> e), lm_next := Suc e\<rparr>"
  using assms that by (cases "lm_locks lm p") (auto simp: enter_def Let_def)

lemma users_none: "lm_inv lm \<Longrightarrow> lm_locks lm p \<noteq> Some e \<Longrightarrow> users lm p e = {}"
  using lm_invD(1) by (auto simp: users_def)

lemma lm_inv_enter:
  assumes inv: "lm_inv lm" and t: "lm_pc lm t = Idle" and en: "enter p lm = (e, lm')"
    and l: "at_entry l = Some (p, e)" "l \<noteq> Holding p e"
  shows "lm_inv (goto t l lm')"
  using en
proof (cases rule: enter_cases)
  case old
  have "users lm' = users lm" by (rule users_pc) (simp add: old(2))
  then have us: "users (goto t l lm') q d = (if (q, d) = (p, e) then insert t (users lm p e) else users lm q d)" for q d
    using l t by (auto simp: users_goto) (auto simp: users_def)
  have tn: "t \<notin> users lm p e" using t by (simp add: users_def)
  have pq: "q = p \<longleftrightarrow> d = e" if "lm_locks lm q = Some d" for q d
    using that old(1) lm_invD(7) [OF inv] by (metis option.inject)
  have st: "lm_locks lm' = lm_locks lm" "lm_next lm' = lm_next lm" "lm_pc lm' = lm_pc lm"
     "lm_heap lm' = (lm_heap lm)(e := (lm_heap lm e)\<lparr>le_refCount := le_refCount (lm_heap lm e) + 1\<rparr>)" by (simp_all add: old(2))
  show ?thesis
    unfolding lm_inv_def us goto_simps st
  proof (intro conjI allI impI)
    fix u q d assume "at_entry (if u = t then l else lm_pc lm u) = Some (q, d)"
    then show "lm_locks lm q = Some d" using lm_invD(1) [OF inv] l old(1) by (auto split: if_splits)
  next
    fix q d assume qd: "lm_locks lm q = Some d"
    show "le_refCount (((lm_heap lm)(e := (lm_heap lm e)\<lparr>le_refCount := le_refCount (lm_heap lm e) + 1\<rparr>)) d) =
        int (card (if (q, d) = (p, e) then insert t (users lm p e) else users lm q d))"
      using pq [OF qd] lm_invD(3,5) [OF inv qd] tn by auto
    fix u
    show "le_mu (((lm_heap lm)(e := (lm_heap lm e)\<lparr>le_refCount := le_refCount (lm_heap lm e) + 1\<rparr>)) d) = Some u \<longleftrightarrow>
        (if u = t then l else lm_pc lm u) = Holding q d"
      using lm_invD(6) [OF inv qd, of u] l t by auto
  qed (use lm_invD [OF inv] in auto)
next
  case new
  have "users lm' = users lm" by (rule users_pc) (simp add: new(3))
  then have us: "users (goto t l lm') q d = (if (q, d) = (p, e) then {t} else users lm q d)" for q d
    using l t users_none [OF inv, of p e] new(1) by (auto simp: users_goto) (auto simp: users_def)
  have fresh: "lm_locks lm q \<noteq> Some e" for q using lm_invD(2) [OF inv] new(2) by blast
  have st: "lm_locks lm' = (lm_locks lm)(p \<mapsto> e)" "lm_next lm' = Suc e" "lm_pc lm' = lm_pc lm"
     "lm_heap lm' = (lm_heap lm)(e := \<lparr>le_mu = None, le_refCount = 1\<rparr>)" by (simp_all add: new(3))
  have hold: "lm_pc lm u \<noteq> Holding p e" for u using lm_invD(1) [OF inv, of u p e] new(1) by auto
  show ?thesis
    unfolding lm_inv_def us goto_simps st
  proof (intro conjI allI impI)
    fix u q d assume "at_entry (if u = t then l else lm_pc lm u) = Some (q, d)"
    then show "((lm_locks lm)(p \<mapsto> e)) q = Some d" using lm_invD(1) [OF inv] l new(1) by (fastforce split: if_splits)
  next
    fix q d assume qd: "((lm_locks lm)(p \<mapsto> e)) q = Some d"
    then have c: "q = p \<and> d = e \<or> q \<noteq> p \<and> d \<noteq> e \<and> lm_locks lm q = Some d" using fresh by (auto split: if_splits)
    show "d < Suc e" using c lm_invD(2) [OF inv, of q d] new(2) by auto
    show "le_refCount (((lm_heap lm)(e := \<lparr>le_mu = None, le_refCount = 1\<rparr>)) d) =
        int (card (if (q, d) = (p, e) then {t} else users lm q d))" using c lm_invD(5) [OF inv] by auto
    show "finite (if (q, d) = (p, e) then {t} else users lm q d)" using c lm_invD(3) [OF inv] by auto
    show "(if (q, d) = (p, e) then {t} else users lm q d) \<noteq> {}" using c lm_invD(4) [OF inv] by auto
    fix u
    show "le_mu (((lm_heap lm)(e := \<lparr>le_mu = None, le_refCount = 1\<rparr>)) d) = Some u \<longleftrightarrow>
        (if u = t then l else lm_pc lm u) = Holding q d"
      using c lm_invD(6) [OF inv, of q d u] l t hold [of u] by auto
    fix q' assume "((lm_locks lm)(p \<mapsto> e)) q' = Some d"
    then show "q' = q" using c fresh lm_invD(7) [OF inv, of q d q'] by (auto split: if_splits)
  qed
qed

lemma lm_inv_leave:
  assumes inv: "lm_inv lm" and t: "lm_pc lm t = Released p e"
  shows "lm_inv (goto t Idle (leave p e lm))"
proof -
  have pe: "lm_locks lm p = Some e" using lm_invD(1) [OF inv, of t] t by simp
  note D = lm_invD [OF inv]
  have tu: "t \<in> users lm p e" using t by (simp add: users_def)
  define n where "n = le_refCount (lm_heap lm e) - 1"
  have card: "n = int (card (users lm p e - {t}))" using card_Suc_Diff1 [OF D(3) [OF pe] tu] D(5) [OF pe] unfolding n_def by linarith
  have lv: "lm_pc (leave p e lm) = lm_pc lm" "lm_next (leave p e lm) = lm_next lm"
    "lm_heap (leave p e lm) = (lm_heap lm)(e := (lm_heap lm e)\<lparr>le_refCount := n\<rparr>)"
    "lm_locks (leave p e lm) = (if n \<le> 0 then (lm_locks lm)(p := None) else lm_locks lm)"
    by (simp_all add: leave_def n_def Let_def)
  have us: "users (goto t Idle (leave p e lm)) q d = (if (q, d) = (p, e) then users lm p e - {t} else users lm q d)" for q d
    using t users_pc [OF lv(1)] by (auto simp: users_goto) (auto simp: users_def)
  have pq: "q = p \<longleftrightarrow> d = e" if "lm_locks lm q = Some d" for q d using that pe D(7) by (metis option.inject)
  have keep: "lm_locks lm q = Some d \<and> (q = p \<longrightarrow> users lm p e - {t} \<noteq> {})"
    if "(if n \<le> 0 then (lm_locks lm)(p := None) else lm_locks lm) q = Some d" for q d
    using that card D(3) [OF pe] by (auto split: if_splits)
  show ?thesis
    unfolding lm_inv_def us goto_simps lv
  proof (intro conjI allI impI)
    fix u q d assume a: "at_entry (if u = t then Idle else lm_pc lm u) = Some (q, d)"
    then have u: "u \<noteq> t" "u \<in> users lm q d" by (auto simp: users_def split: if_splits)
    then have qd: "lm_locks lm q = Some d" using D(1) by (simp add: users_def)
    have "\<not> n \<le> 0" if "q = p" using u that pq [OF qd] card D(3) [OF pe] by auto
    then show "(if n \<le> 0 then (lm_locks lm)(p := None) else lm_locks lm) q = Some d" using qd by auto
  next
    fix q d assume "(if n \<le> 0 then (lm_locks lm)(p := None) else lm_locks lm) q = Some d"
    note k = keep [OF this]
    then have qd: "lm_locks lm q = Some d" by simp
    show "d < lm_next lm" "finite (if (q, d) = (p, e) then users lm p e - {t} else users lm q d)"
      using D(2,3) [OF qd] pq [OF qd] by auto
    show "(if (q, d) = (p, e) then users lm p e - {t} else users lm q d) \<noteq> {}" using k D(4) [OF qd] by auto
    show "le_refCount (((lm_heap lm)(e := (lm_heap lm e)\<lparr>le_refCount := n\<rparr>)) d) =
        int (card (if (q, d) = (p, e) then users lm p e - {t} else users lm q d))"
      using pq [OF qd] card D(5) [OF qd] by auto
    fix u
    show "le_mu (((lm_heap lm)(e := (lm_heap lm e)\<lparr>le_refCount := n\<rparr>)) d) = Some u \<longleftrightarrow>
        (if u = t then Idle else lm_pc lm u) = Holding q d"
      using D(6) [OF qd, of u] t by auto
    fix q' assume "(if n \<le> 0 then (lm_locks lm)(p := None) else lm_locks lm) q' = Some d"
    then show "q' = q" using keep D(7) [OF qd] by blast
  qed
qed

lemma lm_step_inv:
  assumes inv: "lm_inv lm" and st: "lm_step lm lm'"
  shows "lm_inv lm'"
  using st
proof cases
  case (Lock_acquire t p e)
  then have "lm_locks lm p = Some e" using lm_invD(1) [OF inv, of t p e] by simp
  then show ?thesis unfolding Lock_acquire
    using Lock_acquire lm_invD(6) [OF inv, of p e] by (intro lm_inv_move [OF inv]) auto
next
  case (TryLock_acquire t p e)
  then have "lm_locks lm p = Some e" using lm_invD(1) [OF inv, of t p e] by simp
  then show ?thesis unfolding TryLock_acquire
    using TryLock_acquire lm_invD(6) [OF inv, of p e] by (intro lm_inv_move [OF inv]) auto
next
  case (TryLock_fail t p e)
  then have pe: "lm_locks lm p = Some e" using lm_invD(1) [OF inv, of t p e] by simp
  have "set_mu e (le_mu (lm_heap lm e)) lm = lm" by (simp add: set_mu_def)
  moreover have "lm_inv (goto t (Released p e) (set_mu e (le_mu (lm_heap lm e)) lm))"
    using TryLock_fail lm_invD(6) [OF inv pe] by (intro lm_inv_move [OF inv]) auto
  ultimately show ?thesis unfolding TryLock_fail by simp
next
  case (Unlock t p e)
  then have pe: "lm_locks lm p = Some e" using lm_invD(1) [OF inv, of t p e] by simp
  have "lm_pc lm u \<noteq> Holding p e" if "u \<noteq> t" for u
    using that Unlock(2) lm_invD(6) [OF inv pe] by (metis option.inject)
  then show ?thesis unfolding Unlock(1) using Unlock(2) by (intro lm_inv_move [OF inv]) auto
qed (auto intro: lm_inv_enter [OF inv] lm_inv_leave [OF inv])

interpretation lock_manager: step_invariant "\<lambda>lm. lm = NewLockManager" lm_step lm_inv
  by unfold_locales (auto simp: lm_inv_new lm_step_inv)

lemma lock_reachable_two:
  "lm_reachable (goto 1 (Blocked ''f'' 0) (snd (enter ''f'' (goto 0 (Blocked ''f'' 0) (snd (enter ''f'' NewLockManager))))))"
proof -
  have "lm_reachable NewLockManager" by (rule reach_init) simp
  moreover have "lm_step NewLockManager (goto 0 (Blocked ''f'' 0) (snd (enter ''f'' NewLockManager)))"
    by (rule Lock_enter) (simp_all add: NewLockManager_def enter_def)
  ultimately have "lm_reachable (goto 0 (Blocked ''f'' 0) (snd (enter ''f'' NewLockManager)))" by (rule reach_step)
  then show ?thesis
    by (rule reach_step, intro Lock_enter) (simp_all add: NewLockManager_def enter_def)
qed

section \<open>Properties\<close>

text \<open>C7: the lock manager gives mutual exclusion under every interleaving: in a reachable state at most
  one thread holds the lock of a path, even though entries are dropped and created again; and a thread
  that waits for a path nobody holds can take the lock in its next step.\<close>

theorem lock_mutual_exclusion:
  assumes "lm_reachable lm"
  shows "(lm_pc lm t = Holding p e \<and> lm_pc lm u = Holding p d \<longrightarrow> t = u) \<and>
    (lm_pc lm t = Blocked p e \<and> (\<forall>u d. lm_pc lm u \<noteq> Holding p d) \<longrightarrow>
       lm_step lm (goto t (Holding p e) (set_mu e (Some t) lm)))"
proof (intro conjI impI)
  have inv: "lm_inv lm" by (rule lock_manager.reachable_inv [OF assms])
  { assume h: "lm_pc lm t = Holding p e \<and> lm_pc lm u = Holding p d"
    then have "lm_locks lm p = Some e" "lm_locks lm p = Some d"
      using lm_invD(1) [OF inv, of t p e] lm_invD(1) [OF inv, of u p d] by simp_all
    then show "t = u" using h lm_invD(6) [OF inv, of p e] by (metis option.inject) }
  { assume b: "lm_pc lm t = Blocked p e \<and> (\<forall>u d. lm_pc lm u \<noteq> Holding p d)"
    then have "lm_locks lm p = Some e" using lm_invD(1) [OF inv, of t p e] by simp
    then have "le_mu (lm_heap lm e) = None" using b lm_invD(6) [OF inv] by (metis not_Some_eq)
    with b show "lm_step lm (goto t (Holding p e) (set_mu e (Some t) lm))" by (intro Lock_acquire) auto }
qed

theorem lock_mutual_exclusion_witness:
  "let lm = goto 1 (Blocked ''f'' 0) (snd (enter ''f'' (goto 0 (Blocked ''f'' 0) (snd (enter ''f'' NewLockManager)))))
   in lm_step lm (goto 0 (Holding ''f'' 0) (set_mu 0 (Some 0) lm))"
proof -
  let ?lm = "goto 1 (Blocked ''f'' 0) (snd (enter ''f'' (goto 0 (Blocked ''f'' 0) (snd (enter ''f'' NewLockManager)))))"
  have "lm_pc ?lm 0 = Blocked ''f'' 0" "\<forall>u d. lm_pc ?lm u \<noteq> Holding ''f'' d"
    by (simp_all add: NewLockManager_def enter_def)
  then show ?thesis using lock_mutual_exclusion [OF lock_reachable_two, of 0 "''f''" 0] by (simp only: Let_def) blast
qed

text \<open>C8: the lock map holds no garbage: in a reachable state it has an entry for a path exactly while some
  thread is inside \<^verbatim>\<open>Lock\<close>, \<^verbatim>\<open>TryLock\<close>, a critical section or the unlock function of that path, and the
  entry's reference count is the number of those threads. Once all threads are idle the map is empty.\<close>

theorem lock_map_no_leak:
  assumes "lm_reachable lm"
  shows "dom (lm_locks lm) = {p. \<exists>t e. at_entry (lm_pc lm t) = Some (p, e)} \<and>
    (lm_locks lm p = Some e \<longrightarrow> le_refCount (lm_heap lm e) = int (card (users lm p e))) \<and>
    ((\<forall>t. lm_pc lm t = Idle) \<longrightarrow> lm_Stats lm = 0)"
proof -
  have inv: "lm_inv lm" by (rule lock_manager.reachable_inv [OF assms])
  have d: "dom (lm_locks lm) = {p. \<exists>t e. at_entry (lm_pc lm t) = Some (p, e)}"
    using lm_invD(1,4) [OF inv] by (fastforce simp: users_def)
  then have "lm_locks lm = Map.empty" if "\<forall>t. lm_pc lm t = Idle" using that by (simp add: dom_eq_empty_conv [symmetric] del: dom_eq_empty_conv)
  then show ?thesis using d lm_invD(5) [OF inv] by (simp add: lm_Stats_def)
qed

theorem lock_map_no_leak_witness:
  "le_refCount (lm_heap (goto 1 (Blocked ''f'' 0) (snd (enter ''f'' (goto 0 (Blocked ''f'' 0) (snd (enter ''f'' NewLockManager)))))) 0) = 2"
proof -
  let ?lm = "goto 1 (Blocked ''f'' 0) (snd (enter ''f'' (goto 0 (Blocked ''f'' 0) (snd (enter ''f'' NewLockManager)))))"
  have "users ?lm ''f'' 0 = {0, 1}" by (auto simp: users_def NewLockManager_def enter_def split: if_splits)
  moreover have "lm_locks ?lm ''f'' = Some 0" by (simp add: NewLockManager_def enter_def)
  ultimately show ?thesis using lock_map_no_leak [OF lock_reachable_two, of "''f''" 0] by simp
qed

end
