(* ===== verification/RateLimit.thy ===== *)
theory RateLimit
  imports Prelude
begin

text \<open>
  The token bucket of \<^verbatim>\<open>ratelimit.go\<close>: a buffered channel holds the tokens; \<^verbatim>\<open>Acquire\<close> receives one;
  a background loop drains and refills the channel once per interval. \<^verbatim>\<open>Acquire\<close> does not take the
  limiter's mutex, so acquisitions interleave with the two loops of \<^verbatim>\<open>reset\<close>; the model has one step per
  channel operation. Two counters record the history: tokens granted and resets begun.
\<close>

datatype reset_pc = Off | Draining | Refilling nat

record RateLimiter =
  rl_sem :: nat
  rl_capacity :: nat
  rl_interval :: int
  rl_stopped :: bool
  rl_stopCh_closed :: bool
  rl_pc :: reset_pc
  rl_granted :: nat
  rl_resets :: nat

text \<open>\<^verbatim>\<open>NewRateLimiter\<close>: the loop that fills the channel sends \<open>capacity\<close> tokens.\<close>

primrec fill_tokens :: "nat \<Rightarrow> RateLimiter \<Rightarrow> RateLimiter" where
  "fill_tokens 0 rl = rl"
| "fill_tokens (Suc n) rl = fill_tokens n (rl\<lparr>rl_sem := rl_sem rl + 1\<rparr>)"

definition NewRateLimiter :: "nat \<Rightarrow> int \<Rightarrow> RateLimiter" where
  "NewRateLimiter capacity interval =
     fill_tokens capacity \<lparr>rl_sem = 0, rl_capacity = capacity, rl_interval = interval, rl_stopped = False,
       rl_stopCh_closed = False, rl_pc = Off, rl_granted = 0, rl_resets = 0\<rparr>"

text \<open>\<^verbatim>\<open>reset\<close> when nothing comes between its channel operations: the drain loop, then the refill loop,
  whose \<^verbatim>\<open>default\<close> branch gives up on a full channel.\<close>

fun drain :: "nat \<Rightarrow> nat" where
  "drain 0 = 0"
| "drain (Suc n) = drain n"

fun refill :: "nat \<Rightarrow> nat \<Rightarrow> nat \<Rightarrow> nat" where
  "refill capacity 0 sem = sem"
| "refill capacity (Suc left) sem = (if sem < capacity then refill capacity left (sem + 1) else sem)"

definition reset :: "RateLimiter \<Rightarrow> RateLimiter" where
  "reset rl =
     (if rl_stopped rl then rl
      else rl\<lparr>rl_sem := refill (rl_capacity rl) (rl_capacity rl) (drain (rl_sem rl))\<rparr>)"

definition rl_Stop :: "RateLimiter \<Rightarrow> RateLimiter" where
  "rl_Stop rl = (if \<not> rl_stopped rl then rl\<lparr>rl_stopped := True, rl_stopCh_closed := True\<rparr> else rl)"

text \<open>The steps. \<^verbatim>\<open>Acquire\<close> with a cancelled context changes nothing. \<^verbatim>\<open>reset\<close> and \<^verbatim>\<open>Stop\<close> exclude each
  other by the mutex: \<^verbatim>\<open>Stop\<close> runs only while no reset does. The loop stops on a closed \<^verbatim>\<open>stopCh\<close>, but may
  still take a pending tick.\<close>

inductive rl_step :: "RateLimiter \<Rightarrow> RateLimiter \<Rightarrow> bool" where
  Acquire_token: "rl_sem rl = Suc n \<Longrightarrow> rl_step rl (rl\<lparr>rl_sem := n, rl_granted := rl_granted rl + 1\<rparr>)"
| reset_begin: "rl_pc rl = Off \<Longrightarrow> \<not> rl_stopped rl \<Longrightarrow> rl_step rl (rl\<lparr>rl_pc := Draining, rl_resets := rl_resets rl + 1\<rparr>)"
| drain_one: "rl_pc rl = Draining \<Longrightarrow> rl_sem rl = Suc n \<Longrightarrow> rl_step rl (rl\<lparr>rl_sem := n\<rparr>)"
| drain_done: "rl_pc rl = Draining \<Longrightarrow> rl_sem rl = 0 \<Longrightarrow> rl_step rl (rl\<lparr>rl_pc := Refilling 0\<rparr>)"
| refill_one: "rl_pc rl = Refilling i \<Longrightarrow> i < rl_capacity rl \<Longrightarrow> rl_sem rl < rl_capacity rl \<Longrightarrow>
     rl_step rl (rl\<lparr>rl_sem := rl_sem rl + 1, rl_pc := Refilling (Suc i)\<rparr>)"
| refill_full: "rl_pc rl = Refilling i \<Longrightarrow> i < rl_capacity rl \<Longrightarrow> \<not> rl_sem rl < rl_capacity rl \<Longrightarrow>
     rl_step rl (rl\<lparr>rl_pc := Off\<rparr>)"
| refill_done: "rl_pc rl = Refilling i \<Longrightarrow> \<not> i < rl_capacity rl \<Longrightarrow> rl_step rl (rl\<lparr>rl_pc := Off\<rparr>)"
| Stop: "rl_pc rl = Off \<Longrightarrow> rl_step rl (rl_Stop rl)"

abbreviation rl_reachable :: "nat \<Rightarrow> int \<Rightarrow> RateLimiter \<Rightarrow> bool" where
  "rl_reachable capacity interval \<equiv> reachable (\<lambda>rl. rl = NewRateLimiter capacity interval) rl_step"

text \<open>Tokens a running reset may still put back.\<close>

fun owed :: "nat \<Rightarrow> reset_pc \<Rightarrow> nat" where
  "owed cap Off = 0"
| "owed cap Draining = cap"
| "owed cap (Refilling i) = cap - i"

definition rl_inv :: "nat \<Rightarrow> RateLimiter \<Rightarrow> bool" where
  "rl_inv cap rl \<longleftrightarrow>
     rl_capacity rl = cap \<and> rl_sem rl \<le> cap \<and> rl_stopped rl = rl_stopCh_closed rl \<and>
     rl_granted rl + rl_sem rl + owed cap (rl_pc rl) \<le> cap * (1 + rl_resets rl) \<and>
     (\<forall>i. rl_pc rl = Refilling i \<longrightarrow> rl_sem rl \<le> i \<and> i \<le> cap)"

lemma fill_tokens_eq: "fill_tokens n rl = rl\<lparr>rl_sem := rl_sem rl + n\<rparr>"
  by (induction n arbitrary: rl) auto

lemma drain_0 [simp]: "drain n = 0"
  by (induction n) auto

lemma refill_eq: "sem + left \<le> cap \<Longrightarrow> refill cap left sem = sem + left"
  by (induction left arbitrary: sem) auto

lemma rl_inv_step: "rl_inv cap rl \<Longrightarrow> rl_step rl rl' \<Longrightarrow> rl_inv cap rl'"
  by (erule rl_step.cases) (auto simp: rl_inv_def rl_Stop_def)

interpretation limiter: step_invariant "\<lambda>rl. rl = NewRateLimiter cap iv" rl_step "rl_inv cap" for cap iv
  by unfold_locales (auto simp: rl_inv_step, simp add: NewRateLimiter_def fill_tokens_eq rl_inv_def)

text \<open>C20: the limiter bounds the rate under every interleaving of acquisitions with the background reset: the
  tokens granted are at most the capacity for the first interval plus the capacity once more per reset
  begun. The channel never holds more tokens than its capacity, and the branch of \<^verbatim>\<open>reset\<close> marked as
  impossible is never taken.\<close>

theorem rate_limit_bound:
  assumes "rl_reachable capacity interval rl"
  shows "rl_granted rl \<le> capacity * (1 + rl_resets rl) \<and> rl_sem rl \<le> capacity \<and>
    (\<forall>i. rl_pc rl = Refilling i \<longrightarrow> \<not> (i < rl_capacity rl \<and> \<not> rl_sem rl < rl_capacity rl))"
  using limiter.reachable_inv [OF assms] by (auto simp: rl_inv_def)

theorem rate_limit_bound_witness:
  "let rl = (NewRateLimiter 2 1)\<lparr>rl_sem := 1, rl_granted := 1\<rparr> in rl_granted rl \<le> 2 * (1 + rl_resets rl)"
proof -
  have "rl_step (NewRateLimiter 2 1) ((NewRateLimiter 2 1)\<lparr>rl_sem := 1, rl_granted := 1\<rparr>)"
    using Acquire_token [of "NewRateLimiter 2 1" 1] by (simp add: NewRateLimiter_def fill_tokens_eq)
  then have "rl_reachable 2 1 ((NewRateLimiter 2 1)\<lparr>rl_sem := 1, rl_granted := 1\<rparr>)"
    by (rule reach_step [OF reach_init, rotated]) simp
  from rate_limit_bound [OF this] show ?thesis by (simp add: Let_def)
qed

text \<open>A reset that nothing interrupts leaves exactly the capacity in the channel, however many tokens
  were left or missing, unless the limiter was stopped, in which case it changes nothing.\<close>

theorem rate_reset_refills:
  "rl_sem (reset rl) = (if rl_stopped rl then rl_sem rl else rl_capacity rl)"
  by (simp add: reset_def refill_eq)

end
