(* ===== verification/OpenTracker.thy ===== *)
theory OpenTracker
  imports Prelude "HOL-Library.Multiset"
begin

text \<open>
  The counters of open file handles (\<^verbatim>\<open>internal/opentracker/open_tracker.go\<close>): how many handles are open
  per torrent hash and per path, as 32-bit signed counters in two maps, an entry being deleted when its
  last handle closes. The specification is the multiset of open handles.
\<close>

type_synonym counters = "string \<rightharpoonup> 32 word"

record OpenTracker =
  ot_byHash :: counters
  ot_byPath :: counters

definition ot_New :: OpenTracker where
  "ot_New = \<lparr>ot_byHash = Map.empty, ot_byPath = Map.empty\<rparr>"

text \<open>A missing key of a Go map reads as zero.\<close>

definition counter :: "counters \<Rightarrow> string \<Rightarrow> 32 word" where
  "counter m k = (case m k of None \<Rightarrow> 0 | Some n \<Rightarrow> n)"

definition bump :: "string \<Rightarrow> counters \<Rightarrow> counters" where
  "bump k m = (if k \<noteq> [] then m(k \<mapsto> counter m k + 1) else m)"

definition unbump :: "string \<Rightarrow> counters \<Rightarrow> counters" where
  "unbump k m =
     (if k \<noteq> [] then (if sint (counter m k) \<le> 1 then m(k := None) else m(k \<mapsto> counter m k - 1)) else m)"

definition ot_Inc :: "string \<Rightarrow> path \<Rightarrow> OpenTracker \<Rightarrow> OpenTracker" where
  "ot_Inc hash p t = t\<lparr>ot_byHash := bump hash (ot_byHash t), ot_byPath := bump p (ot_byPath t)\<rparr>"

definition ot_Dec :: "string \<Rightarrow> path \<Rightarrow> OpenTracker \<Rightarrow> OpenTracker" where
  "ot_Dec hash p t = t\<lparr>ot_byHash := unbump hash (ot_byHash t), ot_byPath := unbump p (ot_byPath t)\<rparr>"

definition CountByHash :: "string \<Rightarrow> OpenTracker \<Rightarrow> 32 word" where
  "CountByHash hash t = counter (ot_byHash t) hash"

definition CountByPath :: "path \<Rightarrow> OpenTracker \<Rightarrow> 32 word" where
  "CountByPath p t = counter (ot_byPath t) p"

definition IsHashOpen :: "string \<Rightarrow> OpenTracker \<Rightarrow> bool" where
  "IsHashOpen hash t \<longleftrightarrow> sint (CountByHash hash t) > 0"

definition IsPathOpen :: "path \<Rightarrow> OpenTracker \<Rightarrow> bool" where
  "IsPathOpen p t \<longleftrightarrow> sint (CountByPath p t) > 0"

definition OpenPaths :: "OpenTracker \<Rightarrow> path set" where
  "OpenPaths t = dom (ot_byPath t)"

section \<open>Handles\<close>

text \<open>A history of opens and closes of handles, each a hash and a path; only an open handle is closed.
  \<open>opened\<close> is the multiset of handles left open, \<open>None\<close> when a handle is closed that is not open or when
  more than \<^verbatim>\<open>math.MaxInt32\<close> handles are open at once.\<close>

datatype handle_op = Open string path | Close string path

fun opened :: "handle_op list \<Rightarrow> (string \<times> path) multiset option" where
  "opened [] = Some {#}"
| "opened (Open h p # ops) =
     (case opened ops of None \<Rightarrow> None
      | Some M \<Rightarrow> if size M < 2 ^ 31 - 1 then Some (add_mset (h, p) M) else None)"
| "opened (Close h p # ops) =
     (case opened ops of None \<Rightarrow> None | Some M \<Rightarrow> if (h, p) \<in># M then Some (M - {#(h, p)#}) else None)"

text \<open>The tracker after a history, given newest first.\<close>

fun track :: "handle_op list \<Rightarrow> OpenTracker" where
  "track [] = ot_New"
| "track (Open h p # ops) = ot_Inc h p (track ops)"
| "track (Close h p # ops) = ot_Dec h p (track ops)"

definition counts :: "counters \<Rightarrow> string multiset \<Rightarrow> bool" where
  "counts m M \<longleftrightarrow> (\<forall>k. k \<noteq> [] \<longrightarrow> m k = (if k \<in># M then Some (of_nat (count M k)) else None)) \<and> m [] = None"

lemma sint_of_nat32: "n < 2 ^ 31 \<Longrightarrow> sint (of_nat n :: 32 word) = int n"
  by (simp add: signed_of_nat signed_take_bit_int_eq_self)

lemma counts_counter: "counts m M \<Longrightarrow> k \<noteq> [] \<Longrightarrow> counter m k = of_nat (count M k)"
  by (auto simp: counts_def counter_def not_in_iff)

lemma counts_bump:
  "counts m M \<Longrightarrow> size M < 2 ^ 31 - 1 \<Longrightarrow> counts (bump k m) (add_mset k M)"
  using counts_counter [of m M k] by (cases "k = []") (auto simp: counts_def bump_def add_ac)

lemma counts_unbump:
  assumes c: "counts m (add_mset k M)" and s: "size M < 2 ^ 31 - 1"
  shows "counts (unbump k m) M"
proof (cases "k = []")
  case True
  with c show ?thesis by (auto simp: counts_def unbump_def)
next
  case False
  have "count M k < 2 ^ 31 - 1" using s count_le_size [of M k] by linarith
  then have "sint (of_nat (Suc (count M k)) :: 32 word) = int (Suc (count M k))" by (intro sint_of_nat32) simp
  moreover have "counter m k = of_nat (Suc (count M k))" using counts_counter [OF c False] by simp
  ultimately have "unbump k m = (if k \<in># M then m(k \<mapsto> of_nat (count M k)) else m(k := None))"
    using False by (auto simp: unbump_def count_eq_zero_iff)
  with c False show ?thesis by (auto simp: counts_def)
qed

lemma track_counts:
  "opened ops = Some M \<Longrightarrow> size M < 2 ^ 31 \<and> counts (ot_byHash (track ops)) (image_mset fst M) \<and>
     counts (ot_byPath (track ops)) (image_mset snd M)"
proof (induction ops arbitrary: M)
  case Nil
  then show ?case by (auto simp: ot_New_def counts_def)
next
  case (Cons op ops)
  show ?case
  proof (cases op)
    case (Open h p)
    with Cons show ?thesis by (auto simp: ot_Inc_def counts_bump split: option.splits if_splits)
  next
    case (Close h p)
    with Cons.prems obtain N where N: "opened ops = Some N" "(h, p) \<in># N" "M = N - {#(h, p)#}"
      by (auto split: option.splits if_splits)
    then have n: "N = add_mset (h, p) M" by simp
    from Cons.IH [OF N(1)] show ?thesis unfolding Close n by (auto simp: ot_Dec_def intro!: counts_unbump)
  qed
qed

text \<open>C18: the tracker counts exactly: after any history of opens and closes in which only open handles are
  closed, the counter of a path (and of a hash) is the number of handles open on it, the path counts as open
  exactly when some handle is, and the listed paths are exactly the paths with an open handle.\<close>

theorem tracker_exact:
  assumes "opened ops = Some M" and "p \<noteq> []" and "h \<noteq> []"
  shows "sint (CountByPath p (track ops)) = int (count (image_mset snd M) p) \<and>
     sint (CountByHash h (track ops)) = int (count (image_mset fst M) h) \<and>
     (IsPathOpen p (track ops) \<longleftrightarrow> p \<in> snd ` set_mset M) \<and> (IsHashOpen h (track ops) \<longleftrightarrow> h \<in> fst ` set_mset M) \<and>
     OpenPaths (track ops) = snd ` set_mset M - {[]}"
proof -
  have t: "size M < 2 ^ 31" and th: "counts (ot_byHash (track ops)) (image_mset fst M)"
    and tp: "counts (ot_byPath (track ops)) (image_mset snd M)" using track_counts [OF assms(1)] by auto
  have b: "count (image_mset f M) k < 2 ^ 31" for f :: "string \<times> path \<Rightarrow> string" and k
    using t count_le_size [of "image_mset f M" k] by simp
  have s: "sint (CountByPath p (track ops)) = int (count (image_mset snd M) p)"
    "sint (CountByHash h (track ops)) = int (count (image_mset fst M) h)"
    using counts_counter [OF tp assms(2)] counts_counter [OF th assms(3)] b
    by (simp_all add: CountByPath_def CountByHash_def sint_of_nat32 del: count_image_mset)
  moreover have "dom (ot_byPath (track ops)) = snd ` set_mset M - {[]}"
  proof (rule set_eqI)
    fix k
    show "k \<in> dom (ot_byPath (track ops)) \<longleftrightarrow> k \<in> snd ` set_mset M - {[]}"
      using tp unfolding counts_def by (cases "k = []") (auto simp: domIff)
  qed
  ultimately show ?thesis
    unfolding IsPathOpen_def IsHashOpen_def s OpenPaths_def by (simp add: count_greater_zero_iff del: count_image_mset)
qed

theorem tracker_exact_witness:
  "sint (CountByPath ''/a'' (track [Close ''h'' ''/a'', Open ''h'' ''/b'', Open ''h'' ''/a'', Open ''h'' ''/a''])) = 1"
proof -
  have "opened [Close ''h'' ''/a'', Open ''h'' ''/b'', Open ''h'' ''/a'', Open ''h'' ''/a'']
      = Some {#(''h'', ''/b''), (''h'', ''/a'')#}" by simp
  from tracker_exact [OF this, of "''/a''" "''h''"] show ?thesis by simp
qed

end
