(* ===== verification/Float64.thy ===== *)
theory Float64
  imports Complex_Main "HOL-Library.Log_Nat"
begin

text \<open>
  Go's \<^verbatim>\<open>float64\<close> as the program uses it: finite values are rationals, and the result of an arithmetic
  operation is the exact result rounded to 53 significant bits, ties to even. Overflow, subnormal
  numbers and NaN do not occur for the sizes and counts computed here, except for a division by zero,
  which the users of this theory write out.
\<close>

type_synonym float64 = rat

text \<open>The exponent of a positive number: \<open>2 ^ e \<le> x < 2 ^ (e + 1)\<close>.\<close>

definition fl_exp :: "rat \<Rightarrow> int" where
  "fl_exp x = (if x \<ge> 1 then int (floorlog 2 (nat \<lfloor>x\<rfloor>)) - 1 else - int (floorlog 2 (nat (\<lceil>1 / x\<rceil> - 1))))"

definition round_half_even :: "rat \<Rightarrow> int" where
  "round_half_even x =
     (let f = \<lfloor>x\<rfloor>; r = x - of_int f
      in if r < 1 / 2 then f else if r > 1 / 2 then f + 1 else if even f then f else f + 1)"

definition ulp :: "rat \<Rightarrow> rat" where
  "ulp x = 2 powi (fl_exp \<bar>x\<bar> - 52)"

definition fl :: "rat \<Rightarrow> float64" where
  "fl x = (if x = 0 then 0 else of_int (round_half_even (x / ulp x)) * ulp x)"

text \<open>\<^verbatim>\<open>int(x)\<close> truncates towards zero.\<close>

definition fl_to_int :: "float64 \<Rightarrow> int" where
  "fl_to_int x = (if x < 0 then \<lceil>x\<rceil> else \<lfloor>x\<rfloor>)"

section \<open>Rounding\<close>

lemma round_half_even_mono: "x \<le> y \<Longrightarrow> round_half_even x \<le> round_half_even y"
proof -
  assume le: "x \<le> y"
  have b: "\<lfloor>z\<rfloor> \<le> round_half_even z \<and> round_half_even z \<le> \<lfloor>z\<rfloor> + 1" for z
    by (auto simp: round_half_even_def Let_def)
  show ?thesis
  proof (cases "\<lfloor>x\<rfloor> = \<lfloor>y\<rfloor>")
    case True
    with le show ?thesis by (auto simp: round_half_even_def Let_def)
  next
    case False
    then have "\<lfloor>x\<rfloor> + 1 \<le> \<lfloor>y\<rfloor>" using floor_mono [OF le] by linarith
    with b [of x] b [of y] show ?thesis by linarith
  qed
qed

lemma round_half_even_int [simp]: "round_half_even (of_int n) = n"
  by (simp add: round_half_even_def)

lemma fl_exp_bounds:
  assumes "0 < x"
  shows "2 powi (fl_exp x) \<le> x" and "x < 2 powi (fl_exp x + 1)"
proof -
  have "2 powi (fl_exp x) \<le> x \<and> x < 2 powi (fl_exp x + 1)"
  proof (cases "x \<ge> 1")
    case True
    define n where "n = nat \<lfloor>x\<rfloor>"
    have n: "0 < n" "rat_of_nat n \<le> x" "x < rat_of_nat n + 1" using True floor_correct [of x] by (auto simp: n_def le_nat_iff)
    define k where "k = floorlog 2 n"
    have k: "2 ^ (k - 1) \<le> n" "n < 2 ^ k" "0 < k"
      using floorlog_bounds [of n 2] n(1) by (auto simp: k_def floorlog_def)
    have e: "fl_exp x = int (k - 1)" using True k(3) by (simp add: fl_exp_def n_def k_def of_nat_diff)
    have lo: "rat_of_nat (2 ^ (k - 1)) \<le> x" using k(1) n(2) by (meson of_nat_le_iff order_trans)
    have "n + 1 \<le> 2 ^ k" using k(2) by simp
    then have "rat_of_nat n + 1 \<le> rat_of_nat (2 ^ k)" by (metis of_nat_1 of_nat_add of_nat_le_iff)
    then have hi: "x < 2 ^ k" using n(3) by simp
    have k': "int (k - 1) + 1 = int k" using k(3) by simp
    show ?thesis unfolding e k' power_int_of_nat using lo hi by simp
  next
    case False
    define y where "y = 1 / x"
    have y: "1 < y" using False assms by (simp add: y_def)
    define n where "n = nat (\<lceil>y\<rceil> - 1)"
    have c: "1 < \<lceil>y\<rceil>" using y by (simp add: less_ceiling_iff)
    have n: "0 < n" "rat_of_nat n < y" "y \<le> rat_of_nat n + 1"
      using c ceiling_correct [of y] by (auto simp: n_def of_nat_nat)
    define k where "k = floorlog 2 n"
    have k: "2 ^ (k - 1) \<le> n" "n < 2 ^ k" "0 < k"
      using floorlog_bounds [of n 2] n(1) by (auto simp: k_def floorlog_def)
    have e: "fl_exp x = - int k" using False by (simp add: fl_exp_def n_def k_def y_def)
    have "n + 1 \<le> 2 ^ k" using k(2) by simp
    then have "rat_of_nat n + 1 \<le> rat_of_nat (2 ^ k)" by (metis of_nat_1 of_nat_add of_nat_le_iff)
    then have "y \<le> 2 ^ k" using n(3) by simp
    then have lo: "1 / 2 ^ k \<le> x" using assms by (simp add: y_def field_simps)
    have "rat_of_nat (2 ^ (k - 1)) < y" using k(1) n(2) by (meson of_nat_le_iff le_less_trans)
    then have "x * 2 ^ (k - 1) < 1" using assms by (simp add: y_def field_simps)
    then have hi: "x < 1 / 2 ^ (k - 1)" by (simp add: field_simps)
    have k': "- int k + 1 = - int (k - 1)" using k(3) by simp
    show ?thesis unfolding e k' power_int_minus power_int_of_nat using lo hi by (simp add: inverse_eq_divide)
  qed
  then show "2 powi (fl_exp x) \<le> x" "x < 2 powi (fl_exp x + 1)" by auto
qed

lemma powi2_mono: "a \<le> b \<Longrightarrow> (2::rat) powi a \<le> 2 powi b"
  by (rule power_int_increasing) auto

lemma fl_exp_mono: "0 < x \<Longrightarrow> x \<le> y \<Longrightarrow> fl_exp x \<le> fl_exp y"
proof (rule ccontr)
  assume "0 < x" "x \<le> y" "\<not> fl_exp x \<le> fl_exp y"
  then have "2 powi (fl_exp y + 1) \<le> (2::rat) powi (fl_exp x)" by (intro powi2_mono) simp
  with fl_exp_bounds [of x] fl_exp_bounds [of y] \<open>0 < x\<close> \<open>x \<le> y\<close> show False by linarith
qed

lemma ulp_pos [simp]: "0 < ulp x"
  by (simp add: ulp_def)

lemma ulp_eq: "0 < x \<Longrightarrow> ulp x = 2 powi (fl_exp x) / 2 ^ 52"
  by (simp add: ulp_def power_int_diff)

lemma fl_bounds:
  assumes "0 < x"
  shows "2 powi (fl_exp x) \<le> fl x" and "fl x \<le> 2 powi (fl_exp x + 1)"
proof -
  have lo: "(2::rat) ^ 52 \<le> x / ulp x" and hi: "x / ulp x \<le> 2 ^ 53"
    using fl_exp_bounds [OF assms] assms by (simp_all add: ulp_eq field_simps power_int_add)
  have "round_half_even (of_int (2 ^ 52)) \<le> round_half_even (x / ulp x)"
    by (rule round_half_even_mono) (use lo in simp)
  moreover have "round_half_even (x / ulp x) \<le> round_half_even (of_int (2 ^ 53))"
    by (rule round_half_even_mono) (use hi in simp)
  ultimately have "2 ^ 52 \<le> round_half_even (x / ulp x)" "round_half_even (x / ulp x) \<le> 2 ^ 53"
    unfolding round_half_even_int by auto
  then have "of_int (2 ^ 52) * ulp x \<le> fl x" "fl x \<le> of_int (2 ^ 53) * ulp x"
    using assms by (auto simp: fl_def simp del: of_int_power intro!: mult_right_mono less_imp_le [OF ulp_pos])
  then show "2 powi (fl_exp x) \<le> fl x" "fl x \<le> 2 powi (fl_exp x + 1)"
    using assms by (simp_all add: ulp_eq power_int_add)
qed

lemma fl_0 [simp]: "fl 0 = 0"
  by (simp add: fl_def)

lemma fl_pos: "0 < x \<Longrightarrow> 0 < fl x"
  using fl_bounds(1) [of x] by (meson less_le_trans zero_less_numeral zero_less_power_int)

text \<open>Rounding is monotone on the non-negative numbers, and exact on integers of at most 53 bits.\<close>

lemma fl_mono:
  assumes "0 \<le> x" "x \<le> y"
  shows "fl x \<le> fl y"
proof (cases "x = 0")
  case True
  then show ?thesis using assms fl_pos [of y] by (cases "y = 0") auto
next
  case False
  then have x: "0 < x" and y: "0 < y" using assms by auto
  show ?thesis
  proof (cases "fl_exp x = fl_exp y")
    case True
    then have u: "ulp x = ulp y" using x y by (simp add: ulp_def)
    have "round_half_even (x / ulp x) \<le> round_half_even (y / ulp y)"
      unfolding u by (intro round_half_even_mono divide_right_mono assms(2)) (simp add: less_imp_le)
    then show ?thesis using x y u by (simp add: fl_def mult_right_mono less_imp_le)
  next
    case False
    then have "fl_exp x + 1 \<le> fl_exp y" using fl_exp_mono [OF x assms(2)] by simp
    then have "(2::rat) powi (fl_exp x + 1) \<le> 2 powi (fl_exp y)" by (rule powi2_mono)
    then show ?thesis using fl_bounds(2) [OF x] fl_bounds(1) [OF y] by linarith
  qed
qed

lemma fl_exact: "0 < x \<Longrightarrow> x / ulp x = of_int m \<Longrightarrow> fl x = x"
proof -
  assume a: "0 < x" "x / ulp x = of_int m"
  have "ulp x \<noteq> 0" using ulp_pos [of x] by (metis less_irrefl)
  with a(2) have "x = of_int m * ulp x" by (simp add: nonzero_divide_eq_eq)
  with a show ?thesis by (simp add: fl_def)
qed

lemma fl_scaled:
  assumes "0 < m" "m < 2 ^ 53"
  shows "fl (of_int m / 2 ^ k) = of_int m / 2 ^ k"
proof -
  let ?x = "rat_of_int m / 2 ^ k"
  have x: "0 < ?x" using assms by simp
  have "rat_of_int m < 2 ^ 53" using assms(2) by (metis of_int_less_iff of_int_numeral of_int_power)
  have "fl_exp ?x \<le> 52 - int k"
  proof (rule ccontr)
    assume "\<not> fl_exp ?x \<le> 52 - int k"
    then have "(2::rat) powi (53 - int k) \<le> 2 powi (fl_exp ?x)" by (intro powi2_mono) simp
    then have "(2::rat) ^ 53 / 2 ^ k \<le> ?x" using fl_exp_bounds(1) [OF x] by (simp add: power_int_diff)
    with \<open>rat_of_int m < 2 ^ 53\<close> show False by (simp add: field_simps)
  qed
  then obtain j where j: "52 - int k - fl_exp ?x = int j" by (metis zle_iff_zadd add.commute add_diff_cancel_left')
  have "?x / ulp ?x = ?x * 2 powi (52 - fl_exp ?x)"
    using x by (simp add: ulp_def power_int_diff field_simps)
  also have "52 - fl_exp ?x = int k + int j" using j by simp
  also have "?x * 2 powi (int k + int j) = of_int (m * 2 ^ j)" by (simp add: power_int_add)
  finally show ?thesis by (rule fl_exact [OF x])
qed

lemma fl_of_nat: "n < 2 ^ 53 \<Longrightarrow> fl (of_nat n) = of_nat n"
  using fl_scaled [of "int n" 0] by (cases "n = 0") auto


text \<open>The relative error of one rounding.\<close>

lemma fl_upper:
  assumes "0 \<le> x"
  shows "fl x \<le> x * (1 + 1 / 2 ^ 52)"
proof (cases "x = 0")
  case False
  then have x: "0 < x" using assms by simp
  have r: "rat_of_int (round_half_even z) \<le> z + 1" for z :: rat
    by (auto simp: round_half_even_def Let_def) linarith+
  have "fl x = of_int (round_half_even (x / ulp x)) * ulp x" using False by (simp add: fl_def)
  also have "\<dots> \<le> (x / ulp x + 1) * ulp x" using r by (intro mult_right_mono) (simp_all add: less_imp_le)
  also have "\<dots> = x + ulp x" using ulp_pos [of x] by (simp add: distrib_right less_imp_neq [symmetric])
  also have "\<dots> \<le> x + x / 2 ^ 52" using fl_exp_bounds(1) [OF x] by (simp add: ulp_eq [OF x] divide_right_mono)
  finally show ?thesis by (simp add: algebra_simps)
qed simp

lemma fl_lower:
  assumes "0 \<le> x"
  shows "x * (1 - 1 / 2 ^ 52) \<le> fl x"
proof (cases "x = 0")
  case False
  then have x: "0 < x" using assms by simp
  have r: "z - 1 \<le> rat_of_int (round_half_even z)" for z :: rat
    by (auto simp: round_half_even_def Let_def) linarith+
  have "x * (1 - 1 / 2 ^ 52) = x - x / 2 ^ 52" by (simp add: algebra_simps)
  also have "\<dots> \<le> x - ulp x" using fl_exp_bounds(1) [OF x] by (simp add: ulp_eq [OF x] divide_right_mono)
  also have "\<dots> = (x / ulp x - 1) * ulp x" using ulp_pos [of x] by (simp add: left_diff_distrib less_imp_neq [symmetric])
  also have "\<dots> \<le> of_int (round_half_even (x / ulp x)) * ulp x" using r by (intro mult_right_mono) (simp_all add: less_imp_le)
  also have "\<dots> = fl x" using False by (simp add: fl_def)
  finally show ?thesis .
qed simp

lemma fl_nonneg: "0 \<le> x \<Longrightarrow> 0 \<le> fl x"
  using fl_mono [of 0 x] by simp

lemma fl_to_int_nonneg: "0 \<le> x \<Longrightarrow> 0 \<le> fl_to_int x"
  by (simp add: fl_to_int_def)

lemma fl_to_int_le: "0 \<le> x \<Longrightarrow> of_int (fl_to_int x) \<le> x"
  by (simp add: fl_to_int_def)

end
