(* ===== verification/ScanDetect.thy ===== *)
theory ScanDetect
  imports Float64 ReadAhead
begin

text \<open>
  \<^verbatim>\<open>scandetector.go\<close>: the detector that tells library scans (many opens, little data) from playback, and
  the gate that holds back the first reads of a file until enough of it is buffered. The counters are
  64-bit unsigned words, added to atomically; the average is a \<^verbatim>\<open>float64\<close> quotient.
\<close>

section \<open>The detector\<close>

record ScanDetector =
  sd_openCount :: u64
  sd_totalReadBytes :: u64
  sd_windowStart :: int
  sd_windowSize :: int
  sd_openThreshold :: int
  sd_scanMode :: bool

definition newScanDetector :: "int \<Rightarrow> int \<Rightarrow> int \<Rightarrow> ScanDetector" where
  "newScanDetector now openThreshold windowSize =
     \<lparr>sd_openCount = 0, sd_totalReadBytes = 0, sd_windowStart = now, sd_windowSize = windowSize,
      sd_openThreshold = openThreshold, sd_scanMode = False\<rparr>"

text \<open>\<^verbatim>\<open>float64(readBytes) / float64(opens) < 1<<20\<close>; the quotient by zero is an infinity or NaN, for
  which the comparison is false.\<close>

definition low_average :: "u64 \<Rightarrow> u64 \<Rightarrow> bool" where
  "low_average readBytes opens \<longleftrightarrow>
     opens \<noteq> 0 \<and> fl (fl (of_nat (unat readBytes)) / fl (of_nat (unat opens))) < 2 ^ 20"

definition checkWindow :: "int \<Rightarrow> ScanDetector \<Rightarrow> ScanDetector" where
  "checkWindow now sd =
     (if now - sd_windowStart sd > sd_windowSize sd
      then sd\<lparr>sd_openCount := 0, sd_totalReadBytes := 0, sd_windowStart := now, sd_scanMode := False\<rparr>
      else if sint (sd_openCount sd) \<ge> sd_openThreshold sd \<and> low_average (sd_totalReadBytes sd) (sd_openCount sd)
      then sd\<lparr>sd_scanMode := True\<rparr> else sd)"

definition RecordOpen :: "int \<Rightarrow> path \<Rightarrow> ScanDetector \<Rightarrow> ScanDetector" where
  "RecordOpen now p sd = checkWindow now (sd\<lparr>sd_openCount := sd_openCount sd + 1\<rparr>)"

definition sd_RecordRead :: "path \<Rightarrow> int \<Rightarrow> ScanDetector \<Rightarrow> ScanDetector" where
  "sd_RecordRead p bytes sd = sd\<lparr>sd_totalReadBytes := sd_totalReadBytes sd + word_of_int bytes\<rparr>"

definition IsScanMode :: "int \<Rightarrow> ScanDetector \<Rightarrow> ScanDetector \<times> bool" where
  "IsScanMode now sd = (let sd' = checkWindow now sd in (sd', sd_scanMode sd'))"

lemma sint_of_nat64: "n < 2 ^ 63 \<Longrightarrow> sint (of_nat n :: u64) = int n"
  by (simp add: signed_of_nat signed_take_bit_int_eq_self)

lemma low_average_exact:
  assumes "unat opens < 2 ^ 33" "unat readBytes < 2 ^ 53"
  shows "low_average readBytes opens \<longleftrightarrow> unat readBytes < unat opens * 2 ^ 20"
proof (cases "opens = 0")
  case True
  then show ?thesis by (simp add: low_average_def)
next
  case False
  define a b where "a = unat readBytes" and "b = unat opens"
  have b: "0 < b" "b < 2 ^ 33" and a: "a < 2 ^ 53" using False assms by (auto simp: a_def b_def unat_gt_0)
  have ex: "fl (of_nat a) = of_nat a" "fl (of_nat b) = of_nat b" using a b by (auto intro!: fl_of_nat)
  have top: "fl (2 ^ 20) = (2 ^ 20 :: rat)" using fl_scaled [of "2 ^ 20" 0] by simp
  have "fl (rat_of_nat a / rat_of_nat b) < 2 ^ 20 \<longleftrightarrow> a < b * 2 ^ 20"
  proof
    assume lt: "fl (rat_of_nat a / rat_of_nat b) < 2 ^ 20"
    show "a < b * 2 ^ 20"
    proof (rule ccontr)
      assume "\<not> a < b * 2 ^ 20"
      then have "rat_of_nat (b * 2 ^ 20) \<le> rat_of_nat a" by (simp only: of_nat_le_iff not_less)
      then have "2 ^ 20 \<le> rat_of_nat a / rat_of_nat b" using b(1) by (simp add: field_simps)
      from fl_mono [OF _ this] top lt show False by simp
    qed
  next
    assume "a < b * 2 ^ 20"
    then have "a + 1 \<le> b * 2 ^ 20" by simp
    then have "rat_of_nat (a + 1) \<le> rat_of_nat (b * 2 ^ 20)" by (simp only: of_nat_le_iff)
    then have "rat_of_nat a \<le> rat_of_nat b * 2 ^ 20 - 1" by simp
    moreover have "rat_of_nat b \<le> rat_of_nat (2 ^ 33)" using b(2) by (simp only: of_nat_le_iff)
    then have "rat_of_nat b \<le> 2 ^ 33" by simp
    ultimately have le: "rat_of_nat a / rat_of_nat b \<le> (rat_of_nat b * 2 ^ 20 - 1) / rat_of_nat b"
      and inv: "1 / 2 ^ 33 \<le> 1 / rat_of_nat b"
      using b(1) by (auto intro!: divide_right_mono frac_le)
    note le
    also have "(rat_of_nat b * 2 ^ 20 - 1) / rat_of_nat b = 2 ^ 20 - 1 / rat_of_nat b"
      using b(1) by (simp add: diff_divide_distrib)
    also have "\<dots> \<le> 2 ^ 20 - 1 / 2 ^ 33" using inv by simp
    also have "\<dots> = of_int (2 ^ 53 - 1) / 2 ^ 33" by simp
    finally have "rat_of_nat a / rat_of_nat b \<le> of_int (2 ^ 53 - 1) / 2 ^ 33" .
    from fl_mono [OF _ this] fl_scaled [of "2 ^ 53 - 1" 33]
    have "fl (rat_of_nat a / rat_of_nat b) \<le> of_int (2 ^ 53 - 1) / 2 ^ 33" by simp
    then show "fl (rat_of_nat a / rat_of_nat b) < 2 ^ 20" by simp
  qed
  then show ?thesis using False ex by (simp add: low_average_def a_def b_def)
qed

section \<open>The gate\<close>

text \<open>The gate polls the read-ahead cache; what it sees at each poll is the cache at that moment, so the
  model takes the sequence of cache states, one per poll. The list ends when the deadline passes.\<close>

record PreBufferGate =
  pg_hasCache :: bool
  pg_minBytes :: int
  pg_readCounts :: "path \<rightharpoonup> int"

definition newPreBufferGate :: "bool \<Rightarrow> int \<Rightarrow> PreBufferGate" where
  "newPreBufferGate hasCache minBytes = \<lparr>pg_hasCache = hasCache, pg_minBytes = minBytes, pg_readCounts = Map.empty\<rparr>"

definition read_count :: "PreBufferGate \<Rightarrow> path \<Rightarrow> int" where
  "read_count pg p = (case pg_readCounts pg p of None \<Rightarrow> 0 | Some n \<Rightarrow> n)"

definition pg_RecordRead :: "path \<Rightarrow> int \<Rightarrow> int \<Rightarrow> PreBufferGate \<Rightarrow> PreBufferGate" where
  "pg_RecordRead p off len pg = pg\<lparr>pg_readCounts := (pg_readCounts pg)(p \<mapsto> read_count pg p + len)\<rparr>"

fun poll :: "ra_config \<Rightarrow> hasher \<Rightarrow> PreBufferGate \<Rightarrow> path \<Rightarrow> int \<Rightarrow> ra_cache list \<Rightarrow> bool" where
  "poll cfg xx pg p off [] = False"
| "poll cfg xx pg p off (c # cs) =
     (if ra_Exists cfg xx p off c then True
      else if MaxCachedOffset xx p c \<ge> pg_minBytes pg then True
      else poll cfg xx pg p off cs)"

definition WaitUntilReady ::
    "ra_config \<Rightarrow> hasher \<Rightarrow> PreBufferGate \<Rightarrow> path \<Rightarrow> int \<Rightarrow> ra_cache \<Rightarrow> ra_cache list \<Rightarrow> bool" where
  "WaitUntilReady cfg xx pg p off c cs =
     (if read_count pg p = 0 then True
      else if \<not> pg_hasCache pg then True
      else (let maxCached = MaxCachedOffset xx p c
            in if maxCached > 0 \<and> maxCached < pg_minBytes pg then True else poll cfg xx pg p off cs))"

lemma poll_iff:
  "poll cfg xx pg p off cs \<longleftrightarrow> (\<exists>c \<in> set cs. ra_Exists cfg xx p off c \<or> MaxCachedOffset xx p c \<ge> pg_minBytes pg)"
  by (induction cs) auto

section \<open>Properties\<close>

text \<open>C26: with fewer than 2^33 opens and 2^53 bytes in a window, an open at a time inside the window leaves
  the detector in scan mode exactly when it was in scan mode before, or the window now has at least the
  threshold of opens and on average less than one megabyte was read per open, the comparison in floating
  point being exact. An open after the window ends resets the counters and leaves scan mode.\<close>

theorem scan_mode_exact:
  assumes "unat (sd_openCount sd) + 1 < 2 ^ 33" "unat (sd_totalReadBytes sd) < 2 ^ 53"
  shows "sd_scanMode (RecordOpen now p sd) \<longleftrightarrow>
     now - sd_windowStart sd \<le> sd_windowSize sd \<and>
     (sd_scanMode sd \<or>
      int (unat (sd_openCount sd)) + 1 \<ge> sd_openThreshold sd \<and>
      unat (sd_totalReadBytes sd) < (unat (sd_openCount sd) + 1) * 2 ^ 20)"
proof -
  let ?n = "sd_openCount sd + 1"
  have u: "unat ?n = unat (sd_openCount sd) + 1" using assms(1) by (simp add: unat_plus_if')
  then have s: "sint ?n = int (unat (sd_openCount sd)) + 1"
    using assms(1) sint_of_nat64 [of "unat ?n"] by (simp add: add.commute)
  have "low_average (sd_totalReadBytes sd) ?n \<longleftrightarrow> unat (sd_totalReadBytes sd) < (unat (sd_openCount sd) + 1) * 2 ^ 20"
    using low_average_exact [of ?n "sd_totalReadBytes sd"] assms u by simp
  then show ?thesis using s by (auto simp: RecordOpen_def checkWindow_def)
qed

theorem scan_mode_exact_witness:
  "sd_scanMode (RecordOpen 5 ''f'' (RecordOpen 4 ''e'' (newScanDetector 0 2 10)))"
proof -
  let ?sd = "RecordOpen 4 ''e'' (newScanDetector 0 2 10)"
  have "sd_openCount ?sd = 1" "sd_totalReadBytes ?sd = 0" "sd_openThreshold ?sd = 2" "sd_windowStart ?sd = 0" "sd_windowSize ?sd = 10"
    by (simp_all add: RecordOpen_def newScanDetector_def checkWindow_def)
  then show ?thesis using scan_mode_exact [of ?sd 5 "''f''"] by simp
qed

text \<open>The pre-buffer gate opens in time: if at some poll before the deadline the chunk at the requested
  offset is in the read-ahead cache, or at least the configured number of bytes of the file is, the wait
  succeeds; when it fails, the file had been read before and no poll saw either.\<close>

theorem gate_ready_iff:
  assumes "read_count pg p \<noteq> 0" "pg_hasCache pg"
    and "\<not> (0 < MaxCachedOffset xx p c \<and> MaxCachedOffset xx p c < pg_minBytes pg)"
  shows "WaitUntilReady cfg xx pg p off c cs \<longleftrightarrow>
     (\<exists>d \<in> set cs. ra_Exists cfg xx p off d \<or> MaxCachedOffset xx p d \<ge> pg_minBytes pg)"
  using assms by (auto simp: WaitUntilReady_def poll_iff Let_def)

theorem gate_ready_iff_witness:
  "\<not> WaitUntilReady \<lparr>ReadAheadBase = 4, ReadAheadBudget = 9\<rparr> (\<lambda>_. 0) (pg_RecordRead ''f'' 0 3 (newPreBufferGate True 8)) ''f'' 0
      newReadAheadCache [newReadAheadCache]"
proof -
  have "MaxCachedOffset (\<lambda>_. 0) ''f'' newReadAheadCache = 0" "\<not> ra_Exists \<lparr>ReadAheadBase = 4, ReadAheadBudget = 9\<rparr> (\<lambda>_. 0) ''f'' 0 newReadAheadCache"
    by (simp_all add: MaxCachedOffset_def newReadAheadCache_def ra_getShard_def shard_idx_def ra_Exists_def)
  then show ?thesis
    using gate_ready_iff [of "pg_RecordRead ''f'' 0 3 (newPreBufferGate True 8)" "''f''" "\<lambda>_. 0" newReadAheadCache]
    by (simp add: pg_RecordRead_def newPreBufferGate_def read_count_def)
qed

end
