(* ===== verification/Pieces.thy ===== *)
theory Pieces
  imports Prelude
begin

text \<open>
  The pieces of a torrent in memory (\<^verbatim>\<open>internal/gostorm/torr/storage/torrstor\<close>: \<^verbatim>\<open>mempiece.go\<close>,
  \<^verbatim>\<open>piece.go\<close>, \<^verbatim>\<open>piecefake.go\<close>). Piece buffers are arrays in a store and are recycled through a global
  pool; a piece holds the address of its buffer. \<^verbatim>\<open>ReadAt\<close> takes the address under the lock and copies
  after the lock is released, so it is two steps. What \<^verbatim>\<open>sync.Pool.Get\<close> returns is left open.
\<close>

type_synonym addr = nat

record Piece =
  pc_Id :: int
  pc_Size :: int
  pc_Complete :: bool
  pc_Accessed :: int
  pc_buffer :: "addr option"

record store =
  st_mem :: "byte list list"
  st_pool :: "addr list"

definition NewPiece :: "int \<Rightarrow> Piece" where
  "NewPiece i = \<lparr>pc_Id = i, pc_Size = 0, pc_Complete = False, pc_Accessed = 0, pc_buffer = None\<rparr>"

text \<open>\<^verbatim>\<open>memBufferPool.Get()\<close> returns some pooled buffer (the choice \<open>Some k\<close>) or nil.\<close>

definition pool_Get :: "nat option \<Rightarrow> store \<Rightarrow> addr option \<times> store" where
  "pool_Get g st =
     (case g of None \<Rightarrow> (None, st)
      | Some k \<Rightarrow> if k < length (st_pool st)
                 then (Some (st_pool st ! k), st\<lparr>st_pool := take k (st_pool st) @ drop (Suc k) (st_pool st)\<rparr>)
                 else (None, st))"

definition pool_Put :: "addr \<Rightarrow> store \<Rightarrow> store" where
  "pool_Put a st = st\<lparr>st_pool := a # st_pool st\<rparr>"

definition make_buf :: "int \<Rightarrow> store \<Rightarrow> addr \<times> store" where
  "make_buf L st = (length (st_mem st), st\<lparr>st_mem := st_mem st @ [replicate (nat L) 0]\<rparr>)"

text \<open>The first part of \<^verbatim>\<open>WriteAt\<close>: the piece's buffer, a pooled one of the right length, or a new one.\<close>

definition mem_buffer :: "nat option \<Rightarrow> int \<Rightarrow> Piece \<Rightarrow> store \<Rightarrow> addr \<times> store" where
  "mem_buffer g L p st =
     (case pc_buffer p of Some a \<Rightarrow> (a, st)
      | None \<Rightarrow> (case pool_Get g st of
            (Some a, st1) \<Rightarrow> if int (length (st_mem st1 ! a)) = L then (a, st1) else make_buf L st1
          | (None, st1) \<Rightarrow> make_buf L st1))"

text \<open>\<^verbatim>\<open>WriteAt\<close>: the number of bytes copied (\<open>None\<close> is the panic of the slice expression), whether the clean-up
  was triggered, the piece and the store. \<open>L\<close> is the cache's piece length.\<close>

definition mem_WriteAt ::
  "nat option \<Rightarrow> int \<Rightarrow> int \<Rightarrow> byte list \<Rightarrow> int \<Rightarrow> Piece \<Rightarrow> store \<Rightarrow> nat option \<times> bool \<times> Piece \<times> store" where
  "mem_WriteAt g L now b off p st =
     (let (a, st1) = mem_buffer g L p st; trig = (pc_buffer p = None);
          p1 = p\<lparr>pc_buffer := Some a\<rparr>; buf = st_mem st1 ! a
      in case slice buf off (int (length buf)) of
           None \<Rightarrow> (None, trig, p1, st1)
         | Some rest \<Rightarrow>
             (let n = go_copied rest b; sz = pc_Size p + int n
              in (Some n, trig, p1\<lparr>pc_Size := (if sz > L then L else sz), pc_Accessed := now\<rparr>,
                  st1\<lparr>st_mem := (st_mem st1)[a := take (nat off) buf @ go_copy rest b]\<rparr>)))"

datatype read_res = RPanic | REOF | RBytes "byte list"

text \<open>\<^verbatim>\<open>ReadAt\<close> after the snapshot \<open>buf\<close> of the buffer: the result, whether the clean-up was triggered, the piece.\<close>

definition mem_ReadAt_copy :: "int \<Rightarrow> nat \<Rightarrow> int \<Rightarrow> addr option \<Rightarrow> Piece \<Rightarrow> store \<Rightarrow> read_res \<times> bool \<times> Piece" where
  "mem_ReadAt_copy now blen off buf p st =
     (case buf of None \<Rightarrow> (REOF, False, p\<lparr>pc_Complete := False\<rparr>)
      | Some a \<Rightarrow>
          (let bf = st_mem st ! a; len = int (length bf)
           in if off \<ge> len then (REOF, False, p\<lparr>pc_Complete := False\<rparr>)
              else
                (let size0 = (if int blen + off > len then (if len - off < 0 then 0 else len - off) else int blen)
                 in if len < off + size0 then (REOF, False, p\<lparr>pc_Complete := False\<rparr>)
                    else (case slice bf off (off + size0) of
                            None \<Rightarrow> (RPanic, False, p)
                          | Some d \<Rightarrow>
                              (let n = min blen (length d); p1 = p\<lparr>pc_Accessed := now\<rparr>;
                                   trig = (int blen + off \<ge> pc_Size p)
                               in if n = 0 then (REOF, trig, p1\<lparr>pc_Complete := False\<rparr>)
                                  else (RBytes (take n d), trig, p1))))))"

definition mem_ReadAt :: "int \<Rightarrow> nat \<Rightarrow> int \<Rightarrow> Piece \<Rightarrow> store \<Rightarrow> read_res \<times> bool \<times> Piece" where
  "mem_ReadAt now blen off p st = mem_ReadAt_copy now blen off (pc_buffer p) p st"

definition mem_Release :: "Piece \<Rightarrow> store \<Rightarrow> Piece \<times> store" where
  "mem_Release p st =
     (p\<lparr>pc_buffer := None, pc_Size := 0, pc_Complete := False\<rparr>,
      case pc_buffer p of Some a \<Rightarrow> pool_Put a st | None \<Rightarrow> st)"

definition MarkComplete :: "Piece \<Rightarrow> Piece" where
  "MarkComplete p = p\<lparr>pc_Complete := True\<rparr>"

definition Completion :: "Piece \<Rightarrow> bool \<times> bool" where
  "Completion p = (pc_Complete p, True)"

section \<open>All pieces that share the pool\<close>

text \<open>The pieces of all caches, by a global number; \<open>plen\<close> gives the piece length of the cache a piece
  belongs to. \<open>ps_reads\<close> holds the calls of \<^verbatim>\<open>ReadAt\<close> that have taken their snapshot, by thread.\<close>

record psys =
  ps_pieces :: "nat \<rightharpoonup> Piece"
  ps_store :: store
  ps_reads :: "nat \<rightharpoonup> (nat \<times> addr option \<times> nat \<times> int)"

datatype ps_op =
    OWrite (op_pid: nat) "nat option" int "byte list" int
  | ORelease (op_pid: nat)
  | OComplete (op_pid: nat)
  | OSnap nat (op_pid: nat) nat int
  | OCopy nat int

fun ps_exec :: "(nat \<Rightarrow> int) \<Rightarrow> ps_op \<Rightarrow> psys \<Rightarrow> psys option" where
  "ps_exec plen (OWrite pid g now b off) s =
     (case ps_pieces s pid of None \<Rightarrow> None
      | Some p \<Rightarrow> (case mem_WriteAt g (plen pid) now b off p (ps_store s) of
            (_, _, p', st') \<Rightarrow> Some (s\<lparr>ps_pieces := (ps_pieces s)(pid \<mapsto> p'), ps_store := st'\<rparr>)))"
| "ps_exec plen (ORelease pid) s =
     (case ps_pieces s pid of None \<Rightarrow> None
      | Some p \<Rightarrow> (case mem_Release p (ps_store s) of
            (p', st') \<Rightarrow> Some (s\<lparr>ps_pieces := (ps_pieces s)(pid \<mapsto> p'), ps_store := st'\<rparr>)))"
| "ps_exec plen (OComplete pid) s =
     (case ps_pieces s pid of None \<Rightarrow> None
      | Some p \<Rightarrow> Some (s\<lparr>ps_pieces := (ps_pieces s)(pid \<mapsto> MarkComplete p)\<rparr>))"
| "ps_exec plen (OSnap t pid blen off) s =
     (case ps_pieces s pid of None \<Rightarrow> None
      | Some p \<Rightarrow> (case ps_reads s t of Some _ \<Rightarrow> None
            | None \<Rightarrow> Some (s\<lparr>ps_reads := (ps_reads s)(t \<mapsto> (pid, pc_buffer p, blen, off))\<rparr>)))"
| "ps_exec plen (OCopy t now) s =
     (case ps_reads s t of None \<Rightarrow> None
      | Some (pid, buf, blen, off) \<Rightarrow>
          (case ps_pieces s pid of None \<Rightarrow> None
           | Some p \<Rightarrow> (case mem_ReadAt_copy now blen off buf p (ps_store s) of
                 (_, _, p') \<Rightarrow> Some (s\<lparr>ps_pieces := (ps_pieces s)(pid \<mapsto> p'), ps_reads := (ps_reads s)(t := None)\<rparr>))))"


fun ps_run :: "(nat \<Rightarrow> int) \<Rightarrow> ps_op list \<Rightarrow> psys \<Rightarrow> psys option" where
  "ps_run plen [] s = Some s"
| "ps_run plen (oper # ops) s = Option.bind (ps_exec plen oper s) (ps_run plen ops)"

definition ps_init :: "nat set \<Rightarrow> psys \<Rightarrow> bool" where
  "ps_init pids s \<longleftrightarrow>
     s = \<lparr>ps_pieces = (\<lambda>i. if i \<in> pids then Some (NewPiece (int i)) else None),
          ps_store = \<lparr>st_mem = [], st_pool = []\<rparr>, ps_reads = Map.empty\<rparr>"

definition ps_step :: "(nat \<Rightarrow> int) \<Rightarrow> psys \<Rightarrow> psys \<Rightarrow> bool" where
  "ps_step plen s s' \<longleftrightarrow> (\<exists>oper. ps_exec plen oper s = Some s')"

section \<open>Ownership\<close>

text \<open>Every buffer has one owner: a piece, of whose length it is, or the pool.\<close>

definition owns :: "psys \<Rightarrow> nat \<Rightarrow> addr \<Rightarrow> bool" where
  "owns s pid a \<longleftrightarrow> (\<exists>p. ps_pieces s pid = Some p \<and> pc_buffer p = Some a)"

definition ps_inv :: "(nat \<Rightarrow> int) \<Rightarrow> psys \<Rightarrow> bool" where
  "ps_inv plen s \<longleftrightarrow>
     (\<forall>pid a. owns s pid a \<longrightarrow> a < length (st_mem (ps_store s)) \<and> int (length (st_mem (ps_store s) ! a)) = plen pid
                 \<and> a \<notin> set (st_pool (ps_store s)))
   \<and> (\<forall>pid pid' a. owns s pid a \<longrightarrow> owns s pid' a \<longrightarrow> pid = pid')
   \<and> distinct (st_pool (ps_store s)) \<and> (\<forall>a \<in> set (st_pool (ps_store s)). a < length (st_mem (ps_store s)))
   \<and> (\<forall>pid p. ps_pieces s pid = Some p \<longrightarrow> 0 \<le> pc_Size p \<and> pc_Size p \<le> plen pid)"

lemma ps_invD:
  assumes "ps_inv plen s"
  shows "owns s pid a \<Longrightarrow> a < length (st_mem (ps_store s))"
    and "owns s pid a \<Longrightarrow> int (length (st_mem (ps_store s) ! a)) = plen pid"
    and "owns s pid a \<Longrightarrow> a \<notin> set (st_pool (ps_store s))"
    and "owns s pid a \<Longrightarrow> owns s pid' a \<Longrightarrow> pid = pid'"
    and "distinct (st_pool (ps_store s))"
    and "a \<in> set (st_pool (ps_store s)) \<Longrightarrow> a < length (st_mem (ps_store s))"
    and "ps_pieces s pid = Some p \<Longrightarrow> 0 \<le> pc_Size p"
    and "ps_pieces s pid = Some p \<Longrightarrow> pc_Size p \<le> plen pid"
  using assms unfolding ps_inv_def by blast+

definition st_ext :: "store \<Rightarrow> store \<Rightarrow> bool" where
  "st_ext st st1 \<longleftrightarrow> length (st_mem st) \<le> length (st_mem st1) \<and> set (st_pool st1) \<subseteq> set (st_pool st)
     \<and> (\<forall>a < length (st_mem st). st_mem st1 ! a = st_mem st ! a) \<and> (distinct (st_pool st) \<longrightarrow> distinct (st_pool st1))"

lemma pool_Get_ext:
  assumes "pool_Get g st = (r, st1)"
  shows "st_ext st st1" and "st_mem st1 = st_mem st"
    and "r = Some a \<Longrightarrow> distinct (st_pool st) \<Longrightarrow> a \<in> set (st_pool st) \<and> a \<notin> set (st_pool st1)"
proof -
  have d: "st_pool st ! k \<notin> set (take k (st_pool st) @ drop (Suc k) (st_pool st)) \<and>
      distinct (take k (st_pool st) @ drop (Suc k) (st_pool st))"
    if "k < length (st_pool st)" "distinct (st_pool st)" for k
    using that id_take_nth_drop [OF that(1)] by (metis distinct.simps(2) distinct_append not_distinct_conv_prefix
        Un_iff disjoint_insert(1) list.set(2) set_append)
  show "st_ext st st1"
    using assms d by (auto simp: pool_Get_def st_ext_def split: option.splits if_splits dest: in_set_takeD in_set_dropD)
  show "st_mem st1 = st_mem st" using assms by (auto simp: pool_Get_def split: option.splits if_splits)
  show "a \<in> set (st_pool st) \<and> a \<notin> set (st_pool st1)" if "r = Some a" "distinct (st_pool st)"
    using assms that d by (auto simp: pool_Get_def split: option.splits if_splits)
qed

lemma make_buf_ext:
  assumes "make_buf L st = (a, st1)"
  shows "st_ext st st1" "a = length (st_mem st)" "a < length (st_mem st1)" "st_mem st1 ! a = replicate (nat L) 0"
    "st_pool st1 = st_pool st"
  using assms by (auto simp: make_buf_def st_ext_def nth_append)

lemma st_ext_trans: "st_ext a b \<Longrightarrow> st_ext b c \<Longrightarrow> st_ext a c"
  by (auto simp: st_ext_def)

text \<open>The buffer a write uses is the piece's own or one that nobody else owns.\<close>

lemma mem_buffer_spec:
  assumes inv: "ps_inv plen s" and p: "ps_pieces s pid = Some p" and L: "0 \<le> plen pid"
    and mb: "mem_buffer g (plen pid) p (ps_store s) = (a, st1)"
  shows "st_ext (ps_store s) st1" and "a < length (st_mem st1)" and "int (length (st_mem st1 ! a)) = plen pid"
    and "a \<notin> set (st_pool st1)" and "\<And>pid'. owns s pid' a \<Longrightarrow> pid' = pid"
    and "pc_buffer p = Some c \<Longrightarrow> a = c \<and> st1 = ps_store s"
proof -
  note D = ps_invD [OF inv]
  let ?st = "ps_store s"
  have fresh: "st_ext ?st st1 \<and> a < length (st_mem st1) \<and> int (length (st_mem st1 ! a)) = plen pid \<and>
      a \<notin> set (st_pool st1) \<and> (\<forall>pid'. owns s pid' a \<longrightarrow> pid' = pid)"
    if "pool_Get g ?st = (r, st0)" "make_buf (plen pid) st0 = (a, st1)" for r st0
  proof -
    note g = pool_Get_ext [OF that(1)] and m = make_buf_ext [OF that(2)]
    have "a \<notin> set (st_pool st1)" using g(1,2) m(2,5) D(6) unfolding st_ext_def by (metis less_irrefl subsetD)
    moreover have "\<not> owns s pid' a" for pid' using D(1) g(2) m(2) by (metis less_irrefl)
    ultimately show ?thesis using st_ext_trans [OF g(1) m(1)] m(3,4) L by simp
  qed
  have all: "st_ext ?st st1 \<and> a < length (st_mem st1) \<and> int (length (st_mem st1 ! a)) = plen pid \<and>
      a \<notin> set (st_pool st1) \<and> (\<forall>pid'. owns s pid' a \<longrightarrow> pid' = pid)"
  proof (cases "pc_buffer p")
    case (Some c)
    then have "a = c" "st1 = ?st" "owns s pid a" using mb p by (auto simp: mem_buffer_def owns_def)
    then show ?thesis using D(1-4) by (auto simp: st_ext_def)
  next
    case None
    obtain r st0 where g: "pool_Get g ?st = (r, st0)" by fastforce
    show ?thesis
    proof (cases "\<exists>c. r = Some c \<and> int (length (st_mem st0 ! c)) = plen pid")
      case True
      then obtain c where c: "r = Some c" "int (length (st_mem st0 ! c)) = plen pid" by blast
      then have "a = c" "st1 = st0" using mb None g by (auto simp: mem_buffer_def)
      moreover have "c \<in> set (st_pool ?st)" "c \<notin> set (st_pool st0)" using pool_Get_ext(3) [OF g c(1) D(5)] by auto
      ultimately show ?thesis using pool_Get_ext(1,2) [OF g] D(3,6) c(2) by auto
    next
      case False
      then have "make_buf (plen pid) st0 = (a, st1)" using mb None g by (auto simp: mem_buffer_def split: option.splits if_splits)
      then show ?thesis using fresh [OF g] by blast
    qed
  qed
  then show "st_ext ?st st1" "a < length (st_mem st1)" "int (length (st_mem st1 ! a)) = plen pid"
    "a \<notin> set (st_pool st1)" "\<And>pid'. owns s pid' a \<Longrightarrow> pid' = pid" by blast+
  show "pc_buffer p = Some c \<Longrightarrow> a = c \<and> st1 = ?st" using mb by (simp add: mem_buffer_def)
qed


text \<open>A step that gives piece \<open>pid\<close> the buffer \<open>a\<close> (or none) keeps the invariant if \<open>a\<close> is not owned by another.\<close>

lemma ps_inv_own:
  assumes inv: "ps_inv plen s" and ext: "st_ext (ps_store s) st1"
    and a: "pc_buffer p = Some a" "a < length (st_mem st1)" "a \<notin> set (st_pool st1)" "\<And>pid'. owns s pid' a \<Longrightarrow> pid' = pid"
    and m: "length m = length (st_mem st1)" "int (length (m ! a)) = plen pid" "\<And>c. c \<noteq> a \<Longrightarrow> m ! c = st_mem st1 ! c"
    and sz: "0 \<le> pc_Size p" "pc_Size p \<le> plen pid"
  shows "ps_inv plen (s\<lparr>ps_pieces := (ps_pieces s)(pid \<mapsto> p), ps_store := st1\<lparr>st_mem := m\<rparr>\<rparr>)" (is "ps_inv plen ?s")
proof -
  note D = ps_invD [OF inv]
  have o: "owns ?s pid' c \<longleftrightarrow> (if pid' = pid then c = a else owns s pid' c)" for pid' c using a(1) by (auto simp: owns_def)
  have e: "length (st_mem (ps_store s)) \<le> length (st_mem st1)" "set (st_pool st1) \<subseteq> set (st_pool (ps_store s))"
    "\<And>c. c < length (st_mem (ps_store s)) \<Longrightarrow> st_mem st1 ! c = st_mem (ps_store s) ! c" "distinct (st_pool st1)"
    using ext D(5) by (auto simp: st_ext_def)
  have "c < length m \<and> int (length (m ! c)) = plen pid' \<and> c \<notin> set (st_pool st1)" if "owns ?s pid' c" for pid' c
  proof (cases "pid' = pid")
    case True
    then show ?thesis using that o a m by simp
  next
    case False
    then have c: "owns s pid' c" using that o by simp
    then have "c \<noteq> a" using a(4) False by blast
    then show ?thesis using D(1-3) [OF c] e m by auto
  qed
  moreover have "pid1 = pid2" if "owns ?s pid1 c" "owns ?s pid2 c" for pid1 pid2 c
    using that D(4) a(4) unfolding o by (metis (full_types))
  moreover have "\<forall>c \<in> set (st_pool st1). c < length m" using e(1,2) D(6) m(1) by (metis less_le_trans subsetD)
  moreover have "0 \<le> pc_Size q \<and> pc_Size q \<le> plen pid'" if "ps_pieces ?s pid' = Some q" for pid' q
    using that D(7,8) sz by (auto split: if_splits)
  ultimately show ?thesis using e(4) unfolding ps_inv_def by simp
qed

lemma ps_inv_same:
  assumes "ps_inv plen s" "ps_pieces s pid = Some p" "pc_buffer p' = pc_buffer p" "pc_Size p' = pc_Size p"
  shows "ps_inv plen (s\<lparr>ps_pieces := (ps_pieces s)(pid \<mapsto> p'), ps_reads := rs\<rparr>)" (is "ps_inv plen ?s")
proof -
  have "owns ?s pid' c \<longleftrightarrow> owns s pid' c" for pid' c using assms by (auto simp: owns_def)
  then show ?thesis using assms unfolding ps_inv_def by simp
qed

lemma ps_inv_release:
  assumes inv: "ps_inv plen s" and p: "ps_pieces s pid = Some p" and L: "0 \<le> plen pid"
    and r: "mem_Release p (ps_store s) = (p', st')"
  shows "ps_inv plen (s\<lparr>ps_pieces := (ps_pieces s)(pid \<mapsto> p'), ps_store := st'\<rparr>)" (is "ps_inv plen ?s")
proof -
  note D = ps_invD [OF inv]
  have p': "pc_buffer p' = None" "pc_Size p' = 0" using r by (auto simp: mem_Release_def)
  have m: "st_mem st' = st_mem (ps_store s)" using r by (auto simp: mem_Release_def pool_Put_def split: option.splits)
  have pool: "st_pool st' = (case pc_buffer p of Some a \<Rightarrow> a # st_pool (ps_store s) | None \<Rightarrow> st_pool (ps_store s))"
    using r by (auto simp: mem_Release_def pool_Put_def split: option.splits)
  have o: "owns ?s pid' c \<longleftrightarrow> pid' \<noteq> pid \<and> owns s pid' c" for pid' c using p'(1) by (auto simp: owns_def)
  have ow: "pc_buffer p = Some a \<Longrightarrow> owns s pid a" for a using p by (simp add: owns_def)
  have "distinct (st_pool st') \<and> (\<forall>c \<in> set (st_pool st'). c < length (st_mem st'))"
    using D(1,3,5,6) ow m pool by (auto split: option.splits)
  moreover have "c \<notin> set (st_pool st')" if "owns ?s pid' c" for pid' c
    using that D(3,4) ow unfolding o pool by (auto split: option.splits)
  moreover have "0 \<le> pc_Size q \<and> pc_Size q \<le> plen pid'" if "ps_pieces ?s pid' = Some q" for pid' q
    using that D(7,8) p'(2) L by (auto split: if_splits)
  ultimately show ?thesis using D(1,2,4) m unfolding ps_inv_def by (simp add: o) blast
qed

lemma mem_ReadAt_copy_piece:
  "mem_ReadAt_copy now blen off buf p st = (r, t, p') \<Longrightarrow> pc_buffer p' = pc_buffer p \<and> pc_Size p' = pc_Size p"
  by (auto simp: mem_ReadAt_copy_def Let_def split: option.splits if_splits)

text \<open>What a write does to the store, in one statement.\<close>

definition overwrite :: "byte list \<Rightarrow> int \<Rightarrow> byte list \<Rightarrow> byte list" where
  "overwrite base off b = (if 0 \<le> off \<and> off \<le> int (length base) then take (nat off) base @ go_copy (drop (nat off) base) b else base)"

lemma length_overwrite [simp]: "length (overwrite base off b) = length base"
  by (auto simp: overwrite_def)

lemma mem_WriteAt_eq:
  assumes "mem_buffer g L p st = (a, st1)" "mem_WriteAt g L now b off p st = (r, t, p', st')"
  shows "st' = st1\<lparr>st_mem := (st_mem st1)[a := overwrite (st_mem st1 ! a) off b]\<rparr>" and "pc_buffer p' = Some a"
    and "0 \<le> pc_Size p \<Longrightarrow> pc_Size p \<le> L \<Longrightarrow> 0 \<le> pc_Size p' \<and> pc_Size p' \<le> L"
  using assms by (auto simp: mem_WriteAt_def overwrite_def slice_def Let_def split: if_splits)

lemma ps_exec_inv:
  assumes L: "\<And>pid. 0 \<le> plen pid" and inv: "ps_inv plen s" and ex: "ps_exec plen oper s = Some s'"
  shows "ps_inv plen s'"
proof (cases oper)
  case (OWrite pid g now b off)
  then obtain p where p: "ps_pieces s pid = Some p" using ex by (auto split: option.splits)
  obtain a st1 where mb: "mem_buffer g (plen pid) p (ps_store s) = (a, st1)" by fastforce
  obtain r t p' st' where w: "mem_WriteAt g (plen pid) now b off p (ps_store s) = (r, t, p', st')" by (metis prod_cases4)
  note S = mem_buffer_spec [OF inv p L mb] and W = mem_WriteAt_eq [OF mb w]
  have s': "s' = s\<lparr>ps_pieces := (ps_pieces s)(pid \<mapsto> p'), ps_store := st'\<rparr>" using ex OWrite p w by simp
  show ?thesis unfolding s' W(1)
  proof (rule ps_inv_own [OF inv S(1) W(2) S(2) S(4)])
    show "pid' = pid" if "owns s pid' a" for pid' using S(5) [OF that] .
    show "0 \<le> pc_Size p'" "pc_Size p' \<le> plen pid" using W(3) ps_invD(7,8) [OF inv p] by auto
  qed (use S(2,3) in simp_all)
next
  case (ORelease pid)
  then show ?thesis using ex ps_inv_release [OF inv _ L] by (auto split: option.splits prod.splits)
next
  case (OComplete pid)
  then obtain p where p: "ps_pieces s pid = Some p" using ex by (auto split: option.splits)
  have "s' = s\<lparr>ps_pieces := (ps_pieces s)(pid \<mapsto> MarkComplete p), ps_reads := ps_reads s\<rparr>" using ex OComplete p by (cases s) auto
  then show ?thesis by (simp only:) (rule ps_inv_same [OF inv p], simp_all add: MarkComplete_def)
next
  case (OSnap t pid blen off)
  then have "ps_pieces s' = ps_pieces s" "ps_store s' = ps_store s" using ex by (auto split: option.splits)
  then show ?thesis using inv by (simp add: ps_inv_def owns_def)
next
  case (OCopy t now)
  then obtain pid buf blen off p where r: "ps_reads s t = Some (pid, buf, blen, off)" "ps_pieces s pid = Some p"
    using ex by (auto split: option.splits)
  obtain x y p' where c: "mem_ReadAt_copy now blen off buf p (ps_store s) = (x, y, p')" by (metis prod_cases3)
  have "s' = s\<lparr>ps_pieces := (ps_pieces s)(pid \<mapsto> p'), ps_reads := (ps_reads s)(t := None)\<rparr>" using ex OCopy r c by simp
  then show ?thesis using ps_inv_same [OF inv r(2)] mem_ReadAt_copy_piece [OF c] by simp
qed

lemma ps_inv_init: "(\<And>pid. 0 \<le> plen pid) \<Longrightarrow> ps_init pids s \<Longrightarrow> ps_inv plen s"
  by (auto simp: ps_init_def ps_inv_def owns_def NewPiece_def split: if_splits)

text \<open>The lengths of the pieces' caches are natural numbers, so the locale's instance needs no premise.\<close>

interpretation piece_store: step_invariant "ps_init pids" "ps_step (\<lambda>pid. int (plen pid))" "ps_inv (\<lambda>pid. int (plen pid))"
  by unfold_locales (auto simp: ps_step_def intro: ps_inv_init ps_exec_inv [rotated 1])

section \<open>Contents\<close>

text \<open>The abstract view: the bytes of every piece that has a buffer, and what each operation may do to them. A write
  into a piece without a buffer starts from unspecified bytes, because pooled buffers are not cleared.\<close>

definition piece_bytes :: "psys \<Rightarrow> nat \<rightharpoonup> byte list" where
  "piece_bytes s pid = Option.bind (ps_pieces s pid) (\<lambda>p. map_option (\<lambda>a. st_mem (ps_store s) ! a) (pc_buffer p))"

fun bytes_step :: "(nat \<Rightarrow> int) \<Rightarrow> ps_op \<Rightarrow> (nat \<rightharpoonup> byte list) \<Rightarrow> (nat \<rightharpoonup> byte list) \<Rightarrow> bool" where
  "bytes_step plen (OWrite pid g now b off) c c' =
     (\<exists>base. int (length base) = plen pid \<and> (\<forall>d. c pid = Some d \<longrightarrow> base = d) \<and> c' = c(pid \<mapsto> overwrite base off b))"
| "bytes_step plen (ORelease pid) c c' = (c' = c(pid := None))"
| "bytes_step plen oper c c' = (c' = c)"

lemma piece_bytes_owns: "piece_bytes s pid = Some d \<longleftrightarrow> (\<exists>a. owns s pid a \<and> d = st_mem (ps_store s) ! a)"
  by (auto simp: piece_bytes_def owns_def Option.bind_eq_Some_conv)

lemma piece_bytes_cong:
  assumes "\<And>p. ps_pieces s' i = Some p \<Longrightarrow> \<exists>q. ps_pieces s i = Some q \<and> pc_buffer q = pc_buffer p"
    and "ps_pieces s' i = None \<Longrightarrow> ps_pieces s i = None"
    and "\<And>a. owns s i a \<Longrightarrow> st_mem (ps_store s') ! a = st_mem (ps_store s) ! a"
  shows "piece_bytes s' i = piece_bytes s i"
proof (cases "ps_pieces s' i")
  case None
  then show ?thesis using assms(2) by (simp add: piece_bytes_def)
next
  case (Some p)
  then obtain q where q: "ps_pieces s i = Some q" "pc_buffer q = pc_buffer p" using assms(1) by blast
  show ?thesis
  proof (cases "pc_buffer p")
    case (Some a)
    then have "st_mem (ps_store s') ! a = st_mem (ps_store s) ! a" using assms(3) [of a] q by (simp add: owns_def)
    then show ?thesis using Some q \<open>ps_pieces s' i = Some p\<close> by (simp add: piece_bytes_def)
  qed (use q \<open>ps_pieces s' i = Some p\<close> in \<open>simp add: piece_bytes_def\<close>)
qed

lemma write_bytes:
  assumes inv: "ps_inv plen s" and p: "ps_pieces s pid = Some p" and L: "0 \<le> plen pid"
    and w: "mem_WriteAt g (plen pid) now b off p (ps_store s) = (r, t, p', st')"
  defines "s' \<equiv> s\<lparr>ps_pieces := (ps_pieces s)(pid \<mapsto> p'), ps_store := st'\<rparr>"
  shows "bytes_step plen (OWrite pid g now b off) (piece_bytes s) (piece_bytes s')"
proof -
  obtain a st1 where mb: "mem_buffer g (plen pid) p (ps_store s) = (a, st1)" by fastforce
  note S = mem_buffer_spec [OF inv p L mb] and W = mem_WriteAt_eq [OF mb w]
  let ?base = "st_mem st1 ! a"
  have self: "piece_bytes s' pid = Some (overwrite ?base off b)"
    using S(2) W(1,2) by (simp add: s'_def piece_bytes_def)
  have other: "piece_bytes s' i = piece_bytes s i" if i: "i \<noteq> pid" for i
  proof (rule piece_bytes_cong)
    fix c assume c: "owns s i c"
    then have "c \<noteq> a" "c < length (st_mem (ps_store s))" using S(5) i ps_invD(1) [OF inv] by auto
    then show "st_mem (ps_store s') ! c = st_mem (ps_store s) ! c" using S(1) W(1) by (simp add: s'_def st_ext_def)
  qed (use i in \<open>auto simp: s'_def\<close>)
  have "?base = d" if "piece_bytes s pid = Some d" for d
    using that p S(6) by (auto simp: piece_bytes_def)
  moreover have "piece_bytes s' = (piece_bytes s)(pid \<mapsto> overwrite ?base off b)" using self other by auto
  ultimately show ?thesis using S(3) by (auto intro!: exI [of _ ?base])
qed

lemma ps_exec_bytes:
  assumes L: "\<And>pid. 0 \<le> plen pid" and inv: "ps_inv plen s" and ex: "ps_exec plen oper s = Some s'"
  shows "bytes_step plen oper (piece_bytes s) (piece_bytes s')"
proof (cases oper)
  case (OWrite pid g now b off)
  then obtain p where p: "ps_pieces s pid = Some p" using ex by (auto split: option.splits)
  obtain r t p' st' where w: "mem_WriteAt g (plen pid) now b off p (ps_store s) = (r, t, p', st')" by (metis prod_cases4)
  show ?thesis using write_bytes [OF inv p L w] ex OWrite p w by simp
next
  case (ORelease pid)
  then show ?thesis using ex
    by (auto simp: piece_bytes_def mem_Release_def pool_Put_def fun_eq_iff split: option.splits)
next
  case (OComplete pid)
  then show ?thesis using ex by (auto simp: piece_bytes_def MarkComplete_def fun_eq_iff split: option.splits)
next
  case (OSnap t pid blen off)
  then show ?thesis using ex by (auto simp: piece_bytes_def fun_eq_iff split: option.splits)
next
  case (OCopy t now)
  then show ?thesis using ex mem_ReadAt_copy_piece
    by (fastforce simp: piece_bytes_def fun_eq_iff split: option.splits prod.splits)
qed

lemma mem_ReadAt_bytes:
  assumes "pc_buffer p = Some a" "st_mem st ! a = d" "0 \<le> off" "off < int (length d)" "0 < blen"
  shows "fst (mem_ReadAt now blen off p st) = RBytes (take blen (drop (nat off) d))"
  using assms by (auto simp: mem_ReadAt_def mem_ReadAt_copy_def slice_def Let_def min_def nat_diff_distrib)

lemma read_overwrite:
  assumes "0 \<le> off" "off + int (length b) \<le> int (length base)"
  shows "take (length b) (drop (nat off) (overwrite base off b)) = b"
  using assms by (auto simp: overwrite_def go_copy_def nat_le_iff)


text \<open>The operations that change the bytes of a piece.\<close>

fun touches :: "nat \<Rightarrow> ps_op \<Rightarrow> bool" where
  "touches pid (OWrite pid' g now b off) = (pid' = pid)"
| "touches pid (ORelease pid') = (pid' = pid)"
| "touches pid oper = False"

lemma bytes_step_frame: "bytes_step plen oper c c' \<Longrightarrow> \<not> touches pid oper \<Longrightarrow> c' pid = c pid"
  by (cases oper) auto

lemma ps_run_frame:
  assumes "\<And>pid. 0 \<le> plen pid" "ps_inv plen s" "ps_run plen ops s = Some s'" "\<forall>oper \<in> set ops. \<not> touches pid oper"
  shows "ps_inv plen s' \<and> piece_bytes s' pid = piece_bytes s pid"
  using assms(2-)
proof (induction ops arbitrary: s)
  case (Cons oper ops)
  then obtain s1 where s1: "ps_exec plen oper s = Some s1" "ps_run plen ops s1 = Some s'" by (auto simp: Option.bind_eq_Some_conv)
  have "ps_inv plen s1" using ps_exec_inv [OF assms(1) Cons(2) s1(1)] .
  moreover have "piece_bytes s1 pid = piece_bytes s pid"
    using bytes_step_frame [OF ps_exec_bytes [OF assms(1) Cons(2) s1(1)]] Cons(4) by simp
  ultimately show ?case using Cons(1) [OF _ s1(2)] Cons(4) by simp
qed simp

abbreviation ps_reachable :: "(nat \<Rightarrow> nat) \<Rightarrow> nat set \<Rightarrow> psys \<Rightarrow> bool" where
  "ps_reachable plen pids \<equiv> reachable (ps_init pids) (ps_step (\<lambda>pid. int (plen pid)))"

section \<open>Properties\<close>

text \<open>C11: in every interleaving of writes, releases, completions and reads of all pieces of all caches, recycled
  buffers included, each operation does to the bytes of the pieces exactly what the abstract step allows: a write
  changes the bytes of its own piece at its own offset, a release empties its piece, nothing else changes any byte.\<close>

theorem pieces_refine:
  assumes "ps_reachable plen pids s" and "ps_exec (\<lambda>pid. int (plen pid)) oper s = Some s'"
  shows "bytes_step (\<lambda>pid. int (plen pid)) oper (piece_bytes s) (piece_bytes s')"
  using ps_exec_bytes [OF _ piece_store.reachable_inv [OF assms(1)] assms(2)] by simp

text \<open>C12: bytes written to a piece within its length are read back unchanged by \<^verbatim>\<open>ReadAt\<close>, whatever operations on other
  pieces (which may recycle buffers through the pool) and whatever reads happen in between, when the read takes
  its snapshot and copies without a release between the two.\<close>

theorem piece_write_read:
  assumes "ps_reachable plen pids s"
    and "ps_exec (\<lambda>i. int (plen i)) (OWrite pid g now b off) s = Some s1"
    and "0 \<le> off" and "off + int (length b) \<le> int (plen pid)" and "b \<noteq> []"
    and "ps_run (\<lambda>i. int (plen i)) ops s1 = Some s2" and "\<forall>oper \<in> set ops. \<not> touches pid oper"
  shows "\<exists>p. ps_pieces s2 pid = Some p \<and> fst (mem_ReadAt now' (length b) off p (ps_store s2)) = RBytes b"
proof -
  let ?L = "\<lambda>i. int (plen i)"
  have inv: "ps_inv ?L s" by (rule piece_store.reachable_inv [OF assms(1)])
  have inv1: "ps_inv ?L s1" using ps_exec_inv [OF _ inv assms(2)] by simp
  obtain base where base: "length base = plen pid" "piece_bytes s1 pid = Some (overwrite base off b)"
    using ps_exec_bytes [OF _ inv assms(2)] by auto
  have "piece_bytes s2 pid = Some (overwrite base off b)" using ps_run_frame [OF _ inv1 assms(6,7)] base by simp
  then obtain p a where p: "ps_pieces s2 pid = Some p" "pc_buffer p = Some a" "st_mem (ps_store s2) ! a = overwrite base off b"
    by (auto simp: piece_bytes_owns owns_def)
  have b: "0 < length b" using assms(5) by simp
  then have "off < int (plen pid)" using assms(4) by linarith
  with b have "fst (mem_ReadAt now' (length b) off p (ps_store s2)) = RBytes b"
    using mem_ReadAt_bytes [OF p(2,3) assms(3)] base assms(3,4) read_overwrite [of off b base] by simp
  then show ?thesis using p(1) by blast
qed

text \<open>Two pieces of two bytes each, for the examples below.\<close>

definition two_pieces :: psys where
  "two_pieces = \<lparr>ps_pieces = (\<lambda>i. if i \<in> {0, 1} then Some (NewPiece (int i)) else None),
     ps_store = \<lparr>st_mem = [], st_pool = []\<rparr>, ps_reads = Map.empty\<rparr>"

lemma two_pieces_reachable: "ps_reachable (\<lambda>_. 2) {0, 1} two_pieces"
  by (rule reach_init) (simp add: ps_init_def two_pieces_def)

lemmas ps_eval = two_pieces_def NewPiece_def mem_WriteAt_def mem_buffer_def make_buf_def pool_Get_def pool_Put_def
  mem_Release_def slice_def go_copy_def go_copied_def

theorem pieces_refine_witness:
  "\<exists>s'. ps_exec (\<lambda>_. 2) (OWrite 0 None 5 [7, 8] 0) two_pieces = Some s' \<and>
     bytes_step (\<lambda>_. 2) (OWrite 0 None 5 [7, 8] 0) (piece_bytes two_pieces) (piece_bytes s')"
proof -
  have "\<exists>s'. ps_exec (\<lambda>_. 2) (OWrite 0 None 5 [7, 8] 0) two_pieces = Some s'" by (simp add: ps_eval)
  then show ?thesis using pieces_refine [OF two_pieces_reachable, of "OWrite 0 None 5 [7, 8] 0"] by auto
qed

theorem piece_write_read_witness:
  "\<exists>s1 s2. ps_exec (\<lambda>_. 2) (OWrite 0 None 5 [7] 1) two_pieces = Some s1 \<and>
     ps_run (\<lambda>_. 2) [OWrite 1 None 6 [9, 9] 0, ORelease 1, OWrite 1 (Some 0) 7 [3] 0] s1 = Some s2 \<and>
     (\<exists>p. ps_pieces s2 0 = Some p \<and> fst (mem_ReadAt 8 1 1 p (ps_store s2)) = RBytes [7])"
proof -
  obtain s1 where s1: "ps_exec (\<lambda>_. 2) (OWrite 0 None 5 [7] 1) two_pieces = Some s1" by (simp add: ps_eval)
  obtain s2 where s2: "ps_run (\<lambda>_. 2) [OWrite 1 None 6 [9, 9] 0, ORelease 1, OWrite 1 (Some 0) 7 [3] 0] s1 = Some s2"
    using s1 by (auto simp: ps_eval)
  have "\<exists>p. ps_pieces s2 0 = Some p \<and> fst (mem_ReadAt 8 1 1 p (ps_store s2)) = RBytes [7]"
    using piece_write_read [OF two_pieces_reachable, of 0 None 5 "[7]" 1 s1
        "[OWrite 1 None 6 [9, 9] 0, ORelease 1, OWrite 1 (Some 0) 7 [3] 0]" s2 8] s1 s2
    by (simp del: ps_exec.simps ps_run.simps)
  then show ?thesis using s1 s2 by auto
qed


end
