(* ===== verification/Shield.thy ===== *)
theory Shield
  imports Pieces "HOL-Library.Word"
begin

text \<open>
  The adaptive corruption shield of the torrent storage (\<^verbatim>\<open>internal/gostorm/torr/storage/torrstor/piece.go\<close>:
  \<^verbatim>\<open>IsResponsive\<close>, \<^verbatim>\<open>ResetShield\<close>, \<^verbatim>\<open>Piece.MarkNotComplete\<close> and the watchdog goroutine it starts). The counters are
  32-bit words. A watchdog is a list element that records how far its exit has come; times are nanoseconds.
\<close>

datatype dog = Sleeping | ClearCount | ClearFlag

record shield =
  sh_lastCorruptionUnix :: int
  sh_shieldActive :: bool
  sh_isWatchdogRunning :: bool
  sh_staticCorruptionCount :: "32 word"
  sh_strictCycleCount :: "32 word"
  sh_dogs :: "dog list"

text \<open>The two settings the code reads, \<^verbatim>\<open>settings.GetAdaptiveShield()\<close> and \<^verbatim>\<open>settings.GetResponsiveMode()\<close>.\<close>

record shield_settings =
  ss_Adaptive :: bool
  ss_Responsive :: bool

definition shield_init :: shield where
  "shield_init = \<lparr>sh_lastCorruptionUnix = 0, sh_shieldActive = False, sh_isWatchdogRunning = False,
     sh_staticCorruptionCount = 0, sh_strictCycleCount = 0, sh_dogs = []\<rparr>"

definition IsResponsive :: "shield_settings \<Rightarrow> shield \<Rightarrow> bool" where
  "IsResponsive cfg s \<longleftrightarrow> ss_Responsive cfg \<and> \<not> sh_shieldActive s"

definition ResetShield :: "shield \<Rightarrow> shield" where
  "ResetShield s = s\<lparr>sh_shieldActive := False, sh_isWatchdogRunning := False,
     sh_staticCorruptionCount := 0, sh_strictCycleCount := 0\<rparr>"

definition second :: int where
  "second = 1000000000"

text \<open>The corruption branch of \<^verbatim>\<open>MarkNotComplete\<close> (the piece had data): the count and the activation, then the start of
  the watchdog.\<close>

definition shield_count :: "shield_settings \<Rightarrow> shield \<Rightarrow> shield" where
  "shield_count cfg s =
     (if ss_Adaptive cfg \<and> ss_Responsive cfg \<and> \<not> sh_shieldActive s
      then (let count = sh_staticCorruptionCount s + 1; s1 = s\<lparr>sh_staticCorruptionCount := count\<rparr>
            in if sint count > 1
               then s1\<lparr>sh_strictCycleCount := sh_strictCycleCount s1 + 1, sh_shieldActive := True\<rparr>
               else s1)
      else s)"

definition shield_watch :: "shield \<Rightarrow> shield" where
  "shield_watch s =
     (if sint (sh_staticCorruptionCount s) \<ge> 1
      then (if sh_isWatchdogRunning s then s
            else s\<lparr>sh_isWatchdogRunning := True, sh_dogs := sh_dogs s @ [Sleeping]\<rparr>)
      else s)"

definition MarkNotComplete :: "shield_settings \<Rightarrow> int \<Rightarrow> Piece \<Rightarrow> shield \<Rightarrow> Piece \<times> shield" where
  "MarkNotComplete cfg now p s =
     (p\<lparr>pc_Complete := False\<rparr>,
      if pc_buffer p = None then s
      else shield_watch (shield_count cfg (s\<lparr>sh_lastCorruptionUnix := now div second\<rparr>)))"

text \<open>The clean streak the watchdog asks for. \<^verbatim>\<open>30*cycle\<close> is computed in 32 bits and may wrap.\<close>

definition cleanNeeded :: "32 word \<Rightarrow> int" where
  "cleanNeeded cycle =
     (let c = sint (30 * cycle) * second; c1 = (if c < 30 * second then 30 * second else c)
      in if c1 > 120 * second then 120 * second else c1)"

text \<open>One atomic action of the watchdog number \<open>i\<close>: a tick, and on a clean streak \<^verbatim>\<open>shieldActive.Swap(false)\<close>; then the two
  stores before it returns.\<close>

definition dog_step :: "int \<Rightarrow> nat \<Rightarrow> shield \<Rightarrow> shield option" where
  "dog_step now i s =
     (if i < length (sh_dogs s)
      then Some (case sh_dogs s ! i of
          Sleeping \<Rightarrow>
            (if now - sh_lastCorruptionUnix s * second > cleanNeeded (sh_strictCycleCount s)
             then s\<lparr>sh_shieldActive := False, sh_dogs := (sh_dogs s)[i := ClearCount]\<rparr> else s)
        | ClearCount \<Rightarrow> s\<lparr>sh_staticCorruptionCount := 0, sh_dogs := (sh_dogs s)[i := ClearFlag]\<rparr>
        | ClearFlag \<Rightarrow> s\<lparr>sh_isWatchdogRunning := False, sh_dogs := take i (sh_dogs s) @ drop (Suc i) (sh_dogs s)\<rparr>)
      else None)"

inductive shield_step :: "shield_settings \<Rightarrow> shield \<Rightarrow> shield \<Rightarrow> bool" for cfg where
  Sh_mark: "shield_step cfg s (snd (MarkNotComplete cfg now p s))"
| Sh_dog: "dog_step now i s = Some s' \<Longrightarrow> shield_step cfg s s'"
| Sh_reset: "shield_step cfg s (ResetShield s)"

text \<open>The same without a reset: what happens while one title plays.\<close>

inductive shield_play :: "shield_settings \<Rightarrow> shield \<Rightarrow> shield \<Rightarrow> bool" for cfg where
  Sp_mark: "shield_play cfg s (snd (MarkNotComplete cfg now p s))"
| Sp_dog: "dog_step now i s = Some s' \<Longrightarrow> shield_play cfg s s'"

section \<open>Facts\<close>

lemmas shield_defs = shield_count_def shield_watch_def MarkNotComplete_def dog_step_def Let_def

lemma cleanNeeded_bounds: "30 * second \<le> cleanNeeded c" "cleanNeeded c \<le> 120 * second"
  by (auto simp: cleanNeeded_def second_def Let_def)

text \<open>Where the shield is stuck: active, with nothing left that would ever clear it.\<close>

definition stuck :: "shield \<Rightarrow> bool" where
  "stuck s \<longleftrightarrow> sh_shieldActive s \<and> sh_dogs s = [] \<and> sh_staticCorruptionCount s = 0"

lemma stuck_play: "stuck s \<Longrightarrow> shield_play cfg s t \<Longrightarrow> stuck t"
  by (erule shield_play.cases) (auto simp: stuck_def shield_defs)

lemma reach_mark:
  "reachable init (shield_step cfg) s \<Longrightarrow> reachable init (shield_step cfg) (snd (MarkNotComplete cfg now p s))"
  by (rule reach_step, assumption, rule Sh_mark)

lemma reach_dog:
  "reachable init (shield_step cfg) s \<Longrightarrow> sh_dogs s = [x] \<Longrightarrow> reachable init (shield_step cfg) (the (dog_step now 0 s))"
  by (rule reach_step, assumption, rule Sh_dog [of now 0]) (simp add: dog_step_def)

section \<open>Properties\<close>

text \<open>two strikes: a corrupted piece that has data turns the shield on exactly if the feature and responsive mode
  are on and an earlier corruption is still counted (as a signed 32-bit value); a piece without data (evicted, not
  corrupted) changes nothing but its completion flag; and while the shield is on, responsive mode is off.\<close>

theorem shield_two_strikes:
  "(pc_buffer p = None \<longrightarrow> snd (MarkNotComplete cfg now p s) = s)
   \<and> (pc_buffer p \<noteq> None \<longrightarrow>
       (sh_shieldActive (snd (MarkNotComplete cfg now p s)) \<longleftrightarrow>
          sh_shieldActive s \<or> ss_Adaptive cfg \<and> ss_Responsive cfg \<and> sint (sh_staticCorruptionCount s + 1) > 1)
     \<and> IsResponsive cfg (snd (MarkNotComplete cfg now p s)) =
         (ss_Responsive cfg \<and> \<not> sh_shieldActive s \<and> \<not> (ss_Adaptive cfg \<and> sint (sh_staticCorruptionCount s + 1) > 1)))
   \<and> pc_Complete (fst (MarkNotComplete cfg now p s)) = False"
  by (auto simp: shield_defs IsResponsive_def)

theorem shield_two_strikes_witness:
  "IsResponsive \<lparr>ss_Adaptive = True, ss_Responsive = True\<rparr>
     (snd (MarkNotComplete \<lparr>ss_Adaptive = True, ss_Responsive = True\<rparr> 5 ((NewPiece 1)\<lparr>pc_buffer := Some 0\<rparr>) shield_init))"
  using shield_two_strikes [of "(NewPiece 1)\<lparr>pc_buffer := Some 0\<rparr>" "\<lparr>ss_Adaptive = True, ss_Responsive = True\<rparr>" 5 shield_init]
  by (simp add: NewPiece_def shield_init_def)

text \<open>a watchdog that wakes more than two minutes after the last corruption ends the strict mode within its next three
  actions if nothing runs in between: the shield is off, the count and the flag are reset and the watchdog has ended;
  within the first thirty seconds it does nothing, whatever the (possibly wrapped) cycle count.\<close>

theorem watchdog_restores:
  assumes "i < length (sh_dogs s)" and "sh_dogs s ! i = Sleeping"
  shows "(now > (sh_lastCorruptionUnix s + 120) * second \<longrightarrow>
            (\<exists>s1 s2 s3. dog_step now i s = Some s1 \<and> dog_step now i s1 = Some s2 \<and> dog_step now i s2 = Some s3 \<and>
               \<not> sh_shieldActive s3 \<and> sh_staticCorruptionCount s3 = 0 \<and> \<not> sh_isWatchdogRunning s3 \<and>
               length (sh_dogs s3) = length (sh_dogs s) - 1 \<and> IsResponsive cfg s3 = ss_Responsive cfg))
       \<and> (now \<le> (sh_lastCorruptionUnix s + 30) * second \<longrightarrow> dog_step now i s = Some s)"
  using assms cleanNeeded_bounds [of "sh_strictCycleCount s"]
  by (auto simp: dog_step_def IsResponsive_def algebra_simps)

theorem watchdog_restores_witness:
  "\<exists>s. sh_shieldActive s \<and> sh_dogs s = [Sleeping] \<and>
     (\<exists>s1 s2 s3. dog_step (131 * second) 0 s = Some s1 \<and> dog_step (131 * second) 0 s1 = Some s2 \<and>
        dog_step (131 * second) 0 s2 = Some s3 \<and> \<not> sh_shieldActive s3)"
proof -
  let ?s = "shield_init\<lparr>sh_lastCorruptionUnix := 10, sh_shieldActive := True, sh_isWatchdogRunning := True,
      sh_staticCorruptionCount := 2, sh_strictCycleCount := 1, sh_dogs := [Sleeping]\<rparr>"
  have "131 * second > (sh_lastCorruptionUnix ?s + 120) * second" by (simp add: second_def)
  then show ?thesis using watchdog_restores [of 0 ?s "131 * second"] by (intro exI [of _ ?s]) (simp, blast)
qed

text \<open>the shield can get stuck. Two corruptions turn it on; when the watchdog's clean streak is reached and a further
  corruption arrives between its \<^verbatim>\<open>shieldActive.Swap(false)\<close> and its two stores, the shield is on again while the
  watchdog ends and clears the count. From then on no corruption and no watchdog action changes that until the shield
  is reset: strict mode stays on for the rest of the playback.\<close>

theorem shield_sticks:
  "\<exists>s. reachable (\<lambda>s. s = shield_init) (shield_step \<lparr>ss_Adaptive = True, ss_Responsive = True\<rparr>) s \<and>
     (\<forall>t. (shield_play cfg)\<^sup>*\<^sup>* s t \<longrightarrow> sh_shieldActive t \<and> sh_dogs t = [] \<and> \<not> IsResponsive cfg t)"
proof -
  let ?c = "\<lparr>ss_Adaptive = True, ss_Responsive = True\<rparr>" and ?p = "(NewPiece 1)\<lparr>pc_buffer := Some 0\<rparr>"
  let ?R = "reachable (\<lambda>s. s = shield_init) (shield_step ?c)"
  define s0 where "s0 = snd (MarkNotComplete ?c 0 ?p (snd (MarkNotComplete ?c 0 ?p shield_init)))"
  define s1 where "s1 = the (dog_step (31 * second) 0 s0)"
  define s2 where "s2 = snd (MarkNotComplete ?c (31 * second) ?p s1)"
  define s3 where "s3 = the (dog_step (31 * second) 0 (the (dog_step (31 * second) 0 s2)))"
  have R0: "?R s0" unfolding s0_def by (intro reach_mark reach_init refl)
  have d: "sh_dogs s0 = [Sleeping]" "sh_dogs s1 = [ClearCount]" "sh_dogs s2 = [ClearCount]"
    "sh_dogs (the (dog_step (31 * second) 0 s2)) = [ClearFlag]" and st: "stuck s3"
    by (simp_all add: s0_def s1_def s2_def s3_def shield_defs shield_init_def NewPiece_def cleanNeeded_def second_def stuck_def)
  have "?R s2" unfolding s2_def s1_def by (intro reach_mark reach_dog [OF R0 d(1)])
  then have "?R s3" unfolding s3_def by (intro reach_dog [OF reach_dog [OF _ d(3)] d(4)])
  moreover have "stuck t" if "(shield_play cfg)\<^sup>*\<^sup>* s3 t" for t
    using that by (induction rule: rtranclp_induct) (auto intro: st stuck_play)
  ultimately show ?thesis by (intro exI [of _ s3]) (auto simp: stuck_def IsResponsive_def)
qed

theorem shield_sticks_witness:
  "\<exists>s. reachable (\<lambda>s. s = shield_init) (shield_step \<lparr>ss_Adaptive = True, ss_Responsive = True\<rparr>) s \<and>
     \<not> IsResponsive \<lparr>ss_Adaptive = True, ss_Responsive = True\<rparr> s"
  using shield_sticks [of "\<lparr>ss_Adaptive = True, ss_Responsive = True\<rparr>"] by blast

end
