(* ===== verification/Ranges.thy ===== *)
theory Ranges
  imports Prelude "HOL-Library.Multiset" "HOL-Library.Product_Lexorder"
begin

text \<open>
  Piece ranges of the torrent cache (\<^verbatim>\<open>internal/gostorm/torr/storage/torrstor/ranges.go\<close>): merging the
  ranges of all readers into a sorted list of disjoint ranges, and the binary search for a piece in such
  a list. \<^verbatim>\<open>sort.Slice\<close> does not fix the order of elements that compare equal, so the sorting function is
  a parameter of which only its documented contract is used.
\<close>

record 'f Range =
  rg_Start :: int
  rg_End :: int
  rg_File :: 'f

section \<open>Binary search\<close>

text \<open>\<^verbatim>\<open>sort.Search(n, f)\<close>: the loop on the half-open interval \<open>i..j\<close>.\<close>

function search_loop :: "(nat \<Rightarrow> bool) \<Rightarrow> nat \<Rightarrow> nat \<Rightarrow> nat" where
  "search_loop f i j =
     (if i < j then (let h = (i + j) div 2 in if \<not> f h then search_loop f (h + 1) j else search_loop f i h) else i)"
  by pat_completeness auto
termination
  by (relation "measure (\<lambda>(f, i, j). j - i)") auto

declare search_loop.simps [simp del]

definition sort_Search :: "nat \<Rightarrow> (nat \<Rightarrow> bool) \<Rightarrow> nat" where
  "sort_Search n f = search_loop f 0 n"

definition inRanges :: "'f Range list \<Rightarrow> int \<Rightarrow> bool" where
  "inRanges ranges ind =
     (let i = sort_Search (length ranges) (\<lambda>i. rg_End (ranges ! i) \<ge> ind)
      in i < length ranges \<and> rg_Start (ranges ! i) \<le> ind)"

text \<open>The search finds the first index at which a monotone test succeeds.\<close>

lemma search_loop_first:
  assumes "i \<le> j" "\<And>a b. a \<le> b \<Longrightarrow> b < n \<Longrightarrow> f a \<Longrightarrow> f b" "j \<le> n"
    and "\<And>a. a < i \<Longrightarrow> \<not> f a" "\<And>a. j \<le> a \<Longrightarrow> a < n \<Longrightarrow> f a"
  shows "search_loop f i j \<le> n \<and> (\<forall>a < search_loop f i j. \<not> f a) \<and> (\<forall>a. search_loop f i j \<le> a \<longrightarrow> a < n \<longrightarrow> f a)"
  using assms
proof (induction f i j rule: search_loop.induct)
  case (1 f i j)
  note mono = 1(4) and lo = 1(6) and hi = 1(7)
  show ?case
  proof (cases "i < j")
    case False
    then have "search_loop f i j = i" by (simp add: search_loop.simps)
    moreover have "i = j" using False 1(3) by simp
    ultimately show ?thesis using 1(5) by (simp add: lo hi)
  next
    case True
    define h where "h = (i + j) div 2"
    have h: "i \<le> h" "h < j" unfolding h_def using True by linarith+
    show ?thesis
    proof (cases "f h")
      case fh: True
      have eq: "search_loop f i j = search_loop f i h" using True fh by (simp add: search_loop.simps [of f i j] h_def)
      show ?thesis unfolding eq
      proof (rule 1(2) [OF True h_def])
        show "f a" if "h \<le> a" "a < n" for a using mono [OF that fh] .
        show "f b" if "a \<le> b" "b < n" "f a" for a b using mono [OF that] .
        show "\<not> f a" if "a < i" for a using lo [OF that] .
      qed (use fh h 1(5) in simp_all)
    next
      case fh: False
      have eq: "search_loop f i j = search_loop f (h + 1) j" using True fh by (simp add: search_loop.simps [of f i j] h_def)
      show ?thesis unfolding eq
      proof (rule 1(1) [OF True h_def])
        have "a \<le> h" "h < n" if "a < h + 1" for a using that h 1(5) by simp_all
        then show "\<not> f a" if "a < h + 1" for a using mono [of a h] fh that by blast
        show "f b" if "a \<le> b" "b < n" "f a" for a b using mono [OF that] .
        show "f a" if "j \<le> a" "a < n" for a using hi [OF that] .
      qed (use fh h 1(5) in simp_all)
    qed
  qed
qed

section \<open>Merging\<close>

text \<open>The contract of the call to \<^verbatim>\<open>sort.Slice\<close>: a permutation, ordered by start and then by end.\<close>

definition sorts_ranges :: "('f Range list \<Rightarrow> 'f Range list) \<Rightarrow> bool" where
  "sorts_ranges srt \<longleftrightarrow>
     (\<forall>xs. mset (srt xs) = mset xs \<and> sorted (map (\<lambda>r. (rg_Start r, rg_End r)) (srt xs)))"

text \<open>The loop of \<^verbatim>\<open>mergeRange\<close>: \<open>acc\<close> is \<^verbatim>\<open>merged[:j]\<close> in reverse, \<open>cur\<close> is \<^verbatim>\<open>merged[j]\<close>, and the list is
  \<^verbatim>\<open>merged[i:]\<close>, which the in-place update never reaches.\<close>

fun merge_loop :: "'f Range list \<Rightarrow> 'f Range \<Rightarrow> 'f Range list \<Rightarrow> 'f Range list" where
  "merge_loop acc cur [] = rev (cur # acc)"
| "merge_loop acc cur (r # rs) =
     (if rg_End cur \<ge> rg_Start r
      then merge_loop acc (if rg_End cur < rg_End r then cur\<lparr>rg_End := rg_End r\<rparr> else cur) rs
      else merge_loop (cur # acc) r rs)"

definition mergeRange :: "('f Range list \<Rightarrow> 'f Range list) \<Rightarrow> 'f Range list \<Rightarrow> 'f Range list" where
  "mergeRange srt ranges =
     (if length ranges \<le> 1 then ranges
      else (case srt ranges of [] \<Rightarrow> [] | r # rs \<Rightarrow> merge_loop [] r rs))"

definition covers :: "'f Range list \<Rightarrow> int \<Rightarrow> bool" where
  "covers rs i \<longleftrightarrow> (\<exists>r \<in> set rs. rg_Start r \<le> i \<and> i \<le> rg_End r)"

definition disjoint_sorted :: "'f Range list \<Rightarrow> bool" where
  "disjoint_sorted rs \<longleftrightarrow> sorted_wrt (\<lambda>a b. rg_End a < rg_Start b) rs \<and> (\<forall>r \<in> set rs. rg_Start r \<le> rg_End r)"

lemma covers_simps [simp]:
  "covers [] i = False" "covers (r # rs) i = (rg_Start r \<le> i \<and> i \<le> rg_End r \<or> covers rs i)"
  "covers (xs @ ys) i = (covers xs i \<or> covers ys i)" "covers (rev xs) i = covers xs i"
  by (auto simp: covers_def)

lemma merge_loop_spec:
  assumes "sorted (map rg_Start (cur # rs))" "\<forall>r \<in> set (cur # rs). rg_Start r \<le> rg_End r"
    and "disjoint_sorted (rev acc)" "\<forall>a \<in> set acc. rg_End a < rg_Start cur"
  shows "disjoint_sorted (merge_loop acc cur rs) \<and> (\<forall>i. covers (merge_loop acc cur rs) i \<longleftrightarrow> covers acc i \<or> covers (cur # rs) i)"
  using assms
proof (induction acc cur rs rule: merge_loop.induct)
  case (1 acc cur)
  then show ?case by (auto simp: disjoint_sorted_def sorted_wrt_append)
next
  case (2 acc cur r rs)
  show ?case
  proof (cases "rg_End cur \<ge> rg_Start r")
    case True
    let ?cur = "if rg_End cur < rg_End r then cur\<lparr>rg_End := rg_End r\<rparr> else cur"
    have "disjoint_sorted (merge_loop acc ?cur rs) \<and> (\<forall>i. covers (merge_loop acc ?cur rs) i \<longleftrightarrow> covers acc i \<or> covers (?cur # rs) i)"
      by (rule 2(1) [OF True]) (use 2(3-) in auto)
    then show ?thesis using True 2(3,4) by (auto split: if_splits)
  next
    case False
    have "disjoint_sorted (rev (cur # acc))" using 2(4-) by (auto simp: disjoint_sorted_def sorted_wrt_append)
    then have "disjoint_sorted (merge_loop (cur # acc) r rs) \<and>
        (\<forall>i. covers (merge_loop (cur # acc) r rs) i \<longleftrightarrow> covers (cur # acc) i \<or> covers (r # rs) i)"
      by (intro 2(2) [OF False]) (use 2(3-) False in auto)
    then show ?thesis using False by auto
  qed
qed

lemma mergeRange_spec:
  assumes srt: "sorts_ranges srt" and wf: "\<forall>r \<in> set rs. rg_Start r \<le> rg_End r"
  shows "disjoint_sorted (mergeRange srt rs) \<and> (\<forall>i. covers (mergeRange srt rs) i \<longleftrightarrow> covers rs i)"
proof (cases "length rs \<le> 1")
  case True
  then show ?thesis using wf by (cases rs) (auto simp: mergeRange_def disjoint_sorted_def)
next
  case False
  have ms: "mset (srt rs) = mset rs" and so: "sorted (map (\<lambda>r. (rg_Start r, rg_End r)) (srt rs))"
    using srt by (auto simp: sorts_ranges_def)
  from ms have st: "set (srt rs) = set rs" by (rule mset_eq_setD)
  obtain c cs where c: "srt rs = c # cs" using False ms by (cases "srt rs") auto
  have "sorted (map rg_Start (c # cs))" using so unfolding c sorted_map
    by (rule sorted_wrt_mono_rel [rotated]) (auto simp: less_eq_prod_def)
  moreover have "\<forall>r \<in> set (c # cs). rg_Start r \<le> rg_End r" using wf st c by auto
  ultimately have "disjoint_sorted (merge_loop [] c cs) \<and> (\<forall>i. covers (merge_loop [] c cs) i \<longleftrightarrow> covers (c # cs) i)"
    using merge_loop_spec [of c cs "[]"] by (simp add: disjoint_sorted_def)
  moreover have "covers (c # cs) i = covers rs i" for i unfolding covers_def c [symmetric] st ..
  ultimately show ?thesis using False c by (simp add: mergeRange_def)
qed

lemma inRanges_iff:
  assumes d: "disjoint_sorted rs"
  shows "inRanges rs i \<longleftrightarrow> covers rs i"
proof -
  let ?n = "length rs" and ?f = "\<lambda>k. rg_End (rs ! k) \<ge> i"
  define k where "k = sort_Search ?n ?f"
  have lt: "rg_End (rs ! a) < rg_Start (rs ! b) \<and> rg_Start (rs ! b) \<le> rg_End (rs ! b)" if "a < b" "b < ?n" for a b
    using d that by (auto simp: disjoint_sorted_def sorted_wrt_iff_nth_less)
  have mono: "?f b" if "a \<le> b" "b < ?n" "?f a" for a b using lt [of a b] that by (cases "a = b") auto
  have "k \<le> ?n \<and> (\<forall>a < k. \<not> ?f a) \<and> (\<forall>a. k \<le> a \<longrightarrow> a < ?n \<longrightarrow> ?f a)"
    unfolding k_def sort_Search_def
  proof (rule search_loop_first)
    show "?f b" if "a \<le> b" "b < ?n" "?f a" for a b using mono [OF that] .
  qed simp_all
  then have k: "k \<le> ?n" "\<And>a. a < k \<Longrightarrow> \<not> ?f a" "\<And>a. k \<le> a \<Longrightarrow> a < ?n \<Longrightarrow> ?f a" by blast+
  have "covers rs i \<longleftrightarrow> k < ?n \<and> rg_Start (rs ! k) \<le> i"
  proof
    assume "covers rs i"
    then obtain a where a: "a < ?n" "rg_Start (rs ! a) \<le> i" "i \<le> rg_End (rs ! a)" by (auto simp: covers_def in_set_conv_nth)
    then have "k \<le> a" using k(2) [of a] by (meson not_less)
    have "rg_Start (rs ! k) \<le> rg_End (rs ! k)" using d \<open>k \<le> a\<close> a(1) by (simp add: disjoint_sorted_def)
    then have "rg_Start (rs ! k) \<le> i" using a lt [of k a] \<open>k \<le> a\<close> by (cases "k = a") auto
    then show "k < ?n \<and> rg_Start (rs ! k) \<le> i" using \<open>k \<le> a\<close> a by simp
  next
    assume "k < ?n \<and> rg_Start (rs ! k) \<le> i"
    then show "covers rs i" using k(3) [of k] by (auto simp: covers_def)
  qed
  then show ?thesis by (simp add: inRanges_def k_def Let_def)
qed

section \<open>Properties\<close>

text \<open>C27: the binary search in the merged ranges answers exactly whether a piece lies in one of the readers'
  ranges: merging loses no piece and adds none, and it leaves the list sorted and disjoint as the search
  needs it.\<close>

theorem merged_ranges_exact:
  assumes "sorts_ranges srt" and "\<forall>r \<in> set rs. rg_Start r \<le> rg_End r"
  shows "inRanges (mergeRange srt rs) i \<longleftrightarrow> (\<exists>r \<in> set rs. rg_Start r \<le> i \<and> i \<le> rg_End r)"
  using mergeRange_spec [OF assms] inRanges_iff [of "mergeRange srt rs"] by (simp add: covers_def)

lemma insort_sorts_ranges: "sorts_ranges (sort_key (\<lambda>r. (rg_Start r, rg_End r)))"
  by (simp add: sorts_ranges_def)

theorem merged_ranges_exact_witness:
  "inRanges (mergeRange (sort_key (\<lambda>r. (rg_Start r, rg_End r)))
     [\<lparr>rg_Start = 7, rg_End = 9, rg_File = ()\<rparr>, \<lparr>rg_Start = 1, rg_End = 3, rg_File = ()\<rparr>, \<lparr>rg_Start = 2, rg_End = 5, rg_File = ()\<rparr>]) 4 \<and>
   \<not> inRanges (mergeRange (sort_key (\<lambda>r. (rg_Start r, rg_End r)))
     [\<lparr>rg_Start = 7, rg_End = 9, rg_File = ()\<rparr>, \<lparr>rg_Start = 1, rg_End = 3, rg_File = ()\<rparr>, \<lparr>rg_Start = 2, rg_End = 5, rg_File = ()\<rparr>]) 6"
  using merged_ranges_exact [OF insort_sorts_ranges, of "[\<lparr>rg_Start = 7, rg_End = 9, rg_File = ()\<rparr>,
      \<lparr>rg_Start = 1, rg_End = 3, rg_File = ()\<rparr>, \<lparr>rg_Start = 2, rg_End = 5, rg_File = ()\<rparr>]"] by simp

end
