(* ===== verification/TorrCache.thy ===== *)
theory TorrCache
  imports Ranges Pieces Float64 "HOL-Library.Word" "HOL-Library.AList"
begin

text \<open>
  The cache of one torrent, its readers and the storage that owns the caches
  (\<^verbatim>\<open>internal/gostorm/torr/storage/torrstor\<close>: \<^verbatim>\<open>reader.go\<close>, \<^verbatim>\<open>cache.go\<close>, \<^verbatim>\<open>storage.go\<close>). The torrent library is a
  parameter: its reader is a record of functions, and the calls to a torrent are recorded in the order they are made,
  newest first. A Go map that is iterated is a list without repetition, whose order stands for the iteration order. Each
  operation runs as one step; goroutines that an operation starts are returned as requests. A result \<open>None\<close> is a
  run-time panic.
\<close>

section \<open>Data\<close>

record File =
  fi_Offset :: int
  fi_Length :: int

datatype PiecePriority = PNone | PNormal | PHigh | PReadahead | PNext | PNow

datatype tcall =
    TSetPriority int PiecePriority
  | TUpdateCompletion int
  | TSetPiecePriorities "(int \<times> PiecePriority) list"

datatype spawn = SpawnGetRemPieces | SpawnClearPriority

text \<open>The reader of the torrent library: \<^verbatim>\<open>Seek(offset, whence)\<close> and \<^verbatim>\<open>Read(p)\<close> return the new state, the number and
  whether there was no error.\<close>

record 'r treader =
  tr_Seek :: "'r \<Rightarrow> int \<Rightarrow> nat \<Rightarrow> 'r \<times> int \<times> bool"
  tr_Read :: "'r \<Rightarrow> nat \<Rightarrow> 'r \<times> nat \<times> bool"
  tr_SetReadahead :: "'r \<Rightarrow> int \<Rightarrow> 'r"
  tr_Close :: "'r \<Rightarrow> 'r"

text \<open>The settings the cache reads from \<^verbatim>\<open>settings.BTsets\<close>.\<close>

record bt_sets =
  bs_ReaderReadAHead :: int
  bs_ConnectionsLimit :: int
  bs_CacheSize :: int

record 'r Reader =
  rd_Reader :: 'r
  rd_offset :: int
  rd_readahead :: int
  rd_file :: File
  rd_cache :: bool
  rd_isClosed :: bool
  rd_lastAccess :: int
  rd_isUse :: bool

record ItemState =
  is_Id :: int
  is_Size :: int
  is_Length :: int
  is_Completed :: bool
  is_Priority :: int

record ReaderState =
  rs_Start :: int
  rs_End :: int
  rs_Reader :: int

record CacheState =
  cs_Capacity :: int
  cs_PiecesLength :: int
  cs_PiecesCount :: int
  cs_Hash :: string
  cs_Filled :: int
  cs_Pieces :: "(int \<times> ItemState) list"
  cs_Readers :: "ReaderState list"

text \<open>\<open>ca_pieces\<close> and \<open>ca_readers\<close> are \<open>None\<close> once the cache is closed; \<open>ca_heap\<close> holds every reader ever created.\<close>

record 'r Cache =
  ca_capacity :: int
  ca_filled :: int
  ca_hash :: string
  ca_pieceLength :: int
  ca_pieceCount :: int
  ca_pieces :: "(int \<rightharpoonup> Piece) option"
  ca_heap :: "nat \<rightharpoonup> 'r Reader"
  ca_readers :: "nat list option"
  ca_activeReaders :: "32 word"
  ca_isRemove :: bool
  ca_isClosed :: bool
  ca_IsAggressive :: bool
  ca_MasterLimit :: int
  ca_lastClean :: int
  ca_torrent :: bool
  ca_calls :: "tcall list"
  ca_cleanStop :: bool
  ca_localPriority :: "(int \<times> PiecePriority) list"
  ca_pieceInRange :: "bool list"
  ca_cachedState :: "(CacheState \<times> int) option"

definition NewCache :: "int \<Rightarrow> 'r Cache" where
  "NewCache capacity =
     \<lparr>ca_capacity = capacity, ca_filled = 0, ca_hash = [], ca_pieceLength = 0, ca_pieceCount = 0,
      ca_pieces = Some Map.empty, ca_heap = Map.empty, ca_readers = Some [], ca_activeReaders = 0, ca_isRemove = False,
      ca_isClosed = False, ca_IsAggressive = False, ca_MasterLimit = 0, ca_lastClean = 0, ca_torrent = False,
      ca_calls = [], ca_cleanStop = False, ca_localPriority = [], ca_pieceInRange = [], ca_cachedState = None\<rparr>"

text \<open>\<open>info\<close> is the pair of \<^verbatim>\<open>info.PieceLength\<close> and \<^verbatim>\<open>info.NumPieces()\<close>.\<close>

definition Cache_Init :: "int \<times> nat \<Rightarrow> string \<Rightarrow> 'r Cache \<Rightarrow> 'r Cache" where
  "Cache_Init info hash c =
     (let (pl, n) = info
      in c\<lparr>ca_capacity := (if ca_capacity c = 0 then pl * 4 else ca_capacity c), ca_pieceLength := pl,
           ca_pieceCount := int n, ca_hash := hash,
           ca_pieces := map_option (\<lambda>ps i. if 0 \<le> i \<and> i < int n then Some (NewPiece i) else ps i) (ca_pieces c),
           ca_pieceInRange := replicate n False\<rparr>)"

definition SetTorrent :: "bool \<Rightarrow> 'r Cache \<Rightarrow> 'r Cache" where
  "SetTorrent torr c = c\<lparr>ca_torrent := torr\<rparr>"

definition SetAggressive :: "bool \<Rightarrow> int \<Rightarrow> 'r Cache \<Rightarrow> 'r Cache" where
  "SetAggressive enabled masterLimit c =
     c\<lparr>ca_IsAggressive := enabled, ca_MasterLimit := (if masterLimit > 0 then masterLimit else ca_MasterLimit c)\<rparr>"

text \<open>The piece of an index, or the fake piece (\<open>None\<close>), whose every operation fails.\<close>

definition Cache_Piece :: "int \<Rightarrow> 'r Cache \<Rightarrow> Piece option" where
  "Cache_Piece index c = Option.bind (ca_pieces c) (\<lambda>ps. ps index)"

definition piece_ids :: "'r Cache \<Rightarrow> (int \<rightharpoonup> Piece) \<Rightarrow> int list" where
  "piece_ids c ps = filter (\<lambda>i. ps i \<noteq> None) [0..ca_pieceCount c - 1]"

definition Cache_Readers :: "'r Cache \<Rightarrow> int" where
  "Cache_Readers c = (case ca_readers c of None \<Rightarrow> 0 | Some rs \<Rightarrow> int (length rs))"

definition GetUseReaders :: "'r Cache \<Rightarrow> int" where
  "GetUseReaders c = sint (ca_activeReaders c)"

section \<open>Readers\<close>

definition SetReadahead :: "'r treader \<Rightarrow> int \<Rightarrow> 'r Reader \<Rightarrow> 'r Reader" where
  "SetReadahead T len r =
     (if \<not> rd_cache r then r
      else (if rd_isUse r then r\<lparr>rd_Reader := tr_SetReadahead T (rd_Reader r) len\<rparr> else r)\<lparr>rd_readahead := len\<rparr>)"

text \<open>\<^verbatim>\<open>readerOn\<close> and \<^verbatim>\<open>readerOff\<close> on the reader itself; the counter of the cache follows.\<close>

definition reader_on :: "'r treader \<Rightarrow> 'r Reader \<Rightarrow> 'r Reader" where
  "reader_on T r =
     (let (t, pos, ok) = tr_Seek T (rd_Reader r) 0 1;
          r1 = r\<lparr>rd_Reader := (if ok \<and> pos = 0 then fst (tr_Seek T t (rd_offset r) 0) else t)\<rparr>
      in (SetReadahead T (rd_readahead r1) r1)\<lparr>rd_isUse := True\<rparr>)"

definition reader_off :: "'r treader \<Rightarrow> 'r Reader \<Rightarrow> 'r Reader" where
  "reader_off T r =
     (let r1 = (SetReadahead T 0 r)\<lparr>rd_isUse := False\<rparr>
      in if rd_offset r1 > 0 then r1\<lparr>rd_Reader := fst (tr_Seek T (rd_Reader r1) 0 0)\<rparr> else r1)"

definition readerOn :: "'r treader \<Rightarrow> nat \<Rightarrow> 'r Cache \<Rightarrow> 'r Cache" where
  "readerOn T rid c =
     (case ca_heap c rid of None \<Rightarrow> c
      | Some r \<Rightarrow> if \<not> rd_isUse r
                 then c\<lparr>ca_heap := (ca_heap c)(rid \<mapsto> reader_on T r), ca_activeReaders := ca_activeReaders c + 1\<rparr> else c)"

definition readerOff :: "'r treader \<Rightarrow> nat \<Rightarrow> 'r Cache \<Rightarrow> 'r Cache" where
  "readerOff T rid c =
     (case ca_heap c rid of None \<Rightarrow> c
      | Some r \<Rightarrow> if rd_isUse r
                 then c\<lparr>ca_heap := (ca_heap c)(rid \<mapsto> reader_off T r), ca_activeReaders := ca_activeReaders c - 1\<rparr> else c)"

definition checkReader :: "'r treader \<Rightarrow> int \<Rightarrow> nat \<Rightarrow> 'r Cache \<Rightarrow> 'r Cache" where
  "checkReader T now rid c =
     (case ca_heap c rid of None \<Rightarrow> c
      | Some r \<Rightarrow> if now > rd_lastAccess r + 60 \<and> Cache_Readers c > 1 then readerOff T rid c else readerOn T rid c)"

text \<open>\<open>t0\<close> is the state of the library's reader that \<^verbatim>\<open>file.NewReader()\<close> returns, \<open>rid\<close> the new reader's identity.\<close>

definition NewReader :: "'r treader \<Rightarrow> 'r \<Rightarrow> nat \<Rightarrow> File \<Rightarrow> 'r Cache \<Rightarrow> 'r Cache" where
  "NewReader T t0 rid file c =
     (let c1 = SetAggressive True 0 c;
          r0 = \<lparr>rd_Reader = t0, rd_offset = 0, rd_readahead = 0, rd_file = file, rd_cache = False, rd_isClosed = False,
                rd_lastAccess = 0, rd_isUse = False\<rparr>;
          r1 = (SetReadahead T 0 r0)\<lparr>rd_cache := True, rd_isUse := True\<rparr>
      in c1\<lparr>ca_heap := (ca_heap c1)(rid \<mapsto> r1), ca_activeReaders := ca_activeReaders c1 + 1,
           ca_readers := map_option (\<lambda>rs. rid # rs) (ca_readers c1)\<rparr>)"

text \<open>\<^verbatim>\<open>Seek\<close> and \<^verbatim>\<open>Read\<close>: the returned number and whether the error is nil.\<close>

definition Reader_Seek :: "'r treader \<Rightarrow> int \<Rightarrow> nat \<Rightarrow> int \<Rightarrow> nat \<Rightarrow> 'r Cache \<Rightarrow> (int \<times> bool) \<times> 'r Cache" where
  "Reader_Seek T offset whence now rid c =
     (case ca_heap c rid of None \<Rightarrow> ((0, False), c)
      | Some r \<Rightarrow>
          if rd_isClosed r then ((0, False), c)
          else (let off1 = (if whence = 0 then offset else if whence = 1 then rd_offset r + offset
                            else if whence = 2 then fi_Length (rd_file r) + offset else rd_offset r);
                    c1 = readerOn T rid (c\<lparr>ca_heap := (ca_heap c)(rid \<mapsto> r\<lparr>rd_offset := off1\<rparr>)\<rparr>);
                    r1 = the (ca_heap c1 rid); (t, n, ok) = tr_Seek T (rd_Reader r1) offset whence
                in ((n, ok), c1\<lparr>ca_heap := (ca_heap c1)(rid \<mapsto> r1\<lparr>rd_Reader := t, rd_offset := n, rd_lastAccess := now\<rparr>)\<rparr>)))"

definition Reader_Read :: "'r treader \<Rightarrow> bool \<Rightarrow> nat \<Rightarrow> int \<Rightarrow> nat \<Rightarrow> 'r Cache \<Rightarrow> (nat \<times> bool) \<times> 'r Cache" where
  "Reader_Read T hasInfo plen now rid c =
     (case ca_heap c rid of None \<Rightarrow> ((0, False), c)
      | Some r \<Rightarrow>
          if rd_isClosed r then ((0, False), c)
          else if hasInfo
          then (let c1 = readerOn T rid c; r1 = the (ca_heap c1 rid); (t, n, ok) = tr_Read T (rd_Reader r1) plen
                in ((n, ok), c1\<lparr>ca_heap := (ca_heap c1)(rid \<mapsto> r1\<lparr>rd_Reader := t, rd_offset := rd_offset r1 + int n,
                                                              rd_lastAccess := now\<rparr>)\<rparr>))
          else ((0, False), c))"

definition Reader_Close :: "'r treader \<Rightarrow> bool \<Rightarrow> nat \<Rightarrow> 'r Cache \<Rightarrow> spawn list \<times> 'r Cache" where
  "Reader_Close T hasFiles rid c =
     (case ca_heap c rid of None \<Rightarrow> ([], c)
      | Some r \<Rightarrow>
          if rd_isClosed r then ([], c)
          else (let c1 = readerOff T rid (c\<lparr>ca_heap := (ca_heap c)(rid \<mapsto> r\<lparr>rd_isClosed := True\<rparr>)\<rparr>);
                    r1 = the (ca_heap c1 rid)
                in ([SpawnGetRemPieces],
                    if hasFiles then c1\<lparr>ca_heap := (ca_heap c1)(rid \<mapsto> r1\<lparr>rd_Reader := tr_Close T (rd_Reader r1)\<rparr>)\<rparr> else c1)))"

definition getPieceNum :: "'r Cache \<Rightarrow> 'r Reader \<Rightarrow> int \<Rightarrow> int" where
  "getPieceNum c r offset = (offset + fi_Offset (rd_file r)) sdiv ca_pieceLength c"

text \<open>The share \<^verbatim>\<open>float64(capacity/readers)*0.85*float64(prc)/100.0\<close> of the cache, rounded at each operation.\<close>

definition window :: "int \<Rightarrow> int \<Rightarrow> int" where
  "window share prc = fl_to_int (fl (fl (fl (fl (of_int share) * fl (85 / 100)) * fl (of_int prc)) / 100))"

definition getOffsetRange :: "bt_sets \<Rightarrow> 'r Cache \<Rightarrow> 'r Reader \<Rightarrow> int \<times> int" where
  "getOffsetRange cfg c r =
     (let prc = bs_ReaderReadAHead cfg;
          readers = (if GetUseReaders c = 0 then 1 else GetUseReaders c);
          share = ca_capacity c sdiv readers;
          beginOffset = rd_offset r - window share (100 - prc);
          endOffset = rd_offset r + window share prc
      in (if beginOffset < 0 then 0 else beginOffset,
          if endOffset > fi_Length (rd_file r) then fi_Length (rd_file r) else endOffset))"

definition getPiecesRange :: "bt_sets \<Rightarrow> 'r Cache \<Rightarrow> 'r Reader \<Rightarrow> File Range" where
  "getPiecesRange cfg c r =
     (let (startOff, endOff) = getOffsetRange cfg c r
      in \<lparr>rg_Start = getPieceNum c r startOff, rg_End = getPieceNum c r endOff, rg_File = rd_file r\<rparr>)"

definition getReaderPiece :: "'r Cache \<Rightarrow> 'r Reader \<Rightarrow> int" where
  "getReaderPiece c r = getPieceNum c r (rd_offset r)"

definition getReaderRAHPiece :: "'r Cache \<Rightarrow> 'r Reader \<Rightarrow> int" where
  "getReaderRAHPiece c r = getPieceNum c r (rd_offset r + rd_readahead r)"

section \<open>Priorities and eviction\<close>

definition reader_list :: "'r Cache \<Rightarrow> 'r Reader list" where
  "reader_list c = (case ca_readers c of None \<Rightarrow> [] | Some rs \<Rightarrow> List.map_filter (ca_heap c) rs)"

definition use_ranges :: "bt_sets \<Rightarrow> 'r Cache \<Rightarrow> File Range list" where
  "use_ranges cfg c = map (getPiecesRange cfg c) (filter rd_isUse (reader_list c))"

definition isIdInFileBE :: "'r Cache \<Rightarrow> File Range list \<Rightarrow> int \<Rightarrow> bool" where
  "isIdInFileBE c ranges i =
     (let keep = (if ca_pieceLength c < 8388608 then 8388608 else ca_pieceLength c)
      in \<exists>rng \<in> set ranges.
           (let f = rg_File rng; pl = ca_pieceLength c;
                ss = fi_Offset f sdiv pl; se = (fi_Offset f + keep) sdiv pl;
                es = (fi_Offset f + fi_Length f - keep) sdiv pl; ee = (fi_Offset f + fi_Length f) sdiv pl
            in i \<ge> ss \<and> i < se \<or> i > es \<and> i \<le> ee))"

text \<open>The priority the loop of \<^verbatim>\<open>setLoadPriority\<close> gives to piece \<open>i\<close>, \<open>PNone\<close> for no change.\<close>

definition load_prio :: "int \<Rightarrow> int \<Rightarrow> int \<Rightarrow> (int \<times> PiecePriority) list \<Rightarrow> int \<Rightarrow> PiecePriority" where
  "load_prio readerPos readerRAHPos highPriorityWindow lp i =
     (let cur = (case map_of lp i of None \<Rightarrow> PNone | Some p \<Rightarrow> p)
      in if i = readerPos then PNow
         else if i = readerPos + 1 then PNext
         else if i > readerPos \<and> i \<le> readerRAHPos then PReadahead
         else if i > readerRAHPos \<and> i \<le> readerRAHPos + highPriorityWindow then (if cur \<noteq> PHigh then PHigh else PNone)
         else if i > readerRAHPos + highPriorityWindow then (if cur \<noteq> PNormal then PNormal else PNone)
         else PNone)"

text \<open>The loop over the pieces of one reader; the fuel is the list of candidate indices. A missing piece is a nil
  pointer.\<close>

fun prio_loop :: "(int \<rightharpoonup> Piece) \<Rightarrow> int \<Rightarrow> int \<Rightarrow> int \<Rightarrow> int \<Rightarrow> int list \<Rightarrow> int \<Rightarrow> (int \<times> PiecePriority) list
    \<Rightarrow> (int \<times> PiecePriority) list \<Rightarrow> ((int \<times> PiecePriority) list \<times> (int \<times> PiecePriority) list) option" where
  "prio_loop ps pos rah win cnt [] limit lp batch = Some (lp, batch)"
| "prio_loop ps pos rah win cnt (i # is) limit lp batch =
     (if limit < cnt
      then (case ps i of None \<Rightarrow> None
            | Some p \<Rightarrow>
                if pc_Complete p then prio_loop ps pos rah win cnt is limit lp batch
                else (let prio = load_prio pos rah win lp i
                      in if prio \<noteq> PNone
                         then prio_loop ps pos rah win cnt is (limit + 1) (AList.update i prio lp) (AList.update i prio batch)
                         else prio_loop ps pos rah win cnt is (limit + 1) lp batch))
      else Some (lp, batch))"

definition load_count :: "bt_sets \<Rightarrow> 'r Cache \<Rightarrow> int" where
  "load_count cfg c =
     (let numReaders = (if Cache_Readers c = 0 then 1 else Cache_Readers c);
          effectiveLimit = (if ca_MasterLimit c > 0 then ca_MasterLimit c else bs_ConnectionsLimit cfg);
          count = (if ca_IsAggressive c
                   then (let k = (if ca_filled c > ca_capacity c then 1 else fl_to_int (fl (fl (of_int effectiveLimit) * fl (8 / 10))))
                         in if k < 1 then 1 else k)
                   else effectiveLimit sdiv numReaders)
      in if count < 1 then 1 else count)"

definition highWindow :: "'r Cache \<Rightarrow> int" where
  "highWindow c = (let w = ca_capacity c sdiv ca_pieceLength c sdiv 10 in if w < 5 then 5 else w)"

definition load_reader :: "bt_sets \<Rightarrow> File Range list \<Rightarrow> 'r Cache \<Rightarrow> 'r Reader \<Rightarrow> 'r Cache option" where
  "load_reader cfg ranges c r =
     (if \<not> rd_isUse r \<or> isIdInFileBE c ranges (getReaderPiece c r) then Some c
      else (let pos = getReaderPiece c r; e = rg_End (getPiecesRange cfg c r); stop = min e (ca_pieceCount c);
                ps = (case ca_pieces c of None \<Rightarrow> Map.empty | Some ps \<Rightarrow> ps)
            in map_option (\<lambda>(lp, batch).
                   c\<lparr>ca_localPriority := lp,
                     ca_calls := (if batch = [] then ca_calls c else TSetPiecePriorities batch # ca_calls c)\<rparr>)
                 (prio_loop ps pos (getReaderRAHPiece c r) (highWindow c) (load_count cfg c) [pos..stop - 1] 0
                    (ca_localPriority c) [])))"

fun load_readers :: "bt_sets \<Rightarrow> File Range list \<Rightarrow> 'r Reader list \<Rightarrow> 'r Cache \<Rightarrow> 'r Cache option" where
  "load_readers cfg ranges [] c = Some c"
| "load_readers cfg ranges (r # rs) c = Option.bind (load_reader cfg ranges c r) (load_readers cfg ranges rs)"

definition setLoadPriority :: "bt_sets \<Rightarrow> File Range list \<Rightarrow> 'r Cache \<Rightarrow> 'r Cache option" where
  "setLoadPriority cfg ranges c = (if \<not> ca_torrent c then Some c else load_readers cfg ranges (reader_list c) c)"

type_synonym range_sorter = "File Range list \<Rightarrow> File Range list"

definition refreshPriorities :: "range_sorter \<Rightarrow> bt_sets \<Rightarrow> 'r Cache \<Rightarrow> 'r Cache option" where
  "refreshPriorities srt cfg c =
     (if ca_isClosed c \<or> \<not> ca_torrent c then Some c
      else if ca_pieces c = None \<or> ca_readers c = None then Some c
      else setLoadPriority cfg (mergeRange srt (use_ranges cfg c)) c)"

definition checkReaders :: "'r treader \<Rightarrow> int \<Rightarrow> 'r Cache \<Rightarrow> 'r Cache" where
  "checkReaders T now c = (case ca_readers c of None \<Rightarrow> c | Some rs \<Rightarrow> fold (checkReader T now) rs c)"

definition clearPriority :: "'r treader \<Rightarrow> range_sorter \<Rightarrow> bt_sets \<Rightarrow> int \<Rightarrow> 'r Cache \<Rightarrow> 'r Cache" where
  "clearPriority T srt cfg now c =
     (if \<not> ca_torrent c then c
      else if ca_isClosed c \<or> ca_pieces c = None \<or> ca_readers c = None then c
      else (let c1 = checkReaders T now c; ranges = mergeRange srt (use_ranges cfg c1);
                gone = filter (\<lambda>i. ranges = [] \<or> \<not> inRanges ranges i) (map fst (ca_localPriority c1))
            in c1\<lparr>ca_calls := map (\<lambda>i. TSetPriority i PNone) (rev gone) @ ca_calls c1,
                  ca_localPriority := filter (\<lambda>(i, _). i \<notin> set gone) (ca_localPriority c1)\<rparr>))"

text \<open>The pieces the bitmap of \<^verbatim>\<open>getRemPieces\<close> protects for one range: those of the range's file.\<close>

definition mark_range :: "'r Cache \<Rightarrow> File Range \<Rightarrow> bool list \<Rightarrow> bool list" where
  "mark_range c rng bits =
     (let f = rg_File rng; start = fi_Offset f sdiv ca_pieceLength c;
          end0 = (fi_Offset f + fi_Length f) sdiv ca_pieceLength c;
          end1 = (if end0 \<ge> ca_pieceCount c then ca_pieceCount c - 1 else end0)
      in map (\<lambda>(i, b). b \<or> start \<le> int i \<and> int i \<le> end1) (enumerate 0 bits))"

text \<open>\<open>srtp\<close> is the call of \<^verbatim>\<open>sort.Slice\<close> by access time.\<close>

definition getRemPieces ::
  "'r treader \<Rightarrow> range_sorter \<Rightarrow> (Piece list \<Rightarrow> Piece list) \<Rightarrow> bt_sets \<Rightarrow> int \<Rightarrow> 'r Cache \<Rightarrow> (Piece list \<times> 'r Cache) option" where
  "getRemPieces T srt srtp cfg now c =
     (if ca_isClosed c \<or> ca_readers c = None then Some ([], c)
      else (case ca_pieces c of None \<Rightarrow> Some ([], c)
        | Some ps \<Rightarrow>
           (let c1 = checkReaders T now c; ranges = mergeRange srt (use_ranges cfg c1);
                bits = fold (mark_range c1) ranges (map (\<lambda>_. False) (ca_pieceInRange c1));
                items = List.map_filter ps (piece_ids c1 ps);
                fill = sum_list (map pc_Size (filter (\<lambda>p. pc_Size p > 0) items));
                rem = List.map_filter (\<lambda>i. Option.bind (ps i) (\<lambda>p.
                        if bits ! nat i then None
                        else if pc_Size p > 0 \<and> \<not> isIdInFileBE c1 ranges i then Some p else None)) (piece_ids c1 ps);
                c2 = clearPriority T srt cfg now (c1\<lparr>ca_pieceInRange := bits\<rparr>)
            in map_option (\<lambda>c3. (srtp rem, c3\<lparr>ca_filled := fill\<rparr>)) (setLoadPriority cfg ranges c2))))"

text \<open>\<^verbatim>\<open>removePiece\<close> and \<^verbatim>\<open>Piece.Release\<close>; a nil torrent is a nil pointer.\<close>

definition removePiece :: "int \<Rightarrow> 'r Cache \<times> store \<Rightarrow> ('r Cache \<times> store) option" where
  "removePiece i cs =
     (let (c, st) = cs
      in if ca_isClosed c then Some cs
         else (case Cache_Piece i c of None \<Rightarrow> Some cs
           | Some p \<Rightarrow>
               (let (p', st') = mem_Release p st; c1 = c\<lparr>ca_pieces := map_option (\<lambda>ps. ps(i \<mapsto> p')) (ca_pieces c)\<rparr>
                in if \<not> ca_torrent c then None
                   else Some (c1\<lparr>ca_calls := TUpdateCompletion i # TSetPriority i PNone # ca_calls c1\<rparr>, st'))))"

fun evict_loop :: "int list \<Rightarrow> int \<Rightarrow> 'r Cache \<times> store \<Rightarrow> ('r Cache \<times> store) option" where
  "evict_loop [] rems cs = Some cs"
| "evict_loop (i # is) rems cs =
     Option.bind (removePiece i cs) (\<lambda>cs1. if rems - 1 \<le> 0 then Some cs1 else evict_loop is (rems - 1) cs1)"

definition cleanPieces ::
  "'r treader \<Rightarrow> range_sorter \<Rightarrow> (Piece list \<Rightarrow> Piece list) \<Rightarrow> bt_sets \<Rightarrow> int \<Rightarrow> 'r Cache \<times> store \<Rightarrow> ('r Cache \<times> store) option" where
  "cleanPieces T srt srtp cfg now cs =
     (let (c, st) = cs
      in if ca_isRemove c \<or> ca_isClosed c then Some cs
         else Option.bind (refreshPriorities srt cfg c) (\<lambda>c1.
           if now - ca_lastClean c1 < 1000000000 \<and> ca_filled c1 < (ca_capacity c1 * 9) sdiv 10 then Some (c1, st)
           else Option.bind (getRemPieces T srt srtp cfg (now div 1000000000) (c1\<lparr>ca_isRemove := True, ca_lastClean := now\<rparr>)) (\<lambda>(rem, c2).
             map_option (\<lambda>(c3, st3). (c3\<lparr>ca_isRemove := False\<rparr>, st3))
               (if ca_filled c2 > ca_capacity c2
                then evict_loop (map pc_Id rem) ((ca_filled c2 - ca_capacity c2) sdiv ca_pieceLength c2 + 1) (c2, st)
                else Some (c2, st)))))"

section \<open>Other operations of the cache\<close>

definition AdjustRA :: "'r treader \<Rightarrow> bt_sets \<Rightarrow> int \<Rightarrow> 'r Cache \<Rightarrow> 'r Cache" where
  "AdjustRA T cfg readahead c =
     (let c1 = (if bs_CacheSize cfg = 0 then c\<lparr>ca_capacity := readahead * 3\<rparr> else c)
      in case ca_readers c1 of None \<Rightarrow> c1
         | Some rs \<Rightarrow> c1\<lparr>ca_heap := (\<lambda>rid. if rid \<in> set rs then map_option (SetReadahead T readahead) (ca_heap c1 rid)
                                          else ca_heap c1 rid)\<rparr>)"

definition CloseReader :: "'r treader \<Rightarrow> bool \<Rightarrow> nat \<Rightarrow> 'r Cache \<Rightarrow> spawn list \<times> 'r Cache" where
  "CloseReader T hasFiles rid c =
     (case ca_readers c of None \<Rightarrow> ([], c)
      | Some rs \<Rightarrow>
          if ca_isClosed c then ([], c)
          else (let (sp, c1) = Reader_Close T hasFiles rid c
                in (sp @ [SpawnClearPriority], c1\<lparr>ca_readers := Some (removeAll rid rs)\<rparr>)))"

text \<open>\<open>pstate\<close> is \<^verbatim>\<open>torrent.PieceState(id).Priority\<close> of the library; 500 ms in nanoseconds.\<close>

definition fresh_state :: "(int \<Rightarrow> int) \<Rightarrow> bt_sets \<Rightarrow> 'r Cache \<Rightarrow> CacheState" where
  "fresh_state pstate cfg c =
     (let ps = (case ca_pieces c of None \<Rightarrow> Map.empty | Some ps \<Rightarrow> ps);
          items = filter (\<lambda>p. pc_Size p > 0) (List.map_filter ps (piece_ids c ps))
      in \<lparr>cs_Capacity = ca_capacity c, cs_PiecesLength = ca_pieceLength c, cs_PiecesCount = ca_pieceCount c,
          cs_Hash = ca_hash c, cs_Filled = sum_list (map pc_Size items),
          cs_Pieces = map (\<lambda>p. (pc_Id p, \<lparr>is_Id = pc_Id p, is_Size = pc_Size p, is_Length = ca_pieceLength c,
             is_Completed = pc_Complete p, is_Priority = (if ca_torrent c then pstate (pc_Id p) else 0)\<rparr>)) items,
          cs_Readers = map (\<lambda>r. \<lparr>rs_Start = rg_Start (getPiecesRange cfg c r), rs_End = rg_End (getPiecesRange cfg c r),
             rs_Reader = getReaderPiece c r\<rparr>) (reader_list c)\<rparr>)"

definition Cache_GetState :: "(int \<Rightarrow> int) \<Rightarrow> bt_sets \<Rightarrow> int \<Rightarrow> 'r Cache \<Rightarrow> CacheState \<times> 'r Cache" where
  "Cache_GetState pstate cfg now c =
     (case ca_cachedState c of
        Some (st, t) \<Rightarrow> if now - t < 500000000 then (st, c)
                        else (let st' = fresh_state pstate cfg c in (st', c\<lparr>ca_filled := cs_Filled st', ca_cachedState := Some (st', now)\<rparr>))
      | None \<Rightarrow> (let st' = fresh_state pstate cfg c in (st', c\<lparr>ca_filled := cs_Filled st', ca_cachedState := Some (st', now)\<rparr>)))"

definition GetCapacity :: "'r Cache option \<Rightarrow> int" where
  "GetCapacity c = (case c of None \<Rightarrow> 0 | Some c \<Rightarrow> ca_capacity c)"

section \<open>The storage\<close>

record 'r Storage =
  so_caches :: "string \<rightharpoonup> nat"
  so_heap :: "nat \<rightharpoonup> 'r Cache"
  so_capacity :: int

definition NewStorage :: "int \<Rightarrow> 'r Storage" where
  "NewStorage capacity = \<lparr>so_caches = Map.empty, so_heap = Map.empty, so_capacity = capacity\<rparr>"

text \<open>\<open>cid\<close> is the identity of the new cache.\<close>

definition OpenTorrent :: "nat \<Rightarrow> int \<times> nat \<Rightarrow> string \<Rightarrow> 'r Storage \<Rightarrow> 'r Storage" where
  "OpenTorrent cid info hash s =
     s\<lparr>so_heap := (so_heap s)(cid \<mapsto> Cache_Init info hash (NewCache (so_capacity s))),
       so_caches := (so_caches s)(hash \<mapsto> cid)\<rparr>"

text \<open>Closing the stop channel a second time panics.\<close>

definition Cache_Close :: "nat \<Rightarrow> 'r Storage \<Rightarrow> 'r Storage option" where
  "Cache_Close cid s =
     (case so_heap s cid of None \<Rightarrow> None
      | Some c \<Rightarrow>
          if ca_cleanStop c then None
          else Some (s\<lparr>so_heap := (so_heap s)(cid \<mapsto> c\<lparr>ca_isClosed := True, ca_cleanStop := True, ca_readers := None, ca_pieces := None\<rparr>),
                      so_caches := (so_caches s)(ca_hash c := None)\<rparr>))"

definition CloseHash :: "string \<Rightarrow> 'r Storage \<Rightarrow> 'r Storage option" where
  "CloseHash hash s =
     (case so_caches s hash of None \<Rightarrow> Some s
      | Some cid \<Rightarrow> map_option (\<lambda>s1. s1\<lparr>so_caches := (so_caches s1)(hash := None)\<rparr>) (Cache_Close cid s))"

text \<open>\<open>order\<close> is the order in which the map is iterated; an entry deleted before it is reached is skipped.\<close>

fun Storage_Close :: "string list \<Rightarrow> 'r Storage \<Rightarrow> 'r Storage option" where
  "Storage_Close [] s = Some s"
| "Storage_Close (h # order) s =
     (case so_caches s h of None \<Rightarrow> Storage_Close order s
      | Some cid \<Rightarrow> Option.bind (Cache_Close cid s) (Storage_Close order))"

definition GetCache :: "string \<Rightarrow> 'r Storage \<Rightarrow> nat option" where
  "GetCache hash s = so_caches s hash"

end
