(* ===== verification/TorrReaders.thy ===== *)
theory TorrReaders
  imports TorrCache
begin

text \<open>
  The operations of the torrent cache as steps on the cache and the buffer store, and what holds in every reachable
  state: the count of readers in use is exact, every piece is filed under its number, and every priority the torrent
  still has is on record in the cache, so that it can be taken back.
\<close>

section \<open>Steps\<close>

definition close_cache :: "'r Cache \<Rightarrow> 'r Cache" where
  "close_cache c = c\<lparr>ca_isClosed := True, ca_cleanStop := True, ca_readers := None, ca_pieces := None\<rparr>"

definition put_piece :: "int \<Rightarrow> Piece \<Rightarrow> 'r Cache \<Rightarrow> 'r Cache" where
  "put_piece i p c = c\<lparr>ca_pieces := map_option (\<lambda>ps. ps(i \<mapsto> p)) (ca_pieces c)\<rparr>"

definition put_reader :: "nat \<Rightarrow> 'r Reader \<Rightarrow> 'r Cache \<Rightarrow> 'r Cache" where
  "put_reader rid r c = c\<lparr>ca_heap := (ca_heap c)(rid \<mapsto> r)\<rparr>"

inductive cache_step ::
  "'r treader \<Rightarrow> range_sorter \<Rightarrow> (Piece list \<Rightarrow> Piece list) \<Rightarrow> bt_sets \<Rightarrow> 'r Cache \<times> store \<Rightarrow> 'r Cache \<times> store \<Rightarrow> bool"
  for T srt srtp cfg where
  CS_torrent: "cache_step T srt srtp cfg (c, st) (SetTorrent True c, st)"
| CS_new: "ca_heap c rid = None \<Longrightarrow> cache_step T srt srtp cfg (c, st) (NewReader T t0 rid file c, st)"
| CS_seek: "cache_step T srt srtp cfg (c, st) (snd (Reader_Seek T offset whence now rid c), st)"
| CS_read: "cache_step T srt srtp cfg (c, st) (snd (Reader_Read T hasInfo plen now rid c), st)"
| CS_readahead: "ca_heap c rid = Some r \<Longrightarrow> cache_step T srt srtp cfg (c, st) (put_reader rid (SetReadahead T len r) c, st)"
| CS_close_reader: "cache_step T srt srtp cfg (c, st) (snd (CloseReader T hasFiles rid c), st)"
| CS_adjust: "cache_step T srt srtp cfg (c, st) (AdjustRA T cfg readahead c, st)"
| CS_aggressive: "cache_step T srt srtp cfg (c, st) (SetAggressive enabled masterLimit c, st)"
| CS_state: "cache_step T srt srtp cfg (c, st) (snd (Cache_GetState pstate cfg now c), st)"
| CS_clean: "cleanPieces T srt srtp cfg now (c, st) = Some cs' \<Longrightarrow> cache_step T srt srtp cfg (c, st) cs'"
| CS_rem: "getRemPieces T srt srtp cfg now c = Some (rem, c') \<Longrightarrow> cache_step T srt srtp cfg (c, st) (c', st)"
| CS_clear: "cache_step T srt srtp cfg (c, st) (clearPriority T srt cfg now c, st)"
| CS_write: "Cache_Piece i c = Some p \<Longrightarrow> mem_WriteAt g (ca_pieceLength c) now b off p st = (n, t, p', st')
    \<Longrightarrow> cache_step T srt srtp cfg (c, st) (put_piece i p' c, st')"
| CS_readat: "Cache_Piece i c = Some p \<Longrightarrow> mem_ReadAt now blen off p st = (res, t, p')
    \<Longrightarrow> cache_step T srt srtp cfg (c, st) (put_piece i p' c, st)"
| CS_complete: "Cache_Piece i c = Some p \<Longrightarrow> cache_step T srt srtp cfg (c, st) (put_piece i (p\<lparr>pc_Complete := b\<rparr>) c, st)"
| CS_order: "ca_readers c = Some rs \<Longrightarrow> mset rs' = mset rs \<Longrightarrow> cache_step T srt srtp cfg (c, st) (c\<lparr>ca_readers := Some rs'\<rparr>, st)"
| CS_close: "cache_step T srt srtp cfg (c, st) (close_cache c, st)"

definition cache_init :: "'r Cache \<times> store \<Rightarrow> bool" where
  "cache_init cs \<longleftrightarrow> (\<exists>info hash capacity. fst cs = Cache_Init info hash (NewCache capacity))"

text \<open>The priority the torrent was last asked to give a piece.\<close>

fun eff_prio :: "tcall list \<Rightarrow> int \<Rightarrow> PiecePriority" where
  "eff_prio [] i = PNone"
| "eff_prio (TSetPriority j p # cs) i = (if i = j then p else eff_prio cs i)"
| "eff_prio (TUpdateCompletion j # cs) i = eff_prio cs i"
| "eff_prio (TSetPiecePriorities b # cs) i = (case map_of b i of Some p \<Rightarrow> p | None \<Rightarrow> eff_prio cs i)"

definition in_use :: "(nat \<rightharpoonup> 'r Reader) \<Rightarrow> nat set" where
  "in_use h = {rid. \<exists>r. h rid = Some r \<and> rd_isUse r}"

definition count_inv :: "(nat \<rightharpoonup> 'r Reader) \<Rightarrow> 32 word \<Rightarrow> bool" where
  "count_inv h n \<longleftrightarrow> finite (dom h) \<and> n = of_nat (card (in_use h))"

definition pieces_inv :: "'r Cache \<Rightarrow> bool" where
  "pieces_inv c \<longleftrightarrow> length (ca_pieceInRange c) = nat (ca_pieceCount c) \<and>
     (\<forall>ps. ca_pieces c = Some ps \<longrightarrow> (\<forall>i p. ps i = Some p \<longrightarrow> pc_Id p = i) \<and> dom ps = {0..<ca_pieceCount c})"

definition prio_inv :: "tcall list \<Rightarrow> (int \<times> PiecePriority) list \<Rightarrow> bool" where
  "prio_inv calls lp \<longleftrightarrow> (\<forall>i. eff_prio calls i \<noteq> PNone \<longrightarrow> map_of lp i = Some (eff_prio calls i))"

definition cinv :: "'r Cache \<Rightarrow> bool" where
  "cinv c \<longleftrightarrow> count_inv (ca_heap c) (ca_activeReaders c) \<and> pieces_inv c \<and> prio_inv (ca_calls c) (ca_localPriority c)"

section \<open>Readers in use\<close>

lemma in_use_upd:
  "in_use (h(rid \<mapsto> r)) = (if rd_isUse r then insert rid (in_use h) else in_use h - {rid})"
  by (auto simp: in_use_def)

lemma finite_in_use: "finite (dom h) \<Longrightarrow> finite (in_use h)"
  by (rule finite_subset [of _ "dom h"]) (auto simp: in_use_def)

lemma isUse_SetReadahead [simp]: "rd_isUse (SetReadahead T n r) = rd_isUse r" "rd_file (SetReadahead T n r) = rd_file r"
  "rd_offset (SetReadahead T n r) = rd_offset r" "rd_cache (SetReadahead T n r) = rd_cache r"
  by (auto simp: SetReadahead_def)

lemma reader_on_off [simp]: "rd_isUse (reader_on T r)" "\<not> rd_isUse (reader_off T r)"
  "rd_file (reader_on T r) = rd_file r" "rd_file (reader_off T r) = rd_file r"
  "rd_offset (reader_on T r) = rd_offset r" "rd_offset (reader_off T r) = rd_offset r"
  by (auto simp: reader_on_def reader_off_def Let_def split: prod.splits)

lemma count_inv_keep:
  assumes "count_inv h n" "h rid = Some r" "rd_isUse r' = rd_isUse r"
  shows "count_inv (h(rid \<mapsto> r')) n"
proof -
  have "in_use (h(rid \<mapsto> r')) = in_use h" using assms by (auto simp: in_use_def)
  then show ?thesis using assms by (simp add: count_inv_def)
qed

lemma count_inv_on:
  assumes "count_inv h n" "rid \<notin> in_use h" "rd_isUse r'"
  shows "count_inv (h(rid \<mapsto> r')) (n + 1)"
proof -
  have "card (insert rid (in_use h)) = Suc (card (in_use h))"
    using assms by (intro card_insert_disjoint finite_in_use) (auto simp: count_inv_def)
  then show ?thesis using assms unfolding count_inv_def in_use_upd by simp
qed

lemma count_inv_off:
  assumes "count_inv h n" "rid \<in> in_use h" "\<not> rd_isUse r'"
  shows "count_inv (h(rid \<mapsto> r')) (n - 1)"
proof -
  have "card (in_use h) = Suc (card (in_use h - {rid}))"
    using assms by (intro card.remove finite_in_use) (auto simp: count_inv_def)
  then show ?thesis using assms unfolding count_inv_def in_use_upd by simp
qed

text \<open>Turning a reader on or off, and checking readers, change only the heap and the counter.\<close>

definition readers_only :: "'r Cache \<Rightarrow> 'r Cache \<Rightarrow> bool" where
  "readers_only c c' \<longleftrightarrow>
     (\<exists>h n. c' = c\<lparr>ca_heap := h, ca_activeReaders := n\<rparr> \<and> dom h = dom (ca_heap c)
        \<and> (\<forall>rid r r'. ca_heap c rid = Some r \<longrightarrow> h rid = Some r' \<longrightarrow> rd_file r' = rd_file r \<and> rd_offset r' = rd_offset r)
        \<and> (count_inv (ca_heap c) (ca_activeReaders c) \<longrightarrow> count_inv h n))"

lemma readers_onlyI:
  assumes "c' = c\<lparr>ca_heap := h, ca_activeReaders := n\<rparr>" "dom h = dom (ca_heap c)"
    and "\<And>rid r r'. ca_heap c rid = Some r \<Longrightarrow> h rid = Some r' \<Longrightarrow> rd_file r' = rd_file r \<and> rd_offset r' = rd_offset r"
    and "count_inv (ca_heap c) (ca_activeReaders c) \<Longrightarrow> count_inv h n"
  shows "readers_only c c'"
  unfolding readers_only_def using assms by (intro exI conjI allI impI) simp_all

lemma readers_onlyE:
  assumes "readers_only c c'"
  obtains h n where "c' = c\<lparr>ca_heap := h, ca_activeReaders := n\<rparr>" "dom h = dom (ca_heap c)"
    "\<And>rid r r'. ca_heap c rid = Some r \<Longrightarrow> h rid = Some r' \<Longrightarrow> rd_file r' = rd_file r \<and> rd_offset r' = rd_offset r"
    "count_inv (ca_heap c) (ca_activeReaders c) \<Longrightarrow> count_inv h n"
  using assms unfolding readers_only_def by (elim exE conjE) simp

lemma readers_only_refl: "readers_only c c"
  by (rule readers_onlyI [where h = "ca_heap c" and n = "ca_activeReaders c"]) simp_all

lemma readers_only_trans:
  assumes "readers_only a b" "readers_only b c"
  shows "readers_only a c"
proof -
  obtain h n where b: "b = a\<lparr>ca_heap := h, ca_activeReaders := n\<rparr>" "dom h = dom (ca_heap a)"
    "\<And>rid r r'. ca_heap a rid = Some r \<Longrightarrow> h rid = Some r' \<Longrightarrow> rd_file r' = rd_file r \<and> rd_offset r' = rd_offset r"
    "count_inv (ca_heap a) (ca_activeReaders a) \<Longrightarrow> count_inv h n" using assms(1) by (rule readers_onlyE) blast
  obtain h' n' where c: "c = b\<lparr>ca_heap := h', ca_activeReaders := n'\<rparr>" "dom h' = dom (ca_heap b)"
    "\<And>rid r r'. ca_heap b rid = Some r \<Longrightarrow> h' rid = Some r' \<Longrightarrow> rd_file r' = rd_file r \<and> rd_offset r' = rd_offset r"
    "count_inv (ca_heap b) (ca_activeReaders b) \<Longrightarrow> count_inv h' n'" using assms(2) by (rule readers_onlyE) blast
  have hb: "ca_heap b = h" "ca_activeReaders b = n" unfolding b(1) by simp_all
  show ?thesis
  proof (rule readers_onlyI)
    show "c = a\<lparr>ca_heap := h', ca_activeReaders := n'\<rparr>" unfolding c(1) b(1) by simp
    show "dom h' = dom (ca_heap a)" using b(2) c(2) hb by simp
    show "count_inv h' n'" if "count_inv (ca_heap a) (ca_activeReaders a)" using c(4) b(4) [OF that] hb by simp
    fix rid r r' assume r: "ca_heap a rid = Some r" "h' rid = Some r'"
    then have "rid \<in> dom h" using b(2) by blast
    then obtain q where q: "h rid = Some q" by blast
    show "rd_file r' = rd_file r \<and> rd_offset r' = rd_offset r" using b(3) [OF r(1) q] c(3) [of rid q r'] q r(2) hb by simp
  qed
qed

lemma readerOn_only: "readers_only c (readerOn T rid c)"
proof (cases "\<exists>r. ca_heap c rid = Some r \<and> \<not> rd_isUse r")
  case True
  then obtain r where r: "ca_heap c rid = Some r" "\<not> rd_isUse r" by blast
  then have "rid \<notin> in_use (ca_heap c)" by (simp add: in_use_def)
  with r show ?thesis
    by (intro readers_onlyI [where h = "(ca_heap c)(rid \<mapsto> reader_on T r)" and n = "ca_activeReaders c + 1"] count_inv_on)
      (auto simp: readerOn_def split: if_splits)
next
  case False
  then have "readerOn T rid c = c" by (auto simp: readerOn_def split: option.splits)
  then show ?thesis by (simp add: readers_only_refl)
qed

lemma readerOff_only: "readers_only c (readerOff T rid c)"
proof (cases "\<exists>r. ca_heap c rid = Some r \<and> rd_isUse r")
  case True
  then obtain r where r: "ca_heap c rid = Some r" "rd_isUse r" by blast
  then have "rid \<in> in_use (ca_heap c)" by (simp add: in_use_def)
  with r show ?thesis
    by (intro readers_onlyI [where h = "(ca_heap c)(rid \<mapsto> reader_off T r)" and n = "ca_activeReaders c - 1"] count_inv_off)
      (auto simp: readerOff_def split: if_splits)
next
  case False
  then have "readerOff T rid c = c" by (auto simp: readerOff_def split: option.splits)
  then show ?thesis by (simp add: readers_only_refl)
qed

lemma checkReader_only: "readers_only c (checkReader T now rid c)"
  by (auto simp: checkReader_def readers_only_refl readerOn_only readerOff_only split: option.splits)

lemma checkReaders_only: "readers_only c (checkReaders T now c)"
proof -
  have "readers_only c (fold (checkReader T now) rs c)" for rs
  proof (induction rs arbitrary: c)
    case (Cons rid rs)
    show ?case using readers_only_trans [OF checkReader_only Cons] by simp
  qed (simp add: readers_only_refl)
  then show ?thesis by (auto simp: checkReaders_def readers_only_refl split: option.splits)
qed


section \<open>Priorities on record\<close>

definition prios_only :: "'r Cache \<Rightarrow> 'r Cache \<Rightarrow> bool" where
  "prios_only c c' \<longleftrightarrow> (\<exists>lp calls. c' = c\<lparr>ca_localPriority := lp, ca_calls := calls\<rparr>
     \<and> (prio_inv (ca_calls c) (ca_localPriority c) \<longrightarrow> prio_inv calls lp))"

lemma prios_onlyI:
  assumes "c' = c\<lparr>ca_localPriority := lp, ca_calls := calls\<rparr>"
    and "prio_inv (ca_calls c) (ca_localPriority c) \<Longrightarrow> prio_inv calls lp"
  shows "prios_only c c'"
  unfolding prios_only_def using assms by (intro exI conjI impI) simp_all

lemma prios_onlyE:
  assumes "prios_only c c'"
  obtains lp calls where "c' = c\<lparr>ca_localPriority := lp, ca_calls := calls\<rparr>"
    "prio_inv (ca_calls c) (ca_localPriority c) \<Longrightarrow> prio_inv calls lp"
  using assms unfolding prios_only_def by (elim exE conjE) simp

lemma prios_only_refl: "prios_only c c"
  by (rule prios_onlyI [where lp = "ca_localPriority c" and calls = "ca_calls c"]) simp_all

lemma prios_only_trans:
  assumes "prios_only a b" "prios_only b c"
  shows "prios_only a c"
proof -
  obtain lp calls where b: "b = a\<lparr>ca_localPriority := lp, ca_calls := calls\<rparr>"
    "prio_inv (ca_calls a) (ca_localPriority a) \<Longrightarrow> prio_inv calls lp" using assms(1) by (rule prios_onlyE) blast
  obtain lp' calls' where c: "c = b\<lparr>ca_localPriority := lp', ca_calls := calls'\<rparr>"
    "prio_inv (ca_calls b) (ca_localPriority b) \<Longrightarrow> prio_inv calls' lp'" using assms(2) by (rule prios_onlyE) blast
  show ?thesis
  proof (rule prios_onlyI)
    show "c = a\<lparr>ca_localPriority := lp', ca_calls := calls'\<rparr>" unfolding c(1) b(1) by simp
    show "prio_inv calls' lp'" if "prio_inv (ca_calls a) (ca_localPriority a)" using c(2) b(2) [OF that] b(1) by simp
  qed
qed

text \<open>The loop records in the cache what it puts into the batch, at most \<open>cnt\<close> entries, all among the given indices.\<close>

lemma prio_loop_spec:
  assumes "prio_loop ps pos rah win cnt ids limit lp batch = Some (lp', batch')"
  shows "\<exists>new. map_of batch' = map_of batch ++ map_of new \<and> map_of lp' = map_of lp ++ map_of new
     \<and> int (length new) \<le> max 0 (cnt - limit) \<and> fst ` set new \<subseteq> set ids \<and> (new = [] \<longrightarrow> batch' = batch)"
  using assms
proof (induction ids arbitrary: limit lp batch)
  case Nil
  then show ?case by (intro exI [of _ "[]"]) simp
next
  case (Cons i ids)
  show ?case
  proof (cases "limit < cnt")
    case False
    then show ?thesis using Cons(2) by (intro exI [of _ "[]"]) simp
  next
    case True
    then obtain p where p: "ps i = Some p" using Cons(2) by (auto split: option.splits)
    let ?pr = "load_prio pos rah win lp i"
    show ?thesis
    proof (cases "pc_Complete p \<or> ?pr = PNone")
      case skip: True
      then obtain limit' where l: "limit' \<ge> limit" "prio_loop ps pos rah win cnt ids limit' lp batch = Some (lp', batch')"
        using Cons(2) True p that [of limit] that [of "limit + 1"] by (cases "pc_Complete p") (auto simp: Let_def)
      from Cons(1) [OF l(2)] obtain new where "map_of batch' = map_of batch ++ map_of new" "map_of lp' = map_of lp ++ map_of new"
        "int (length new) \<le> max 0 (cnt - limit')" "fst ` set new \<subseteq> set ids" "new = [] \<longrightarrow> batch' = batch" by blast
      then show ?thesis using l(1) by (intro exI [of _ new]) auto
    next
      case False
      then have "prio_loop ps pos rah win cnt ids (limit + 1) (AList.update i ?pr lp) (AList.update i ?pr batch) = Some (lp', batch')"
        using Cons(2) True p by (simp add: Let_def)
      from Cons(1) [OF this] obtain new where n: "map_of batch' = map_of (AList.update i ?pr batch) ++ map_of new"
        "map_of lp' = map_of (AList.update i ?pr lp) ++ map_of new"
        "int (length new) \<le> max 0 (cnt - (limit + 1))" "fst ` set new \<subseteq> set ids" by blast
      have u: "(m(i \<mapsto> ?pr)) ++ map_of new = m ++ map_of (new @ [(i, ?pr)])" for m :: "int \<rightharpoonup> PiecePriority"
        by (simp add: map_add_assoc [symmetric])
      show ?thesis using n True unfolding AList.update_conv' u
        by (intro exI [of _ "new @ [(i, ?pr)]"]) auto
    qed
  qed
qed

lemma load_reader_only: "load_reader cfg ranges c r = Some c' \<Longrightarrow> prios_only c c'"
proof (cases "\<not> rd_isUse r \<or> isIdInFileBE c ranges (getReaderPiece c r)")
  case True
  moreover assume "load_reader cfg ranges c r = Some c'"
  ultimately have "c' = c" by (auto simp: load_reader_def)
  then show ?thesis by (simp add: prios_only_refl)
next
  case False
  assume "load_reader cfg ranges c r = Some c'"
  with False obtain ps pos rah win cnt ids lp batch where
    l: "prio_loop ps pos rah win cnt ids 0 (ca_localPriority c) [] = Some (lp, batch)"
    and c': "c' = c\<lparr>ca_localPriority := lp, ca_calls := (if batch = [] then ca_calls c else TSetPiecePriorities batch # ca_calls c)\<rparr>"
    by (auto simp: load_reader_def Let_def)
  obtain new where n: "map_of batch = map_of new" "map_of lp = map_of (ca_localPriority c) ++ map_of new"
    using prio_loop_spec [OF l] by auto
  show ?thesis
  proof (rule prios_onlyI [OF c'])
    assume "prio_inv (ca_calls c) (ca_localPriority c)"
    then show "prio_inv (if batch = [] then ca_calls c else TSetPiecePriorities batch # ca_calls c) lp"
      using n by (auto simp: prio_inv_def map_add_def split: option.splits)
  qed
qed

lemma setLoadPriority_only: "setLoadPriority cfg ranges c = Some c' \<Longrightarrow> prios_only c c'"
proof -
  have "load_readers cfg ranges rs c = Some c' \<Longrightarrow> prios_only c c'" for rs
  proof (induction rs arbitrary: c)
    case (Cons r rs)
    then obtain c1 where "load_reader cfg ranges c r = Some c1" "load_readers cfg ranges rs c1 = Some c'"
      by (auto simp: Option.bind_eq_Some_conv)
    then show ?case using Cons(1) load_reader_only prios_only_trans by blast
  qed (simp add: prios_only_refl)
  moreover assume "setLoadPriority cfg ranges c = Some c'"
  ultimately show ?thesis by (cases "ca_torrent c") (auto simp: setLoadPriority_def prios_only_refl)
qed

lemma refreshPriorities_only: "refreshPriorities srt cfg c = Some c' \<Longrightarrow> prios_only c c'"
  by (auto simp: refreshPriorities_def prios_only_refl dest: setLoadPriority_only split: if_splits)

lemma eff_prio_cleared: "eff_prio (map (\<lambda>i. TSetPriority i PNone) js @ calls) i = (if i \<in> set js then PNone else eff_prio calls i)"
  by (induction js) auto

lemma map_of_drop_keys: "map_of (filter (\<lambda>(i, _). i \<notin> S) lp) i = (if i \<in> S then None else map_of lp i)"
  by (induction lp) auto

lemma clearPriority_only:
  "\<exists>c1. readers_only c c1 \<and> prios_only c1 (clearPriority T srt cfg now c)"
proof (cases "\<not> ca_torrent c \<or> ca_isClosed c \<or> ca_pieces c = None \<or> ca_readers c = None")
  case True
  then have "clearPriority T srt cfg now c = c" by (auto simp: clearPriority_def)
  then show ?thesis by (auto intro: readers_only_refl prios_only_refl)
next
  case False
  define c1 where "c1 = checkReaders T now c"
  define gone where "gone = filter (\<lambda>i. mergeRange srt (use_ranges cfg c1) = [] \<or> \<not> inRanges (mergeRange srt (use_ranges cfg c1)) i)
      (map fst (ca_localPriority c1))"
  have "clearPriority T srt cfg now c = c1\<lparr>ca_calls := map (\<lambda>i. TSetPriority i PNone) (rev gone) @ ca_calls c1,
      ca_localPriority := filter (\<lambda>(i, _). i \<notin> set gone) (ca_localPriority c1)\<rparr>"
    unfolding clearPriority_def c1_def [symmetric] Let_def gone_def using False by auto
  then have "prios_only c1 (clearPriority T srt cfg now c)"
    by (intro prios_onlyI [where lp = "filter (\<lambda>(i, _). i \<notin> set gone) (ca_localPriority c1)"
          and calls = "map (\<lambda>i. TSetPriority i PNone) (rev gone) @ ca_calls c1"])
      (auto simp: prio_inv_def eff_prio_cleared map_of_drop_keys)
  then show ?thesis using checkReaders_only [of c T now] unfolding c1_def by blast
qed


section \<open>Every operation keeps the invariant\<close>

lemma cinv_readers_only: "readers_only c c' \<Longrightarrow> cinv c \<Longrightarrow> cinv c'"
  by (erule readers_onlyE) (simp add: cinv_def pieces_inv_def)

lemma cinv_prios_only: "prios_only c c' \<Longrightarrow> cinv c \<Longrightarrow> cinv c'"
  by (erule prios_onlyE) (simp add: cinv_def pieces_inv_def)

lemma cinv_clearPriority: "cinv c \<Longrightarrow> cinv (clearPriority T srt cfg now c)"
  using clearPriority_only [of c T srt cfg now] cinv_readers_only cinv_prios_only by blast

lemma length_mark_ranges [simp]: "length (fold (mark_range c) ranges bits) = length bits"
  by (induction ranges arbitrary: bits) (simp_all add: mark_range_def Let_def)

lemma cinv_getRemPieces:
  assumes "cinv c" "getRemPieces T srt srtp cfg now c = Some (rem, c')"
  shows "cinv c'"
proof (cases "ca_isClosed c \<or> ca_readers c = None \<or> ca_pieces c = None")
  case True
  then show ?thesis using assms by (cases "ca_isClosed c \<or> ca_readers c = None") (auto simp: getRemPieces_def)
next
  case False
  define c1 where "c1 = checkReaders T now c"
  define ranges where "ranges = mergeRange srt (use_ranges cfg c1)"
  define bits where "bits = fold (mark_range c1) ranges (map (\<lambda>_. False) (ca_pieceInRange c1))"
  define c2 where "c2 = clearPriority T srt cfg now (c1\<lparr>ca_pieceInRange := bits\<rparr>)"
  obtain c3 fill where c3: "setLoadPriority cfg ranges c2 = Some c3" "c' = c3\<lparr>ca_filled := fill\<rparr>"
    using assms(2) False unfolding getRemPieces_def c1_def [symmetric] Let_def ranges_def [symmetric] bits_def [symmetric]
      c2_def [symmetric] by auto
  have "cinv c1" unfolding c1_def by (rule cinv_readers_only [OF checkReaders_only assms(1)])
  then have "cinv (c1\<lparr>ca_pieceInRange := bits\<rparr>)" by (simp add: cinv_def pieces_inv_def bits_def)
  then have "cinv c3" using cinv_clearPriority cinv_prios_only [OF setLoadPriority_only [OF c3(1)]] unfolding c2_def by blast
  then show ?thesis using c3(2) by (simp add: cinv_def pieces_inv_def)
qed

lemma cinv_put_piece:
  assumes "cinv c" "Cache_Piece i c = Some p" "pc_Id p' = pc_Id p"
  shows "cinv (put_piece i p' c)"
proof -
  obtain ps where ps: "ca_pieces c = Some ps" "ps i = Some p" using assms(2) by (auto simp: Cache_Piece_def bind_eq_Some_conv)
  then have "dom (ps(i \<mapsto> p')) = dom ps" by (auto simp: dom_def)
  then show ?thesis using assms ps by (auto simp: cinv_def pieces_inv_def put_piece_def simp del: dom_fun_upd)
qed

lemma pc_Id_ops:
  "mem_WriteAt g L now b off p st = (n, t, p', st') \<Longrightarrow> pc_Id p' = pc_Id p"
  "mem_ReadAt now blen off p st = (res, t, p') \<Longrightarrow> pc_Id p' = pc_Id p"
  "mem_Release p st = (p', st') \<Longrightarrow> pc_Id p' = pc_Id p"
  by (auto simp: mem_WriteAt_def mem_ReadAt_def mem_ReadAt_copy_def mem_Release_def Let_def split: prod.splits option.splits if_splits)

lemma removePiece_cases:
  assumes "removePiece i (c, st) = Some (c', st')"
  obtains "c' = c" "st' = st"
  | p p' where "Cache_Piece i c = Some p" "mem_Release p st = (p', st')" "\<not> ca_isClosed c" "ca_torrent c"
      "c' = (put_piece i p' c)\<lparr>ca_calls := TUpdateCompletion i # TSetPriority i PNone # ca_calls c\<rparr>"
  using assms by (auto simp: removePiece_def put_piece_def Let_def split: if_splits option.splits prod.splits)

lemma cinv_removePiece: "cinv c \<Longrightarrow> removePiece i (c, st) = Some (c', st') \<Longrightarrow> cinv c'"
proof (erule removePiece_cases)
  fix p p' assume "cinv c" "Cache_Piece i c = Some p" "mem_Release p st = (p', st')"
  then have "cinv (put_piece i p' c)" using cinv_put_piece pc_Id_ops(3) by blast
  moreover assume "c' = (put_piece i p' c)\<lparr>ca_calls := TUpdateCompletion i # TSetPriority i PNone # ca_calls c\<rparr>"
  ultimately show ?thesis by (auto simp: cinv_def pieces_inv_def prio_inv_def put_piece_def)
qed simp

lemma cinv_evict_loop: "cinv c \<Longrightarrow> evict_loop ids rems (c, st) = Some (c', st') \<Longrightarrow> cinv c'"
proof (induction ids arbitrary: rems c st)
  case (Cons i ids)
  then obtain c1 st1 where c1: "removePiece i (c, st) = Some (c1, st1)"
    and rest: "(if rems - 1 \<le> 0 then Some (c1, st1) else evict_loop ids (rems - 1) (c1, st1)) = Some (c', st')"
    by (auto simp: Option.bind_eq_Some_conv)
  have "cinv c1" by (rule cinv_removePiece [OF Cons(2) c1])
  then show ?case using rest Cons(1) [of c1 "rems - 1" st1] by (auto split: if_splits)
qed simp

lemma cinv_flags: "cinv c \<Longrightarrow> cinv (c\<lparr>ca_isRemove := b, ca_lastClean := t\<rparr>)" "cinv c \<Longrightarrow> cinv (c\<lparr>ca_isRemove := b\<rparr>)"
  by (simp_all add: cinv_def pieces_inv_def)

text \<open>The stages of a clean-up.\<close>

lemma cleanPieces_cases:
  assumes "cleanPieces T srt srtp cfg now (c, st) = Some (c', st')"
  obtains (skip) "prios_only c c'" "st' = st"
  | (run) c1 rem c2 c3 where "prios_only c c1"
      "getRemPieces T srt srtp cfg (now div 1000000000) (c1\<lparr>ca_isRemove := True, ca_lastClean := now\<rparr>) = Some (rem, c2)"
      "c' = c3\<lparr>ca_isRemove := False\<rparr>"
      "if ca_filled c2 > ca_capacity c2
       then evict_loop (map pc_Id rem) ((ca_filled c2 - ca_capacity c2) sdiv ca_pieceLength c2 + 1) (c2, st) = Some (c3, st')
       else c3 = c2 \<and> st' = st"
proof (cases "ca_isRemove c \<or> ca_isClosed c")
  case True
  then have "c' = c" "st' = st" using assms by (auto simp: cleanPieces_def)
  then show thesis using skip prios_only_refl by blast
next
  case False
  then obtain c1 where c1: "refreshPriorities srt cfg c = Some c1" using assms by (auto simp: cleanPieces_def Option.bind_eq_Some_conv)
  note po = refreshPriorities_only [OF c1]
  show thesis
  proof (cases "now - ca_lastClean c1 < 1000000000 \<and> ca_filled c1 < (ca_capacity c1 * 9) sdiv 10")
    case True
    then show thesis using skip po assms False c1 by (simp add: cleanPieces_def)
  next
    case f: False
    then obtain rem c2 where g: "getRemPieces T srt srtp cfg (now div 1000000000) (c1\<lparr>ca_isRemove := True, ca_lastClean := now\<rparr>) = Some (rem, c2)"
      using assms False c1 unfolding cleanPieces_def by (auto simp: Option.bind_eq_Some_conv)
    show thesis
    proof (cases "ca_filled c2 > ca_capacity c2")
      case True
      then obtain c3 where "evict_loop (map pc_Id rem) ((ca_filled c2 - ca_capacity c2) sdiv ca_pieceLength c2 + 1) (c2, st) = Some (c3, st')"
        "c' = c3\<lparr>ca_isRemove := False\<rparr>" using assms False c1 f g unfolding cleanPieces_def by auto
      then show thesis using run [OF po g] True by simp
    next
      case le: False
      then have "c' = c2\<lparr>ca_isRemove := False\<rparr>" "st' = st" using assms False c1 f g unfolding cleanPieces_def by auto
      then show thesis using run [OF po g] le by simp
    qed
  qed
qed

lemma cinv_cleanPieces:
  assumes "cinv c" "cleanPieces T srt srtp cfg now (c, st) = Some (c', st')"
  shows "cinv c'"
  using assms(2)
proof (cases rule: cleanPieces_cases)
  case skip
  then show ?thesis using cinv_prios_only assms(1) by blast
next
  case (run c1 rem c2 c3)
  have "cinv c2" by (rule cinv_getRemPieces [OF _ run(2)]) (rule cinv_flags(1) [OF cinv_prios_only [OF run(1) assms(1)]])
  then have "cinv c3" using run(4) cinv_evict_loop by (auto split: if_splits)
  then show ?thesis unfolding run(3) by (rule cinv_flags(2))
qed

lemma cinv_put_reader:
  "cinv c \<Longrightarrow> ca_heap c rid = Some r \<Longrightarrow> rd_isUse r' = rd_isUse r \<Longrightarrow> cinv (put_reader rid r' c)"
  by (auto simp: cinv_def pieces_inv_def put_reader_def intro: count_inv_keep)

lemma readerOn_Some: "ca_heap c rid = Some r \<Longrightarrow> \<exists>r'. ca_heap (readerOn T rid c) rid = Some r' \<and> rd_isUse r'"
  by (auto simp: readerOn_def)

lemma readerOff_Some: "ca_heap c rid = Some r \<Longrightarrow> \<exists>r'. ca_heap (readerOff T rid c) rid = Some r' \<and> \<not> rd_isUse r'"
  by (auto simp: readerOff_def)


lemma cinv_Seek: "cinv c \<Longrightarrow> cinv (snd (Reader_Seek T offset whence now rid c))"
proof (cases "\<exists>r. ca_heap c rid = Some r \<and> \<not> rd_isClosed r")
  case True
  assume i: "cinv c"
  from True obtain r where r: "ca_heap c rid = Some r" "\<not> rd_isClosed r" by blast
  define off1 where "off1 = (if whence = 0 then offset else if whence = 1 then rd_offset r + offset
      else if whence = 2 then fi_Length (rd_file r) + offset else rd_offset r)"
  define c0 where "c0 = put_reader rid (r\<lparr>rd_offset := off1\<rparr>) c"
  have c0: "cinv c0" "ca_heap c0 rid = Some (r\<lparr>rd_offset := off1\<rparr>)"
    using cinv_put_reader [OF i r(1)] by (simp_all add: c0_def put_reader_def)
  obtain r1 where r1: "ca_heap (readerOn T rid c0) rid = Some r1" using readerOn_Some [OF c0(2)] by blast
  obtain t n ok where t: "tr_Seek T (rd_Reader r1) offset whence = (t, n, ok)" by (metis prod_cases3)
  have "snd (Reader_Seek T offset whence now rid c) =
      put_reader rid (r1\<lparr>rd_Reader := t, rd_offset := n, rd_lastAccess := now\<rparr>) (readerOn T rid c0)"
    unfolding Reader_Seek_def Let_def using r r1 t by (simp add: put_reader_def c0_def off1_def)
  then show ?thesis using cinv_put_reader [OF cinv_readers_only [OF readerOn_only c0(1)] r1] by simp
next
  case False
  assume "cinv c"
  moreover have "snd (Reader_Seek T offset whence now rid c) = c" using False by (auto simp: Reader_Seek_def split: option.splits)
  ultimately show ?thesis by simp
qed

lemma cinv_Read: "cinv c \<Longrightarrow> cinv (snd (Reader_Read T hasInfo plen now rid c))"
proof (cases "hasInfo \<and> (\<exists>r. ca_heap c rid = Some r \<and> \<not> rd_isClosed r)")
  case True
  assume i: "cinv c"
  from True obtain r where r: "ca_heap c rid = Some r" "\<not> rd_isClosed r" and h: hasInfo by blast
  obtain r1 where r1: "ca_heap (readerOn T rid c) rid = Some r1" using readerOn_Some [OF r(1)] by blast
  obtain t n ok where t: "tr_Read T (rd_Reader r1) plen = (t, n, ok)" by (metis prod_cases3)
  have "snd (Reader_Read T hasInfo plen now rid c) =
      put_reader rid (r1\<lparr>rd_Reader := t, rd_offset := rd_offset r1 + int n, rd_lastAccess := now\<rparr>) (readerOn T rid c)"
    unfolding Reader_Read_def Let_def using r h r1 t by (simp add: put_reader_def)
  then show ?thesis using cinv_put_reader [OF cinv_readers_only [OF readerOn_only i] r1] by simp
next
  case False
  assume "cinv c"
  moreover have "snd (Reader_Read T hasInfo plen now rid c) = c" using False by (auto simp: Reader_Read_def split: option.splits)
  ultimately show ?thesis by simp
qed

lemma cinv_Reader_Close: "cinv c \<Longrightarrow> cinv (snd (Reader_Close T hasFiles rid c))"
proof (cases "\<exists>r. ca_heap c rid = Some r \<and> \<not> rd_isClosed r")
  case True
  assume i: "cinv c"
  from True obtain r where r: "ca_heap c rid = Some r" "\<not> rd_isClosed r" by blast
  define c0 where "c0 = put_reader rid (r\<lparr>rd_isClosed := True\<rparr>) c"
  have c0: "cinv c0" "ca_heap c0 rid = Some (r\<lparr>rd_isClosed := True\<rparr>)"
    using cinv_put_reader [OF i r(1)] by (simp_all add: c0_def put_reader_def)
  obtain r1 where r1: "ca_heap (readerOff T rid c0) rid = Some r1" using readerOff_Some [OF c0(2)] by blast
  have "snd (Reader_Close T hasFiles rid c) =
      (if hasFiles then put_reader rid (r1\<lparr>rd_Reader := tr_Close T (rd_Reader r1)\<rparr>) (readerOff T rid c0) else readerOff T rid c0)"
    unfolding Reader_Close_def Let_def using r r1 by (simp add: put_reader_def c0_def)
  moreover have "cinv (readerOff T rid c0)" by (rule cinv_readers_only [OF readerOff_only c0(1)])
  ultimately show ?thesis using cinv_put_reader [OF _ r1] by simp
next
  case False
  assume "cinv c"
  moreover have "snd (Reader_Close T hasFiles rid c) = c" using False by (auto simp: Reader_Close_def split: option.splits)
  ultimately show ?thesis by simp
qed

lemma cinv_set_readers: "cinv c \<Longrightarrow> cinv (c\<lparr>ca_readers := rs\<rparr>)"
  by (simp add: cinv_def pieces_inv_def)

lemma cinv_CloseReader: "cinv c \<Longrightarrow> cinv (snd (CloseReader T hasFiles rid c))"
  using cinv_Reader_Close [of c T hasFiles rid] cinv_set_readers
  by (auto simp: CloseReader_def split: option.splits prod.splits)

lemma cinv_NewReader:
  assumes "cinv c" "ca_heap c rid = None"
  shows "cinv (NewReader T t0 rid file c)"
proof -
  have "rid \<notin> in_use (ca_heap c)" using assms(2) by (simp add: in_use_def)
  then show ?thesis using assms
    by (auto simp: cinv_def pieces_inv_def NewReader_def SetAggressive_def Let_def intro!: count_inv_on)
qed

lemma cinv_AdjustRA: "cinv c \<Longrightarrow> cinv (AdjustRA T cfg readahead c)"
proof -
  have d: "dom (\<lambda>rid. if rid \<in> S then map_option (SetReadahead T readahead) (h rid) else h rid) = dom h" for S and h :: "nat \<rightharpoonup> 'a Reader"
    by (auto split: if_splits)
  have u: "in_use (\<lambda>rid. if rid \<in> S then map_option (SetReadahead T readahead) (h rid) else h rid) = in_use h" for S and h :: "nat \<rightharpoonup> 'a Reader"
    by (auto simp: in_use_def split: if_splits)
  assume "cinv c"
  then show ?thesis by (auto simp: AdjustRA_def Let_def cinv_def pieces_inv_def count_inv_def d u split: option.splits)
qed

lemma cinv_misc:
  "cinv c \<Longrightarrow> cinv (SetTorrent b c)" "cinv c \<Longrightarrow> cinv (SetAggressive b n c)" "cinv c \<Longrightarrow> cinv (close_cache c)"
  "cinv c \<Longrightarrow> cinv (snd (Cache_GetState pstate cfg now c))"
  by (auto simp: cinv_def pieces_inv_def SetTorrent_def SetAggressive_def close_cache_def Cache_GetState_def Let_def split: option.splits)

lemma cinv_step: "cache_step T srt srtp cfg cs cs' \<Longrightarrow> cinv (fst cs) \<Longrightarrow> cinv (fst cs')"
proof (induction rule: cache_step.induct)
  case (CS_readahead c rid r st len)
  then show ?case using cinv_put_reader by fastforce
next
  case (CS_clean now c st cs')
  then show ?case by (cases cs') (auto intro: cinv_cleanPieces)
next
  case (CS_complete i c p st b)
  then show ?case using cinv_put_piece [of c i p "p\<lparr>pc_Complete := b\<rparr>"] by simp
qed (auto intro: cinv_misc cinv_NewReader cinv_Seek cinv_Read cinv_CloseReader cinv_AdjustRA cinv_getRemPieces
    cinv_clearPriority cinv_put_piece pc_Id_ops cinv_set_readers)

lemma cinv_init: "cache_init cs \<Longrightarrow> cinv (fst cs)"
  by (auto simp: cache_init_def cinv_def pieces_inv_def prio_inv_def count_inv_def in_use_def Cache_Init_def NewCache_def
      NewPiece_def Let_def split: prod.splits if_splits)

interpretation torrent_cache: step_invariant cache_init "cache_step T srt srtp cfg" "\<lambda>cs. cinv (fst cs)"
  by unfold_locales (auto intro: cinv_init cinv_step)


section \<open>The window of a reader\<close>

text \<open>Four roundings of a product of three factors.\<close>

lemma fl_chain:
  assumes "0 \<le> a" "0 \<le> b"
  defines "e \<equiv> 1 + 1 / 2 ^ 52"
  shows "fl (fl (fl (fl a * fl (85 / 100)) * fl b) / 100) \<le> a * (85 / 100) * b / 100 * e ^ 6"
proof -
  have e: "0 \<le> e" by (simp add: e_def)
  have 1: "fl a \<le> a * e" "fl (85 / 100) \<le> 85 / 100 * e" "fl b \<le> b * e" unfolding e_def by (intro fl_upper assms; simp)+
  have n: "0 \<le> fl a" "0 \<le> fl (85 / 100)" "0 \<le> fl b" using assms by (auto intro: fl_nonneg)
  have "fl (fl a * fl (85 / 100)) \<le> fl a * fl (85 / 100) * e" unfolding e_def by (rule fl_upper) (intro mult_nonneg_nonneg n)
  also have "\<dots> \<le> a * e * (85 / 100 * e) * e" by (intro mult_right_mono mult_mono 1 n e mult_nonneg_nonneg assms)
  finally have 2: "fl (fl a * fl (85 / 100)) \<le> a * (85 / 100) * e ^ 3" by (simp add: power3_eq_cube algebra_simps)
  have n2: "0 \<le> fl (fl a * fl (85 / 100))" by (intro fl_nonneg mult_nonneg_nonneg n)
  have "fl (fl (fl a * fl (85 / 100)) * fl b) \<le> fl (fl a * fl (85 / 100)) * fl b * e" unfolding e_def
    by (rule fl_upper) (intro mult_nonneg_nonneg n n2)
  also have "\<dots> \<le> a * (85 / 100) * e ^ 3 * (b * e) * e" by (intro mult_right_mono mult_mono 1 2 n n2 e mult_nonneg_nonneg assms zero_le_power) simp
  finally have 3: "fl (fl (fl a * fl (85 / 100)) * fl b) \<le> a * (85 / 100) * b * e ^ 5" by (simp add: numeral_eq_Suc algebra_simps)
  have n3: "0 \<le> fl (fl (fl a * fl (85 / 100)) * fl b)" by (intro fl_nonneg mult_nonneg_nonneg n n2)
  have "fl (fl (fl (fl a * fl (85 / 100)) * fl b) / 100) \<le> fl (fl (fl a * fl (85 / 100)) * fl b) / 100 * e" unfolding e_def
    by (rule fl_upper) (use n3 in simp)
  also have "\<dots> \<le> a * (85 / 100) * b * e ^ 5 / 100 * e" by (intro mult_right_mono divide_right_mono 3 e) simp
  finally show ?thesis by (simp add: numeral_eq_Suc algebra_simps)
qed

lemma window_bounds:
  assumes "0 \<le> share" "0 \<le> prc"
  shows "0 \<le> window share prc" and "rat_of_int (window share prc) \<le> of_int share * of_int prc / 100 * (86 / 100)"
proof -
  let ?x = "fl (fl (fl (fl (of_int share) * fl (85 / 100)) * fl (of_int prc)) / 100)"
  have n: "0 \<le> ?x" using assms by (intro fl_nonneg mult_nonneg_nonneg divide_nonneg_nonneg) simp_all
  show "0 \<le> window share prc" unfolding window_def by (rule fl_to_int_nonneg [OF n])
  have "rat_of_int (window share prc) \<le> ?x" unfolding window_def by (rule fl_to_int_le [OF n])
  also have "\<dots> \<le> of_int share * (85 / 100) * of_int prc / 100 * (1 + 1 / 2 ^ 52) ^ 6" by (rule fl_chain) (use assms in simp_all)
  also have "\<dots> = (of_int share * of_int prc / 100) * (85 / 100 * (1 + 1 / 2 ^ 52) ^ 6)" by simp
  also have "\<dots> \<le> (of_int share * of_int prc / 100) * (86 / 100)"
    using assms by (intro mult_left_mono) (simp_all add: power_divide)
  finally show "rat_of_int (window share prc) \<le> of_int share * of_int prc / 100 * (86 / 100)" .
qed

lemma fl_chain_lower:
  assumes "0 \<le> a" "0 \<le> b"
  defines "e \<equiv> 1 - 1 / 2 ^ 52"
  shows "a * (85 / 100) * b / 100 * e ^ 6 \<le> fl (fl (fl (fl a * fl (85 / 100)) * fl b) / 100)"
proof -
  have e: "0 \<le> e" by (simp add: e_def)
  have 1: "a * e \<le> fl a" "85 / 100 * e \<le> fl (85 / 100)" "b * e \<le> fl b" unfolding e_def by (intro fl_lower assms; simp)+
  have n: "0 \<le> fl a" "0 \<le> fl (85 / 100)" "0 \<le> fl b" using assms by (auto intro: fl_nonneg)
  have "a * e * (85 / 100 * e) * e \<le> fl a * fl (85 / 100) * e"
    by (intro mult_right_mono mult_mono 1 n e mult_nonneg_nonneg assms) simp
  also have "\<dots> \<le> fl (fl a * fl (85 / 100))" unfolding e_def by (rule fl_lower) (intro mult_nonneg_nonneg n)
  finally have 2: "a * (85 / 100) * e ^ 3 \<le> fl (fl a * fl (85 / 100))" by (simp add: power3_eq_cube algebra_simps)
  have n2: "0 \<le> fl (fl a * fl (85 / 100))" by (intro fl_nonneg mult_nonneg_nonneg n)
  have "a * (85 / 100) * e ^ 3 * (b * e) * e \<le> fl (fl a * fl (85 / 100)) * fl b * e"
    by (intro mult_right_mono mult_mono 1 2 n n2 e mult_nonneg_nonneg assms)
  also have "\<dots> \<le> fl (fl (fl a * fl (85 / 100)) * fl b)" unfolding e_def by (rule fl_lower) (intro mult_nonneg_nonneg n n2)
  finally have 3: "a * (85 / 100) * b * e ^ 5 \<le> fl (fl (fl a * fl (85 / 100)) * fl b)" by (simp add: numeral_eq_Suc algebra_simps)
  have n3: "0 \<le> fl (fl (fl a * fl (85 / 100)) * fl b)" by (intro fl_nonneg mult_nonneg_nonneg n n2)
  have "a * (85 / 100) * b * e ^ 5 / 100 * e \<le> fl (fl (fl a * fl (85 / 100)) * fl b) / 100 * e"
    by (intro mult_right_mono divide_right_mono 3 e) simp
  also have "\<dots> \<le> fl (fl (fl (fl a * fl (85 / 100)) * fl b) / 100)" unfolding e_def by (rule fl_lower) (use n3 in simp)
  finally show ?thesis by (simp add: numeral_eq_Suc algebra_simps)
qed

lemma window_lower:
  assumes "0 \<le> share" "0 \<le> prc"
  shows "of_int share * of_int prc / 100 * (84 / 100) - 1 < rat_of_int (window share prc)"
proof -
  let ?x = "fl (fl (fl (fl (of_int share) * fl (85 / 100)) * fl (of_int prc)) / 100)"
  have n: "0 \<le> ?x" using assms by (intro fl_nonneg mult_nonneg_nonneg divide_nonneg_nonneg) simp_all
  have "(rat_of_int share * of_int prc / 100) * (84 / 100) \<le> (of_int share * of_int prc / 100) * (85 / 100 * (1 - 1 / 2 ^ 52) ^ 6)"
    using assms by (intro mult_left_mono) (simp_all add: power_divide)
  also have "\<dots> = of_int share * (85 / 100) * of_int prc / 100 * (1 - 1 / 2 ^ 52) ^ 6" by simp
  also have "\<dots> \<le> ?x" by (rule fl_chain_lower) (use assms in simp_all)
  also have "?x < rat_of_int (window share prc) + 1" unfolding window_def fl_to_int_def using n by (simp add: not_less) linarith
  finally show ?thesis by simp
qed

lemma sdiv_mono_nonneg: "0 \<le> a \<Longrightarrow> a \<le> b \<Longrightarrow> 0 < (c::int) \<Longrightarrow> a sdiv c \<le> b sdiv c"
  by (simp add: sdiv_nonneg zdiv_mono1)

section \<open>Properties\<close>

text \<open>C30: the counter of readers in use, a 32-bit word that \<^verbatim>\<open>readerOn\<close> and \<^verbatim>\<open>readerOff\<close> adjust from seeks, reads, closes and
  the idle check of every clean-up, is exact in every reachable state of the cache: it is the number of readers whose use
  flag is set, as long as that number fits.\<close>

theorem active_readers_exact:
  assumes "reachable cache_init (cache_step T srt srtp cfg) (c, st)" and "card (in_use (ca_heap c)) < 2 ^ 31"
  shows "GetUseReaders c = int (card (in_use (ca_heap c)))"
proof -
  have "ca_activeReaders c = of_nat (card (in_use (ca_heap c)))"
    using torrent_cache.reachable_inv [OF assms(1)] by (simp add: cinv_def count_inv_def)
  then show ?thesis using assms(2) by (simp add: GetUseReaders_def signed_of_nat signed_take_bit_int_eq_self)
qed

text \<open>A library reader that does nothing, and a cache of four pieces of 16 bytes with one reader, for the examples.\<close>

definition null_reader :: "unit treader" where
  "null_reader = \<lparr>tr_Seek = (\<lambda>r off w. (r, off, True)), tr_Read = (\<lambda>r n. (r, n, True)), tr_SetReadahead = (\<lambda>r n. r), tr_Close = (\<lambda>r. r)\<rparr>"

definition one_file :: File where
  "one_file = \<lparr>fi_Offset = 0, fi_Length = 64\<rparr>"

definition small_cache :: "unit Cache" where
  "small_cache = SetTorrent True (Cache_Init (16, 4) ''h'' (NewCache 0))"

lemma small_cache_reachable:
  "reachable cache_init (cache_step null_reader srt srtp cfg) (NewReader null_reader () 0 one_file small_cache, st)"
proof -
  let ?R = "reachable cache_init (cache_step null_reader srt srtp cfg)"
  have "?R (Cache_Init (16, 4) ''h'' (NewCache 0), st)" by (rule reach_init) (auto simp: cache_init_def)
  then have "?R (small_cache, st)" unfolding small_cache_def by (rule reach_step) (rule CS_torrent)
  then show ?thesis by (rule reach_step) (rule CS_new, simp add: small_cache_def SetTorrent_def Cache_Init_def NewCache_def)
qed

theorem active_readers_exact_witness:
  "GetUseReaders (NewReader null_reader () 0 one_file small_cache) = 1"
proof -
  have "in_use (ca_heap (NewReader null_reader () 0 one_file small_cache)) = {0}"
    by (simp add: NewReader_def Let_def SetAggressive_def in_use_upd small_cache_def SetTorrent_def Cache_Init_def NewCache_def)
      (simp add: in_use_def)
  then show ?thesis using active_readers_exact [OF small_cache_reachable [of id id undefined undefined]] by simp
qed

text \<open>C31: when the last reader of a torrent is closed, the clean-up goroutine that \<^verbatim>\<open>CloseReader\<close> starts takes back every piece
  priority the cache ever gave out: the cache's own record is complete in every reachable state, so nothing keeps
  downloading for a reader that is gone.\<close>

theorem priorities_taken_back:
  assumes "reachable cache_init (cache_step T srt srtp cfg) (c, st)"
    and "ca_readers c = Some [rid]" and "ca_torrent c" and "\<not> ca_isClosed c" and "ca_pieces c \<noteq> None"
  shows "eff_prio (ca_calls (clearPriority T srt cfg now (snd (CloseReader T hasFiles rid c)))) i = PNone"
proof -
  let ?c = "snd (CloseReader T hasFiles rid c)"
  have "cinv ?c" using torrent_cache.reachable_inv [OF assms(1)] cinv_CloseReader by simp
  then have pi: "prio_inv (ca_calls ?c) (ca_localPriority ?c)" by (simp add: cinv_def)
  have f: "ca_readers ?c = Some []" "ca_torrent ?c" "\<not> ca_isClosed ?c" "ca_pieces ?c \<noteq> None"
    using assms(2-) by (auto simp: CloseReader_def Reader_Close_def readerOff_def Let_def split: option.splits prod.splits)
  have "use_ranges cfg (checkReaders T now ?c) = []" "checkReaders T now ?c = ?c"
    using f(1) by (simp_all add: use_ranges_def reader_list_def checkReaders_def List.map_filter_def)
  then have "ca_calls (clearPriority T srt cfg now ?c) =
      map (\<lambda>i. TSetPriority i PNone) (rev (map fst (ca_localPriority ?c))) @ ca_calls ?c"
    using f unfolding clearPriority_def by (auto simp: Let_def mergeRange_def)
  then show ?thesis using pi unfolding prio_inv_def by (simp add: eff_prio_cleared) (metis map_of_eq_None_iff not_Some_eq option.distinct(1))
qed

theorem priorities_taken_back_witness:
  "eff_prio (ca_calls (clearPriority null_reader id \<lparr>bs_ReaderReadAHead = 95, bs_ConnectionsLimit = 25, bs_CacheSize = 0\<rparr> 9
     (snd (CloseReader null_reader True 0 (NewReader null_reader () 0 one_file small_cache))))) 2 = PNone"
  by (rule priorities_taken_back [OF small_cache_reachable [of id id _ "\<lparr>st_mem = [], st_pool = []\<rparr>"]])
    (simp_all add: NewReader_def Let_def SetAggressive_def small_cache_def SetTorrent_def Cache_Init_def NewCache_def)

text \<open>C32: the protected window of a reader always contains its position, stays inside the file, and takes at most 86 percent
  of the reader's share of the cache, all roundings of the floating-point computation included; so the cache keeps room
  for pieces that may be swapped out, and the piece range is well formed.\<close>

theorem reader_window:
  assumes "0 \<le> rd_offset r" and "rd_offset r \<le> fi_Length (rd_file r)" and "0 \<le> fi_Offset (rd_file r)"
    and "0 \<le> ca_capacity c" and "0 < ca_pieceLength c" and "0 < GetUseReaders c"
    and "0 \<le> bs_ReaderReadAHead cfg" and "bs_ReaderReadAHead cfg \<le> 100"
    and "getOffsetRange cfg c r = (b, e)"
  shows "0 \<le> b \<and> b \<le> rd_offset r \<and> rd_offset r \<le> e \<and> e \<le> fi_Length (rd_file r)
    \<and> (e - b) * 100 \<le> 86 * (ca_capacity c div GetUseReaders c)
    \<and> rg_Start (getPiecesRange cfg c r) \<le> getReaderPiece c r \<and> getReaderPiece c r \<le> rg_End (getPiecesRange cfg c r)"
proof -
  let ?p = "bs_ReaderReadAHead cfg"
  define share where "share = ca_capacity c sdiv GetUseReaders c"
  have share: "share = ca_capacity c div GetUseReaders c" "0 \<le> share"
    using assms(4,6) by (simp_all add: share_def sdiv_nonneg pos_imp_zdiv_nonneg_iff)
  have w: "0 \<le> window share (100 - ?p)" "0 \<le> window share ?p" using window_bounds(1) [OF share(2)] assms(7,8) by auto
  have "rat_of_int (window share (100 - ?p) + window share ?p) \<le>
      of_int share * of_int (100 - ?p) / 100 * (86 / 100) + of_int share * of_int ?p / 100 * (86 / 100)"
    using window_bounds(2) [OF share(2), of "100 - ?p"] window_bounds(2) [OF share(2), of ?p] assms(7,8) by simp
  also have "\<dots> = of_int share * (86 / 100)" by (simp add: field_simps)
  finally have "rat_of_int ((window share (100 - ?p) + window share ?p) * 100) \<le> rat_of_int (86 * share)" by (simp add: field_simps)
  then have sum: "(window share (100 - ?p) + window share ?p) * 100 \<le> 86 * share" by (simp only: of_int_le_iff)
  have b: "b = max 0 (rd_offset r - window share (100 - ?p))" and e: "e = min (fi_Length (rd_file r)) (rd_offset r + window share ?p)"
    using assms(6,9) by (auto simp: getOffsetRange_def Let_def share_def max_def min_def)
  have be: "0 \<le> b" "b \<le> rd_offset r" "rd_offset r \<le> e" "e \<le> fi_Length (rd_file r)" "(e - b) * 100 \<le> 86 * share"
    using b e w sum assms(1,2) by (auto simp: max_def min_def)
  then have "rg_Start (getPiecesRange cfg c r) \<le> getReaderPiece c r" "getReaderPiece c r \<le> rg_End (getPiecesRange cfg c r)"
    using assms(1,3,5,9) by (auto simp: getPiecesRange_def getReaderPiece_def getPieceNum_def intro!: sdiv_mono_nonneg)
  with be show ?thesis unfolding share(1) by blast
qed

theorem reader_window_witness:
  "\<exists>b e. getOffsetRange \<lparr>bs_ReaderReadAHead = 95, bs_ConnectionsLimit = 25, bs_CacheSize = 0\<rparr>
       (NewReader null_reader () 0 one_file small_cache) (the (ca_heap (NewReader null_reader () 0 one_file small_cache) 0)) = (b, e)
     \<and> 0 \<le> b \<and> (e - b) * 100 \<le> 86 * 64"
proof -
  let ?c = "NewReader null_reader () 0 one_file small_cache" and ?cfg = "\<lparr>bs_ReaderReadAHead = 95, bs_ConnectionsLimit = 25, bs_CacheSize = 0\<rparr>"
  obtain b e where be: "getOffsetRange ?cfg ?c (the (ca_heap ?c 0)) = (b, e)" by fastforce
  have c: "ca_capacity ?c = 64" "ca_pieceLength ?c = 16" "GetUseReaders ?c = 1"
    "rd_offset (the (ca_heap ?c 0)) = 0" "rd_file (the (ca_heap ?c 0)) = one_file"
    by (simp_all add: NewReader_def Let_def SetAggressive_def small_cache_def SetTorrent_def Cache_Init_def NewCache_def GetUseReaders_def)
  show ?thesis using reader_window [OF _ _ _ _ _ _ _ _ be] be unfolding c by (simp add: one_file_def)
qed

text \<open>Turning a reader off forgets its read-ahead: \<^verbatim>\<open>readerOff\<close> overwrites the remembered value with zero, and the \<^verbatim>\<open>readerOn\<close> that
  follows restores that zero, without telling the torrent library anything, whatever read-ahead had been set.\<close>

theorem readahead_lost:
  assumes "ca_heap c rid = Some r" and "rd_isUse r" and "rd_cache r"
  shows "\<exists>r'. ca_heap (readerOn T rid (readerOff T rid c)) rid = Some r' \<and> rd_isUse r' \<and> rd_readahead r' = 0"
  using assms by (auto simp: readerOn_def readerOff_def reader_on_def reader_off_def SetReadahead_def Let_def split: prod.splits)

theorem readahead_lost_witness:
  "\<exists>r'. ca_heap (readerOn null_reader 0 (readerOff null_reader 0 (put_reader 0
      \<lparr>rd_Reader = (), rd_offset = 5, rd_readahead = 33554432, rd_file = one_file, rd_cache = True, rd_isClosed = False,
       rd_lastAccess = 0, rd_isUse = True\<rparr> small_cache))) 0 = Some r' \<and> rd_readahead r' = 0"
  using readahead_lost [of "put_reader 0 \<lparr>rd_Reader = (), rd_offset = 5, rd_readahead = 33554432, rd_file = one_file,
      rd_cache = True, rd_isClosed = False, rd_lastAccess = 0, rd_isUse = True\<rparr> small_cache" 0] by (fastforce simp: put_reader_def)

end
