(* ===== verification/TorrEvict.thy ===== *)
theory TorrEvict
  imports TorrReaders
begin

text \<open>
  Eviction of the torrent cache: which pieces a clean-up may remove, how much it frees, and the priorities it sets; and
  the table of caches of the storage.
\<close>

section \<open>What may be removed\<close>

text \<open>The contract of \<^verbatim>\<open>sort.Slice\<close> by access time.\<close>

definition sorts_pieces :: "(Piece list \<Rightarrow> Piece list) \<Rightarrow> bool" where
  "sorts_pieces srtp \<longleftrightarrow> (\<forall>xs. mset (srtp xs) = mset xs \<and> sorted (map pc_Accessed (srtp xs)))"

lemma set_sorts_pieces: "sorts_pieces srtp \<Longrightarrow> set (srtp xs) = set xs"
  unfolding sorts_pieces_def by (metis mset_eq_setD)

lemma nth_mark_ranges:
  "i < length bits \<Longrightarrow> fold (mark_range c) ranges bits ! i \<longleftrightarrow>
     bits ! i \<or> (\<exists>rng \<in> set ranges. fi_Offset (rg_File rng) sdiv ca_pieceLength c \<le> int i \<and> int i < ca_pieceCount c \<and>
        int i \<le> (fi_Offset (rg_File rng) + fi_Length (rg_File rng)) sdiv ca_pieceLength c)"
proof (induction ranges arbitrary: bits)
  case (Cons rng ranges)
  have "mark_range c rng bits ! i \<longleftrightarrow> bits ! i \<or> (fi_Offset (rg_File rng) sdiv ca_pieceLength c \<le> int i \<and> int i < ca_pieceCount c \<and>
        int i \<le> (fi_Offset (rg_File rng) + fi_Length (rg_File rng)) sdiv ca_pieceLength c)"
    using Cons(2) by (auto simp: mark_range_def Let_def nth_enumerate_eq)
  moreover have "length (mark_range c rng bits) = length bits" by (simp add: mark_range_def Let_def)
  ultimately show ?case using Cons by auto
qed simp

text \<open>The stages of \<^verbatim>\<open>getRemPieces\<close>, with what is known of the list it returns.\<close>

lemma getRemPieces_rem:
  assumes "getRemPieces T srt srtp cfg now c = Some (rem, c')" and "cinv c" and "sorts_pieces srtp" and "p \<in> set rem"
  shows "\<exists>ps. ca_pieces c = Some ps \<and> ps (pc_Id p) = Some p \<and> 0 < pc_Size p \<and> 0 \<le> pc_Id p \<and> pc_Id p < ca_pieceCount c \<and>
    (\<forall>rng \<in> set (mergeRange srt (use_ranges cfg (checkReaders T now c))).
        \<not> (fi_Offset (rg_File rng) sdiv ca_pieceLength c \<le> pc_Id p \<and>
           pc_Id p \<le> (fi_Offset (rg_File rng) + fi_Length (rg_File rng)) sdiv ca_pieceLength c))"
proof (cases "ca_isClosed c \<or> ca_readers c = None \<or> ca_pieces c = None")
  case True
  then have "rem = []" using assms(1) by (cases "ca_isClosed c \<or> ca_readers c = None") (auto simp: getRemPieces_def)
  then show ?thesis using assms(4) by simp
next
  case False
  define c1 where "c1 = checkReaders T now c"
  define ranges where "ranges = mergeRange srt (use_ranges cfg c1)"
  define bits where "bits = fold (mark_range c1) ranges (map (\<lambda>_. False) (ca_pieceInRange c1))"
  obtain ps where ps: "ca_pieces c = Some ps" using False by auto
  obtain h n where c1: "c1 = c\<lparr>ca_heap := h, ca_activeReaders := n\<rparr>"
    unfolding c1_def by (rule readers_onlyE [OF checkReaders_only]) blast
  have "rem = srtp (List.map_filter (\<lambda>i. Option.bind (ps i) (\<lambda>p. if bits ! nat i then None
      else if pc_Size p > 0 \<and> \<not> isIdInFileBE c1 ranges i then Some p else None)) (piece_ids c1 ps))"
    using assms(1) False ps unfolding getRemPieces_def c1_def [symmetric] Let_def ranges_def [symmetric] bits_def [symmetric] by auto
  then obtain i where i: "ps i = Some p" "\<not> bits ! nat i" "0 < pc_Size p"
    using assms(4) set_sorts_pieces [OF assms(3)]
    by (auto simp: List.map_filter_def bind_eq_Some_conv split: option.splits if_splits)
  have pi: "pieces_inv c" using assms(2) by (simp add: cinv_def)
  then have "i \<in> {0..<ca_pieceCount c}" "pc_Id p = i" using ps i(1) by (auto simp: pieces_inv_def)
  then have id: "pc_Id p = i" "0 \<le> i" "i < ca_pieceCount c" by simp_all
  have "nat i < length (map (\<lambda>_. False) (ca_pieceInRange c1))" using pi id c1 by (simp add: pieces_inv_def)
  from nth_mark_ranges [OF this, of c1 ranges] i(2) id
  have "\<forall>rng \<in> set ranges. \<not> (fi_Offset (rg_File rng) sdiv ca_pieceLength c \<le> i \<and>
           i \<le> (fi_Offset (rg_File rng) + fi_Length (rg_File rng)) sdiv ca_pieceLength c)"
    unfolding bits_def [symmetric] by (auto simp: c1)
  then show ?thesis using ps i id unfolding ranges_def c1_def by blast
qed

lemma getRemPieces_mem:
  assumes "getRemPieces T srt srtp cfg now c = Some (rem, c')" and "cinv c" and "sorts_pieces srtp"
    and "\<not> ca_isClosed c" and "ca_readers c \<noteq> None" and "Cache_Piece i c = Some p" and "0 < pc_Size p"
    and "\<forall>rng \<in> set (mergeRange srt (use_ranges cfg (checkReaders T now c))).
        \<not> (fi_Offset (rg_File rng) sdiv ca_pieceLength c \<le> i \<and> i \<le> (fi_Offset (rg_File rng) + fi_Length (rg_File rng)) sdiv ca_pieceLength c)"
    and "\<not> isIdInFileBE (checkReaders T now c) (mergeRange srt (use_ranges cfg (checkReaders T now c))) i"
  shows "p \<in> set rem"
proof -
  define c1 where "c1 = checkReaders T now c"
  define ranges where "ranges = mergeRange srt (use_ranges cfg c1)"
  define bits where "bits = fold (mark_range c1) ranges (map (\<lambda>_. False) (ca_pieceInRange c1))"
  obtain ps where ps: "ca_pieces c = Some ps" "ps i = Some p" using assms(6) by (auto simp: Cache_Piece_def bind_eq_Some_conv)
  obtain h n where c1: "c1 = c\<lparr>ca_heap := h, ca_activeReaders := n\<rparr>"
    unfolding c1_def by (rule readers_onlyE [OF checkReaders_only]) blast
  have pi: "pieces_inv c" using assms(2) by (simp add: cinv_def)
  then have "i \<in> {0..<ca_pieceCount c}" using ps by (auto simp: pieces_inv_def)
  then have i: "0 \<le> i" "i < ca_pieceCount c" by simp_all
  have l: "nat i < length (map (\<lambda>_. False) (ca_pieceInRange c1))" using pi i c1 by (simp add: pieces_inv_def)
  then have z: "\<not> map (\<lambda>_. False) (ca_pieceInRange c1) ! nat i" by simp
  have pl: "ca_pieceLength c1 = ca_pieceLength c" using c1 by simp
  have nb: "\<not> bits ! nat i"
    unfolding bits_def nth_mark_ranges [OF l] pl ranges_def using z assms(8) i unfolding c1_def by auto
  have "rem = srtp (List.map_filter (\<lambda>i. Option.bind (ps i) (\<lambda>p. if bits ! nat i then None
      else if pc_Size p > 0 \<and> \<not> isIdInFileBE c1 ranges i then Some p else None)) (piece_ids c1 ps))"
    using assms(1,4,5) ps unfolding getRemPieces_def c1_def [symmetric] Let_def ranges_def [symmetric] bits_def [symmetric] by auto
  then have "set rem = set (List.map_filter (\<lambda>i. Option.bind (ps i) (\<lambda>p. if bits ! nat i then None
      else if pc_Size p > 0 \<and> \<not> isIdInFileBE c1 ranges i then Some p else None)) (piece_ids c1 ps))"
    using set_sorts_pieces [OF assms(3)] by simp
  moreover have "i \<in> set (piece_ids c1 ps)" using i ps c1 by (simp add: piece_ids_def)
  moreover have "\<not> isIdInFileBE c1 ranges i" using assms(9) by (simp add: ranges_def c1_def)
  ultimately show ?thesis using nb ps(2) assms(7) by (force simp: List.map_filter_def bind_eq_Some_conv)
qed

text \<open>With a single open reader the idle check keeps it in use, and the merged ranges are that reader's range.\<close>

lemma single_reader_ranges:
  assumes "ca_readers c = Some [rid]" "ca_heap c rid = Some r"
  shows "\<exists>rng. mergeRange srt (use_ranges cfg (checkReaders T now c)) = [rng] \<and> rg_File rng = rd_file r"
proof -
  have "checkReaders T now c = readerOn T rid c"
    using assms by (simp add: checkReaders_def checkReader_def Cache_Readers_def)
  moreover have "ca_readers (readerOn T rid c) = Some [rid]" using assms by (simp add: readerOn_def)
  moreover obtain r' where "ca_heap (readerOn T rid c) rid = Some r'" "rd_isUse r'" "rd_file r' = rd_file r"
    using assms by (cases "rd_isUse r") (auto simp: readerOn_def)
  ultimately show ?thesis
    by (simp add: use_ranges_def reader_list_def List.map_filter_def mergeRange_def getPiecesRange_def split: prod.splits)
qed

section \<open>How much is freed\<close>







section \<open>Frames\<close>

definition same_data :: "'r Cache \<Rightarrow> 'r Cache \<Rightarrow> bool" where
  "same_data c c' \<longleftrightarrow> ca_pieces c' = ca_pieces c \<and> ca_capacity c' = ca_capacity c \<and> ca_pieceLength c' = ca_pieceLength c
     \<and> ca_pieceCount c' = ca_pieceCount c \<and> ca_readers c' = ca_readers c \<and> ca_isClosed c' = ca_isClosed c \<and> ca_torrent c' = ca_torrent c
     \<and> (\<forall>rid r. ca_heap c rid = Some r \<longrightarrow> (\<exists>r'. ca_heap c' rid = Some r' \<and> rd_file r' = rd_file r \<and> rd_offset r' = rd_offset r))"

lemma same_data_refl: "same_data c c"
  by (simp add: same_data_def)

lemma same_data_trans: "same_data a b \<Longrightarrow> same_data b c \<Longrightarrow> same_data a c"
  by (simp add: same_data_def) metis

lemma same_data_readers: "readers_only c c' \<Longrightarrow> same_data c c'"
proof (erule readers_onlyE)
  fix h n assume c': "c' = c\<lparr>ca_heap := h, ca_activeReaders := n\<rparr>" and d: "dom h = dom (ca_heap c)"
    and k: "\<And>rid r r'. ca_heap c rid = Some r \<Longrightarrow> h rid = Some r' \<Longrightarrow> rd_file r' = rd_file r \<and> rd_offset r' = rd_offset r"
  have "\<exists>r'. h rid = Some r' \<and> rd_file r' = rd_file r \<and> rd_offset r' = rd_offset r" if "ca_heap c rid = Some r" for rid r
    using k [OF that] d that by blast
  then show ?thesis unfolding c' same_data_def by simp
qed

lemma same_data_prios: "prios_only c c' \<Longrightarrow> same_data c c'"
  by (erule prios_onlyE) (simp add: same_data_def)

lemma getRemPieces_same:
  assumes "getRemPieces T srt srtp cfg now c = Some (rem, c')"
  shows "same_data c c'"
proof (cases "ca_isClosed c \<or> ca_readers c = None \<or> ca_pieces c = None")
  case True
  then have "c' = c" using assms by (cases "ca_isClosed c \<or> ca_readers c = None") (auto simp: getRemPieces_def)
  then show ?thesis by (simp add: same_data_refl)
next
  case False
  define c1 where "c1 = checkReaders T now c"
  obtain bits fill ranges c3 where c3: "setLoadPriority cfg ranges (clearPriority T srt cfg now (c1\<lparr>ca_pieceInRange := bits\<rparr>)) = Some c3"
    "c' = c3\<lparr>ca_filled := fill\<rparr>" using assms False unfolding getRemPieces_def c1_def [symmetric] Let_def by auto
  obtain c2 where "readers_only (c1\<lparr>ca_pieceInRange := bits\<rparr>) c2" "prios_only c2 (clearPriority T srt cfg now (c1\<lparr>ca_pieceInRange := bits\<rparr>))"
    using clearPriority_only by blast
  then have "same_data (c1\<lparr>ca_pieceInRange := bits\<rparr>) c3"
    using same_data_trans same_data_readers same_data_prios setLoadPriority_only [OF c3(1)] by metis
  moreover have "same_data c (c1\<lparr>ca_pieceInRange := bits\<rparr>)"
    using same_data_readers [OF checkReaders_only [of c T now]] by (simp add: c1_def same_data_def)
  moreover have "same_data c3 c'" unfolding c3(2) by (simp add: same_data_def)
  ultimately show ?thesis using same_data_trans by blast
qed






section \<open>No panic\<close>

lemma prio_loop_total: "\<forall>i \<in> set ids. ps i \<noteq> None \<Longrightarrow> prio_loop ps pos rah win cnt ids limit lp batch \<noteq> None"
  by (induction ids arbitrary: limit lp batch) (auto simp: Let_def)

lemma load_readers_total:
  assumes "ca_pieces c = Some ps" "dom ps = {0..<ca_pieceCount c}" "\<And>r. r \<in> set rs \<Longrightarrow> 0 \<le> getReaderPiece c r"
  shows "load_readers cfg ranges rs c \<noteq> None"
  using assms
proof (induction rs arbitrary: c)
  case (Cons r rs)
  let ?ids = "[getReaderPiece c r..min (rg_End (getPiecesRange cfg c r)) (ca_pieceCount c) - 1]"
  have "\<forall>i \<in> set ?ids. i \<in> dom ps" unfolding Cons(3) using Cons(4) [of r] by auto
  then have "prio_loop ps (getReaderPiece c r) (getReaderRAHPiece c r) (highWindow c) (load_count cfg c) ?ids 0 (ca_localPriority c) [] \<noteq> None"
    by (intro prio_loop_total) blast
  then have "load_reader cfg ranges c r \<noteq> None" using Cons(2) unfolding load_reader_def Let_def by simp
  then obtain c1 where c1: "load_reader cfg ranges c r = Some c1" by blast
  have sd: "same_data c c1" by (rule same_data_prios [OF load_reader_only [OF c1]])
  have "load_readers cfg ranges rs c1 \<noteq> None"
    using Cons(2-4) sd by (intro Cons(1)) (auto simp: same_data_def getReaderPiece_def getPieceNum_def)
  then show ?case using c1 by simp
qed simp

text \<open>The readers of a cache stand at offsets that are not negative.\<close>

definition offsets_ok :: "'r Cache \<Rightarrow> bool" where
  "offsets_ok c \<longleftrightarrow> (\<forall>rid \<in> set (case ca_readers c of None \<Rightarrow> [] | Some rs \<Rightarrow> rs). \<forall>r. ca_heap c rid = Some r \<longrightarrow>
      0 \<le> rd_offset r + fi_Offset (rd_file r) \<and> 0 < ca_pieceLength c) \<and> (\<forall>rid \<in> set (case ca_readers c of None \<Rightarrow> [] | Some rs \<Rightarrow> rs). ca_heap c rid \<noteq> None)"

lemma offsets_ok_same: "same_data c c' \<Longrightarrow> offsets_ok c \<Longrightarrow> offsets_ok c'"
  by (fastforce simp: same_data_def offsets_ok_def)

lemma offsets_ok_pos: "offsets_ok c \<Longrightarrow> r \<in> set (reader_list c) \<Longrightarrow> 0 \<le> getReaderPiece c r"
  by (auto simp: offsets_ok_def reader_list_def List.map_filter_def getReaderPiece_def getPieceNum_def sdiv_nonneg
      pos_imp_zdiv_nonneg_iff split: option.splits)

lemma setLoadPriority_total:
  assumes "ca_pieces c = Some ps" "dom ps = {0..<ca_pieceCount c}" "offsets_ok c"
  shows "setLoadPriority cfg ranges c \<noteq> None"
  using load_readers_total [OF assms(1,2) offsets_ok_pos [OF assms(3)]] by (simp add: setLoadPriority_def)

lemma refreshPriorities_total:
  assumes "cinv c" "offsets_ok c"
  shows "refreshPriorities srt cfg c \<noteq> None"
  using setLoadPriority_total [of c] assms by (auto simp: refreshPriorities_def cinv_def pieces_inv_def)

lemma getRemPieces_total:
  assumes "cinv c" "offsets_ok c"
  shows "getRemPieces T srt srtp cfg now c \<noteq> None"
proof (cases "ca_isClosed c \<or> ca_readers c = None \<or> ca_pieces c = None")
  case True
  then show ?thesis by (cases "ca_isClosed c \<or> ca_readers c = None") (auto simp: getRemPieces_def)
next
  case False
  then obtain ps where ps: "ca_pieces c = Some ps" by blast
  define c1 where "c1 = checkReaders T now c"
  have sd: "same_data c (clearPriority T srt cfg now (c1\<lparr>ca_pieceInRange := bits\<rparr>))" for bits
  proof -
    obtain c2 where "readers_only (c1\<lparr>ca_pieceInRange := bits\<rparr>) c2" "prios_only c2 (clearPriority T srt cfg now (c1\<lparr>ca_pieceInRange := bits\<rparr>))"
      using clearPriority_only by blast
    moreover have "same_data c (c1\<lparr>ca_pieceInRange := bits\<rparr>)"
      using same_data_readers [OF checkReaders_only [of c T now]] by (simp add: c1_def same_data_def)
    ultimately show ?thesis using same_data_trans same_data_readers same_data_prios by metis
  qed
  have "setLoadPriority cfg ranges (clearPriority T srt cfg now (c1\<lparr>ca_pieceInRange := bits\<rparr>)) \<noteq> None" for ranges bits
    using sd [of bits] assms ps by (intro setLoadPriority_total [of _ ps] offsets_ok_same [OF sd]) (auto simp: same_data_def cinv_def pieces_inv_def)
  then show ?thesis using False ps unfolding getRemPieces_def c1_def [symmetric] Let_def by auto
qed

lemma evict_loop_total: "ca_torrent c \<Longrightarrow> evict_loop ids rems (c, st) \<noteq> None"
proof (induction ids arbitrary: rems c st)
  case (Cons i ids)
  have "removePiece i (c, st) \<noteq> None" using Cons(2) by (auto simp: removePiece_def Let_def split: option.splits prod.splits)
  then obtain c1 st1 where c1: "removePiece i (c, st) = Some (c1, st1)" by auto
  have "ca_torrent c1" by (rule removePiece_cases [OF c1]) (use Cons(2) in \<open>simp_all add: put_piece_def\<close>)
  then show ?case using c1 Cons(1) by auto
qed simp

lemma cleanPieces_total:
  assumes "cinv c" "offsets_ok c" "ca_torrent c"
  shows "cleanPieces T srt srtp cfg now (c, st) \<noteq> None"
proof (cases "ca_isRemove c \<or> ca_isClosed c")
  case False
  obtain c1 where c1: "refreshPriorities srt cfg c = Some c1" using refreshPriorities_total [OF assms(1,2)] by blast
  let ?c1 = "c1\<lparr>ca_isRemove := True, ca_lastClean := now\<rparr>"
  have "same_data c ?c1" using same_data_prios [OF refreshPriorities_only [OF c1]] by (simp add: same_data_def)
  moreover have "cinv ?c1" by (rule cinv_flags(1) [OF cinv_prios_only [OF refreshPriorities_only [OF c1] assms(1)]])
  ultimately obtain rem c2 where g: "getRemPieces T srt srtp cfg (now div 1000000000) ?c1 = Some (rem, c2)"
    using getRemPieces_total offsets_ok_same assms(2) by (metis not_None_eq surj_pair)
  have t: "ca_torrent c2" using getRemPieces_same [OF g] \<open>same_data c ?c1\<close> assms(3) by (simp add: same_data_def)
  obtain cs3 where "evict_loop (map pc_Id rem) ((ca_filled c2 - ca_capacity c2) sdiv ca_pieceLength c2 + 1) (c2, st) = Some cs3"
    using evict_loop_total [OF t] by blast
  then show ?thesis using False c1 g by (cases cs3) (simp add: cleanPieces_def)
qed (auto simp: cleanPieces_def)

section \<open>Properties\<close>

text \<open>while a single-file torrent has one open reader, a clean-up never removes a piece, however far the cache is over its
  capacity: the bitmap protects every piece of the reader's file, not only the pieces in the reader's window.\<close>

theorem single_file_never_evicts:
  assumes "reachable cache_init (cache_step T srt srtp cfg) (c, st)" and "sorts_pieces srtp"
    and "ca_readers c = Some [rid]" and "ca_heap c rid = Some r"
    and "fi_Offset (rd_file r) = 0" and "ca_pieceCount c - 1 \<le> fi_Length (rd_file r) sdiv ca_pieceLength c"
    and "cleanPieces T srt srtp cfg now (c, st) = Some (c', st')"
  shows "ca_pieces c' = ca_pieces c \<and> st' = st"
  using assms(7)
proof (cases rule: cleanPieces_cases)
  case skip
  then show ?thesis using same_data_prios [of c c'] by (simp add: same_data_def)
next
  case (run c1 rem c2 c3)
  let ?c1 = "c1\<lparr>ca_isRemove := True, ca_lastClean := now\<rparr>"
  have sd: "same_data c ?c1" using same_data_prios [OF run(1)] by (simp add: same_data_def)
  obtain r' where r': "ca_heap ?c1 rid = Some r'" "rd_file r' = rd_file r" using sd assms(4) by (auto simp: same_data_def)
  have inv: "cinv ?c1" using cinv_flags(1) [OF cinv_prios_only [OF run(1)]] torrent_cache.reachable_inv [OF assms(1)] by simp
  have "ca_readers ?c1 = Some [rid]" using sd assms(3) by (simp add: same_data_def)
  from single_reader_ranges [OF this r'(1)] obtain rng where
    rng: "mergeRange srt (use_ranges cfg (checkReaders T (now div 1000000000) ?c1)) = [rng]" "rg_File rng = rd_file r"
    using r'(2) by metis
  have "p \<notin> set rem" for p
  proof
    assume "p \<in> set rem"
    from getRemPieces_rem [OF run(2) inv assms(2) this] rng sd assms(5)
    have "0 \<le> pc_Id p" "pc_Id p < ca_pieceCount c" "\<not> (0 sdiv ca_pieceLength c \<le> pc_Id p \<and> pc_Id p \<le> fi_Length (rd_file r) sdiv ca_pieceLength c)"
      by (auto simp: same_data_def)
    moreover have "0 sdiv ca_pieceLength c = 0" by (simp add: signed_divide_int_def)
    ultimately show False using assms(6) by simp
  qed
  then have "rem = []" by (cases rem) auto
  then have "c3 = c2" "st' = st" using run(4) by (auto split: if_splits)
  then show ?thesis using run(3) getRemPieces_same [OF run(2)] sd by (simp add: same_data_def)
qed



text \<open>a clean-up never panics and always returns: in every reachable state in which the torrent is set and the readers stand
  at offsets inside it, the refresh of the priorities, the search for removable pieces and the eviction all succeed.\<close>

theorem cleanup_total:
  assumes "reachable cache_init (cache_step T srt srtp cfg) (c, st)" and "offsets_ok c" and "ca_torrent c"
  shows "\<exists>cs'. cleanPieces T srt srtp cfg now (c, st) = Some cs'"
  using cleanPieces_total [OF _ assms(2,3)] torrent_cache.reachable_inv [OF assms(1)] by auto

lemmas small_cache_eval = NewReader_def Let_def SetAggressive_def small_cache_def SetTorrent_def Cache_Init_def NewCache_def

lemma small_cache_ok: "offsets_ok (NewReader null_reader () 0 one_file small_cache)" "ca_torrent (NewReader null_reader () 0 one_file small_cache)"
  by (simp_all add: small_cache_eval offsets_ok_def SetReadahead_def one_file_def)

theorem cleanup_total_witness:
  "\<exists>cs'. cleanPieces null_reader id id \<lparr>bs_ReaderReadAHead = 95, bs_ConnectionsLimit = 25, bs_CacheSize = 0\<rparr> 7
     (NewReader null_reader () 0 one_file small_cache, \<lparr>st_mem = [], st_pool = []\<rparr>) = Some cs'"
  by (rule cleanup_total [OF small_cache_reachable small_cache_ok])

lemma sort_sorts_pieces: "sorts_pieces (sort_key pc_Accessed)"
  by (simp add: sorts_pieces_def)

theorem single_file_never_evicts_witness:
  "\<exists>c' st'. cleanPieces null_reader id (sort_key pc_Accessed) \<lparr>bs_ReaderReadAHead = 95, bs_ConnectionsLimit = 25, bs_CacheSize = 0\<rparr> 7
     (NewReader null_reader () 0 one_file small_cache, \<lparr>st_mem = [], st_pool = []\<rparr>) = Some (c', st')
     \<and> ca_pieces c' = ca_pieces (NewReader null_reader () 0 one_file small_cache) \<and> st' = \<lparr>st_mem = [], st_pool = []\<rparr>"
proof -
  let ?c = "NewReader null_reader () 0 one_file small_cache" and ?st = "\<lparr>st_mem = [], st_pool = []\<rparr>"
    and ?cfg = "\<lparr>bs_ReaderReadAHead = 95, bs_ConnectionsLimit = 25, bs_CacheSize = 0\<rparr>"
  have R: "reachable cache_init (cache_step null_reader id (sort_key pc_Accessed) ?cfg) (?c, ?st)" by (rule small_cache_reachable)
  have "cinv ?c" using torrent_cache.reachable_inv [OF R] by simp
  then obtain c' st' where e: "cleanPieces null_reader id (sort_key pc_Accessed) ?cfg 7 (?c, ?st) = Some (c', st')"
    using cleanPieces_total [OF _ small_cache_ok] by (metis not_None_eq surj_pair)
  have "ca_pieces c' = ca_pieces ?c \<and> st' = ?st"
    by (rule single_file_never_evicts [OF R sort_sorts_pieces _ _ _ _ e, of 0 "the (ca_heap ?c 0)"])
      (simp_all add: small_cache_eval SetReadahead_def one_file_def signed_divide_int_def)
  then show ?thesis using e by blast
qed


text \<open>A torrent of two files of a hundred pieces of 8 MiB, with a reader at piece 93 (in the first file) and one at piece 105
  (in the second), and a cache of 128 pieces.\<close>

definition file_a :: File where
  "file_a = \<lparr>fi_Offset = 0, fi_Length = 838860800\<rparr>"

definition file_b :: File where
  "file_b = \<lparr>fi_Offset = 838860800, fi_Length = 838860800\<rparr>"

definition two_files :: "unit Cache" where
  "two_files = snd (Reader_Seek null_reader 41943040 0 0 1 (snd (Reader_Seek null_reader 780140544 0 0 0
     (NewReader null_reader () 1 file_b (NewReader null_reader () 0 file_a
       (SetTorrent True (Cache_Init (8388608, 200) ''h'' (NewCache 1073741824))))))))"

definition reader_a :: "unit Reader" where
  "reader_a = \<lparr>rd_Reader = (), rd_offset = 780140544, rd_readahead = 0, rd_file = file_a, rd_cache = True, rd_isClosed = False,
     rd_lastAccess = 0, rd_isUse = True\<rparr>"

definition reader_b :: "unit Reader" where
  "reader_b = \<lparr>rd_Reader = (), rd_offset = 41943040, rd_readahead = 0, rd_file = file_b, rd_cache = True, rd_isClosed = False,
     rd_lastAccess = 0, rd_isUse = True\<rparr>"

lemma two_files_fields:
  "ca_heap two_files = [0 \<mapsto> reader_a, 1 \<mapsto> reader_b]" "ca_readers two_files = Some [1, 0]" "ca_activeReaders two_files = 2"
  "ca_capacity two_files = 1073741824" "ca_pieceLength two_files = 8388608" "ca_pieceCount two_files = 200"
  "ca_isClosed two_files = False" "ca_torrent two_files = True"
  "ca_pieces two_files = Some (\<lambda>i. if 0 \<le> i \<and> i < 200 then Some (NewPiece i) else None)"
  by (auto simp: two_files_def Reader_Seek_def readerOn_def small_cache_eval SetReadahead_def null_reader_def reader_a_def reader_b_def fun_eq_iff)

lemma reach_seek:
  "reachable init (cache_step T srt srtp cfg) (c, st) \<Longrightarrow>
   reachable init (cache_step T srt srtp cfg) (snd (Reader_Seek T offset whence now rid c), st)"
  by (rule reach_step, assumption, rule CS_seek)

lemma two_files_reachable: "reachable cache_init (cache_step null_reader srt srtp cfg) (two_files, st)"
proof -
  let ?R = "reachable cache_init (cache_step null_reader srt srtp cfg)"
  let ?c0 = "SetTorrent True (Cache_Init (8388608, 200) ''h'' (NewCache 1073741824)) :: unit Cache"
  have "?R (Cache_Init (8388608, 200) ''h'' (NewCache 1073741824), st)" by (rule reach_init) (auto simp: cache_init_def)
  then have "?R (?c0, st)" by (rule reach_step) (rule CS_torrent)
  then have "?R (NewReader null_reader () 0 file_a ?c0, st)" by (rule reach_step) (rule CS_new, simp add: small_cache_eval)
  then have "?R (NewReader null_reader () 1 file_b (NewReader null_reader () 0 file_a ?c0), st)"
    by (rule reach_step) (rule CS_new, simp add: small_cache_eval)
  then show ?thesis unfolding two_files_def by (intro reach_seek)
qed

lemma window_half: "window 536870912 50 > 8 * 8388608" "window 536870912 50 < 30 * 8388608"
  using window_lower [of 536870912 50] window_bounds(2) [of 536870912 50] by (simp_all add: field_simps)

text \<open>The two readers' piece ranges touch at piece 100.\<close>

lemma two_files_ranges:
  fixes c :: "unit Cache"
  assumes "ca_pieceLength c = 8388608" "ca_capacity c = 1073741824" "ca_activeReaders c = 2" "bs_ReaderReadAHead cfg = 50"
  shows "\<exists>s. s < 100 \<and> getPiecesRange cfg c reader_a = \<lparr>rg_Start = s, rg_End = 100, rg_File = file_a\<rparr>"
    and "\<exists>e. 100 < e \<and> getPiecesRange cfg c reader_b = \<lparr>rg_Start = 100, rg_End = e, rg_File = file_b\<rparr>"
proof -
  let ?w = "window 536870912 50"
  have u: "GetUseReaders c = 2" using assms(3) by (simp add: GetUseReaders_def)
  have sh: "1073741824 sdiv 2 = (536870912 :: int)" by (simp add: signed_divide_int_def)
  have a: "getOffsetRange cfg c reader_a = (780140544 - ?w, 838860800)"
    using window_half by (simp add: getOffsetRange_def Let_def assms u sh reader_a_def file_a_def)
  have b: "getOffsetRange cfg c reader_b = (0, 41943040 + ?w)"
    using window_half by (simp add: getOffsetRange_def Let_def assms u sh reader_b_def file_b_def)
  have "(780140544 - ?w) sdiv 8388608 < 100" using window_half by (simp add: sdiv_nonneg)
  moreover have "838860800 sdiv (8388608 :: int) = 100" by (simp add: signed_divide_int_def)
  ultimately show "\<exists>s. s < 100 \<and> getPiecesRange cfg c reader_a = \<lparr>rg_Start = s, rg_End = 100, rg_File = file_a\<rparr>"
    by (simp add: getPiecesRange_def a getPieceNum_def assms) (simp add: reader_a_def file_a_def)
  have "100 < (41943040 + ?w + 838860800) sdiv 8388608" using window_half by (simp add: sdiv_nonneg)
  then show "\<exists>e. 100 < e \<and> getPiecesRange cfg c reader_b = \<lparr>rg_Start = 100, rg_End = e, rg_File = file_b\<rparr>"
    using \<open>838860800 sdiv (8388608 :: int) = 100\<close>
    by (simp add: getPiecesRange_def b getPieceNum_def assms) (simp add: reader_b_def file_b_def)
qed

lemma sorts_two:
  assumes "sorts_ranges srt" "rg_Start x < rg_Start y"
  shows "srt [y, x] = [x, y]"
proof -
  have m: "mset (srt [y, x]) = {#y, x#}" and so: "sorted (map (\<lambda>r. (rg_Start r, rg_End r)) (srt [y, x]))"
    using assms(1) by (auto simp: sorts_ranges_def)
  then have "length (srt [y, x]) = 2" by (metis size_mset mset.simps length_Cons list.size(3) numeral_2_eq_2)
  then obtain u v where uv: "srt [y, x] = [u, v]" by (metis (no_types) length_0_conv length_Suc_conv numeral_2_eq_2)
  then have "{u, v} = {y, x}" using mset_eq_setD [of "[u, v]" "[y, x]"] m by simp
  then have "(u = x \<and> v = y) \<or> (u = y \<and> v = x)" by (auto simp: doubleton_eq_iff)
  then show ?thesis using so uv assms(2) by auto
qed

text \<open>Merging the ranges of readers of different files forgets all files but the first, so the clean-up does not protect the
  others: with two readers whose windows touch, a piece with data that holds the current position of the second reader is
  among the pieces to remove.\<close>

theorem second_file_unprotected:
  assumes "sorts_ranges srt" and "sorts_pieces srtp" and "pc_Id p = 105" and "0 < pc_Size p"
    and "cfg = \<lparr>bs_ReaderReadAHead = 50, bs_ConnectionsLimit = 25, bs_CacheSize = 0\<rparr>"
    and "getRemPieces null_reader srt srtp cfg 0 (put_piece 105 p two_files) = Some (rem, c')"
  shows "p \<in> set rem \<and> getReaderPiece (put_piece 105 p two_files) reader_b = 105"
proof -
  let ?c = "put_piece 105 p two_files"
  have f: "ca_heap ?c = [0 \<mapsto> reader_a, 1 \<mapsto> reader_b]" "ca_readers ?c = Some [1, 0]" "ca_activeReaders ?c = 2"
    "ca_capacity ?c = 1073741824" "ca_pieceLength ?c = 8388608" "\<not> ca_isClosed ?c"
    by (simp_all add: put_piece_def two_files_fields)
  have chk: "checkReaders null_reader 0 ?c = ?c"
    using f by (simp add: checkReaders_def checkReader_def readerOn_def reader_a_def reader_b_def)
  obtain s where s: "s < 100" "getPiecesRange cfg ?c reader_a = \<lparr>rg_Start = s, rg_End = 100, rg_File = file_a\<rparr>"
    using two_files_ranges(1) [of ?c cfg] f assms(5) by auto
  obtain e where e: "100 < e" "getPiecesRange cfg ?c reader_b = \<lparr>rg_Start = 100, rg_End = e, rg_File = file_b\<rparr>"
    using two_files_ranges(2) [of ?c cfg] f assms(5) by auto
  have "use_ranges cfg ?c = [getPiecesRange cfg ?c reader_b, getPiecesRange cfg ?c reader_a]"
    using f by (simp add: use_ranges_def reader_list_def List.map_filter_def) (simp add: reader_a_def reader_b_def)
  then have m: "mergeRange srt (use_ranges cfg ?c) = [\<lparr>rg_Start = s, rg_End = e, rg_File = file_a\<rparr>]"
    using sorts_two [OF assms(1), of "getPiecesRange cfg ?c reader_a" "getPiecesRange cfg ?c reader_b"] s e
    by (simp add: mergeRange_def)
  have inv: "cinv ?c" using torrent_cache.reachable_inv [OF two_files_reachable] assms(3)
    by (intro cinv_put_piece [of two_files 105 "NewPiece 105"]) (simp_all add: Cache_Piece_def two_files_fields NewPiece_def)
  have "p \<in> set rem"
    by (rule getRemPieces_mem [OF assms(6) inv assms(2), of 105]; (unfold chk m)?)
      (use f assms(4) in \<open>simp_all add: put_piece_def Cache_Piece_def two_files_fields isIdInFileBE_def file_a_def signed_divide_int_def\<close>)
  moreover have "getReaderPiece ?c reader_b = 105" using f by (simp add: getReaderPiece_def getPieceNum_def reader_b_def file_b_def signed_divide_int_def)
  ultimately show ?thesis by blast
qed


theorem second_file_unprotected_witness:
  "\<exists>rem c'. getRemPieces null_reader (sort_key (\<lambda>r. (rg_Start r, rg_End r))) (sort_key pc_Accessed)
       \<lparr>bs_ReaderReadAHead = 50, bs_ConnectionsLimit = 25, bs_CacheSize = 0\<rparr> 0 (put_piece 105 ((NewPiece 105)\<lparr>pc_Size := 9\<rparr>) two_files) = Some (rem, c')
     \<and> (NewPiece 105)\<lparr>pc_Size := 9\<rparr> \<in> set rem"
proof -
  let ?p = "(NewPiece 105)\<lparr>pc_Size := 9\<rparr>" and ?cfg = "\<lparr>bs_ReaderReadAHead = 50, bs_ConnectionsLimit = 25, bs_CacheSize = 0\<rparr>"
  let ?c = "put_piece 105 ?p two_files"
  have "cinv ?c" using torrent_cache.reachable_inv [OF two_files_reachable]
    by (intro cinv_put_piece [of two_files 105 "NewPiece 105"]) (simp_all add: Cache_Piece_def two_files_fields NewPiece_def)
  moreover have "offsets_ok ?c" by (simp add: offsets_ok_def put_piece_def two_files_fields reader_a_def reader_b_def file_a_def file_b_def)
  ultimately have "getRemPieces null_reader (sort_key (\<lambda>r. (rg_Start r, rg_End r))) (sort_key pc_Accessed) ?cfg 0 ?c \<noteq> None"
    by (rule getRemPieces_total)
  then obtain rem c' where g: "getRemPieces null_reader (sort_key (\<lambda>r. (rg_Start r, rg_End r))) (sort_key pc_Accessed) ?cfg 0 ?c = Some (rem, c')"
    by (auto simp del: split_paired_Ex)
  have "?p \<in> set rem" using second_file_unprotected [OF insort_sorts_ranges sort_sorts_pieces _ _ refl g] by (simp add: NewPiece_def)
  then show ?thesis using g by blast
qed






section \<open>The table of caches\<close>

inductive storage_step :: "'r Storage \<Rightarrow> 'r Storage \<Rightarrow> bool" where
  SO_open: "so_heap s cid = None \<Longrightarrow> storage_step s (OpenTorrent cid info hash s)"
| SO_cache_close: "Cache_Close cid s = Some s' \<Longrightarrow> storage_step s s'"
| SO_close_hash: "CloseHash hash s = Some s' \<Longrightarrow> storage_step s s'"
| SO_close: "Storage_Close order s = Some s' \<Longrightarrow> storage_step s s'"

definition storage_inv :: "'r Storage \<Rightarrow> bool" where
  "storage_inv s \<longleftrightarrow> (\<forall>hash cid. so_caches s hash = Some cid \<longrightarrow>
     (\<exists>c. so_heap s cid = Some c \<and> ca_hash c = hash \<and> \<not> ca_cleanStop c))"

lemma Cache_Close_inv:
  assumes "storage_inv s" "Cache_Close cid s = Some s'"
  shows "storage_inv s'"
proof -
  obtain c where c: "so_heap s cid = Some c"
    "s' = s\<lparr>so_heap := (so_heap s)(cid \<mapsto> c\<lparr>ca_isClosed := True, ca_cleanStop := True, ca_readers := None, ca_pieces := None\<rparr>),
          so_caches := (so_caches s)(ca_hash c := None)\<rparr>" using assms(2) by (auto simp: Cache_Close_def split: option.splits if_splits)
  show ?thesis unfolding storage_inv_def
  proof (intro allI impI)
    fix hash k assume k: "so_caches s' hash = Some k"
    then have k': "so_caches s hash = Some k" "hash \<noteq> ca_hash c" using c(2) by (auto split: if_splits)
    then obtain c0 where c0: "so_heap s k = Some c0" "ca_hash c0 = hash" "\<not> ca_cleanStop c0" using assms(1) by (auto simp: storage_inv_def)
    then have "k \<noteq> cid" using c(1) k'(2) by auto
    then show "\<exists>c. so_heap s' k = Some c \<and> ca_hash c = hash \<and> \<not> ca_cleanStop c" using c0 c(2) by simp
  qed
qed

lemma CloseHash_inv: "storage_inv s \<Longrightarrow> CloseHash hash s = Some s' \<Longrightarrow> storage_inv s'"
  using Cache_Close_inv by (fastforce simp: CloseHash_def storage_inv_def split: option.splits if_splits)

lemma Storage_Close_inv: "storage_inv s \<Longrightarrow> Storage_Close order s = Some s' \<Longrightarrow> storage_inv s'"
proof (induction order s rule: Storage_Close.induct)
  case (2 h order s)
  show ?case
  proof (cases "so_caches s h")
    case None
    then show ?thesis using 2 by simp
  next
    case (Some cid)
    then obtain s1 where s1: "Cache_Close cid s = Some s1" "Storage_Close order s1 = Some s'" using 2(4) by (auto simp: bind_eq_Some_conv)
    show ?thesis using 2(2) [OF Some] Cache_Close_inv [OF 2(3) s1(1)] s1 by blast
  qed
qed simp

lemma OpenTorrent_inv: "storage_inv s \<Longrightarrow> so_heap s cid = None \<Longrightarrow> storage_inv (OpenTorrent cid info hash s)"
  by (auto simp: storage_inv_def OpenTorrent_def Cache_Init_def NewCache_def Let_def split: prod.splits) (metis option.distinct(1))

interpretation storage_table: step_invariant "\<lambda>s. \<exists>capacity. s = NewStorage capacity" storage_step storage_inv
proof
  show "storage_inv s" if "\<exists>capacity. s = NewStorage capacity" for s :: "'a Storage"
    using that by (auto simp: storage_inv_def NewStorage_def)
  show "storage_inv t" if "storage_inv s" "storage_step s t" for s t :: "'a Storage"
    using that(2,1) by cases (auto intro: OpenTorrent_inv Cache_Close_inv CloseHash_inv Storage_Close_inv)
qed

lemma Cache_Close_registered:
  assumes "storage_inv s" "so_caches s hash = Some cid"
  shows "\<exists>s' c. Cache_Close cid s = Some s' \<and> so_caches s' hash = None \<and> so_heap s' cid = Some c \<and> ca_isClosed c"
  using assms by (fastforce simp: storage_inv_def Cache_Close_def)

text \<open>the table of caches never holds a closed cache, so closing a torrent by its hash, or all torrents at once in any order,
  never closes a stop channel twice (which would panic), and afterwards the hash is no longer found.\<close>

theorem storage_close_safe:
  assumes "reachable (\<lambda>s. \<exists>capacity. s = NewStorage capacity) storage_step s"
  shows "(\<exists>s'. CloseHash hash s = Some s' \<and> GetCache hash s' = None) \<and> (\<exists>s'. Storage_Close order s = Some s')"
proof -
  have inv: "storage_inv s" by (rule storage_table.reachable_inv [OF assms])
  have "\<exists>s'. CloseHash hash s = Some s' \<and> GetCache hash s' = None"
    using Cache_Close_registered [OF inv, of hash] by (cases "so_caches s hash") (auto simp: CloseHash_def GetCache_def)
  moreover have "\<exists>s'. Storage_Close order s = Some s'"
    using inv
  proof (induction order arbitrary: s)
    case (Cons h order)
    show ?case
    proof (cases "so_caches s h")
      case (Some cid)
      then obtain s1 where s1: "Cache_Close cid s = Some s1" using Cache_Close_registered [OF Cons(2)] by blast
      then show ?thesis using Cons(1) [OF Cache_Close_inv [OF Cons(2) s1]] Some by simp
    qed (use Cons in simp)
  qed simp
  ultimately show ?thesis by blast
qed

theorem storage_close_safe_witness:
  "\<exists>s'. CloseHash ''h'' (OpenTorrent 0 (16, 4) ''h'' (NewStorage 64 :: unit Storage)) = Some s' \<and> GetCache ''h'' s' = None"
proof -
  have "reachable (\<lambda>s. \<exists>capacity. s = NewStorage capacity) storage_step (OpenTorrent 0 (16, 4) ''h'' (NewStorage 64 :: unit Storage))"
    by (rule reach_step, rule reach_init, blast, rule SO_open) (simp add: NewStorage_def)
  from storage_close_safe [OF this, of "''h''"] show ?thesis by blast
qed

end
