(* ===== verification/TorrsHash.thy ===== *)
theory TorrsHash
  imports Prelude
begin

text \<open>
  Torrent tokens (\<^verbatim>\<open>internal/gostorm/torrshash\<close>): a hash and tagged fields, written as bytes, compressed, and printed
  in base 62. Byte slices and strings are lists of 8-bit characters. The zlib codec is a pair of functions, of which the
  properties use that decompression inverts compression and that a compressed stream starts with the zlib header byte.
  A compressed reader may report the end of the stream together with the last byte or only at the next read; the model
  leaves this open (\<open>early\<close>).
\<close>

type_synonym bytes = "char list"

section \<open>Base 62\<close>

definition base62Alphabet :: string where
  "base62Alphabet = ''0123456789ABCDEFGHIJKLMNOPQRSTUVWXYZabcdefghijklmnopqrstuvwxyz''"

text \<open>\<^verbatim>\<open>big.Int.SetBytes\<close> and \<^verbatim>\<open>big.Int.Bytes\<close>: big-endian, without leading zeros.\<close>

definition set_bytes :: "bytes \<Rightarrow> nat" where
  "set_bytes b = foldl (\<lambda>a c. a * 256 + of_char c) 0 b"

fun to_bytes :: "nat \<Rightarrow> bytes" where
  "to_bytes n = (if n = 0 then [] else to_bytes (n div 256) @ [char_of (n mod 256)])"

declare to_bytes.simps [simp del]

text \<open>The digits, least significant first as the loop appends them, then reversed.\<close>

fun enc_loop :: "nat \<Rightarrow> string" where
  "enc_loop x = (if x > 0 then base62Alphabet ! (x mod 62) # enc_loop (x div 62) else [])"

declare enc_loop.simps [simp del]

definition Encode62 :: "bytes \<Rightarrow> string" where
  "Encode62 b = rev (enc_loop (set_bytes b))"

definition index_byte :: "string \<Rightarrow> char \<Rightarrow> int" where
  "index_byte s c = (let i = length (takeWhile (\<lambda>x. x \<noteq> c) s) in if i < length s then int i else - 1)"

text \<open>The loop visits the code points of the string and keeps their low byte; on an ASCII string these are its bytes. An
  unknown digit counts as -1, and the bytes are those of the absolute value.\<close>

definition Decode62 :: "string \<Rightarrow> bytes" where
  "Decode62 s = to_bytes (nat \<bar>foldl (\<lambda>a c. a * 62 + index_byte base62Alphabet c) 0 s\<bar>)"

section \<open>Strings\<close>

text \<open>\<^verbatim>\<open>strings.TrimSpace\<close>: white space is a set of UTF-8 sequences.\<close>

definition space_seqs :: "nat list list" where
  "space_seqs = [[9], [10], [11], [12], [13], [32], [194, 133], [194, 160], [225, 154, 128], [226, 128, 168], [226, 128, 169],
     [226, 128, 175], [226, 129, 159], [227, 128, 128]] @ map (\<lambda>i. [226, 128, 128 + i]) [0..<11]"

definition spaces :: "bytes list" where
  "spaces = map (map char_of) space_seqs"

definition starts_with :: "bytes \<Rightarrow> bytes \<Rightarrow> bool" where
  "starts_with w s \<longleftrightarrow> take (length w) s = w"

function trim_left :: "bytes list \<Rightarrow> bytes \<Rightarrow> bytes" where
  "trim_left ws s = (case filter (\<lambda>w. w \<noteq> [] \<and> starts_with w s) ws of [] \<Rightarrow> s | w # _ \<Rightarrow> trim_left ws (drop (length w) s))"
  by pat_completeness auto
termination
proof (relation "measure (\<lambda>(ws, s). length s)")
  fix ws s w and rest :: "bytes list"
  assume "filter (\<lambda>w. w \<noteq> [] \<and> starts_with w s) ws = w # rest"
  then have "w \<in> set (filter (\<lambda>w. w \<noteq> [] \<and> starts_with w s) ws)" by simp
  then have "w \<noteq> []" "take (length w) s = w" by (auto simp: starts_with_def)
  then have "s \<noteq> []" by auto
  with \<open>w \<noteq> []\<close> show "((ws, drop (length w) s), (ws, s)) \<in> measure (\<lambda>(ws, s). length s)" by simp
qed simp

declare trim_left.simps [simp del]

definition TrimSpace :: "bytes \<Rightarrow> bytes" where
  "TrimSpace s = rev (trim_left (map rev spaces) (rev (trim_left spaces s)))"

definition IsBase62 :: "string \<Rightarrow> bool" where
  "IsBase62 s \<longleftrightarrow> TrimSpace s \<noteq> [] \<and> list_all (\<lambda>c. c \<in> set base62Alphabet) (TrimSpace s)"

definition hex_val :: "char \<Rightarrow> nat option" where
  "hex_val c =
     (let n = of_char c
      in if 48 \<le> n \<and> n \<le> 57 then Some (n - 48) else if 97 \<le> n \<and> n \<le> 102 then Some (n - 87)
         else if 65 \<le> n \<and> n \<le> 70 then Some (n - 55) else None)"

text \<open>\<^verbatim>\<open>hex.DecodeString\<close> with its error ignored: the bytes before the first invalid pair.\<close>

fun hex_decode :: "string \<Rightarrow> bytes" where
  "hex_decode (a # b # s) =
     (case (hex_val a, hex_val b) of (Some x, Some y) \<Rightarrow> char_of (x * 16 + y) # hex_decode s | _ \<Rightarrow> [])"
| "hex_decode _ = []"

definition hex_digit :: "nat \<Rightarrow> char" where
  "hex_digit n = (if n < 10 then char_of (48 + n) else char_of (87 + n))"

definition hex_encode :: "bytes \<Rightarrow> string" where
  "hex_encode b = concat (map (\<lambda>c. [hex_digit (of_char c div 16), hex_digit (of_char c mod 16)]) b)"

section \<open>Fields\<close>

record Field =
  f_Tag :: int
  f_Value :: bytes

abbreviation "TagTitle \<equiv> (0 :: int)"
abbreviation "TagPoster \<equiv> (1 :: int)"
abbreviation "TagTracker \<equiv> (2 :: int)"
abbreviation "TagCategory \<equiv> (3 :: int)"
abbreviation "TagSize \<equiv> (4 :: int)"

definition tag_String :: "int \<Rightarrow> string" where
  "tag_String tag = (if tag = TagTitle then ''Title'' else if tag = TagPoster then ''Poster'' else if tag = TagTracker then ''Tracker''
     else if tag = TagCategory then ''Category'' else if tag = TagSize then ''Size'' else ''Unknown'')"

definition isBinary :: "int \<Rightarrow> bool" where
  "isBinary t \<longleftrightarrow> t = TagSize"

definition le_bytes :: "nat \<Rightarrow> nat \<Rightarrow> bytes" where
  "le_bytes k n = map (\<lambda>i. char_of (n div 256 ^ i mod 256)) [0..<k]"

fun le_val :: "bytes \<Rightarrow> nat" where
  "le_val [] = 0"
| "le_val (c # cs) = of_char c + 256 * le_val cs"

text \<open>A 64-bit value as a signed number.\<close>

definition signed64 :: "nat \<Rightarrow> int" where
  "signed64 n = (if n < 2 ^ 63 then int n else int n - 2 ^ 64)"

datatype terr = ParseErr | UnexpectedEOF | EndOfFile | ZlibErr

text \<open>\<^verbatim>\<open>Field.write\<close>: the bytes written, or the error.\<close>

definition field_write :: "Field \<Rightarrow> terr + bytes" where
  "field_write f =
     (let value = TrimSpace (f_Value f); tagb = char_of (nat (f_Tag f mod 256))
      in if value = [] then Inr []
         else if isBinary (f_Tag f) \<and> value = ''0'' then Inr []
         else if isBinary (f_Tag f)
         then (case parse_int64 value of None \<Rightarrow> Inl ParseErr
               | Some ii \<Rightarrow> if ii = 0 then Inr [tagb] else Inr (tagb # le_bytes 8 (nat (ii mod 2 ^ 64))))
         else Inr (tagb # le_bytes 2 (length value mod 65536) @ value))"

text \<open>\<^verbatim>\<open>ReadField\<close> on the bytes that are left: no field at the end, an error, or a field and the rest.\<close>

definition ReadField :: "bool \<Rightarrow> bytes \<Rightarrow> terr + (Field \<times> bytes) option" where
  "ReadField early s =
     (case s of [] \<Rightarrow> Inr None
      | tagb # s1 \<Rightarrow>
          if early \<and> s1 = [] then Inr None
          else (let tag = int (of_char tagb)
                in if isBinary tag
                   then (if length s1 \<ge> 8
                         then Inr (Some (\<lparr>f_Tag = tag, f_Value = show_int (signed64 (le_val (take 8 s1)))\<rparr>, drop 8 s1))
                         else Inl (if s1 = [] then EndOfFile else UnexpectedEOF))
                   else if length s1 < 2 then Inl (if s1 = [] then EndOfFile else UnexpectedEOF)
                   else (let len = le_val (take 2 s1); s2 = drop 2 s1
                         in if length s2 \<ge> len then Inr (Some (\<lparr>f_Tag = tag, f_Value = take len s2\<rparr>, drop len s2))
                            else Inl (if s2 = [] then EndOfFile else UnexpectedEOF))))"

section \<open>Tokens\<close>

record TorrsHash =
  th_Hash :: string
  th_Fields :: "Field list"

definition th_New :: "string \<Rightarrow> TorrsHash" where
  "th_New hash = \<lparr>th_Hash = hash, th_Fields = []\<rparr>"

definition AddField :: "int \<Rightarrow> bytes \<Rightarrow> TorrsHash \<Rightarrow> TorrsHash" where
  "AddField tag value th = th\<lparr>th_Fields := th_Fields th @ [\<lparr>f_Tag = tag, f_Value = value\<rparr>]\<rparr>"

definition first_value :: "int \<Rightarrow> TorrsHash \<Rightarrow> bytes" where
  "first_value tag th = (case filter (\<lambda>f. f_Tag f = tag) (th_Fields th) of [] \<Rightarrow> [] | f # _ \<Rightarrow> f_Value f)"

definition th_Title :: "TorrsHash \<Rightarrow> bytes" where
  "th_Title th = first_value TagTitle th"

definition th_Poster :: "TorrsHash \<Rightarrow> bytes" where
  "th_Poster th = first_value TagPoster th"

definition th_Category :: "TorrsHash \<Rightarrow> bytes" where
  "th_Category th = first_value TagCategory th"

definition th_Trackers :: "TorrsHash \<Rightarrow> bytes list" where
  "th_Trackers th = map f_Value (filter (\<lambda>f. f_Tag f = TagTracker) (th_Fields th))"

definition th_String :: "TorrsHash \<Rightarrow> string" where
  "th_String th = ''Hash: '' @ th_Hash th @ concat (map (\<lambda>f. '' '' @ tag_String (f_Tag f) @ '': '' @ f_Value f) (th_Fields th))"

fun write_fields :: "Field list \<Rightarrow> terr + bytes" where
  "write_fields [] = Inr []"
| "write_fields (f # fs) =
     (case field_write f of Inl e \<Rightarrow> Inl e | Inr b \<Rightarrow> (case write_fields fs of Inl e \<Rightarrow> Inl e | Inr bs \<Rightarrow> Inr (b @ bs)))"

definition pack :: "(bytes \<Rightarrow> bytes) \<Rightarrow> TorrsHash \<Rightarrow> terr + bytes" where
  "pack z t = (case write_fields (th_Fields t) of Inl e \<Rightarrow> Inl e | Inr bs \<Rightarrow> Inr (z (hex_decode (TrimSpace (th_Hash t)) @ bs)))"

definition Pack :: "(bytes \<Rightarrow> bytes) \<Rightarrow> TorrsHash \<Rightarrow> terr + string" where
  "Pack z t = (case pack z t of Inl e \<Rightarrow> Inl e | Inr data \<Rightarrow> Inr (Encode62 data))"

text \<open>The loop of \<^verbatim>\<open>unpack\<close>: the fields read so far are returned with an error, too.\<close>

function read_fields :: "bool \<Rightarrow> bytes \<Rightarrow> Field list \<times> terr option" where
  "read_fields early s =
     (case ReadField early s of Inl e \<Rightarrow> ([], Some e) | Inr None \<Rightarrow> ([], None)
      | Inr (Some (f, rest)) \<Rightarrow> (let (fs, e) = read_fields early rest in (f # fs, e)))"
  by pat_completeness auto
termination
  by (relation "measure (\<lambda>(early, s). length s)")
    (auto simp: ReadField_def Let_def split: list.splits if_splits)

declare read_fields.simps [simp del]

definition unpack :: "(bytes \<Rightarrow> bytes option) \<Rightarrow> bool \<Rightarrow> bytes \<Rightarrow> TorrsHash option \<times> terr option" where
  "unpack unz early data =
     (case unz data of None \<Rightarrow> (None, Some ZlibErr)
      | Some s \<Rightarrow>
          if length s < 20 then (None, Some (if s = [] then EndOfFile else UnexpectedEOF))
          else (let (fs, e) = read_fields early (drop 20 s)
                in (Some \<lparr>th_Hash = hex_encode (take 20 s), th_Fields = fs\<rparr>, e)))"

definition Unpack :: "(bytes \<Rightarrow> bytes option) \<Rightarrow> bool \<Rightarrow> string \<Rightarrow> TorrsHash option \<times> terr option" where
  "Unpack unz early token = unpack unz early (Decode62 (TrimSpace token))"


section \<open>Base 62 round trip\<close>

lemma of_char_less [simp]: "(of_char c :: nat) < 256"
proof -
  have "(of_char c :: nat) = of_char c mod 256" by (metis char_of_char of_char_of)
  then show ?thesis by (metis mod_less_divisor zero_less_numeral)
qed

lemma set_bytes_snoc: "set_bytes (b @ [c]) = set_bytes b * 256 + of_char c"
  by (simp add: set_bytes_def)

lemma set_bytes_pos: "b \<noteq> [] \<Longrightarrow> hd b \<noteq> char_of (0 :: nat) \<Longrightarrow> 0 < set_bytes b"
proof (induction b rule: rev_induct)
  case (snoc c b)
  show ?case
  proof (cases "b = []")
    case True
    have "(of_char c :: nat) \<noteq> 0" using snoc(3) True by (metis append_Nil char_of_char list.sel(1))
    then show ?thesis using True by (simp add: set_bytes_def)
  qed (use snoc in \<open>simp add: set_bytes_snoc\<close>)
qed simp

lemma to_set_bytes: "b = [] \<or> hd b \<noteq> char_of (0 :: nat) \<Longrightarrow> to_bytes (set_bytes b) = b"
proof (induction b rule: rev_induct)
  case Nil
  then show ?case by (simp add: set_bytes_def to_bytes.simps)
next
  case (snoc c b)
  have d: "(set_bytes b * 256 + of_char c) div 256 = set_bytes b" "(set_bytes b * 256 + of_char c) mod 256 = of_char c" by simp_all
  have "0 < set_bytes (b @ [c])" by (rule set_bytes_pos) (use snoc(2) in auto)
  then have "to_bytes (set_bytes (b @ [c])) = to_bytes (set_bytes b) @ [c]"
    by (subst to_bytes.simps) (simp add: set_bytes_snoc d)
  then show ?case using snoc by (cases "b = []") auto
qed

lemma alphabet_index: "d < 62 \<Longrightarrow> index_byte base62Alphabet (base62Alphabet ! d) = int d"
proof -
  have "list_all (\<lambda>d. index_byte base62Alphabet (base62Alphabet ! d) = int d) [0..<62]" by code_simp
  then show "d < 62 \<Longrightarrow> ?thesis" by (simp add: list_all_iff)
qed

lemma dec_enc_loop: "foldl (\<lambda>a c. a * 62 + index_byte base62Alphabet c) 0 (rev (enc_loop x)) = int x"
proof (induction x rule: enc_loop.induct)
  case (1 x)
  show ?case
  proof (cases "x > 0")
    case True
    then have "enc_loop x = base62Alphabet ! (x mod 62) # enc_loop (x div 62)" by (simp add: enc_loop.simps [of x])
    then have "foldl (\<lambda>a c. a * 62 + index_byte base62Alphabet c) 0 (rev (enc_loop x)) = int (x div 62) * 62 + int (x mod 62)"
      using 1 [OF True] alphabet_index [of "x mod 62"] by simp
    also have "\<dots> = int x" by (metis div_mult_mod_eq of_nat_add of_nat_mult of_nat_numeral)
    finally show ?thesis .
  qed (simp add: enc_loop.simps [of 0])
qed

lemma decode_encode: "b = [] \<or> hd b \<noteq> char_of (0 :: nat) \<Longrightarrow> Decode62 (Encode62 b) = b"
  by (simp add: Decode62_def Encode62_def dec_enc_loop to_set_bytes)

section \<open>Trimming\<close>

lemma trim_left_id: "\<forall>w \<in> set ws. w \<noteq> [] \<longrightarrow> \<not> starts_with w s \<Longrightarrow> trim_left ws s = s"
proof -
  assume "\<forall>w \<in> set ws. w \<noteq> [] \<longrightarrow> \<not> starts_with w s"
  then have "filter (\<lambda>w. w \<noteq> [] \<and> starts_with w s) ws = []" by (auto simp: filter_empty_conv)
  then show ?thesis by (simp add: trim_left.simps)
qed

definition printable :: "char \<Rightarrow> bool" where
  "printable c \<longleftrightarrow> 33 \<le> (of_char c :: nat) \<and> (of_char c :: nat) < 127"

lemma spaces_ends:
  "\<forall>w \<in> set spaces. w \<noteq> [] \<and> \<not> printable (hd w) \<and> \<not> printable (last w)"
  by code_simp

lemma starts_with_hd: "starts_with w s \<Longrightarrow> w \<noteq> [] \<Longrightarrow> s \<noteq> [] \<and> hd s = hd w"
  by (cases s; cases w) (auto simp: starts_with_def)

text \<open>A string that starts and ends with a printable ASCII character is not changed.\<close>

lemma TrimSpace_id:
  assumes "s = [] \<or> printable (hd s) \<and> printable (last s)"
  shows "TrimSpace s = s"
proof (cases "s = []")
  case True
  have "trim_left ws [] = []" for ws
    by (rule trim_left_id) (auto simp: starts_with_def)
  then show ?thesis using True by (simp add: TrimSpace_def)
next
  case False
  then have p: "printable (hd s)" "printable (hd (rev s))" using assms by (auto simp: hd_rev)
  have "\<not> starts_with w s" if "w \<in> set spaces" for w
    using that spaces_ends starts_with_hd [of w s] p(1) by auto
  moreover have "\<not> starts_with w (rev s)" if "w \<in> set (map rev spaces)" for w
    using that spaces_ends starts_with_hd [of w "rev s"] p(2) by (fastforce simp: hd_rev)
  ultimately show ?thesis by (simp add: TrimSpace_def trim_left_id)
qed

lemma alphabet_printable: "c \<in> set base62Alphabet \<Longrightarrow> printable c"
proof -
  have "list_all printable base62Alphabet" by code_simp
  then show "c \<in> set base62Alphabet \<Longrightarrow> ?thesis" by (simp add: list_all_iff)
qed

lemma enc_loop_alphabet: "set (enc_loop x) \<subseteq> set base62Alphabet"
proof (induction x rule: enc_loop.induct)
  case (1 x)
  have "length base62Alphabet = 62" by code_simp
  then have "base62Alphabet ! (x mod 62) \<in> set base62Alphabet" by (intro nth_mem) simp
  then show ?case using 1 by (subst enc_loop.simps) auto
qed

lemma TrimSpace_Encode62: "TrimSpace (Encode62 b) = Encode62 b"
proof (rule TrimSpace_id)
  have "set (Encode62 b) \<subseteq> set base62Alphabet" using enc_loop_alphabet by (simp add: Encode62_def)
  then show "Encode62 b = [] \<or> printable (hd (Encode62 b)) \<and> printable (last (Encode62 b))"
    using alphabet_printable by (cases "Encode62 b = []") (auto dest: hd_in_set last_in_set)
qed

section \<open>Hashes and fields\<close>

definition lower_hex :: "char \<Rightarrow> bool" where
  "lower_hex c \<longleftrightarrow> c \<in> set ''0123456789abcdef''"

lemma lower_hex_val: "lower_hex c \<Longrightarrow> \<exists>x. hex_val c = Some x \<and> x < 16 \<and> hex_digit x = c"
proof -
  have "list_all (\<lambda>c. case hex_val c of None \<Rightarrow> False | Some x \<Rightarrow> x < 16 \<and> hex_digit x = c) ''0123456789abcdef''" by code_simp
  then show "lower_hex c \<Longrightarrow> ?thesis" by (auto simp: lower_hex_def list_all_iff split: option.splits)
qed

lemma hex_round: "list_all lower_hex h \<Longrightarrow> even (length h) \<Longrightarrow> hex_encode (hex_decode h) = h \<and> length (hex_decode h) = length h div 2"
proof (induction h rule: hex_decode.induct)
  case (1 a b s)
  obtain x where x: "hex_val a = Some x" "x < 16" "hex_digit x = a" using lower_hex_val [of a] 1(2) by auto
  obtain y where y: "hex_val b = Some y" "y < 16" "hex_digit y = b" using lower_hex_val [of b] 1(2) by auto
  have "(of_char (char_of (x * 16 + y) :: char) :: nat) = x * 16 + y" using x y by (simp add: of_char_of)
  then show ?case using 1 x y by (simp add: hex_encode_def)
qed (auto simp: hex_encode_def)

lemma le_val_bytes: "le_val (map (\<lambda>i. char_of (n div 256 ^ i mod 256)) [j..<j + k]) = n div 256 ^ j mod 256 ^ k"
proof (induction k arbitrary: j)
  case (Suc k)
  have "[j..<j + Suc k] = j # [Suc j..<Suc j + k]" by (simp add: upt_rec)
  moreover have "n div 256 ^ j mod 256 ^ Suc k = n div 256 ^ j mod 256 + 256 * (n div 256 ^ j div 256 mod 256 ^ k)"
    by (simp add: mod_mult2_eq add.commute)
  moreover have "n div 256 ^ j div 256 = n div 256 ^ Suc j" by (simp only: power_Suc2 div_mult2_eq)
  ultimately show ?case using Suc [of "Suc j"] by (simp add: of_char_of)
qed simp

lemma le_round: "n < 256 ^ k \<Longrightarrow> le_val (le_bytes k n) = n"
  using le_val_bytes [of n 0 k] by (simp add: le_bytes_def)

lemma length_le_bytes [simp]: "length (le_bytes k n) = k"
  by (simp add: le_bytes_def)

lemma signed64_round: "- (2 ^ 63) \<le> i \<Longrightarrow> i < 2 ^ 63 \<Longrightarrow> signed64 (nat (i mod 2 ^ 64)) = i"
proof -
  assume "- (2 ^ 63) \<le> i" "i < 2 ^ 63"
  then have "i mod 2 ^ 64 = (if i < 0 then i + 2 ^ 64 else i)"
    using mod_pos_pos_trivial [of i "2 ^ 64"] mod_pos_pos_trivial [of "i + 2 ^ 64" "2 ^ 64"] by (auto simp del: mod_pos_pos_trivial)
  with \<open>- (2 ^ 63) \<le> i\<close> \<open>i < 2 ^ 63\<close> show ?thesis by (auto simp: signed64_def nat_less_iff)
qed

text \<open>The fields that are written at all, and what is required of them.\<close>

definition kept :: "Field \<Rightarrow> bool" where
  "kept f \<longleftrightarrow> TrimSpace (f_Value f) \<noteq> [] \<and> \<not> (isBinary (f_Tag f) \<and> TrimSpace (f_Value f) = ''0'')"

definition field_ok :: "Field \<Rightarrow> bool" where
  "field_ok f \<longleftrightarrow> 0 \<le> f_Tag f \<and> f_Tag f < 256 \<and>
     (kept f \<longrightarrow> (if isBinary (f_Tag f)
                then (case parse_int64 (TrimSpace (f_Value f)) of None \<Rightarrow> False | Some i \<Rightarrow> i \<noteq> 0 \<and> TrimSpace (f_Value f) = show_int i)
                else length (TrimSpace (f_Value f)) < 65536))"

definition trimmed :: "Field \<Rightarrow> Field" where
  "trimmed f = \<lparr>f_Tag = f_Tag f, f_Value = TrimSpace (f_Value f)\<rparr>"


lemma parse_int64_range: "parse_int64 s = Some i \<Longrightarrow> - (2 ^ 63) \<le> i \<and> i < 2 ^ 63"
  by (auto simp: parse_int64_def Let_def split: if_splits)

lemma field_write_skip: "\<not> kept f \<Longrightarrow> field_write f = Inr []"
  by (auto simp: kept_def field_write_def Let_def)

lemma tag_byte: "0 \<le> t \<Longrightarrow> t < 256 \<Longrightarrow> int (of_char (char_of (nat (t mod 256)) :: char)) = t"
  by (simp add: of_char_of nat_mod_distrib)

lemma ReadField_binary:
  assumes "isBinary (int (of_char c))" "length x = 8"
  shows "ReadField early (c # x @ rest) = Inr (Some (\<lparr>f_Tag = int (of_char c), f_Value = show_int (signed64 (le_val x))\<rparr>, rest))"
proof -
  have "x @ rest \<noteq> []" using assms(2) by auto
  then show ?thesis using assms by (simp add: ReadField_def Let_def)
qed

lemma ReadField_text:
  assumes "\<not> isBinary (int (of_char c))" "length x = 2" "le_val x = length v"
  shows "ReadField early (c # x @ v @ rest) = Inr (Some (\<lparr>f_Tag = int (of_char c), f_Value = v\<rparr>, rest))"
proof -
  have "x @ v @ rest \<noteq> []" using assms(2) by auto
  then show ?thesis using assms by (simp add: ReadField_def Let_def)
qed

lemma field_round:
  assumes ok: "field_ok f" and k: "kept f"
  shows "\<exists>b. field_write f = Inr b \<and> (\<forall>rest. ReadField early (b @ rest) = Inr (Some (trimmed f, rest)))"
proof -
  have tag: "int (of_char (char_of (nat (f_Tag f mod 256)) :: char)) = f_Tag f"
    by (rule tag_byte) (use ok in \<open>unfold field_ok_def, blast\<close>)+
  show ?thesis
proof (cases "isBinary (f_Tag f)")
  case True
  obtain i where i: "parse_int64 (TrimSpace (f_Value f)) = Some i" "i \<noteq> 0" "TrimSpace (f_Value f) = show_int i"
    using ok k True by (auto simp: field_ok_def split: option.splits)
  have "nat (i mod 2 ^ 64) < 256 ^ 8" using pos_mod_bound [of "2 ^ 64" i] by (simp add: nat_less_iff)
  then have v: "signed64 (le_val (le_bytes 8 (nat (i mod 2 ^ 64)))) = i"
    using signed64_round parse_int64_range [OF i(1)] by (simp add: le_round)
  let ?b = "char_of (nat (f_Tag f mod 256)) # le_bytes 8 (nat (i mod 2 ^ 64))"
  have "field_write f = Inr ?b" using k True i by (simp add: field_write_def kept_def Let_def)
  moreover have "ReadField early (?b @ rest) = Inr (Some (trimmed f, rest))" for rest
    using ReadField_binary [of "char_of (nat (f_Tag f mod 256))" "le_bytes 8 (nat (i mod 2 ^ 64))"] True tag ok
    unfolding tag v by (simp add: trimmed_def i(3))
  ultimately show ?thesis by blast
next
  case False
  let ?v = "TrimSpace (f_Value f)"
  have len: "length ?v < 65536" using ok k False by (simp add: field_ok_def)
  let ?b = "char_of (nat (f_Tag f mod 256)) # le_bytes 2 (length ?v mod 65536) @ ?v"
  have l: "le_val (le_bytes 2 (length ?v mod 65536)) = length ?v" using len le_round [of "length ?v" 2] by simp
  have "field_write f = Inr ?b" using k False by (simp add: field_write_def kept_def Let_def)
  moreover have "ReadField early (?b @ rest) = Inr (Some (trimmed f, rest))" for rest
    using ReadField_text [of "char_of (nat (f_Tag f mod 256))" "le_bytes 2 (length ?v mod 65536)" ?v] False l
    unfolding tag by (simp add: trimmed_def)
  ultimately show ?thesis by blast
qed
qed

lemma fields_round:
  "list_all field_ok fs \<Longrightarrow> \<exists>b. write_fields fs = Inr b \<and> read_fields early b = (map trimmed (filter kept fs), None)"
proof (induction fs)
  case Nil
  then show ?case by (simp add: read_fields.simps ReadField_def)
next
  case (Cons f fs)
  then obtain b where b: "write_fields fs = Inr b" "read_fields early b = (map trimmed (filter kept fs), None)" by auto
  show ?case
  proof (cases "kept f")
    case True
    then obtain b0 where b0: "field_write f = Inr b0" "ReadField early (b0 @ b) = Inr (Some (trimmed f, b))"
      using field_round [of f early] Cons(2) by auto
    have "read_fields early (b0 @ b) = (trimmed f # map trimmed (filter kept fs), None)"
      using b0(2) b(2) by (subst read_fields.simps) simp
    then show ?thesis using True b0(1) b(1) by simp
  qed (use b field_write_skip in simp)
qed

section \<open>Properties\<close>

text \<open>C23: packing a token and unpacking it gives the hash and the fields back, trimmed, without the empty ones and the zero
  sizes, in order; for a hash of forty lower-case hexadecimal digits, tags that fit a byte, texts shorter than 64 KiB, and
  sizes in canonical decimal form that fit 64 bits. The compression is any codec with a non-zero first byte.\<close>

theorem token_roundtrip:
  assumes "\<And>x. unz (z x) = Some x" and "\<And>x. z x \<noteq> [] \<and> hd (z x) \<noteq> char_of (0 :: nat)"
    and "length (TrimSpace (th_Hash t)) = 40" and "list_all lower_hex (TrimSpace (th_Hash t))"
    and "list_all field_ok (th_Fields t)"
  shows "\<exists>token. Pack z t = Inr token \<and>
     Unpack unz early token = (Some \<lparr>th_Hash = TrimSpace (th_Hash t), th_Fields = map trimmed (filter kept (th_Fields t))\<rparr>, None)"
proof -
  let ?h = "hex_decode (TrimSpace (th_Hash t))"
  have h: "hex_encode ?h = TrimSpace (th_Hash t)" "length ?h = 20" using hex_round [OF assms(4)] assms(3) by auto
  obtain b where b: "write_fields (th_Fields t) = Inr b" "read_fields early b = (map trimmed (filter kept (th_Fields t)), None)"
    using fields_round [OF assms(5)] by blast
  have "Pack z t = Inr (Encode62 (z (?h @ b)))" by (simp add: Pack_def pack_def b)
  moreover have "Decode62 (TrimSpace (Encode62 (z (?h @ b)))) = z (?h @ b)"
    using decode_encode [of "z (?h @ b)"] assms(2) by (simp add: TrimSpace_Encode62)
  ultimately show ?thesis using h b by (simp add: Unpack_def unpack_def assms(1))
qed

text \<open>A codec that stores the data after the zlib header byte.\<close>

definition store_z :: "bytes \<Rightarrow> bytes" where
  "store_z x = char_of (120 :: nat) # x"

definition store_unz :: "bytes \<Rightarrow> bytes option" where
  "store_unz d = (case d of [] \<Rightarrow> None | _ # x \<Rightarrow> Some x)"

definition sample_token :: TorrsHash where
  "sample_token = AddField TagSize ''1048576'' (AddField TagTitle ''A B'' (th_New ''0123456789abcdef0123456789abcdef01234567''))"

theorem token_roundtrip_witness:
  "\<exists>token. Pack store_z sample_token = Inr token \<and>
     Unpack store_unz True token = (Some \<lparr>th_Hash = ''0123456789abcdef0123456789abcdef01234567'',
       th_Fields = [\<lparr>f_Tag = 0, f_Value = ''A B''\<rparr>, \<lparr>f_Tag = 4, f_Value = ''1048576''\<rparr>]\<rparr>, None)"
proof -
  let ?h = "''0123456789abcdef0123456789abcdef01234567''"
  have t: "TrimSpace ?h = ?h" "TrimSpace ''A B'' = ''A B''" "TrimSpace ''1048576'' = ''1048576''"
    by (rule TrimSpace_id, code_simp)+
  have n: "show_int 1048576 = ''1048576''" by (simp add: show_int_def go_simps)
  have n': "parse_int64 ''1048576'' = Some 1048576" using parse_int64_show [of 1048576] by (simp add: n)
  have h: "list_all lower_hex ?h" "length ?h = 40" by code_simp+
  have "th_Hash sample_token = ?h" "th_Fields sample_token = [\<lparr>f_Tag = 0, f_Value = ''A B''\<rparr>, \<lparr>f_Tag = 4, f_Value = ''1048576''\<rparr>]"
    by (simp_all add: sample_token_def AddField_def th_New_def)
  moreover have "list_all field_ok [\<lparr>f_Tag = 0, f_Value = ''A B''\<rparr>, \<lparr>f_Tag = 4, f_Value = ''1048576''\<rparr>]"
    by (simp add: field_ok_def kept_def isBinary_def t n n')
  ultimately show ?thesis
    using token_roundtrip [of store_unz store_z sample_token True] h
    by (simp add: store_z_def store_unz_def char_of_eq_iff t kept_def trimmed_def isBinary_def)
qed

end
