(* ===== verification/GoTime.thy ===== *)
theory GoTime
  imports Prelude "HOL-Library.Monad_Syntax"
begin

text \<open>
  Times of the Go library as the stored state uses them: a time is the number of nanoseconds since the zero time, the start
  of the year 1 in UTC. \<^verbatim>\<open>Format\<close> and \<^verbatim>\<open>Parse\<close> with the layout RFC 3339 are written out for the years from 0 on, and parsing
  a formatted time gives its second.
\<close>

section \<open>The calendar\<close>

type_synonym time = int

definition second :: int where
  "second = 1000000000"

text \<open>\<^verbatim>\<open>Sub\<close>: the difference as a duration, saturating at its bounds.\<close>

definition Sub :: "time \<Rightarrow> time \<Rightarrow> int" where
  "Sub t u = max (- (2 ^ 63)) (min (2 ^ 63 - 1) (t - u))"

definition leap :: "nat \<Rightarrow> bool" where
  "leap y \<longleftrightarrow> 4 dvd y \<and> (\<not> 100 dvd y \<or> 400 dvd y)"

definition year_len :: "nat \<Rightarrow> nat" where
  "year_len y = (if leap y then 366 else 365)"

definition daysIn :: "nat \<Rightarrow> nat \<Rightarrow> nat" where
  "daysIn y m = (if m = 2 then (if leap y then 29 else 28) else if m \<in> {4, 6, 9, 11} then 30 else 31)"

function find_year :: "nat \<Rightarrow> nat \<Rightarrow> nat \<times> nat" where
  "find_year y d = (if d < year_len y then (y, d) else find_year (Suc y) (d - year_len y))"
  by auto
termination by (relation "measure snd") (auto simp: year_len_def split: if_splits)

function find_month :: "nat \<Rightarrow> nat \<Rightarrow> nat \<Rightarrow> nat \<times> nat" where
  "find_month y m d = (if d < daysIn y m then (m, d) else find_month y (Suc m) (d - daysIn y m))"
  by auto
termination by (relation "measure (\<lambda>(y, m, d). d)") (auto simp: daysIn_def split: if_splits)

declare find_year.simps [simp del] find_month.simps [simp del]

text \<open>Days are counted from the start of the year 1, which is 366 days after that of the year 0.\<close>

definition days_of :: "nat \<Rightarrow> nat \<Rightarrow> nat \<Rightarrow> int" where
  "days_of y m d = int (sum_list (map year_len [0..<y]) + sum_list (map (daysIn y) [1..<m])) + int d - 1 - 366"

lemma find_year_sum:
  assumes "find_year y d = (y', r)"
  shows "sum_list (map year_len [0..<y']) + r = sum_list (map year_len [0..<y]) + d \<and> r < year_len y'"
  using assms
proof (induction y d rule: find_year.induct)
  case (1 y d)
  show ?case
  proof (cases "d < year_len y")
    case True
    then show ?thesis using 1(2) find_year.simps [of y d] by simp
  next
    case False
    then show ?thesis using 1(1) [OF False] 1(2) find_year.simps [of y d] by simp
  qed
qed

lemma year_months: "sum_list (map (daysIn y) [1..<13]) = year_len y"
proof -
  have "[1..<13] = [1, 2, 3, 4, 5, 6, 7, 8, 9, 10, 11, 12 :: nat]" by (simp add: upt_rec)
  then show ?thesis by (simp add: daysIn_def year_len_def)
qed

lemma find_month_sum:
  assumes "find_month y m d = (m', r)" "1 \<le> m" "sum_list (map (daysIn y) [1..<m]) + d < year_len y" "m \<le> 12"
  shows "sum_list (map (daysIn y) [1..<m']) + r = sum_list (map (daysIn y) [1..<m]) + d \<and> r < daysIn y m' \<and> 1 \<le> m' \<and> m' \<le> 12"
  using assms
proof (induction y m d rule: find_month.induct)
  case (1 y m d)
  show ?case
  proof (cases "d < daysIn y m")
    case True
    then show ?thesis using 1(2,3,5) find_month.simps [of y m d] by simp
  next
    case False
    have s: "sum_list (map (daysIn y) [1..<Suc m]) = sum_list (map (daysIn y) [1..<m]) + daysIn y m" using 1(3) by simp
    have "m \<noteq> 12"
    proof
      assume "m = 12"
      then have "sum_list (map (daysIn y) [1..<m]) + daysIn y m = year_len y" using year_months [of y] s by (simp add: eval_nat_numeral)
      then show False using 1(4) False by simp
    qed
    then show ?thesis using 1(1) [OF False] 1(2-5) s False find_month.simps [of y m d] by simp
  qed
qed

section \<open>Format\<close>

definition pad2 :: "nat \<Rightarrow> string" where
  "pad2 n = [digit (n div 10 mod 10), digit (n mod 10)]"

definition pad4 :: "nat \<Rightarrow> string" where
  "pad4 n = (if n < 10000 then [digit (n div 1000 mod 10), digit (n div 100 mod 10), digit (n div 10 mod 10), digit (n mod 10)] else show_nat n)"

text \<open>The date and the time of day of a time.\<close>

definition civil :: "time \<Rightarrow> nat \<times> nat \<times> nat \<times> nat \<times> nat \<times> nat" where
  "civil t =
     (let s = t div second; (y, r) = find_year 0 (nat (s div 86400 + 366)); (m, d) = find_month y 1 r; o' = nat (s mod 86400)
      in (y, m, d + 1, o' div 3600, o' div 60 mod 60, o' mod 60))"

definition Format :: "time \<Rightarrow> string" where
  "Format t = (let (y, m, d, h, mi, s) = civil t
     in pad4 y @ ''-'' @ pad2 m @ ''-'' @ pad2 d @ ''T'' @ pad2 h @ '':'' @ pad2 mi @ '':'' @ pad2 s @ ''Z'')"

section \<open>Parse\<close>

text \<open>\<^verbatim>\<open>getnum\<close>: two digits, or one when that is allowed.\<close>

definition getnum :: "bool \<Rightarrow> string \<Rightarrow> (nat \<times> string) option" where
  "getnum fixed s =
     (case s of a # b # r \<Rightarrow>
        if \<not> is_digit a then None
        else if is_digit b then Some (digit_val a * 10 + digit_val b, r)
        else if fixed then None else Some (digit_val a, b # r)
      | [a] \<Rightarrow> if is_digit a \<and> \<not> fixed then Some (digit_val a, []) else None
      | [] \<Rightarrow> None)"

definition getyear :: "string \<Rightarrow> (nat \<times> string) option" where
  "getyear s = (if 4 \<le> length s \<and> list_all is_digit (take 4 s) then Some (digits_val 0 (take 4 s), drop 4 s) else None)"

definition skip :: "char \<Rightarrow> string \<Rightarrow> string option" where
  "skip c s = (case s of [] \<Rightarrow> None | a # r \<Rightarrow> if a = c then Some r else None)"

text \<open>A fraction of a second: at most nine digits of it count.\<close>

definition getfrac :: "string \<Rightarrow> int \<times> string" where
  "getfrac s =
     (case s of a # b # r \<Rightarrow>
        if (a = CHR ''.'' \<or> a = CHR '','') \<and> is_digit b
        then (let ds = takeWhile is_digit (b # r); k = take 9 ds
              in (int (digits_val 0 k * 10 ^ (9 - length k)), dropWhile is_digit (b # r)))
        else (0, s)
      | _ \<Rightarrow> (0, s))"

text \<open>The zone: its offset in seconds.\<close>

definition getzone :: "string \<Rightarrow> (int \<times> string) option" where
  "getzone s =
     (if s \<noteq> [] \<and> hd s = CHR ''Z'' then Some (0, tl s)
      else if length s < 6 \<or> s ! 3 \<noteq> CHR '':'' then None
      else (case (getnum True (take 2 (drop 1 s)), getnum True (take 2 (drop 4 s))) of
              (Some (hr, _), Some (mm, _)) \<Rightarrow>
                if hr > 24 \<or> mm > 60 then None
                else if hd s = CHR ''+'' then Some (int ((hr * 60 + mm) * 60), drop 6 s)
                else if hd s = CHR ''-'' then Some (- int ((hr * 60 + mm) * 60), drop 6 s)
                else None
            | _ \<Rightarrow> None))"

definition Parse :: "string \<Rightarrow> time option" where
  "Parse s0 = do {
     (y, s) \<leftarrow> getyear s0; s \<leftarrow> skip CHR ''-'' s;
     (m, s) \<leftarrow> getnum True s; s \<leftarrow> (if 1 \<le> m \<and> m \<le> 12 then skip CHR ''-'' s else None);
     (d, s) \<leftarrow> getnum True s; s \<leftarrow> skip CHR ''T'' s;
     (h, s) \<leftarrow> getnum False s; s \<leftarrow> (if h < 24 then skip CHR '':'' s else None);
     (mi, s) \<leftarrow> getnum True s; s \<leftarrow> (if mi < 60 then skip CHR '':'' s else None);
     (sec, s) \<leftarrow> getnum True s; (ns, s) \<leftarrow> (if sec < 60 then Some (getfrac s) else None);
     (off, s) \<leftarrow> getzone s;
     (if s = [] \<and> 1 \<le> d \<and> d \<le> daysIn y m
      then Some ((days_of y m d * 86400 + int (h * 3600 + mi * 60 + sec) - off) * second + ns) else None)
   }"

text \<open>\<^verbatim>\<open>ts, _ := time.Parse(...)\<close>: the zero time for a text that does not parse.\<close>

definition Parse_or_zero :: "string \<Rightarrow> time" where
  "Parse_or_zero s = (case Parse s of None \<Rightarrow> 0 | Some t \<Rightarrow> t)"

section \<open>Parsing a formatted time\<close>

lemma getnum_pad2: "n < 100 \<Longrightarrow> getnum b (pad2 n @ r) = Some (n, r)"
  by (simp add: getnum_def pad2_def)

lemma getyear_pad4: "n < 10000 \<Longrightarrow> getyear (pad4 n @ r) = Some (n, r)"
proof -
  assume n: "n < 10000"
  have q: "n div 100 = n div 10 div 10" "n div 1000 = n div 100 div 10" by (simp_all add: div_mult2_eq [symmetric])
  have "n div 1000 mod 10 = n div 1000" using n by simp
  then have "n div 1000 mod 10 * 1000 + n div 100 mod 10 * 100 + n div 10 mod 10 * 10 + n mod 10 = n"
    using div_mult_mod_eq [of n 10] div_mult_mod_eq [of "n div 10" 10] div_mult_mod_eq [of "n div 100" 10] unfolding q by linarith
  then show ?thesis using n by (simp add: getyear_def pad4_def algebra_simps)
qed

lemma civil_ranges:
  assumes "civil t = (y, m, d, h, mi, s)" "- 366 \<le> t div second div 86400"
  shows "1 \<le> m" "m \<le> 12" "1 \<le> d" "d \<le> daysIn y m" "h < 24" "mi < 60" "s < 60"
    "days_of y m d * 86400 + int (h * 3600 + mi * 60 + s) = t div second"
proof -
  obtain y' r where Y: "find_year 0 (nat (t div second div 86400 + 366)) = (y', r)" by (rule prod.exhaust)
  obtain m' d' where M: "find_month y' 1 r = (m', d')" by (rule prod.exhaust)
  define n where "n = nat (t div second mod 86400)"
  have "civil t = (y', m', d' + 1, n div 3600, n div 60 mod 60, n mod 60)"
    by (simp only: civil_def Let_def Y M prod.case n_def)
  then have e: "y' = y" "m' = m" "d' + 1 = d" and o': "n div 3600 = h" "n div 60 mod 60 = mi" "n mod 60 = s" using assms(1) by simp_all
  have y: "find_year 0 (nat (t div second div 86400 + 366)) = (y, r)" and m: "find_month y 1 r = (m, d - 1)" "1 \<le> d"
    using Y M e by auto
  note fy = find_year_sum [OF y]
  have fm: "sum_list (map (daysIn y) [1..<m]) + (d - 1) = r \<and> d - 1 < daysIn y m \<and> 1 \<le> m \<and> m \<le> 12"
    using find_month_sum [OF m(1)] fy by simp
  show "1 \<le> m" "m \<le> 12" "1 \<le> d" "d \<le> daysIn y m" using fm m(2) by auto
  have "n < 24 * 3600" by (simp add: n_def)
  then show "h < 24" unfolding o'(1) [symmetric] by (rule less_mult_imp_div_less)
  show "mi < 60" "s < 60" unfolding o'(2,3) [symmetric] by simp_all
  have "days_of y m d = t div second div 86400" using fy fm m(2) assms(2) by (auto simp: days_of_def)
  moreover have "int (h * 3600 + mi * 60 + s) = t div second mod 86400"
  proof -
    have "n div 3600 = n div 60 div 60" by (simp add: div_mult2_eq [symmetric])
    then have "n div 3600 * 3600 + n div 60 mod 60 * 60 + n mod 60 = n"
      using div_mult_mod_eq [of n 60] div_mult_mod_eq [of "n div 60" 60] by linarith
    then show ?thesis unfolding o' by (simp add: n_def)
  qed
  ultimately show "days_of y m d * 86400 + int (h * 3600 + mi * 60 + s) = t div second" by simp
qed

lemma daysIn_bound: "daysIn y m \<le> 31"
  by (simp add: daysIn_def)

lemma Parse_Format:
  assumes "- 366 \<le> t div second div 86400" "fst (civil t) < 10000"
  shows "Parse (Format t) = Some (t div second * second)"
proof -
  obtain y m d h mi s where c: "civil t = (y, m, d, h, mi, s)" by (metis prod_cases6)
  note r = civil_ranges [OF c assms(1)]
  have b: "m < 100" "d < 100" "h < 100" "mi < 100" "s < 100" using r daysIn_bound [of y m] by auto
  have r': "Suc 0 \<le> m" "Suc 0 \<le> d" using r(1,3) by simp_all
  have y: "y < 10000" using assms(2) c by simp
  show ?thesis
    by (simp add: Parse_def Format_def c getyear_pad4 getnum_pad2 b y r r' skip_def getfrac_def getzone_def r(8) [simplified])
qed

end
