(* ===== verification/StateDB.thy ===== *)
theory StateDB
  imports GoTime "HOL-Library.AList" "HOL-Library.Word"
begin

text \<open>
  The state database (\<^verbatim>\<open>internal/metadb\<close>): the tables of \<^verbatim>\<open>db.go\<close> with their keys and checks, the statements of
  \<^verbatim>\<open>inodes.go\<close>, \<^verbatim>\<open>caches.go\<close>, \<^verbatim>\<open>episodes.go\<close> and \<^verbatim>\<open>alternatives.go\<close>, and the migration of the JSON files of \<^verbatim>\<open>migrate.go\<close>. A table is
  the list of its rows in the order of insertion; a statement that violates a key or a check fails and changes nothing.
\<close>

section \<open>Statements\<close>

text \<open>\<open>clash x r\<close>: the rows \<open>x\<close> and \<open>r\<close> agree in a unique column.\<close>

definition insert_or_replace :: "('r \<Rightarrow> 'r \<Rightarrow> bool) \<Rightarrow> 'r \<Rightarrow> 'r list \<Rightarrow> 'r list" where
  "insert_or_replace clash r t = filter (\<lambda>x. \<not> clash x r) t @ [r]"

definition insert_new :: "('r \<Rightarrow> 'r \<Rightarrow> bool) \<Rightarrow> ('r \<Rightarrow> bool) \<Rightarrow> 'r \<Rightarrow> 'r list \<Rightarrow> 'r list option" where
  "insert_new clash check r t = (if check r \<and> \<not> list_ex (\<lambda>x. clash x r) t then Some (t @ [r]) else None)"

fun insert_all :: "('r \<Rightarrow> 'r \<Rightarrow> bool) \<Rightarrow> ('r \<Rightarrow> bool) \<Rightarrow> 'r list \<Rightarrow> 'r list \<Rightarrow> 'r list option" where
  "insert_all clash check [] t = Some t"
| "insert_all clash check (r # rs) t = (case insert_new clash check r t of None \<Rightarrow> None | Some t' \<Rightarrow> insert_all clash check rs t')"

text \<open>A table with a key: a lookup finds the last row inserted or replaced.\<close>

locale keyed_table =
  fixes key :: "'r \<Rightarrow> 'k" and upsert :: "'r \<Rightarrow> 'r list \<Rightarrow> 'r list" and lookup :: "'k \<Rightarrow> 'r list \<Rightarrow> 'r option"
  assumes lookup_upsert: "lookup k (upsert r t) = (if key r = k then Some r else lookup k t)"
begin

lemma lookup_upserts:
  "lookup k (fold upsert rs t) = (case map_of (rev (map (\<lambda>r. (key r, r)) rs)) k of None \<Rightarrow> lookup k t | Some r \<Rightarrow> Some r)"
proof (induction rs arbitrary: t)
  case (Cons r rs)
  show ?case using Cons [of "upsert r t"] by (auto simp: lookup_upsert map_add_def split: option.split)
qed simp

lemma lookup_upserts_found: "lookup k (fold upsert rs t) \<noteq> None \<longleftrightarrow> k \<in> key ` set rs \<or> lookup k t \<noteq> None"
proof -
  have "map_of (rev (map (\<lambda>r. (key r, r)) rs)) k = None \<longleftrightarrow> k \<notin> key ` set rs" by (simp add: map_of_eq_None_iff image_image)
  then show ?thesis unfolding lookup_upserts by (cases "map_of (rev (map (\<lambda>r. (key r, r)) rs)) k") auto
qed

lemma lookup_upserts_distinct:
  assumes "distinct (map key rs)"
  shows "lookup k (fold upsert rs t) = (case map_of (map (\<lambda>r. (key r, r)) rs) k of None \<Rightarrow> lookup k t | Some r \<Rightarrow> Some r)"
proof -
  have "distinct (map fst (map (\<lambda>r. (key r, r)) rs))" using assms by (simp add: comp_def)
  then have "map_of (rev (map (\<lambda>r. (key r, r)) rs)) = map_of (map (\<lambda>r. (key r, r)) rs)"
    by (subst map_of_inject_set) (simp_all add: rev_map [symmetric])
  then show ?thesis by (simp add: lookup_upserts)
qed

end

lemma find_insert_or_replace:
  "List.find P (insert_or_replace clash r t) = (case List.find (\<lambda>x. P x \<and> \<not> clash x r) t of None \<Rightarrow> if P r then Some r else None | Some x \<Rightarrow> Some x)"
proof (induction t)
  case (Cons a t)
  then show ?case by (auto simp: insert_or_replace_def)
qed (simp add: insert_or_replace_def)

section \<open>Inodes\<close>

datatype row_type = RFile | RDir

record inode_row =
  r_type :: row_type
  r_infohash :: "string option"
  r_file_idx :: "int option"
  r_full_path :: string
  r_rel_path :: "string option"
  r_basename :: string
  r_inode_value :: "64 word"

text \<open>The unique columns: \<^verbatim>\<open>full_path\<close> and \<^verbatim>\<open>rel_path\<close>, which may be missing.\<close>

definition inode_clash :: "inode_row \<Rightarrow> inode_row \<Rightarrow> bool" where
  "inode_clash x r \<longleftrightarrow> r_full_path x = r_full_path r \<or> r_rel_path x \<noteq> None \<and> r_rel_path x = r_rel_path r"

definition slash :: char where
  "slash = CHR ''/''"

definition pathBase :: "string \<Rightarrow> string" where
  "pathBase p = rev (takeWhile (\<lambda>c. c \<noteq> slash) (rev p))"

record InodeEntry =
  ie_Type :: row_type
  ie_Infohash :: string
  ie_FileIdx :: int
  ie_FullPath :: string
  ie_RelPath :: string
  ie_Basename :: string
  ie_InodeValue :: "64 word"

definition file_row :: "string \<Rightarrow> string \<Rightarrow> int \<Rightarrow> 64 word \<Rightarrow> inode_row" where
  "file_row fullPath infohash fileIdx v =
     \<lparr>r_type = RFile, r_infohash = Some infohash, r_file_idx = Some fileIdx, r_full_path = fullPath, r_rel_path = None,
      r_basename = pathBase fullPath, r_inode_value = v\<rparr>"

definition dir_row :: "string \<Rightarrow> 64 word \<Rightarrow> inode_row" where
  "dir_row relPath v =
     \<lparr>r_type = RDir, r_infohash = None, r_file_idx = None, r_full_path = relPath, r_rel_path = Some relPath,
      r_basename = pathBase relPath, r_inode_value = v\<rparr>"

definition UpsertFile :: "string \<Rightarrow> string \<Rightarrow> int \<Rightarrow> 64 word \<Rightarrow> inode_row list \<Rightarrow> inode_row list" where
  "UpsertFile fullPath infohash fileIdx v t = insert_or_replace inode_clash (file_row fullPath infohash fileIdx v) t"

definition UpsertDir :: "string \<Rightarrow> 64 word \<Rightarrow> inode_row list \<Rightarrow> inode_row list" where
  "UpsertDir relPath v t = insert_or_replace inode_clash (dir_row relPath v) t"

text \<open>Scanning the signed column into an unsigned variable fails for a negative value.\<close>

datatype scanned = NoRow | ScanError | Scanned "64 word"

definition scan_inode :: "inode_row option \<Rightarrow> scanned" where
  "scan_inode r = (case r of None \<Rightarrow> NoRow | Some r \<Rightarrow> if bit (r_inode_value r) 63 then ScanError else Scanned (r_inode_value r))"

definition db_GetFileInode :: "string \<Rightarrow> inode_row list \<Rightarrow> scanned" where
  "db_GetFileInode fullPath t = scan_inode (List.find (\<lambda>r. r_type r = RFile \<and> r_full_path r = fullPath) t)"

definition db_GetDirInode :: "string \<Rightarrow> inode_row list \<Rightarrow> scanned" where
  "db_GetDirInode relPath t = scan_inode (List.find (\<lambda>r. r_type r = RDir \<and> r_rel_path r = Some relPath) t)"

definition db_GetFileInodeByName :: "string \<Rightarrow> inode_row list \<Rightarrow> scanned" where
  "db_GetFileInodeByName basename t = scan_inode (List.find (\<lambda>r. r_type r = RFile \<and> r_basename r = basename) t)"

text \<open>\<open>validFiles\<close> are the keys of the map that is passed, whatever their values.\<close>

definition db_PruneMissing :: "string list \<Rightarrow> inode_row list \<Rightarrow> int \<times> inode_row list" where
  "db_PruneMissing validFiles t =
     (if validFiles = [] then (0, t)
      else (let t' = filter (\<lambda>r. \<not> (r_type r = RFile \<and> r_full_path r \<notin> set validFiles)) t in (int (length t) - int (length t'), t')))"

definition or_zero :: "'a \<Rightarrow> 'a option \<Rightarrow> 'a" where
  "or_zero z x = (case x of None \<Rightarrow> z | Some v \<Rightarrow> v)"

definition load_row :: "inode_row \<Rightarrow> InodeEntry" where
  "load_row r =
     \<lparr>ie_Type = r_type r, ie_Infohash = or_zero [] (r_infohash r), ie_FileIdx = or_zero 0 (r_file_idx r), ie_FullPath = r_full_path r,
      ie_RelPath = or_zero [] (r_rel_path r), ie_Basename = r_basename r, ie_InodeValue = r_inode_value r\<rparr>"

definition LoadAll :: "inode_row list \<Rightarrow> InodeEntry list" where
  "LoadAll t = map load_row t"

section \<open>Caches\<close>

datatype cache_type = Negative | Fullpack

record cache_row =
  c_hash :: string
  c_type :: cache_type
  c_title :: string
  c_timestamp :: string

definition cache_clash :: "cache_row \<Rightarrow> cache_row \<Rightarrow> bool" where
  "cache_clash x r \<longleftrightarrow> c_hash x = c_hash r \<and> c_type x = c_type r"

record db_NegativeCacheEntry =
  ne_Hash :: string
  ne_Timestamp :: string

record db_FullpackCacheEntry =
  fe_Hash :: string
  fe_Title :: string
  fe_Timestamp :: string

definition AddNegative :: "string \<Rightarrow> time \<Rightarrow> cache_row list \<Rightarrow> cache_row list" where
  "AddNegative hash ts t = insert_or_replace cache_clash \<lparr>c_hash = hash, c_type = Negative, c_title = [], c_timestamp = Format ts\<rparr> t"

definition AddFullpack :: "string \<Rightarrow> string \<Rightarrow> time \<Rightarrow> cache_row list \<Rightarrow> cache_row list" where
  "AddFullpack hash title ts t = insert_or_replace cache_clash \<lparr>c_hash = hash, c_type = Fullpack, c_title = title, c_timestamp = Format ts\<rparr> t"

definition IsNegative :: "string \<Rightarrow> cache_row list \<Rightarrow> bool" where
  "IsNegative hash t \<longleftrightarrow> 0 < length (filter (\<lambda>r. c_hash r = hash \<and> c_type r = Negative) t)"

definition IsFullpack :: "string \<Rightarrow> cache_row list \<Rightarrow> bool" where
  "IsFullpack hash t \<longleftrightarrow> 0 < length (filter (\<lambda>r. c_hash r = hash \<and> c_type r = Fullpack) t)"

definition RemoveNegative :: "string \<Rightarrow> cache_row list \<Rightarrow> cache_row list" where
  "RemoveNegative hash t = filter (\<lambda>r. \<not> (c_hash r = hash \<and> c_type r = Negative)) t"

definition RemoveFullpack :: "string \<Rightarrow> cache_row list \<Rightarrow> cache_row list" where
  "RemoveFullpack hash t = filter (\<lambda>r. \<not> (c_hash r = hash \<and> c_type r = Fullpack)) t"

text \<open>The comparison of texts, byte by byte.\<close>

fun text_less :: "string \<Rightarrow> string \<Rightarrow> bool" where
  "text_less _ [] = False"
| "text_less [] (b # bs) = True"
| "text_less (a # as) (b # bs) = (let x = (of_char a :: nat); y = of_char b in x < y \<or> x = y \<and> text_less as bs)"

definition CleanupStale :: "time \<Rightarrow> int \<Rightarrow> int \<Rightarrow> cache_row list \<Rightarrow> int \<times> cache_row list" where
  "CleanupStale now negativeTTL fullpackTTL t =
     (let negCutoff = Format (now - negativeTTL); fullCutoff = Format (now - fullpackTTL);
          t1 = filter (\<lambda>r. \<not> (c_type r = Negative \<and> text_less (c_timestamp r) negCutoff)) t;
          t2 = filter (\<lambda>r. \<not> (c_type r = Fullpack \<and> text_less (c_timestamp r) fullCutoff)) t1
      in (int (length t) - int (length t1) + (int (length t1) - int (length t2)), t2))"

definition neg_row :: "db_NegativeCacheEntry \<Rightarrow> cache_row" where
  "neg_row e = \<lparr>c_hash = ne_Hash e, c_type = Negative, c_title = [], c_timestamp = ne_Timestamp e\<rparr>"

definition full_row :: "db_FullpackCacheEntry \<Rightarrow> cache_row" where
  "full_row e = \<lparr>c_hash = fe_Hash e, c_type = Fullpack, c_title = fe_Title e, c_timestamp = fe_Timestamp e\<rparr>"

text \<open>One transaction; \<open>up\<close> is whether the database accepts its statements.\<close>

definition SaveAllCaches :: "bool \<Rightarrow> (string \<times> db_NegativeCacheEntry) list \<Rightarrow> (string \<times> db_FullpackCacheEntry) list \<Rightarrow> cache_row list \<Rightarrow> bool \<times> cache_row list" where
  "SaveAllCaches up negEntries fullEntries t =
     (case insert_all cache_clash (\<lambda>_. True) (map (neg_row \<circ> snd) negEntries @ map (full_row \<circ> snd) fullEntries) [] of
        Some t' \<Rightarrow> if up then (True, t') else (False, t) | None \<Rightarrow> (False, t))"

definition load_cache_row :: "cache_row \<Rightarrow> (string \<times> db_NegativeCacheEntry) list \<times> (string \<times> db_FullpackCacheEntry) list \<Rightarrow>
    (string \<times> db_NegativeCacheEntry) list \<times> (string \<times> db_FullpackCacheEntry) list" where
  "load_cache_row r nf =
     (case c_type r of
        Negative \<Rightarrow> (AList.update (c_hash r) \<lparr>ne_Hash = c_hash r, ne_Timestamp = c_timestamp r\<rparr> (fst nf), snd nf)
      | Fullpack \<Rightarrow> (fst nf, AList.update (c_hash r) \<lparr>fe_Hash = c_hash r, fe_Title = c_title r, fe_Timestamp = c_timestamp r\<rparr> (snd nf)))"

definition LoadAllCaches :: "cache_row list \<Rightarrow> (string \<times> db_NegativeCacheEntry) list \<times> (string \<times> db_FullpackCacheEntry) list" where
  "LoadAllCaches t = fold load_cache_row t ([], [])"

section \<open>Episodes\<close>

record EpisodeEntry =
  ep_EpisodeKey :: string
  ep_QualityScore :: int
  ep_Hash :: string
  ep_FilePath :: string
  ep_Source :: string
  ep_Created :: int

definition episode_clash :: "EpisodeEntry \<Rightarrow> EpisodeEntry \<Rightarrow> bool" where
  "episode_clash x r \<longleftrightarrow> ep_EpisodeKey x = ep_EpisodeKey r"

definition UpsertEpisode :: "string \<Rightarrow> EpisodeEntry \<Rightarrow> EpisodeEntry list \<Rightarrow> EpisodeEntry list" where
  "UpsertEpisode k entry t = insert_or_replace episode_clash (entry\<lparr>ep_EpisodeKey := k\<rparr>) t"

definition GetEpisode :: "string \<Rightarrow> EpisodeEntry list \<Rightarrow> EpisodeEntry option" where
  "GetEpisode k t = List.find (\<lambda>e. ep_EpisodeKey e = k) t"

definition DeleteEpisode :: "string \<Rightarrow> EpisodeEntry list \<Rightarrow> EpisodeEntry list" where
  "DeleteEpisode k t = filter (\<lambda>e. ep_EpisodeKey e \<noteq> k) t"

definition AllEpisodes :: "EpisodeEntry list \<Rightarrow> EpisodeEntry list" where
  "AllEpisodes t = t"

definition EpisodesByFilePath :: "string \<Rightarrow> EpisodeEntry list \<Rightarrow> EpisodeEntry list" where
  "EpisodesByFilePath p t = filter (\<lambda>e. ep_FilePath e = p) t"

section \<open>Alternatives\<close>

record TorrentAlternative =
  al_ContentID :: string
  al_ContentType :: string
  al_Rank :: int
  al_Hash :: string
  al_Title :: string
  al_Size :: int
  al_Seeders :: int
  al_QualityScore :: int
  al_Status :: string
  al_LastHealthCheck :: int
  al_AvgSpeedKBps :: int
  al_ReplacementCount :: int

definition alt_clash :: "TorrentAlternative \<Rightarrow> TorrentAlternative \<Rightarrow> bool" where
  "alt_clash x r \<longleftrightarrow> al_ContentID x = al_ContentID r \<and> al_Hash x = al_Hash r"

definition alt_check :: "TorrentAlternative \<Rightarrow> bool" where
  "alt_check a \<longleftrightarrow> al_ContentType a \<in> {''tv'', ''movie''} \<and>
     al_Status a \<in> {''active'', ''tested_no_better'', ''verified_healthy'', ''verified_slow'', ''dead''}"

definition UpsertAlternative :: "TorrentAlternative \<Rightarrow> TorrentAlternative list \<Rightarrow> TorrentAlternative list option" where
  "UpsertAlternative a t = (if alt_check a then Some (insert_or_replace alt_clash a t) else None)"

definition GetAlternative :: "string \<Rightarrow> string \<Rightarrow> TorrentAlternative list \<Rightarrow> TorrentAlternative option" where
  "GetAlternative contentID hash t = List.find (\<lambda>a. al_ContentID a = contentID \<and> al_Hash a = hash) t"

text \<open>Rows of equal rank come in the order of insertion.\<close>

definition GetAlternativesByContent :: "string \<Rightarrow> TorrentAlternative list \<Rightarrow> TorrentAlternative list" where
  "GetAlternativesByContent contentID t = sort_key al_Rank (filter (\<lambda>a. al_ContentID a = contentID) t)"

definition GetNextBestAlternative :: "string \<Rightarrow> string \<Rightarrow> TorrentAlternative list \<Rightarrow> TorrentAlternative option" where
  "GetNextBestAlternative contentID currentHash t =
     (case sort_key al_Rank (filter (\<lambda>a. al_ContentID a = contentID \<and> al_Hash a \<noteq> currentHash \<and> al_Status a = ''active'') t) of
        [] \<Rightarrow> None | a # _ \<Rightarrow> Some a)"

definition DeleteAlternativesByContent :: "string \<Rightarrow> TorrentAlternative list \<Rightarrow> TorrentAlternative list" where
  "DeleteAlternativesByContent contentID t = filter (\<lambda>a. al_ContentID a \<noteq> contentID) t"

definition SaveAlternativesForContent :: "bool \<Rightarrow> string \<Rightarrow> TorrentAlternative list \<Rightarrow> TorrentAlternative list \<Rightarrow> bool \<times> TorrentAlternative list" where
  "SaveAlternativesForContent up contentID alts t =
     (case insert_all alt_clash alt_check alts (filter (\<lambda>a. al_ContentID a \<noteq> contentID) t) of
        Some t' \<Rightarrow> if up then (True, t') else (False, t) | None \<Rightarrow> (False, t))"

text \<open>\<^verbatim>\<open>UPDATE ... WHERE content_id = ? AND hash = ?\<close>: fails as a whole if a changed row violates a check.\<close>

definition update_alt :: "string \<Rightarrow> string \<Rightarrow> (TorrentAlternative \<Rightarrow> TorrentAlternative) \<Rightarrow> TorrentAlternative list \<Rightarrow> TorrentAlternative list option" where
  "update_alt contentID hash f t =
     (let sel = (\<lambda>a. al_ContentID a = contentID \<and> al_Hash a = hash)
      in if list_all (\<lambda>a. sel a \<longrightarrow> alt_check (f a)) t then Some (map (\<lambda>a. if sel a then f a else a) t) else None)"

definition UpdateAlternativeStatus :: "string \<Rightarrow> string \<Rightarrow> string \<Rightarrow> TorrentAlternative list \<Rightarrow> TorrentAlternative list option" where
  "UpdateAlternativeStatus contentID hash status = update_alt contentID hash (\<lambda>a. a\<lparr>al_Status := status\<rparr>)"

definition UpdateAlternativeHealth :: "string \<Rightarrow> string \<Rightarrow> string \<Rightarrow> int \<Rightarrow> int \<Rightarrow> int \<Rightarrow> TorrentAlternative list \<Rightarrow> TorrentAlternative list option" where
  "UpdateAlternativeHealth contentID hash status speedKBps seeders nowUnix =
     update_alt contentID hash (\<lambda>a. a\<lparr>al_Status := status, al_AvgSpeedKBps := speedKBps, al_Seeders := seeders, al_LastHealthCheck := nowUnix\<rparr>)"

definition GetUnhealthyAlternatives :: "TorrentAlternative list \<Rightarrow> TorrentAlternative list" where
  "GetUnhealthyAlternatives t = sort_key al_LastHealthCheck (filter (\<lambda>a. al_Status a \<in> {''dead'', ''verified_slow''}) t)"

definition IncrementReplacementCount :: "string \<Rightarrow> string \<Rightarrow> TorrentAlternative list \<Rightarrow> TorrentAlternative list option" where
  "IncrementReplacementCount contentID hash = update_alt contentID hash (\<lambda>a. a\<lparr>al_ReplacementCount := al_ReplacementCount a + 1\<rparr>)"

definition CountAlternativesByStatus :: "TorrentAlternative list \<Rightarrow> (string \<times> int) list" where
  "CountAlternativesByStatus t = map (\<lambda>s. (s, int (length (filter (\<lambda>a. al_Status a = s) t)))) (remdups (map al_Status t))"

definition FormatAlternativeStatus :: "string \<Rightarrow> string" where
  "FormatAlternativeStatus s =
     (if s = ''active'' then ''Active'' else if s = ''tested_no_better'' then ''Tested (No Better)''
      else if s = ''verified_healthy'' then ''Verified Healthy'' else if s = ''verified_slow'' then ''Verified Slow''
      else if s = ''dead'' then ''Dead'' else ''Unknown ('' @ s @ '')'')"

section \<open>Migration\<close>

record db_tables =
  t_inodes :: "inode_row list"
  t_caches :: "cache_row list"
  t_episodes :: "EpisodeEntry list"
  t_alternatives :: "TorrentAlternative list"

definition no_tables :: db_tables where
  "no_tables = \<lparr>t_inodes = [], t_caches = [], t_episodes = [], t_alternatives = []\<rparr>"

text \<open>The JSON documents. A file is missing, does not parse, or holds a document; the inode map is parsed in both its formats.\<close>

datatype 'd jfile = Missing | Unparsable | Doc 'd

record InodeMapDataV2 =
  md_Version :: int
  md_Files :: "(string \<times> string) list"
  md_Dirs :: "(string \<times> string) list"
  md_FilenameIndex :: "(string \<times> string) list"

record InodeMapDataV1 =
  m1_Version :: int
  m1_Files :: "(string \<times> 64 word) list"
  m1_Dirs :: "(string \<times> 64 word) list"
  m1_FilenameIndex :: "(string \<times> string) list"

record json_file =
  jf_v2 :: "InodeMapDataV2 option"
  jf_v1 :: "InodeMapDataV1 option"

record state_dir =
  sd_inode :: "json_file jfile"
  sd_neg :: "(string \<times> db_NegativeCacheEntry) list jfile"
  sd_full :: "(string \<times> db_FullpackCacheEntry) list jfile"
  sd_episodes :: "(string \<times> EpisodeEntry) list jfile"

definition hasAnyData :: "db_tables \<Rightarrow> bool" where
  "hasAnyData d \<longleftrightarrow> t_inodes d \<noteq> [] \<or> t_caches d \<noteq> [] \<or> t_episodes d \<noteq> []"

text \<open>The rows of the migration: the key stands in the column of the infohash and the path is empty; for a directory the
  column \<^verbatim>\<open>rel_path\<close> is not set.\<close>

definition mig_file_row :: "string \<times> 64 word \<Rightarrow> inode_row" where
  "mig_file_row kv =
     \<lparr>r_type = RFile, r_infohash = Some (fst kv), r_file_idx = Some 0, r_full_path = [], r_rel_path = None,
      r_basename = pathBase (fst kv), r_inode_value = snd kv\<rparr>"

definition mig_dir_row :: "string \<times> 64 word \<Rightarrow> inode_row" where
  "mig_dir_row kv =
     \<lparr>r_type = RDir, r_infohash = Some [], r_file_idx = Some 0, r_full_path = fst kv, r_rel_path = None,
      r_basename = pathBase (fst kv), r_inode_value = snd kv\<rparr>"

definition parse_entries :: "(string \<times> string) list \<Rightarrow> (string \<times> 64 word) list" where
  "parse_entries m = List.map_filter (\<lambda>(k, v). map_option (\<lambda>n. (k, of_nat n)) (parse_uint64 v)) m"

definition insert_inodes :: "(string \<times> 64 word) list \<Rightarrow> (string \<times> 64 word) list \<Rightarrow> inode_row list \<Rightarrow> int \<times> inode_row list" where
  "insert_inodes files dirs t =
     (int (length files + length dirs), fold (insert_or_replace inode_clash) (map mig_file_row files @ map mig_dir_row dirs) t)"

definition insertInodesV1 :: "InodeMapDataV1 \<Rightarrow> inode_row list \<Rightarrow> int \<times> inode_row list" where
  "insertInodesV1 data t = insert_inodes (m1_Files data) (m1_Dirs data) t"

definition insertInodesV2 :: "InodeMapDataV2 \<Rightarrow> inode_row list \<Rightarrow> int \<times> inode_row list" where
  "insertInodesV2 data t = insert_inodes (parse_entries (md_Files data)) (parse_entries (md_Dirs data)) t"

definition migrateInodes :: "json_file \<Rightarrow> inode_row list \<Rightarrow> (int \<times> inode_row list) option" where
  "migrateInodes f t =
     (case jf_v2 f of
        Some d \<Rightarrow> if md_Version d = 2 then Some (insertInodesV2 d t)
                  else (case jf_v1 f of Some d1 \<Rightarrow> if m1_Version d1 = 1 then Some (insertInodesV1 d1 t) else None | None \<Rightarrow> None)
      | None \<Rightarrow> (case jf_v1 f of Some d1 \<Rightarrow> if m1_Version d1 = 1 then Some (insertInodesV1 d1 t) else None | None \<Rightarrow> None))"

definition jf_exists :: "'d jfile \<Rightarrow> bool" where
  "jf_exists f \<longleftrightarrow> f \<noteq> Missing"

definition doc_entries :: "(string \<times> 'e) list jfile \<Rightarrow> (string \<times> 'e) list" where
  "doc_entries f = (case f of Doc es \<Rightarrow> es | _ \<Rightarrow> [])"

definition mig_neg_row :: "time \<Rightarrow> string \<times> db_NegativeCacheEntry \<Rightarrow> cache_row" where
  "mig_neg_row now he = \<lparr>c_hash = fst he, c_type = Negative, c_title = [],
     c_timestamp = (if ne_Timestamp (snd he) = [] then Format now else ne_Timestamp (snd he))\<rparr>"

definition mig_full_row :: "time \<Rightarrow> string \<times> db_FullpackCacheEntry \<Rightarrow> cache_row" where
  "mig_full_row now he = \<lparr>c_hash = fst he, c_type = Fullpack, c_title = fe_Title (snd he),
     c_timestamp = (if fe_Timestamp (snd he) = [] then Format now else fe_Timestamp (snd he))\<rparr>"

text \<open>A cache file that does not parse is skipped.\<close>

definition migrateCaches :: "time \<Rightarrow> (string \<times> db_NegativeCacheEntry) list jfile \<Rightarrow> (string \<times> db_FullpackCacheEntry) list jfile \<Rightarrow> cache_row list \<Rightarrow> int \<times> cache_row list" where
  "migrateCaches now neg full t =
     (int (length (doc_entries neg) + length (doc_entries full)),
      fold (insert_or_replace cache_clash) (map (mig_neg_row now) (doc_entries neg) @ map (mig_full_row now) (doc_entries full)) t)"

definition migrateEpisodes :: "(string \<times> EpisodeEntry) list jfile \<Rightarrow> EpisodeEntry list \<Rightarrow> (int \<times> EpisodeEntry list) option" where
  "migrateEpisodes f t =
     (case f of Doc es \<Rightarrow> Some (int (length es), fold (\<lambda>(k, e). UpsertEpisode k e) es t) | _ \<Rightarrow> None)"

text \<open>What may go wrong besides: the check for data, recreating the database, which may then be lost, each transaction, and
  each of the four renames.\<close>

record mig_faults =
  mf_check :: bool
  mf_recreate :: "db_tables option"
  mf_inodes :: bool
  mf_caches :: bool
  mf_episodes :: bool
  mf_rename :: "nat \<Rightarrow> bool"

definition no_faults :: mig_faults where
  "no_faults = \<lparr>mf_check = False, mf_recreate = None, mf_inodes = False, mf_caches = False, mf_episodes = False, mf_rename = (\<lambda>_. False)\<rparr>"

definition rename_files :: "(nat \<Rightarrow> bool) \<Rightarrow> state_dir \<Rightarrow> state_dir" where
  "rename_files fails s =
     \<lparr>sd_inode = (if fails 0 then sd_inode s else Missing), sd_neg = (if fails 1 then sd_neg s else Missing),
      sd_full = (if fails 2 then sd_full s else Missing), sd_episodes = (if fails 3 then sd_episodes s else Missing)\<rparr>"

definition mig_inodes :: "mig_faults \<Rightarrow> state_dir \<Rightarrow> db_tables \<Rightarrow> db_tables option" where
  "mig_inodes flt s d =
     (case sd_inode s of Missing \<Rightarrow> Some d | Unparsable \<Rightarrow> None
      | Doc f \<Rightarrow> (case migrateInodes f (t_inodes d) of Some (_, t) \<Rightarrow> if mf_inodes flt then None else Some (d\<lparr>t_inodes := t\<rparr>) | None \<Rightarrow> None))"

definition mig_caches :: "mig_faults \<Rightarrow> time \<Rightarrow> state_dir \<Rightarrow> db_tables \<Rightarrow> db_tables option" where
  "mig_caches flt now s d =
     (if jf_exists (sd_neg s) \<or> jf_exists (sd_full s)
      then (if mf_caches flt then None else Some (d\<lparr>t_caches := snd (migrateCaches now (sd_neg s) (sd_full s) (t_caches d))\<rparr>))
      else Some d)"

definition mig_episodes :: "mig_faults \<Rightarrow> state_dir \<Rightarrow> db_tables \<Rightarrow> db_tables option" where
  "mig_episodes flt s d =
     (if jf_exists (sd_episodes s)
      then (case migrateEpisodes (sd_episodes s) (t_episodes d) of
              Some (_, t) \<Rightarrow> if mf_episodes flt then None else Some (d\<lparr>t_episodes := t\<rparr>) | None \<Rightarrow> None)
      else Some d)"

text \<open>The result: whether there was no error, the files and the database.\<close>

definition MigrateFromJSON :: "mig_faults \<Rightarrow> time \<Rightarrow> state_dir \<Rightarrow> db_tables \<Rightarrow> bool \<times> state_dir \<times> db_tables" where
  "MigrateFromJSON flt now s d =
     (if \<not> (jf_exists (sd_inode s) \<or> jf_exists (sd_neg s) \<or> jf_exists (sd_full s) \<or> jf_exists (sd_episodes s)) then (True, s, d)
      else if mf_check flt then (False, s, d)
      else (case (if hasAnyData d then mf_recreate flt else None) of
              Some lost \<Rightarrow> (False, s, lost)
            | None \<Rightarrow>
                (let d0 = (if hasAnyData d then no_tables else d)
                 in case mig_inodes flt s d0 of None \<Rightarrow> (False, s, d0)
                    | Some d1 \<Rightarrow>
                        (case mig_caches flt now s d1 of None \<Rightarrow> (False, s, d1)
                         | Some d2 \<Rightarrow>
                             (case mig_episodes flt s d2 of None \<Rightarrow> (False, s, d2)
                              | Some d3 \<Rightarrow> (True, rename_files (mf_rename flt) s, d3))))))"


section \<open>Lookups\<close>

lemma find_cong_key:
  assumes "\<And>x. P x \<Longrightarrow> clash x r = P r" "\<And>x. P r \<Longrightarrow> clash x r \<longleftrightarrow> P x"
  shows "List.find P (insert_or_replace clash r t) = (if P r then Some r else List.find P t)"
proof (cases "P r")
  case True
  then have "List.find (\<lambda>x. P x \<and> \<not> clash x r) t = None" using assms(2) by (induction t) auto
  then show ?thesis using True by (simp add: find_insert_or_replace)
next
  case False
  then have "List.find (\<lambda>x. P x \<and> \<not> clash x r) t = List.find P t" using assms(1) by (induction t) auto
  then show ?thesis using False by (simp add: find_insert_or_replace split: option.split)
qed

interpretation episodes: keyed_table ep_EpisodeKey "\<lambda>e. UpsertEpisode (ep_EpisodeKey e) e" GetEpisode
  by unfold_locales (auto simp: UpsertEpisode_def GetEpisode_def episode_clash_def find_cong_key)

definition find_cache :: "string \<times> cache_type \<Rightarrow> cache_row list \<Rightarrow> cache_row option" where
  "find_cache k t = List.find (\<lambda>r. (c_hash r, c_type r) = k) t"

interpretation caches: keyed_table "\<lambda>r. (c_hash r, c_type r)" "insert_or_replace cache_clash" find_cache
  by unfold_locales (unfold find_cache_def, rule find_cong_key, auto simp: cache_clash_def)

interpretation alternatives: keyed_table "\<lambda>a. (al_ContentID a, al_Hash a)" "insert_or_replace alt_clash" "\<lambda>(c, h). GetAlternative c h"
proof
  show "(case k of (c, h) \<Rightarrow> GetAlternative c h) (insert_or_replace alt_clash r t) =
      (if (al_ContentID r, al_Hash r) = k then Some r else (case k of (c, h) \<Rightarrow> GetAlternative c h) t)" for k r t
    using find_cong_key [of "\<lambda>a. al_ContentID a = fst k \<and> al_Hash a = snd k" alt_clash r t]
    by (cases k) (auto simp: GetAlternative_def alt_clash_def)
qed

lemma IsNegative_find: "IsNegative h t \<longleftrightarrow> find_cache (h, Negative) t \<noteq> None"
  by (induction t) (auto simp: IsNegative_def find_cache_def)

lemma IsFullpack_find: "IsFullpack h t \<longleftrightarrow> find_cache (h, Fullpack) t \<noteq> None"
  by (induction t) (auto simp: IsFullpack_def find_cache_def)

lemma insert_all_key:
  assumes "\<And>x r. clash x r \<longleftrightarrow> key x = key r"
  shows "insert_all clash check rs t =
    (if list_all check rs \<and> distinct (map key rs) \<and> key ` set rs \<inter> key ` set t = {} then Some (t @ rs) else None)"
proof (induction rs arbitrary: t)
  case (Cons r rs)
  have "list_ex (\<lambda>x. clash x r) t \<longleftrightarrow> key r \<in> key ` set t" unfolding list_ex_iff image_iff assms by metis
  then show ?case using Cons [of "t @ [r]"] by (auto simp: insert_new_def)
qed simp

text \<open>C39: Saving the alternatives of a content succeeds exactly if the database works, every entry passes the checks and no
  hash is listed twice; then reading them gives them in the order of their ranks and other contents are unchanged. Otherwise
  nothing changes.\<close>

theorem save_alternatives_exact:
  assumes "SaveAlternativesForContent up c alts t = (ok, t')" "\<forall>a \<in> set alts. al_ContentID a = c"
  shows "(ok \<longleftrightarrow> up \<and> list_all alt_check alts \<and> distinct (map al_Hash alts)) \<and> (\<not> ok \<longrightarrow> t' = t)
    \<and> (ok \<longrightarrow> GetAlternativesByContent c t' = sort_key al_Rank alts)
    \<and> (c' \<noteq> c \<longrightarrow> GetAlternativesByContent c' t' = GetAlternativesByContent c' t)"
proof -
  let ?k = "\<lambda>a. (al_ContentID a, al_Hash a)" and ?t = "filter (\<lambda>a. al_ContentID a \<noteq> c) t"
  have d: "distinct (map ?k alts) \<longleftrightarrow> distinct (map al_Hash alts)" using assms(2) by (auto simp: distinct_map inj_on_def)
  have n: "?k ` set alts \<inter> ?k ` set ?t = {}" using assms(2) by auto
  have i: "insert_all alt_clash alt_check alts ?t = (if list_all alt_check alts \<and> distinct (map al_Hash alts) then Some (?t @ alts) else None)"
    using insert_all_key [of alt_clash ?k alt_check alts ?t] n d by (simp add: alt_clash_def)
  have "filter (\<lambda>a. al_ContentID a = c) (?t @ alts) = alts" "c' \<noteq> c \<Longrightarrow> filter (\<lambda>a. al_ContentID a = c') (?t @ alts) = filter (\<lambda>a. al_ContentID a = c') t"
    using assms(2) by (auto simp: filter_id_conv filter_empty_conv intro!: filter_cong)
  then show ?thesis using assms(1) i by (auto simp: SaveAlternativesForContent_def GetAlternativesByContent_def split: if_splits)
qed

definition sample_alt :: "int \<Rightarrow> string \<Rightarrow> TorrentAlternative" where
  "sample_alt rank h = \<lparr>al_ContentID = ''tt1'', al_ContentType = ''tv'', al_Rank = rank, al_Hash = h, al_Title = ''t'', al_Size = 1, al_Seeders = 5,
     al_QualityScore = 9, al_Status = ''active'', al_LastHealthCheck = 0, al_AvgSpeedKBps = 0, al_ReplacementCount = 0\<rparr>"

theorem save_alternatives_exact_witness:
  "\<exists>t'. SaveAlternativesForContent True ''tt1'' [sample_alt 2 ''b'', sample_alt 1 ''a''] [sample_alt 1 ''old''] = (True, t')
    \<and> GetAlternativesByContent ''tt1'' t' = [sample_alt 1 ''a'', sample_alt 2 ''b'']"
proof -
  obtain ok t' where e: "SaveAlternativesForContent True ''tt1'' [sample_alt 2 ''b'', sample_alt 1 ''a''] [sample_alt 1 ''old''] = (ok, t')"
    by (rule prod.exhaust)
  show ?thesis using save_alternatives_exact [OF e] e by (simp add: sample_alt_def alt_check_def)
qed

lemma sorted_head:
  assumes "sort_key f xs = a # ys"
  shows "a \<in> set xs \<and> (\<forall>b \<in> set xs. f a \<le> f b)"
proof -
  have "sorted (map f (a # ys))" using sorted_sort_key [of f xs] assms by simp
  moreover have "set xs = set (a # ys)" using assms set_sort [of f xs] by simp
  ultimately show ?thesis by auto
qed

text \<open>The next alternative of a content is an active one other than the current torrent with the lowest rank, and there
  is one exactly if such an alternative is stored.\<close>

theorem next_best_exact:
  "case GetNextBestAlternative c h t of
     None \<Rightarrow> list_all (\<lambda>a. al_ContentID a \<noteq> c \<or> al_Hash a = h \<or> al_Status a \<noteq> ''active'') t
   | Some a \<Rightarrow> a \<in> set t \<and> al_ContentID a = c \<and> al_Hash a \<noteq> h \<and> al_Status a = ''active''
       \<and> (\<forall>b \<in> set t. al_ContentID b = c \<and> al_Hash b \<noteq> h \<and> al_Status b = ''active'' \<longrightarrow> al_Rank a \<le> al_Rank b)"
proof -
  let ?l = "filter (\<lambda>a. al_ContentID a = c \<and> al_Hash a \<noteq> h \<and> al_Status a = ''active'') t"
  show ?thesis
  proof (cases "sort_key al_Rank ?l")
    case Nil
    then have "set ?l = {}" using set_sort [of al_Rank ?l] by simp
    then show ?thesis using Nil by (auto simp: GetNextBestAlternative_def list_all_iff filter_empty_conv)
  next
    case (Cons a ys)
    then show ?thesis using sorted_head [OF Cons] by (simp add: GetNextBestAlternative_def)
  qed
qed

theorem next_best_exact_witness:
  "\<exists>a. GetNextBestAlternative ''tt1'' ''cur'' [sample_alt 3 ''b'', sample_alt 1 ''cur'', sample_alt 2 ''a''] = Some a \<and> al_Rank a \<le> 2"
proof -
  let ?t = "[sample_alt 3 ''b'', sample_alt 1 ''cur'', sample_alt 2 ''a'']"
  show ?thesis using next_best_exact [of "''tt1''" "''cur''" ?t]
    by (cases "GetNextBestAlternative ''tt1'' ''cur'' ?t") (auto simp: sample_alt_def)
qed

section \<open>The migration\<close>

lemma insert_or_replace_set: "set (insert_or_replace clash r t) \<subseteq> insert r (set t)"
  by (auto simp: insert_or_replace_def)

lemma mig_rows_set: "set (fold (insert_or_replace clash) rs t) \<subseteq> set rs \<union> set t"
proof (induction rs arbitrary: t)
  case (Cons r rs)
  then show ?case using insert_or_replace_set [of clash r t] Cons [of "insert_or_replace clash r t"] by auto
qed simp

lemma mig_rows_distinct:
  assumes "distinct (map r_full_path t)"
  shows "distinct (map r_full_path (fold (insert_or_replace inode_clash) rs t))"
  using assms
proof (induction rs arbitrary: t)
  case (Cons r rs)
  have "distinct (map r_full_path (insert_or_replace inode_clash r t))"
    using Cons(2) by (auto simp: insert_or_replace_def inode_clash_def distinct_map intro: inj_on_subset)
  then show ?case using Cons(1) by simp
qed simp

lemma distinct_one:
  assumes "distinct (map f t)" "\<forall>x \<in> set t. P x \<longrightarrow> f x = c"
  shows "length (filter P t) \<le> 1"
proof -
  have "distinct (map f (filter P t))" using assms(1) by (rule distinct_map_filter)
  moreover have "set (map f (filter P t)) \<subseteq> {c}" using assms(2) by auto
  ultimately have "length (map f (filter P t)) \<le> card {c}" by (metis card_mono distinct_card finite.emptyI finite.insertI)
  then show ?thesis by simp
qed

lemma insert_inodes_rows:
  assumes "r \<in> set (snd (insert_inodes files dirs []))"
  shows "(\<exists>kv \<in> set files. r = mig_file_row kv) \<or> (\<exists>kv \<in> set dirs. r = mig_dir_row kv)"
  using assms mig_rows_set [of inode_clash "map mig_file_row files @ map mig_dir_row dirs" "[]"] by (auto simp: insert_inodes_def)

lemma insert_inodes_one:
  "length (filter (\<lambda>e. ie_Type e = RFile) (LoadAll (snd (insert_inodes files dirs [])))) \<le> 1"
  "\<forall>e \<in> set (LoadAll (snd (insert_inodes files dirs []))). ie_Type e = RDir \<longrightarrow> ie_RelPath e = []"
proof -
  let ?t = "snd (insert_inodes files dirs [])"
  have "length (filter (\<lambda>r. r_type r = RFile) ?t) \<le> 1"
  proof (rule distinct_one [where f = r_full_path and c = "[]"])
    show "distinct (map r_full_path ?t)" using mig_rows_distinct [of "[]" "map mig_file_row files @ map mig_dir_row dirs"] by (simp add: insert_inodes_def)
    show "\<forall>x \<in> set ?t. r_type x = RFile \<longrightarrow> r_full_path x = []"
      using insert_inodes_rows by (fastforce simp: mig_file_row_def mig_dir_row_def)
  qed
  then show "length (filter (\<lambda>e. ie_Type e = RFile) (LoadAll ?t)) \<le> 1"
    by (simp add: LoadAll_def filter_map comp_def load_row_def)
  show "\<forall>e \<in> set (LoadAll ?t). ie_Type e = RDir \<longrightarrow> ie_RelPath e = []"
    using insert_inodes_rows by (fastforce simp: LoadAll_def load_row_def or_zero_def mig_file_row_def mig_dir_row_def)
qed

lemma migrateInodes_insert:
  "migrateInodes f t = Some (n, t') \<Longrightarrow> \<exists>files dirs. t' = snd (insert_inodes files dirs t)"
  by (auto simp: migrateInodes_def insertInodesV1_def insertInodesV2_def split: option.splits if_splits)
     (metis snd_conv)+

text \<open>A successful migration, step by step.\<close>

lemma MigrateFromJSON_success:
  assumes "MigrateFromJSON flt now s d = (True, s', d')" "jf_exists (sd_inode s) \<or> jf_exists (sd_neg s) \<or> jf_exists (sd_full s) \<or> jf_exists (sd_episodes s)"
  obtains d0 d1 d2 where "d0 = (if hasAnyData d then no_tables else d)" "mig_inodes flt s d0 = Some d1" "mig_caches flt now s d1 = Some d2"
    "mig_episodes flt s d2 = Some d'" "s' = rename_files (mf_rename flt) s"
proof -
  define d0 where "d0 = (if hasAnyData d then no_tables else d)"
  have e: "(case mig_inodes flt s d0 of None \<Rightarrow> (False, s, d0)
      | Some d1 \<Rightarrow> (case mig_caches flt now s d1 of None \<Rightarrow> (False, s, d1)
          | Some d2 \<Rightarrow> (case mig_episodes flt s d2 of None \<Rightarrow> (False, s, d2) | Some d3 \<Rightarrow> (True, rename_files (mf_rename flt) s, d3))))
      = (True, s', d')"
    using assms unfolding MigrateFromJSON_def Let_def d0_def [symmetric] by (auto split: if_splits option.splits)
  obtain d1 where 1: "mig_inodes flt s d0 = Some d1" using e by (cases "mig_inodes flt s d0") auto
  obtain d2 where 2: "mig_caches flt now s d1 = Some d2" using e 1 by (cases "mig_caches flt now s d1") auto
  obtain d3 where 3: "mig_episodes flt s d2 = Some d3" using e 1 2 by (cases "mig_episodes flt s d2") auto
  show ?thesis by (rule that [OF d0_def 1 2]) (use e 1 2 3 in auto)
qed

lemma start_empty: "d0 = (if hasAnyData d then no_tables else d) \<Longrightarrow> t_inodes d0 = [] \<and> t_caches d0 = [] \<and> t_episodes d0 = []"
  by (auto simp: hasAnyData_def no_tables_def)

lemma mig_tables:
  "mig_caches flt now s d = Some d' \<Longrightarrow> t_inodes d' = t_inodes d \<and> t_episodes d' = t_episodes d \<and> t_alternatives d' = t_alternatives d"
  "mig_episodes flt s d = Some d' \<Longrightarrow> t_inodes d' = t_inodes d \<and> t_caches d' = t_caches d \<and> t_alternatives d' = t_alternatives d"
  "mig_inodes flt s d = Some d' \<Longrightarrow> t_caches d' = t_caches d \<and> t_episodes d' = t_episodes d \<and> t_alternatives d' = t_alternatives d"
  by (auto simp: mig_caches_def mig_episodes_def mig_inodes_def split: if_splits option.splits jfile.splits)


lemma migrated_rows:
  assumes "MigrateFromJSON flt now s d = (True, s', d')" "sd_inode s = Doc f"
  obtains files dirs where "t_inodes d' = snd (insert_inodes files dirs [])"
proof -
  have "jf_exists (sd_inode s)" by (simp add: assms(2) jf_exists_def)
  then obtain d0 d1 d2 where d: "d0 = (if hasAnyData d then no_tables else d)" "mig_inodes flt s d0 = Some d1" "mig_caches flt now s d1 = Some d2"
      "mig_episodes flt s d2 = Some d'" using MigrateFromJSON_success [OF assms(1)] by metis
  obtain n t where t: "migrateInodes f (t_inodes d0) = Some (n, t)" "t_inodes d1 = t"
    using d(2) assms(2) by (auto simp: mig_inodes_def split: option.splits if_splits)
  obtain files dirs where "t_inodes d' = snd (insert_inodes files dirs [])"
    using migrateInodes_insert [OF t(1)] t(2) start_empty [OF d(1)] mig_tables(1) [OF d(3)] mig_tables(2) [OF d(4)] by auto
  then show ?thesis by (rule that)
qed

text \<open>The migration of an inode map in either format keeps at most one file, whatever the map holds: all rows of files
  have the empty path, which is a unique column. The directories are read back without their path.\<close>

theorem migration_keeps_one_file:
  assumes "MigrateFromJSON flt now s d = (True, s', d')" "sd_inode s = Doc f"
  shows "length (filter (\<lambda>e. ie_Type e = RFile) (LoadAll (t_inodes d'))) \<le> 1
    \<and> (\<forall>e \<in> set (LoadAll (t_inodes d')). ie_Type e = RDir \<longrightarrow> ie_RelPath e = [])"
proof -
  obtain files dirs where "t_inodes d' = snd (insert_inodes files dirs [])" by (rule migrated_rows [OF assms])
  then show ?thesis using insert_inodes_one [of files dirs] by simp
qed

text \<open>When the migration ends with the rename of one file failed, the next start takes the database for the remains of a
  crash and creates it anew from the files left, so the inodes, episodes and alternatives are lost.\<close>

theorem failed_rename_loses_tables:
  assumes "MigrateFromJSON flt now s d = (True, s1, d1)" "mf_rename flt = (\<lambda>i. i = 1)" "jf_exists (sd_neg s)" "hasAnyData d1"
    and "MigrateFromJSON no_faults now' s1 d1 = (ok, s2, d2)"
  shows "ok \<and> t_inodes d2 = [] \<and> t_episodes d2 = [] \<and> t_alternatives d2 = [] \<and> (\<forall>h. \<not> IsFullpack h (t_caches d2))"
proof -
  obtain d0 where "s1 = rename_files (mf_rename flt) s" by (rule MigrateFromJSON_success [OF assms(1)]) (use assms(3) in auto)
  then have s1: "sd_inode s1 = Missing" "sd_neg s1 = sd_neg s" "sd_full s1 = Missing" "sd_episodes s1 = Missing"
    by (simp_all add: rename_files_def assms(2))
  have d2: "ok" "d2 = no_tables\<lparr>t_caches := snd (migrateCaches now' (sd_neg s) Missing [])\<rparr>"
    using assms(3,4,5) by (auto simp: MigrateFromJSON_def s1 no_faults_def jf_exists_def mig_inodes_def mig_caches_def mig_episodes_def no_tables_def)
  have "\<forall>r \<in> set (t_caches d2). c_type r = Negative"
    using mig_rows_set [of cache_clash "map (mig_neg_row now') (doc_entries (sd_neg s))" "[]"]
    by (auto simp: d2(2) migrateCaches_def doc_entries_def mig_neg_row_def)
  then show ?thesis using d2(1) by (auto simp: d2(2) no_tables_def IsFullpack_def filter_empty_conv)
qed

text \<open>A successful migration keeps the episode registry and the caches: each episode is found under its key with its
  entry, and a hash is negative, or a full pack, exactly if its file lists it.\<close>

theorem migration_keeps_rest:
  assumes "MigrateFromJSON flt now s d = (True, s', d')"
    and "sd_episodes s = Doc eps" "distinct (map fst eps)" "sd_neg s = Doc neg" "sd_full s = Doc full"
  shows "GetEpisode k (t_episodes d') = map_option (\<lambda>e. e\<lparr>ep_EpisodeKey := k\<rparr>) (map_of eps k)
    \<and> (IsNegative h (t_caches d') \<longleftrightarrow> h \<in> fst ` set neg) \<and> (IsFullpack h (t_caches d') \<longleftrightarrow> h \<in> fst ` set full)"
proof -
  have "jf_exists (sd_neg s)" by (simp add: assms(4) jf_exists_def)
  then obtain d0 d1 d2 where d: "d0 = (if hasAnyData d then no_tables else d)" "mig_inodes flt s d0 = Some d1" "mig_caches flt now s d1 = Some d2"
      "mig_episodes flt s d2 = Some d'" using MigrateFromJSON_success [OF assms(1)] by metis
  note start = start_empty [OF d(1)] mig_tables(1) [OF d(3)] mig_tables(2) [OF d(4)] mig_tables(3) [OF d(2)]
  let ?eps = "map (\<lambda>(k, e). e\<lparr>ep_EpisodeKey := k\<rparr>) eps"
  have "t_episodes d' = fold (\<lambda>(k, e). UpsertEpisode k e) eps []"
    using d(4) start assms(2) by (auto simp: mig_episodes_def migrateEpisodes_def jf_exists_def split: if_splits)
  also have "\<dots> = fold (\<lambda>e. UpsertEpisode (ep_EpisodeKey e) e) ?eps []"
  proof -
    have "case_prod UpsertEpisode = (\<lambda>e. UpsertEpisode (ep_EpisodeKey e) e) \<circ> (\<lambda>(k, e). e\<lparr>ep_EpisodeKey := k\<rparr>)"
      by (auto simp: fun_eq_iff UpsertEpisode_def)
    then show ?thesis by (simp add: fold_map)
  qed
  finally have "GetEpisode k (t_episodes d') = map_of (map (\<lambda>r. (ep_EpisodeKey r, r)) ?eps) k"
    using episodes.lookup_upserts_distinct [of ?eps k "[]"] assms(3) by (simp add: comp_def case_prod_beta GetEpisode_def split: option.split)
  also have "\<dots> = map_option (\<lambda>e. e\<lparr>ep_EpisodeKey := k\<rparr>) (map_of eps k)"
    by (induction eps) auto
  finally have ep: "GetEpisode k (t_episodes d') = map_option (\<lambda>e. e\<lparr>ep_EpisodeKey := k\<rparr>) (map_of eps k)" .
  let ?rows = "map (mig_neg_row now) neg @ map (mig_full_row now) full"
  have "t_caches d' = fold (insert_or_replace cache_clash) ?rows []"
    using d(3) start assms(4,5) by (auto simp: mig_caches_def migrateCaches_def doc_entries_def jf_exists_def split: if_splits)
  then have f: "find_cache c (t_caches d') \<noteq> None \<longleftrightarrow> c \<in> (\<lambda>r. (c_hash r, c_type r)) ` set ?rows" for c
    using caches.lookup_upserts_found [of c ?rows "[]"] by (simp add: find_cache_def)
  have "(\<lambda>r. (c_hash r, c_type r)) ` set ?rows = (\<lambda>x. (fst x, Negative)) ` set neg \<union> (\<lambda>x. (fst x, Fullpack)) ` set full"
    by (simp add: image_Un image_image mig_neg_row_def mig_full_row_def)
  then show ?thesis using ep f [of "(h, Negative)"] f [of "(h, Fullpack)"] by (auto simp: IsNegative_find IsFullpack_find)
qed


section \<open>Witnesses\<close>

definition sample_episode :: EpisodeEntry where
  "sample_episode = \<lparr>ep_EpisodeKey = [], ep_QualityScore = 85, ep_Hash = ''ab'', ep_FilePath = ''/tv/a.mkv'', ep_Source = ''x'', ep_Created = 5\<rparr>"

definition sample_dir :: state_dir where
  "sample_dir =
     \<lparr>sd_inode = Doc \<lparr>jf_v2 = Some \<lparr>md_Version = 2, md_Files = [(''aa:0'', ''5''), (''bb:1'', ''7'')], md_Dirs = [], md_FilenameIndex = [(''/m/a.mkv'', ''aa:0'')]\<rparr>, jf_v1 = None\<rparr>,
      sd_neg = Doc [(''h1'', \<lparr>ne_Hash = ''h1'', ne_Timestamp = ''2024-01-01T00:00:00Z''\<rparr>)],
      sd_full = Doc [(''h2'', \<lparr>fe_Hash = ''h2'', fe_Title = ''t'', fe_Timestamp = ''2024-01-01T00:00:00Z''\<rparr>)],
      sd_episodes = Doc [(''A_S01E01'', sample_episode)]\<rparr>"

definition sample_faults :: mig_faults where
  "sample_faults = no_faults\<lparr>mf_rename := (\<lambda>i. i = 1)\<rparr>"

definition sample_run :: "bool \<times> state_dir \<times> db_tables" where
  "sample_run = MigrateFromJSON sample_faults 0 sample_dir no_tables"

lemma sample_run_ok:
  "MigrateFromJSON sample_faults 0 sample_dir no_tables = (True, fst (snd sample_run), snd (snd sample_run))"
  "hasAnyData (snd (snd sample_run))"
proof -
  have p: "parse_uint64 ''5'' = Some 5" "parse_uint64 ''7'' = Some 7" by (simp_all add: parse_uint64_def is_digit_def digit_val_def)
  show "MigrateFromJSON sample_faults 0 sample_dir no_tables = (True, fst (snd sample_run), snd (snd sample_run))"
    unfolding sample_run_def
    by (simp add: MigrateFromJSON_def sample_faults_def no_faults_def sample_dir_def jf_exists_def hasAnyData_def no_tables_def mig_inodes_def
        migrateInodes_def insertInodesV2_def insert_inodes_def mig_caches_def mig_episodes_def migrateEpisodes_def)
  show "hasAnyData (snd (snd sample_run))"
    unfolding sample_run_def
    by (simp add: MigrateFromJSON_def sample_faults_def no_faults_def sample_dir_def jf_exists_def hasAnyData_def no_tables_def mig_inodes_def
        migrateInodes_def insertInodesV2_def insert_inodes_def mig_caches_def mig_episodes_def migrateEpisodes_def
        UpsertEpisode_def insert_or_replace_def)
qed

theorem migration_keeps_one_file_witness:
  "length (filter (\<lambda>e. ie_Type e = RFile) (LoadAll (t_inodes (snd (snd sample_run))))) \<le> 1"
  using migration_keeps_one_file [OF sample_run_ok(1)] by (simp add: sample_dir_def)

theorem failed_rename_loses_tables_witness:
  "t_inodes (snd (snd (MigrateFromJSON no_faults 0 (fst (snd sample_run)) (snd (snd sample_run))))) = []"
proof -
  define r where "r = MigrateFromJSON no_faults 0 (fst (snd sample_run)) (snd (snd sample_run))"
  have "MigrateFromJSON no_faults 0 (fst (snd sample_run)) (snd (snd sample_run)) = (fst r, fst (snd r), snd (snd r))" by (simp add: r_def)
  from failed_rename_loses_tables [OF sample_run_ok(1) _ _ sample_run_ok(2) this]
  show ?thesis by (simp add: sample_faults_def sample_dir_def jf_exists_def r_def)
qed

theorem migration_keeps_rest_witness:
  "GetEpisode ''A_S01E01'' (t_episodes (snd (snd sample_run))) = Some (sample_episode\<lparr>ep_EpisodeKey := ''A_S01E01''\<rparr>)
    \<and> IsNegative ''h1'' (t_caches (snd (snd sample_run))) \<and> \<not> IsFullpack ''h1'' (t_caches (snd (snd sample_run)))"
  using migration_keeps_rest [OF sample_run_ok(1), where k = "''A_S01E01''" and h = "''h1''"] by (simp add: sample_dir_def)

end
