(* ===== verification/InodeMap.thy ===== *)
theory InodeMap
  imports StateDB
begin

text \<open>
  The persistent map from torrent contents to inode numbers (\<^verbatim>\<open>inodemap.go\<close>): thirty-two shards of four maps, the
  operations on files and directories, saving and loading as a JSON document or as rows of the state database, and the
  extraction of hash and index from a stream address. A Go map is an association list without repeated keys, whose order
  is the order of iteration. The JSON file is the document it holds; the hash function is a parameter. Infohashes and
  addresses are ASCII.
\<close>

section \<open>Strings\<close>

text \<open>\<^verbatim>\<open>filepath.Base\<close> drops trailing slashes before it takes what follows the last slash.\<close>

definition filepath_Base :: "string \<Rightarrow> string" where
  "filepath_Base p =
     (if p = [] then ''.'' else (let q = rev (dropWhile (\<lambda>c. c = slash) (rev p)) in if q = [] then ''/'' else pathBase q))"

section \<open>Inode numbers\<close>

abbreviation InodeFileMask :: u64 where
  "InodeFileMask \<equiv> 0x7FFFFFFFFFFFFFFF"

abbreviation InodeDirMask :: u64 where
  "InodeDirMask \<equiv> 0x8000000000000000"

abbreviation InodeRoot :: u64 where
  "InodeRoot \<equiv> 1"

definition hashFilenameToInode :: "hasher \<Rightarrow> string \<Rightarrow> u64" where
  "hashFilenameToInode xx name = xx name"

definition generateFileInode :: "hasher \<Rightarrow> string \<Rightarrow> int \<Rightarrow> u64" where
  "generateFileInode xx infohash index = xx (colon_key (ToLower infohash) index) AND InodeFileMask"

definition generateDirInode :: "hasher \<Rightarrow> string \<Rightarrow> u64" where
  "generateDirInode xx relativePath =
     (if relativePath = ''/'' \<or> relativePath = [] then InodeRoot else xx relativePath OR InodeDirMask)"

section \<open>The map\<close>

record inodeShard =
  is_fileMap :: "(string \<times> u64) list"
  is_dirMap :: "(string \<times> u64) list"
  is_nameMap :: "(string \<times> string) list"
  is_fastFileMap :: "(string \<times> u64) list"

record InodeMap =
  im_shards :: "inodeShard list"
  im_dirty :: bool
  im_hits :: u64
  im_misses :: u64
  im_stopped :: bool

definition empty_shard :: inodeShard where
  "empty_shard = \<lparr>is_fileMap = [], is_dirMap = [], is_nameMap = [], is_fastFileMap = []\<rparr>"

definition NewInodeMap :: InodeMap where
  "NewInodeMap =
     \<lparr>im_shards = (replicate 32 empty_shard)[0 := empty_shard\<lparr>is_dirMap := [(''/'', InodeRoot)]\<rparr>],
      im_dirty = False, im_hits = 0, im_misses = 0, im_stopped = False\<rparr>"

definition im_getShard :: "hasher \<Rightarrow> string \<Rightarrow> InodeMap \<Rightarrow> inodeShard" where
  "im_getShard xx key im = im_shards im ! shard_idx xx 31 key"

definition on_shard :: "hasher \<Rightarrow> string \<Rightarrow> (inodeShard \<Rightarrow> inodeShard) \<Rightarrow> InodeMap \<Rightarrow> InodeMap" where
  "on_shard xx key f im = im\<lparr>im_shards := (im_shards im)[shard_idx xx 31 key := f (im_getShard xx key im)]\<rparr>"

definition setDirty :: "bool \<Rightarrow> InodeMap \<Rightarrow> InodeMap" where
  "setDirty b im = im\<lparr>im_dirty := b\<rparr>"

definition IsDirty :: "InodeMap \<Rightarrow> bool" where
  "IsDirty im = im_dirty im"

definition put_name :: "hasher \<Rightarrow> string \<Rightarrow> string \<Rightarrow> InodeMap \<Rightarrow> InodeMap" where
  "put_name xx p key = on_shard xx p (\<lambda>s. s\<lparr>is_nameMap := AList.update p key (is_nameMap s)\<rparr>)"

definition put_file :: "hasher \<Rightarrow> string \<Rightarrow> u64 \<Rightarrow> InodeMap \<Rightarrow> InodeMap" where
  "put_file xx key inode = on_shard xx key (\<lambda>s. s\<lparr>is_fileMap := AList.update key inode (is_fileMap s)\<rparr>)"

definition put_fast :: "hasher \<Rightarrow> string \<Rightarrow> u64 \<Rightarrow> InodeMap \<Rightarrow> InodeMap" where
  "put_fast xx name inode = on_shard xx name (\<lambda>s. s\<lparr>is_fastFileMap := AList.update name inode (is_fastFileMap s)\<rparr>)"

definition put_dir :: "hasher \<Rightarrow> string \<Rightarrow> u64 \<Rightarrow> InodeMap \<Rightarrow> InodeMap" where
  "put_dir xx p inode = on_shard xx p (\<lambda>s. s\<lparr>is_dirMap := AList.update p inode (is_dirMap s)\<rparr>)"

definition look_name :: "hasher \<Rightarrow> InodeMap \<Rightarrow> string \<rightharpoonup> string" where
  "look_name xx im p = map_of (is_nameMap (im_getShard xx p im)) p"

definition look_file :: "hasher \<Rightarrow> InodeMap \<Rightarrow> string \<rightharpoonup> u64" where
  "look_file xx im key = map_of (is_fileMap (im_getShard xx key im)) key"

definition look_fast :: "hasher \<Rightarrow> InodeMap \<Rightarrow> string \<rightharpoonup> u64" where
  "look_fast xx im name = map_of (is_fastFileMap (im_getShard xx name im)) name"

definition look_dir :: "hasher \<Rightarrow> InodeMap \<Rightarrow> string \<rightharpoonup> u64" where
  "look_dir xx im p = map_of (is_dirMap (im_getShard xx p im)) p"

definition AddFile :: "hasher \<Rightarrow> string \<Rightarrow> string \<Rightarrow> int \<Rightarrow> InodeMap \<Rightarrow> u64 \<times> InodeMap" where
  "AddFile xx fullPath infohash index im =
     (if infohash = [] then (0, im)
      else (let key = colon_key (ToLower infohash) index; inode = generateFileInode xx infohash index
            in if look_name xx im fullPath = Some key then (inode, im)
               else (inode, setDirty True (put_fast xx (filepath_Base fullPath) inode
                              (put_file xx key inode (put_name xx fullPath key im))))))"

definition AddDir :: "hasher \<Rightarrow> string \<Rightarrow> InodeMap \<Rightarrow> u64 \<times> InodeMap" where
  "AddDir xx p im =
     (let inode = generateDirInode xx p
      in (inode, if look_dir xx im p = None then setDirty True (put_dir xx p inode im) else im))"

definition GetFileInode :: "hasher \<Rightarrow> string \<Rightarrow> InodeMap \<Rightarrow> u64 \<times> InodeMap" where
  "GetFileInode xx fullPath im =
     (case Option.bind (look_name xx im fullPath) (look_file xx im) of
        Some inode \<Rightarrow> (inode, im\<lparr>im_hits := im_hits im + 1\<rparr>)
      | None \<Rightarrow> (0, im\<lparr>im_misses := im_misses im + 1\<rparr>))"

definition GetFileInodeByName :: "hasher \<Rightarrow> string \<Rightarrow> InodeMap \<Rightarrow> u64 \<times> InodeMap" where
  "GetFileInodeByName xx filename im =
     (case look_fast xx im filename of
        Some inode \<Rightarrow> (inode, im\<lparr>im_hits := im_hits im + 1\<rparr>)
      | None \<Rightarrow> (0, im\<lparr>im_misses := im_misses im + 1\<rparr>))"

definition GetDirInode :: "hasher \<Rightarrow> string \<Rightarrow> InodeMap \<Rightarrow> u64 \<times> InodeMap" where
  "GetDirInode xx p im =
     (if p = ''/'' \<or> p = [] then (InodeRoot, im)
      else (case look_dir xx im p of Some inode \<Rightarrow> (inode, im) | None \<Rightarrow> AddDir xx p im))"

definition RemoveFile :: "hasher \<Rightarrow> string \<Rightarrow> InodeMap \<Rightarrow> InodeMap" where
  "RemoveFile xx fullPath im =
     (case look_name xx im fullPath of None \<Rightarrow> im
      | Some key \<Rightarrow>
          (let im1 = on_shard xx fullPath (\<lambda>s. s\<lparr>is_nameMap := AList.delete fullPath (is_nameMap s)\<rparr>) im;
               targetInode = (case look_file xx im1 key of None \<Rightarrow> 0 | Some i \<Rightarrow> i);
               im2 = on_shard xx key (\<lambda>s. s\<lparr>is_fileMap := AList.delete key (is_fileMap s)\<rparr>) im1;
               filename = filepath_Base fullPath;
               im3 = (if look_fast xx im2 filename = Some targetInode
                      then on_shard xx filename (\<lambda>s. s\<lparr>is_fastFileMap := AList.delete filename (is_fastFileMap s)\<rparr>) im2 else im2)
           in setDirty True im3))"

definition Stats :: "InodeMap \<Rightarrow> int \<times> int \<times> u64 \<times> u64" where
  "Stats im = (sum_list (map (\<lambda>s. int (length (is_fileMap s))) (im_shards im)),
     sum_list (map (\<lambda>s. int (length (is_dirMap s))) (im_shards im)), im_hits im, im_misses im)"

text \<open>\<^verbatim>\<open>PruneMissing\<close>: the files found are a map to booleans; \<open>db\<close> is the table when the database is used.\<close>

definition PruneMissing :: "hasher \<Rightarrow> (string \<times> bool) list \<Rightarrow> InodeMap \<Rightarrow> inode_row list option \<Rightarrow> int \<times> InodeMap \<times> inode_row list option" where
  "PruneMissing xx foundFiles im db =
     (let toRemove = filter (\<lambda>p. map_of foundFiles p \<noteq> Some True) (concat (map (\<lambda>s. map fst (is_nameMap s)) (im_shards im)));
          im1 = fold (RemoveFile xx) toRemove im
      in if toRemove = [] then (0, im1, db)
         else (int (length toRemove), setDirty True im1, map_option (\<lambda>t. snd (db_PruneMissing (map fst foundFiles) t)) db))"

section \<open>Persistence\<close>

type_synonym InodeMapData = InodeMapDataV2

definition addLoadedFile :: "hasher \<Rightarrow> string \<Rightarrow> string \<Rightarrow> u64 \<Rightarrow> InodeMap \<Rightarrow> InodeMap" where
  "addLoadedFile xx fullPath key inode im =
     put_fast xx (filepath_Base fullPath) inode (put_file xx key inode (put_name xx fullPath key im))"

definition format_entries :: "(string \<times> u64) list \<Rightarrow> (string \<times> string) list" where
  "format_entries m = map (\<lambda>(k, v). (k, show_nat (unat v))) m"

definition load_names :: "hasher \<Rightarrow> (string \<rightharpoonup> u64) \<Rightarrow> (string \<times> string) list \<Rightarrow> InodeMap \<Rightarrow> InodeMap" where
  "load_names xx files names im =
     fold (\<lambda>(p, key) im. case files key of None \<Rightarrow> im | Some inode \<Rightarrow> addLoadedFile xx p key inode im) names im"

definition load_dirs :: "hasher \<Rightarrow> (string \<times> u64) list \<Rightarrow> InodeMap \<Rightarrow> InodeMap" where
  "load_dirs xx dirs im = fold (\<lambda>(p, inode) im. put_dir xx p inode im) dirs im"

definition load_v1 :: "hasher \<Rightarrow> json_file \<Rightarrow> InodeMap \<Rightarrow> bool \<times> InodeMap" where
  "load_v1 xx f im =
     (case jf_v1 f of None \<Rightarrow> (False, im)
      | Some d \<Rightarrow>
          if m1_Version d = 1
          then (True, setDirty True (load_dirs xx (m1_Dirs d) (load_names xx (map_of (m1_Files d)) (m1_FilenameIndex d) im)))
          else (True, im))"

text \<open>\<open>file\<close> is \<open>None\<close> when the file does not exist. The result is whether there was no error.\<close>

definition loadFromJSON :: "hasher \<Rightarrow> json_file option \<Rightarrow> InodeMap \<Rightarrow> bool \<times> InodeMap" where
  "loadFromJSON xx file im =
     (case file of None \<Rightarrow> (True, im)
      | Some f \<Rightarrow>
          (case jf_v2 f of
             Some d \<Rightarrow>
               if md_Version d = 2
               then (True, load_dirs xx (parse_entries (md_Dirs d))
                             (load_names xx (map_of (parse_entries (md_Files d))) (md_FilenameIndex d) im))
               else load_v1 xx f im
           | None \<Rightarrow> load_v1 xx f im))"

definition map_data :: "InodeMap \<Rightarrow> InodeMapData" where
  "map_data im =
     \<lparr>md_Version = 2, md_Files = format_entries (concat (map is_fileMap (im_shards im))),
      md_Dirs = format_entries (concat (map is_dirMap (im_shards im))),
      md_FilenameIndex = concat (map is_nameMap (im_shards im))\<rparr>"

text \<open>The steps of writing a file that may fail; the file of a written document parses in the new format, and in the old one
  only if it holds no number.\<close>

datatype io_step = IO_create | IO_write | IO_rename

definition doc_file :: "InodeMapData \<Rightarrow> json_file" where
  "doc_file d = \<lparr>jf_v2 = Some d, jf_v1 = (if md_Files d = [] \<and> md_Dirs d = []
     then Some \<lparr>m1_Version = md_Version d, m1_Files = [], m1_Dirs = [], m1_FilenameIndex = md_FilenameIndex d\<rparr> else None)\<rparr>"

text \<open>\<^verbatim>\<open>saveToJSON\<close>: a temporary file, then a rename. The result is whether there was no error, the file and the map.\<close>

definition saveToJSON :: "io_step option \<Rightarrow> json_file option \<Rightarrow> InodeMap \<Rightarrow> bool \<times> json_file option \<times> InodeMap" where
  "saveToJSON failure file im =
     (case failure of Some _ \<Rightarrow> (False, file, im) | None \<Rightarrow> (True, Some (doc_file (map_data im)), setDirty False im))"

definition load_entry :: "hasher \<Rightarrow> InodeEntry \<Rightarrow> InodeMap \<Rightarrow> InodeMap" where
  "load_entry xx e im =
     (case ie_Type e of
        RFile \<Rightarrow> (let key = colon_key (ie_Infohash e) (ie_FileIdx e)
                  in put_fast xx (ie_Basename e) (ie_InodeValue e) (put_file xx key (ie_InodeValue e) (put_name xx (ie_FullPath e) key im)))
      | RDir \<Rightarrow> put_dir xx (ie_RelPath e) (ie_InodeValue e) im)"

text \<open>\<^verbatim>\<open>loadFromDB\<close>: \<open>None\<close> for a table that cannot be read.\<close>

definition loadFromDB :: "hasher \<Rightarrow> inode_row list option \<Rightarrow> InodeMap \<Rightarrow> bool \<times> InodeMap" where
  "loadFromDB xx table im = (case table of None \<Rightarrow> (False, im) | Some t \<Rightarrow> (True, fold (load_entry xx) (LoadAll t) im))"

definition LoadFromDisk :: "hasher \<Rightarrow> inode_row list option option \<Rightarrow> json_file option \<Rightarrow> InodeMap \<Rightarrow> bool \<times> InodeMap" where
  "LoadFromDisk xx db file im = (case db of Some table \<Rightarrow> loadFromDB xx table im | None \<Rightarrow> loadFromJSON xx file im)"

text \<open>The split of a key at its first colon, and the rows that \<^verbatim>\<open>saveToDB\<close> hands to the insert statements, in order.\<close>

definition split_key :: "string \<Rightarrow> string \<times> int" where
  "split_key key =
     (let h = takeWhile (\<lambda>c. c \<noteq> CHR '':'') key; rest = dropWhile (\<lambda>c. c \<noteq> CHR '':'') key
      in if rest = [] then (key, 0) else (h, case parse_int64 (tl rest) of None \<Rightarrow> 0 | Some i \<Rightarrow> i))"

definition key_to_path :: "InodeMap \<Rightarrow> (string \<times> string) list" where
  "key_to_path im = fold (\<lambda>(p, key) m. AList.update key p m) (concat (map is_nameMap (im_shards im))) []"

definition map_file_row :: "(string \<times> string) list \<Rightarrow> string \<times> u64 \<Rightarrow> inode_row" where
  "map_file_row keyToPath kv =
     (let (key, inode) = kv; (h, i) = split_key key
      in file_row (case map_of keyToPath key of None \<Rightarrow> [] | Some p \<Rightarrow> p) h i inode)"

definition db_rows :: "InodeMap \<Rightarrow> inode_row list" where
  "db_rows im = concat (map (\<lambda>s. map (map_file_row (key_to_path im)) (is_fileMap s) @ map (\<lambda>(p, v). dir_row p v) (is_dirMap s)) (im_shards im))"

text \<open>\<^verbatim>\<open>saveToDB\<close>: \<open>ok\<close> is whether every statement and the commit succeed; otherwise the transaction is rolled back.\<close>

definition saveToDB :: "bool \<Rightarrow> inode_row list \<Rightarrow> InodeMap \<Rightarrow> bool \<times> inode_row list \<times> InodeMap" where
  "saveToDB ok table im =
     (if ok then (True, fold (insert_or_replace inode_clash) (db_rows im) [], setDirty False im) else (False, table, im))"

text \<open>The map in memory with what is stored of it: the JSON file and the table. \<open>db\<close> is whether the database is used.\<close>

record im_system =
  sy_map :: InodeMap
  sy_file :: "json_file option"
  sy_table :: "inode_row list"

definition SaveToDisk :: "bool \<Rightarrow> io_step option \<Rightarrow> bool \<Rightarrow> im_system \<Rightarrow> bool \<times> im_system" where
  "SaveToDisk db failure commits s =
     (if db then (let (ok, t, im) = saveToDB commits (sy_table s) (sy_map s) in (ok, s\<lparr>sy_map := im, sy_table := t\<rparr>))
      else (let (ok, f, im) = saveToJSON failure (sy_file s) (sy_map s) in (ok, s\<lparr>sy_map := im, sy_file := f\<rparr>)))"

text \<open>What the background saver does at a tick and when it is stopped.\<close>

definition saver_tick :: "bool \<Rightarrow> io_step option \<Rightarrow> bool \<Rightarrow> im_system \<Rightarrow> im_system" where
  "saver_tick db failure commits s = (if IsDirty (sy_map s) then snd (SaveToDisk db failure commits s) else s)"

definition Stop :: "bool \<Rightarrow> io_step option \<Rightarrow> bool \<Rightarrow> im_system \<Rightarrow> im_system" where
  "Stop db failure commits s =
     (if im_stopped (sy_map s) then s
      else saver_tick db failure commits (s\<lparr>sy_map := (sy_map s)\<lparr>im_stopped := True\<rparr>\<rparr>))"

section \<open>Stream addresses and the global map\<close>

definition is_hex :: "char \<Rightarrow> bool" where
  "is_hex c \<longleftrightarrow> (let n = (of_char c :: nat) in 97 \<le> n \<and> n \<le> 102 \<or> 65 \<le> n \<and> n \<le> 70 \<or> 48 \<le> n \<and> n \<le> 57)"

text \<open>The leftmost match of \<^verbatim>\<open>link=([a-fA-F0-9]{40})\<close>, and of \<^verbatim>\<open>index=(\d+)\<close>.\<close>

fun find_link :: "string \<Rightarrow> string option" where
  "find_link s =
     (let g = take 40 (drop 5 s)
      in if take 5 s = ''link='' \<and> length g = 40 \<and> list_all is_hex g then Some g
         else (case s of [] \<Rightarrow> None | _ # s' \<Rightarrow> find_link s'))"

fun find_index :: "string \<Rightarrow> string option" where
  "find_index s =
     (let g = takeWhile is_digit (drop 6 s)
      in if take 6 s = ''index='' \<and> g \<noteq> [] then Some g
         else (case s of [] \<Rightarrow> None | _ # s' \<Rightarrow> find_index s'))"

declare find_link.simps [simp del] find_index.simps [simp del]

definition ExtractHashAndIndex :: "string \<Rightarrow> string \<times> int" where
  "ExtractHashAndIndex url =
     (case find_link url of None \<Rightarrow> [] | Some h \<Rightarrow> ToLower h,
      case find_index url of None \<Rightarrow> 0 | Some d \<Rightarrow> (case parse_int64 d of None \<Rightarrow> 0 | Some i \<Rightarrow> i))"

text \<open>The global map is \<open>None\<close> before it is initialised.\<close>

definition getFileInodeFromMap :: "hasher \<Rightarrow> string \<Rightarrow> InodeMap option \<Rightarrow> u64 \<times> InodeMap option" where
  "getFileInodeFromMap xx fullPath g =
     (let fallback = hashFilenameToInode xx (filepath_Base fullPath) AND InodeFileMask
      in case g of None \<Rightarrow> (fallback, None)
         | Some im \<Rightarrow>
             (let (i1, im1) = GetFileInode xx fullPath im
              in if i1 \<noteq> 0 then (i1, Some im1)
                 else (let (i2, im2) = GetFileInodeByName xx (filepath_Base fullPath) im1
                       in if i2 \<noteq> 0 then (i2, Some im2) else (fallback, Some im2))))"

definition getDirInodeFromMap :: "hasher \<Rightarrow> string \<Rightarrow> InodeMap option \<Rightarrow> u64 \<times> InodeMap option" where
  "getDirInodeFromMap xx p g =
     (case g of None \<Rightarrow> (generateDirInode xx p, None) | Some im \<Rightarrow> (let (i, im1) = GetDirInode xx p im in (i, Some im1)))"

definition addFileToInodeMap :: "hasher \<Rightarrow> string \<Rightarrow> string \<Rightarrow> InodeMap option \<Rightarrow> u64 \<times> InodeMap option" where
  "addFileToInodeMap xx fullPath url g =
     (case g of None \<Rightarrow> (0, None)
      | Some im \<Rightarrow>
          (let (hash, index) = ExtractHashAndIndex url
           in if hash = [] then (0, Some im) else (let (i, im1) = AddFile xx fullPath hash index im in (i, Some im1))))"

section \<open>Lookups and updates\<close>

text \<open>Well-formed maps: thirty-two shards, every key in its own shard, no key twice. The root directory is pre-set in the
  first shard whatever its hash.\<close>

definition shard_ok :: "hasher \<Rightarrow> nat \<Rightarrow> (string \<times> 'v) list \<Rightarrow> bool" where
  "shard_ok xx i m \<longleftrightarrow> distinct (map fst m) \<and> (\<forall>k \<in> fst ` set m. shard_idx xx 31 k = i)"

definition dirs_ok :: "hasher \<Rightarrow> nat \<Rightarrow> (string \<times> u64) list \<Rightarrow> bool" where
  "dirs_ok xx i m \<longleftrightarrow> distinct (map fst m) \<and> (\<forall>k \<in> fst ` set m. shard_idx xx 31 k = i \<or> i = 0 \<and> k = ''/'')
     \<and> (\<forall>v. (''/'', v) \<in> set m \<longrightarrow> v = InodeRoot)"

definition shards_ok :: "hasher \<Rightarrow> inodeShard list \<Rightarrow> bool" where
  "shards_ok xx ss \<longleftrightarrow> length ss = 32 \<and> (\<forall>i < 32. shard_ok xx i (is_fileMap (ss ! i)) \<and> shard_ok xx i (is_nameMap (ss ! i)) \<and>
     shard_ok xx i (is_fastFileMap (ss ! i)) \<and> dirs_ok xx i (is_dirMap (ss ! i)))"

lemma shards_ok_upd:
  assumes "shards_ok xx ss" "i < 32"
    and "shard_ok xx i (is_fileMap s)" "shard_ok xx i (is_nameMap s)" "shard_ok xx i (is_fastFileMap s)" "dirs_ok xx i (is_dirMap s)"
  shows "shards_ok xx (ss[i := s])"
  using assms by (auto simp: shards_ok_def nth_list_update)

lemma shard_ok_update: "shard_ok xx (shard_idx xx 31 k) m \<Longrightarrow> shard_ok xx (shard_idx xx 31 k) (AList.update k v m)"
  by (auto simp: shard_ok_def distinct_update AList.dom_update)

lemma shard_ok_delete: "shard_ok xx i m \<Longrightarrow> shard_ok xx i (AList.delete k m)"
  unfolding shard_ok_def set_map [symmetric] AList.delete_keys by (auto simp: distinct_removeAll)


lemma getShard_on_shard:
  assumes "length (im_shards im) = 32"
  shows "im_getShard xx k (on_shard xx j f im) = (if shard_idx xx 31 k = shard_idx xx 31 j then f (im_getShard xx k im) else im_getShard xx k im)"
  using assms shard_idx_less [of xx j] by (auto simp: im_getShard_def on_shard_def nth_list_update)

lemma length_on_shard [simp]: "length (im_shards (on_shard xx j f im)) = length (im_shards im)"
  by (simp add: on_shard_def)

lemmas look_defs = look_name_def look_file_def look_fast_def look_dir_def
lemmas put_defs = put_name_def put_file_def put_fast_def put_dir_def

lemma look_put [simp]:
  assumes "length (im_shards im) = 32"
  shows "look_name xx (put_name xx p v im) = (look_name xx im)(p \<mapsto> v)" "look_file xx (put_name xx p v im) = look_file xx im"
    "look_fast xx (put_name xx p v im) = look_fast xx im" "look_dir xx (put_name xx p v im) = look_dir xx im"
    "look_name xx (put_file xx k w im) = look_name xx im" "look_file xx (put_file xx k w im) = (look_file xx im)(k \<mapsto> w)"
    "look_fast xx (put_file xx k w im) = look_fast xx im" "look_dir xx (put_file xx k w im) = look_dir xx im"
    "look_name xx (put_fast xx n w im) = look_name xx im" "look_file xx (put_fast xx n w im) = look_file xx im"
    "look_fast xx (put_fast xx n w im) = (look_fast xx im)(n \<mapsto> w)" "look_dir xx (put_fast xx n w im) = look_dir xx im"
    "look_name xx (put_dir xx d w im) = look_name xx im" "look_file xx (put_dir xx d w im) = look_file xx im"
    "look_fast xx (put_dir xx d w im) = look_fast xx im" "look_dir xx (put_dir xx d w im) = (look_dir xx im)(d \<mapsto> w)"
  using assms by (auto simp: fun_eq_iff look_defs put_defs getShard_on_shard AList.update_conv')

lemma length_put [simp]:
  "length (im_shards (put_name xx p v im)) = length (im_shards im)" "length (im_shards (put_file xx k w im)) = length (im_shards im)"
  "length (im_shards (put_fast xx n w im)) = length (im_shards im)" "length (im_shards (put_dir xx d w im)) = length (im_shards im)"
  by (simp_all add: put_defs)

lemma look_cong: "im_shards a = im_shards b \<Longrightarrow> look_name xx a = look_name xx b \<and> look_file xx a = look_file xx b \<and>
    look_fast xx a = look_fast xx b \<and> look_dir xx a = look_dir xx b"
  by (simp add: fun_eq_iff look_defs im_getShard_def)

lemma look_setDirty [simp]:
  "look_name xx (setDirty b im) = look_name xx im" "look_file xx (setDirty b im) = look_file xx im"
  "look_fast xx (setDirty b im) = look_fast xx im" "look_dir xx (setDirty b im) = look_dir xx im" "im_shards (setDirty b im) = im_shards im"
  using look_cong [of "setDirty b im" im] by (auto simp: setDirty_def)

lemma getShard_ok:
  assumes "shards_ok xx (im_shards im)"
  shows "shard_ok xx (shard_idx xx 31 k) (is_fileMap (im_getShard xx k im))" "shard_ok xx (shard_idx xx 31 k) (is_nameMap (im_getShard xx k im))"
    "shard_ok xx (shard_idx xx 31 k) (is_fastFileMap (im_getShard xx k im))" "dirs_ok xx (shard_idx xx 31 k) (is_dirMap (im_getShard xx k im))"
  using assms shard_idx_less [of xx k] by (auto simp: shards_ok_def im_getShard_def)

lemma set_update_subset: "set (AList.update d w m) \<subseteq> insert (d, w) (set m)"
  by (induction m) auto

lemma shards_ok_put:
  assumes ok: "shards_ok xx (im_shards im)"
  shows "shards_ok xx (im_shards (put_name xx p v im))" "shards_ok xx (im_shards (put_file xx k w im))"
    "shards_ok xx (im_shards (put_fast xx n w im))"
    "(d = ''/'' \<longrightarrow> w = InodeRoot) \<Longrightarrow> shards_ok xx (im_shards (put_dir xx d w im))"
proof -
  note g = getShard_ok [OF ok] and u = shards_ok_upd [OF ok shard_idx_less]
  show "shards_ok xx (im_shards (put_name xx p v im))" "shards_ok xx (im_shards (put_file xx k w im))"
    "shards_ok xx (im_shards (put_fast xx n w im))"
    unfolding put_defs on_shard_def by (auto intro!: u shard_ok_update g)
  assume d: "d = ''/'' \<longrightarrow> w = InodeRoot"
  have k: "fst ` set (AList.update d w m) = insert d (fst ` set m)" for m :: "(string \<times> u64) list" by (simp add: AList.dom_update)
  have "dirs_ok xx (shard_idx xx 31 d) (AList.update d w (is_dirMap (im_getShard xx d im)))"
    unfolding dirs_ok_def k
  proof (intro conjI ballI allI impI)
    show "distinct (map fst (AList.update d w (is_dirMap (im_getShard xx d im))))" using g(4) [of d] by (simp add: dirs_ok_def distinct_update)
    show "v = InodeRoot" if "(''/'', v) \<in> set (AList.update d w (is_dirMap (im_getShard xx d im)))" for v
      using that d g(4) [of d] set_update_subset [of d w "is_dirMap (im_getShard xx d im)"] unfolding dirs_ok_def by blast
  qed (use g(4) [of d] in \<open>auto simp: dirs_ok_def\<close>)
  then show "shards_ok xx (im_shards (put_dir xx d w im))"
    unfolding put_defs on_shard_def by (auto intro!: u g)
qed

text \<open>Deletions.\<close>

definition del_name :: "hasher \<Rightarrow> string \<Rightarrow> InodeMap \<Rightarrow> InodeMap" where
  "del_name xx p = on_shard xx p (\<lambda>s. s\<lparr>is_nameMap := AList.delete p (is_nameMap s)\<rparr>)"

definition del_file :: "hasher \<Rightarrow> string \<Rightarrow> InodeMap \<Rightarrow> InodeMap" where
  "del_file xx k = on_shard xx k (\<lambda>s. s\<lparr>is_fileMap := AList.delete k (is_fileMap s)\<rparr>)"

definition del_fast :: "hasher \<Rightarrow> string \<Rightarrow> InodeMap \<Rightarrow> InodeMap" where
  "del_fast xx n = on_shard xx n (\<lambda>s. s\<lparr>is_fastFileMap := AList.delete n (is_fastFileMap s)\<rparr>)"

lemmas del_defs = del_name_def del_file_def del_fast_def

lemma look_del [simp]:
  assumes "length (im_shards im) = 32"
  shows "look_name xx (del_name xx p im) = (look_name xx im)(p := None)" "look_file xx (del_name xx p im) = look_file xx im"
    "look_fast xx (del_name xx p im) = look_fast xx im" "look_dir xx (del_name xx p im) = look_dir xx im"
    "look_name xx (del_file xx k im) = look_name xx im" "look_file xx (del_file xx k im) = (look_file xx im)(k := None)"
    "look_fast xx (del_file xx k im) = look_fast xx im" "look_dir xx (del_file xx k im) = look_dir xx im"
    "look_name xx (del_fast xx n im) = look_name xx im" "look_file xx (del_fast xx n im) = look_file xx im"
    "look_fast xx (del_fast xx n im) = (look_fast xx im)(n := None)" "look_dir xx (del_fast xx n im) = look_dir xx im"
  using assms by (auto simp: fun_eq_iff look_defs del_defs getShard_on_shard AList.delete_conv')

lemma shards_ok_del:
  assumes ok: "shards_ok xx (im_shards im)"
  shows "shards_ok xx (im_shards (del_name xx p im))" "shards_ok xx (im_shards (del_file xx k im))" "shards_ok xx (im_shards (del_fast xx n im))"
proof -
  note g = getShard_ok [OF ok] and u = shards_ok_upd [OF ok shard_idx_less]
  show "shards_ok xx (im_shards (del_name xx p im))" "shards_ok xx (im_shards (del_file xx k im))" "shards_ok xx (im_shards (del_fast xx n im))"
    unfolding del_defs on_shard_def by (auto intro!: u shard_ok_delete g)
qed

lemma RemoveFile_eq:
  "RemoveFile xx p im =
     (case look_name xx im p of None \<Rightarrow> im
      | Some key \<Rightarrow>
          (let im2 = del_file xx key (del_name xx p im)
           in setDirty True (if look_fast xx im2 (filepath_Base p) = Some (case look_file xx (del_name xx p im) key of None \<Rightarrow> 0 | Some i \<Rightarrow> i)
                             then del_fast xx (filepath_Base p) im2 else im2)))"
  unfolding RemoveFile_def del_defs Let_def by (rule refl)


section \<open>The invariant\<close>

text \<open>Every inode is a function of its content key or of its path, with bit 63 telling files from directories.\<close>

definition key_ok :: "string \<Rightarrow> bool" where
  "key_ok k \<longleftrightarrow> (\<exists>h i. k = colon_key h i \<and> CHR '':'' \<notin> set h \<and> - (2 ^ 63) \<le> i \<and> i < 2 ^ 63)"

definition im_inv :: "hasher \<Rightarrow> InodeMap \<Rightarrow> bool" where
  "im_inv xx im \<longleftrightarrow> shards_ok xx (im_shards im)
     \<and> (\<forall>k v. look_file xx im k = Some v \<longrightarrow> v = xx k AND InodeFileMask \<and> key_ok k)
     \<and> (\<forall>n v. look_fast xx im n = Some v \<longrightarrow> \<not> bit v 63)
     \<and> (\<forall>p v. look_dir xx im p = Some v \<longrightarrow> v = generateDirInode xx p)"

lemma im_invD:
  assumes "im_inv xx im"
  shows "shards_ok xx (im_shards im)" "length (im_shards im) = 32"
    "look_file xx im k = Some v \<Longrightarrow> v = xx k AND InodeFileMask \<and> key_ok k"
    "look_fast xx im n = Some v \<Longrightarrow> \<not> bit v 63" "look_dir xx im p = Some v \<Longrightarrow> v = generateDirInode xx p"
  using assms by (auto simp: im_inv_def shards_ok_def)

lemma file_mask_bit: "\<not> bit (w AND InodeFileMask) 63"
  by (simp add: bit_and_iff)

lemma dir_inode_bit: "generateDirInode xx p = InodeRoot \<or> bit (generateDirInode xx p) 63"
  by (simp add: generateDirInode_def bit_or_iff)

lemma im_inv_cong: "im_shards im' = im_shards im \<Longrightarrow> im_inv xx im' = im_inv xx im"
  using look_cong [of im' im xx] by (simp add: im_inv_def)

lemma im_inv_upd [simp]:
  "im_inv xx (setDirty b im) = im_inv xx im" "im_inv xx (im\<lparr>im_hits := h\<rparr>) = im_inv xx im" "im_inv xx (im\<lparr>im_misses := h\<rparr>) = im_inv xx im"
  "im_inv xx (im\<lparr>im_stopped := b\<rparr>) = im_inv xx im"
  by (rule im_inv_cong, simp)+

lemma im_inv_addLoaded:
  assumes "im_inv xx im" "v = xx key AND InodeFileMask" "key_ok key"
  shows "im_inv xx (put_fast xx n v (put_file xx key v (put_name xx p key im)))"
  using im_invD [OF assms(1)] assms(2,3) shards_ok_put file_mask_bit by (auto simp: im_inv_def split: if_splits)

lemma im_inv_put_dir:
  assumes "im_inv xx im" "v = generateDirInode xx p"
  shows "im_inv xx (put_dir xx p v im)"
proof -
  have "p = ''/'' \<longrightarrow> v = InodeRoot" using assms(2) by (simp add: generateDirInode_def)
  then show ?thesis using im_invD [OF assms(1)] assms(2) shards_ok_put(4) by (auto simp: im_inv_def split: if_splits)
qed

lemma im_inv_del:
  assumes "im_inv xx im"
  shows "im_inv xx (del_name xx p im)" "im_inv xx (del_file xx k im)" "im_inv xx (del_fast xx n im)"
  using im_invD [OF assms] shards_ok_del by (auto simp: im_inv_def split: if_splits)

lemma im_inv_AddFile: "im_inv xx im \<Longrightarrow> key_ok (colon_key (ToLower h) i) \<Longrightarrow> im_inv xx (snd (AddFile xx p h i im))"
  using im_inv_addLoaded [of xx im "generateFileInode xx h i" "colon_key (ToLower h) i" "filepath_Base p" p]
  by (simp add: AddFile_def Let_def generateFileInode_def)

lemma im_inv_AddDir: "im_inv xx im \<Longrightarrow> im_inv xx (snd (AddDir xx p im))"
  using im_inv_put_dir [of xx im "generateDirInode xx p" p] by (simp add: AddDir_def Let_def)

lemma im_inv_RemoveFile: "im_inv xx im \<Longrightarrow> im_inv xx (RemoveFile xx p im)"
  unfolding RemoveFile_eq Let_def
  by (simp add: im_inv_del split: option.split)

lemma im_inv_Get:
  "im_inv xx im \<Longrightarrow> im_inv xx (snd (GetFileInode xx p im))" "im_inv xx im \<Longrightarrow> im_inv xx (snd (GetFileInodeByName xx p im))"
  "im_inv xx im \<Longrightarrow> im_inv xx (snd (GetDirInode xx p im))"
  using im_inv_AddDir [of xx im p]
  by (simp_all add: GetFileInode_def GetFileInodeByName_def GetDirInode_def split: option.split)

lemma im_inv_Prune: "im_inv xx im \<Longrightarrow> im_inv xx (fst (snd (PruneMissing xx found im db)))"
proof -
  have "im_inv xx im \<Longrightarrow> im_inv xx (fold (RemoveFile xx) ps im)" for ps
    by (induction ps arbitrary: im) (simp_all add: im_inv_RemoveFile)
  moreover assume "im_inv xx im"
  ultimately show ?thesis by (simp add: PruneMissing_def Let_def)
qed

lemma shard_ok_Nil [simp]: "shard_ok xx i []"
  by (simp add: shard_ok_def)

lemma im_inv_New: "im_inv xx NewInodeMap"
proof -
  have s: "im_shards NewInodeMap ! i = (if i = 0 then empty_shard\<lparr>is_dirMap := [(''/'', InodeRoot)]\<rparr> else empty_shard)" if "i < 32" for i
    using that by (simp add: NewInodeMap_def nth_list_update)
  have "shards_ok xx (im_shards NewInodeMap)"
    unfolding shards_ok_def
  proof (intro conjI allI impI)
    show "length (im_shards NewInodeMap) = 32" by (simp add: NewInodeMap_def)
  qed (simp_all add: s empty_shard_def dirs_ok_def)
  moreover have "im_getShard xx k NewInodeMap = (if shard_idx xx 31 k = 0 then empty_shard\<lparr>is_dirMap := [(''/'', InodeRoot)]\<rparr> else empty_shard)" for k
    unfolding im_getShard_def by (rule s [OF shard_idx_less])
  then have "look_file xx NewInodeMap k = None" "look_fast xx NewInodeMap k = None"
    "look_dir xx NewInodeMap k = (if shard_idx xx 31 k = 0 \<and> k = ''/'' then Some InodeRoot else None)" for k
    by (auto simp: look_defs empty_shard_def)
  ultimately show ?thesis by (simp add: im_inv_def generateDirInode_def)
qed

section \<open>Saving and loading\<close>

text \<open>Lists of entries sorted into buckets by a function of their keys.\<close>

fun bucketed :: "('k \<Rightarrow> nat) \<Rightarrow> nat \<Rightarrow> ('k \<times> 'v) list list \<Rightarrow> bool" where
  "bucketed f n [] = True"
| "bucketed f n (xs # xss) = ((\<forall>k \<in> fst ` set xs. f k = n) \<and> bucketed f (Suc n) xss)"

lemma bucketed_nth: "bucketed f n xss \<longleftrightarrow> (\<forall>i < length xss. \<forall>k \<in> fst ` set (xss ! i). f k = n + i)"
proof (induction xss arbitrary: n)
  case (Cons xs xss)
  have "(\<forall>i < Suc (length xss). \<forall>k \<in> fst ` set ((xs # xss) ! i). f k = n + i) \<longleftrightarrow>
      (\<forall>k \<in> fst ` set xs. f k = n) \<and> (\<forall>i < length xss. \<forall>k \<in> fst ` set (xss ! i). f k = n + Suc i)"
    by (simp only: All_less_Suc2) simp
  then show ?case using Cons by simp
qed simp

lemma bucketed_ge: "bucketed f n xss \<Longrightarrow> k \<in> fst ` set (concat xss) \<Longrightarrow> n \<le> f k"
  by (induction f n xss rule: bucketed.induct) (auto dest: Suc_leD)

lemma bucketed_map_of:
  assumes "bucketed f n xss" "n \<le> f k" "f k < n + length xss"
  shows "map_of (concat xss) k = map_of (xss ! (f k - n)) k"
  using assms
proof (induction f n xss rule: bucketed.induct)
  case (2 f n xs xss)
  show ?case
  proof (cases "f k = n")
    case True
    then have "k \<notin> fst ` set (concat xss)" using bucketed_ge [of f "Suc n" xss k] 2(2) by auto
    then have "map_of (concat xss) k = None" by (simp add: map_of_eq_None_iff)
    then show ?thesis using True by (auto simp: map_add_def split: option.split)
  next
    case False
    then have "map_of xs k = None" using 2(2) by (auto simp: map_of_eq_None_iff)
    moreover have "map_of (concat xss) k = map_of (xss ! (f k - Suc n)) k" using 2 False by simp
    ultimately show ?thesis using False 2(3) by (simp add: map_add_def nth_Cons' split: option.split)
  qed
qed simp

lemma bucketed_distinct:
  "bucketed f n xss \<Longrightarrow> \<forall>xs \<in> set xss. distinct (map fst xs) \<Longrightarrow> distinct (map fst (concat xss))"
proof (induction f n xss rule: bucketed.induct)
  case (2 f n xs xss)
  have "fst ` set xs \<inter> fst ` set (concat xss) = {}" using bucketed_ge [of f "Suc n" xss] 2(2) by fastforce
  then show ?case using 2 by simp
qed simp

lemma shards_bucketed:
  assumes "shards_ok xx (im_shards im)"
  shows "bucketed (shard_idx xx 31) 0 (map is_fileMap (im_shards im))" "bucketed (shard_idx xx 31) 0 (map is_nameMap (im_shards im))"
    "\<forall>xs \<in> set (map is_nameMap (im_shards im)). distinct (map fst xs)"
  using assms by (auto simp: bucketed_nth shards_ok_def shard_ok_def in_set_conv_nth)

lemma merged_look:
  assumes "shards_ok xx (im_shards im)"
  shows "map_of (concat (map is_fileMap (im_shards im))) k = look_file xx im k"
    and "map_of (concat (map is_nameMap (im_shards im))) k = look_name xx im k"
    and "distinct (map fst (concat (map is_nameMap (im_shards im))))"
proof -
  have l: "shard_idx xx 31 k < length (im_shards im)" using assms shard_idx_less [of xx k] by (simp add: shards_ok_def)
  note b = shards_bucketed [OF assms]
  show "map_of (concat (map is_fileMap (im_shards im))) k = look_file xx im k"
    using bucketed_map_of [OF b(1), of k] l by (simp add: look_file_def im_getShard_def)
  show "map_of (concat (map is_nameMap (im_shards im))) k = look_name xx im k"
    using bucketed_map_of [OF b(2), of k] l by (simp add: look_name_def im_getShard_def)
  show "distinct (map fst (concat (map is_nameMap (im_shards im))))" by (rule bucketed_distinct [OF b(2,3)])
qed

lemma parse_format: "parse_entries (format_entries m) = m"
proof (induction m)
  case (Cons kv m)
  have "unat (snd kv) < 2 ^ 64" using unsigned_less [of "snd kv"] by simp
  then show ?case using Cons by (cases kv) (simp add: parse_entries_def format_entries_def List.map_filter_def)
qed (simp add: parse_entries_def format_entries_def List.map_filter_def)


lemma load_names_Cons:
  "load_names xx files ((p, key) # names) im =
     load_names xx files names (case files key of None \<Rightarrow> im | Some inode \<Rightarrow> addLoadedFile xx p key inode im)"
  by (simp add: load_names_def)

lemma length_addLoaded [simp]: "length (im_shards (addLoadedFile xx p key v im)) = length (im_shards im)"
  by (simp add: addLoadedFile_def)



lemma im_inv_load_names:
  "im_inv xx im \<Longrightarrow> \<forall>k v. files k = Some v \<longrightarrow> v = xx k AND InodeFileMask \<and> key_ok k \<Longrightarrow> im_inv xx (load_names xx files names im)"
proof (induction names arbitrary: im)
  case (Cons pk names)
  have "im_inv xx (case files (snd pk) of None \<Rightarrow> im | Some v \<Rightarrow> addLoadedFile xx (fst pk) (snd pk) v im)"
    using Cons(2,3) by (auto simp: addLoadedFile_def intro: im_inv_addLoaded split: option.split)
  then show ?case using Cons(1,3) load_names_Cons [of xx files "fst pk" "snd pk" names im] by simp
qed (simp add: load_names_def)

lemma im_inv_load_dirs:
  "im_inv xx im \<Longrightarrow> \<forall>(p, v) \<in> set dirs. v = generateDirInode xx p \<Longrightarrow> im_inv xx (load_dirs xx dirs im)"
proof (induction dirs arbitrary: im)
  case (Cons pv dirs)
  then show ?case using im_inv_put_dir [of xx im "snd pv" "fst pv"] by (auto simp: load_dirs_def)
qed (simp add: load_dirs_def)

lemma stored_dirs:
  assumes "im_inv xx im" "s \<in> set (im_shards im)" "(p, v) \<in> set (is_dirMap s)"
  shows "v = generateDirInode xx p"
proof -
  obtain i where i: "i < 32" "s = im_shards im ! i" using assms(2) im_invD(2) [OF assms(1)] by (auto simp: in_set_conv_nth)
  have d: "dirs_ok xx i (is_dirMap s)" using im_invD(1) [OF assms(1)] i by (simp add: shards_ok_def)
  show ?thesis
  proof (cases "p = ''/''")
    case True
    then show ?thesis using d assms(3) by (auto simp: dirs_ok_def generateDirInode_def)
  next
    case False
    then have "shard_idx xx 31 p = i" using d assms(3) by (force simp: dirs_ok_def)
    then have "look_dir xx im p = Some v" using d assms(3) i by (simp add: look_dir_def im_getShard_def dirs_ok_def)
    then show ?thesis by (rule im_invD(5) [OF assms(1)])
  qed
qed

lemma stored_files:
  assumes "im_inv xx im" "s \<in> set (im_shards im)" "(k, v) \<in> set (is_fileMap s)"
  shows "v = xx k AND InodeFileMask \<and> key_ok k"
proof -
  obtain i where i: "i < 32" "s = im_shards im ! i" using assms(2) im_invD(2) [OF assms(1)] by (auto simp: in_set_conv_nth)
  have d: "shard_ok xx i (is_fileMap s)" using im_invD(1) [OF assms(1)] i by (simp add: shards_ok_def)
  have "shard_idx xx 31 k = i" using d assms(3) by (force simp: shard_ok_def)
  then have "look_file xx im k = Some v" using d assms(3) i by (simp add: look_file_def im_getShard_def shard_ok_def)
  then show ?thesis by (rule im_invD(3) [OF assms(1)])
qed

lemma load_saved:
  "loadFromJSON xx (Some (doc_file (map_data im))) m =
     (True, load_dirs xx (concat (map is_dirMap (im_shards im)))
        (load_names xx (map_of (concat (map is_fileMap (im_shards im)))) (concat (map is_nameMap (im_shards im))) m))"
  by (simp add: loadFromJSON_def doc_file_def map_data_def parse_format)

lemma im_inv_load_saved:
  assumes "im_inv xx im"
  shows "im_inv xx (snd (loadFromJSON xx (Some (doc_file (map_data im))) NewInodeMap))"
proof -
  have "im_inv xx (load_names xx (map_of (concat (map is_fileMap (im_shards im)))) ns NewInodeMap)" for ns
    using merged_look(1) [OF im_invD(1) [OF assms]] im_invD(3) [OF assms] im_inv_New by (intro im_inv_load_names) auto
  then show ?thesis using stored_dirs [OF assms] unfolding load_saved by (auto intro!: im_inv_load_dirs)
qed

definition row_ok :: "hasher \<Rightarrow> InodeEntry \<Rightarrow> bool" where
  "row_ok xx e \<longleftrightarrow> (case ie_Type e of
      RFile \<Rightarrow> (let key = colon_key (ie_Infohash e) (ie_FileIdx e) in ie_InodeValue e = xx key AND InodeFileMask \<and> key_ok key)
    | RDir \<Rightarrow> ie_InodeValue e = generateDirInode xx (ie_RelPath e))"

lemma im_inv_load_rows: "im_inv xx im \<Longrightarrow> \<forall>e \<in> set es. row_ok xx e \<Longrightarrow> im_inv xx (fold (load_entry xx) es im)"
proof (induction es arbitrary: im)
  case (Cons e es)
  then have "im_inv xx (load_entry xx e im)"
    by (auto simp: load_entry_def row_ok_def Let_def intro: im_inv_addLoaded im_inv_put_dir split: row_type.splits)
  then show ?case using Cons by simp
qed simp

lemma split_colon_key:
  assumes "key_ok k"
  shows "colon_key (fst (split_key k)) (snd (split_key k)) = k"
proof -
  obtain h i where k: "k = colon_key h i" "CHR '':'' \<notin> set h" "- (2 ^ 63) \<le> i" "i < 2 ^ 63" using assms by (auto simp: key_ok_def)
  have "takeWhile (\<lambda>c. c \<noteq> CHR '':'') k = h" "dropWhile (\<lambda>c. c \<noteq> CHR '':'') k = CHR '':'' # show_int i"
    using k(2) by (auto simp: k(1) colon_key_def takeWhile_append dropWhile_append)
  then show ?thesis using k by (simp add: split_key_def)
qed

definition table_ok :: "hasher \<Rightarrow> inode_row list \<Rightarrow> bool" where
  "table_ok xx t \<longleftrightarrow> list_all (\<lambda>r. row_ok xx (load_row r)) t"

lemma rows_ok:
  assumes "im_inv xx im"
  shows "table_ok xx (fold (insert_or_replace inode_clash) (db_rows im) [])"
proof -
  have "row_ok xx (load_row (map_file_row kp (k, v)))" if "s \<in> set (im_shards im)" "(k, v) \<in> set (is_fileMap s)" for kp k v s
    using stored_files [OF assms that] split_colon_key [of k]
    by (simp add: row_ok_def map_file_row_def file_row_def load_row_def or_zero_def Let_def case_prod_beta)
  moreover have "row_ok xx (load_row (dir_row p v))" if "s \<in> set (im_shards im)" "(p, v) \<in> set (is_dirMap s)" for p v s
    using stored_dirs [OF assms that] by (simp add: row_ok_def dir_row_def load_row_def or_zero_def)
  ultimately have "\<forall>r \<in> set (db_rows im). row_ok xx (load_row r)" by (auto simp: db_rows_def)
  then show ?thesis using mig_rows_set [of inode_clash "db_rows im" "[]"] by (auto simp: table_ok_def list_all_iff)
qed

section \<open>The running system\<close>

text \<open>Every operation on the system. A restart loses the map in memory.\<close>

inductive im_step :: "hasher \<Rightarrow> im_system \<Rightarrow> im_system \<Rightarrow> bool" for xx where
  Add: "addFileToInodeMap xx p url (Some (sy_map s)) = (i, Some im) \<Longrightarrow> im_step xx s (s\<lparr>sy_map := im\<rparr>)"
| File: "getFileInodeFromMap xx p (Some (sy_map s)) = (i, Some im) \<Longrightarrow> im_step xx s (s\<lparr>sy_map := im\<rparr>)"
| Dir: "getDirInodeFromMap xx p (Some (sy_map s)) = (i, Some im) \<Longrightarrow> im_step xx s (s\<lparr>sy_map := im\<rparr>)"
| Remove: "im_step xx s (s\<lparr>sy_map := RemoveFile xx p (sy_map s)\<rparr>)"
| Prune: "PruneMissing xx found (sy_map s) (Some (sy_table s)) = (n, im, Some t) \<Longrightarrow> im_step xx s (s\<lparr>sy_map := im, sy_table := t\<rparr>)"
| PruneJSON: "PruneMissing xx found (sy_map s) None = (n, im, None) \<Longrightarrow> im_step xx s (s\<lparr>sy_map := im\<rparr>)"
| Tick: "im_step xx s (saver_tick db failure commits s)"
| Stops: "im_step xx s (Stop db failure commits s)"
| RestartJSON: "LoadFromDisk xx None (sy_file s) NewInodeMap = (ok, im) \<Longrightarrow> im_step xx s (s\<lparr>sy_map := im\<rparr>)"
| RestartDB: "LoadFromDisk xx (Some (Some (sy_table s))) f NewInodeMap = (ok, im) \<Longrightarrow> im_step xx s (s\<lparr>sy_map := im\<rparr>)"

definition im_first :: "im_system \<Rightarrow> bool" where
  "im_first s \<longleftrightarrow> s = \<lparr>sy_map = NewInodeMap, sy_file = None, sy_table = []\<rparr>"

definition sys_inv :: "hasher \<Rightarrow> im_system \<Rightarrow> bool" where
  "sys_inv xx s \<longleftrightarrow> im_inv xx (sy_map s) \<and> (\<forall>f. sy_file s = Some f \<longrightarrow> (\<exists>im. im_inv xx im \<and> f = doc_file (map_data im)))
     \<and> table_ok xx (sy_table s)"

lemma lower_hex_colon: "is_hex c \<Longrightarrow> lower c \<noteq> CHR '':''"
proof
  assume "is_hex c" "lower c = CHR '':''"
  then have "of_char (lower c) = (58 :: nat)" by simp
  then show False using \<open>is_hex c\<close> by (auto simp: is_hex_def lower_def Let_def split: if_splits)
qed

lemma find_link_hex: "find_link u = Some h \<Longrightarrow> list_all is_hex h"
  by (induction u) (subst (asm) find_link.simps, auto simp: Let_def split: if_splits list.splits)+

lemma extracted_key: "key_ok (colon_key (ToLower (fst (ExtractHashAndIndex u))) (snd (ExtractHashAndIndex u)))"
proof -
  have i: "- (2 ^ 63) \<le> snd (ExtractHashAndIndex u) \<and> snd (ExtractHashAndIndex u) < 2 ^ 63"
    by (auto simp: ExtractHashAndIndex_def parse_int64_def Let_def split: option.split)
  have "lower (lower c) = lower c" for c
    by (auto simp: lower_def Let_def)
  moreover have "CHR '':'' \<noteq> lower c" if "find_link u = Some h" "c \<in> set h" for h c
    using find_link_hex [OF that(1)] that(2) lower_hex_colon [of c] by (auto simp: list_all_iff)
  ultimately have "CHR '':'' \<notin> set (ToLower (fst (ExtractHashAndIndex u)))"
    by (cases "find_link u") (auto simp: ExtractHashAndIndex_def ToLower_def)
  then show ?thesis using i unfolding key_ok_def by blast
qed


lemma im_inv_globals:
  assumes "im_inv xx im"
  shows "addFileToInodeMap xx p u (Some im) = (i, Some im') \<Longrightarrow> im_inv xx im'"
    and "getFileInodeFromMap xx p (Some im) = (i, Some im') \<Longrightarrow> im_inv xx im'"
    and "getDirInodeFromMap xx p (Some im) = (i, Some im') \<Longrightarrow> im_inv xx im'"
proof -
  show "im_inv xx im'" if "addFileToInodeMap xx p u (Some im) = (i, Some im')"
    using that assms im_inv_AddFile [OF assms extracted_key [of u], of p]
    by (auto simp: addFileToInodeMap_def split: prod.splits if_splits)
  show "im_inv xx im'" if "getFileInodeFromMap xx p (Some im) = (i, Some im')"
  proof -
    have "im_inv xx (snd (GetFileInode xx p im))" by (rule im_inv_Get(1) [OF assms])
    moreover have "im_inv xx (snd (GetFileInodeByName xx (filepath_Base p) (snd (GetFileInode xx p im))))" by (rule im_inv_Get(2)) fact
    ultimately show ?thesis using that by (auto simp: getFileInodeFromMap_def Let_def split: prod.splits if_splits)
  qed
  show "im_inv xx im'" if "getDirInodeFromMap xx p (Some im) = (i, Some im')"
    using that im_inv_Get(3) [OF assms, of p] by (auto simp: getDirInodeFromMap_def split: prod.splits)
qed

lemma load_json_inv:
  assumes "\<forall>f. stored = Some f \<longrightarrow> (\<exists>im. im_inv xx im \<and> f = doc_file (map_data im))"
  shows "im_inv xx (snd (loadFromJSON xx stored NewInodeMap))"
proof -
  consider "stored = None" | im where "im_inv xx im" "stored = Some (doc_file (map_data im))" using assms by (cases "stored :: json_file option") auto
  then show ?thesis
  proof cases
    case 1
    then show ?thesis by (simp add: loadFromJSON_def im_inv_New)
  next
    case 2
    then show ?thesis using im_inv_load_saved by simp
  qed
qed

lemma sys_inv_save:
  assumes "sys_inv xx s"
  shows "sys_inv xx (snd (SaveToDisk db failure commits s))"
proof (cases db)
  case True
  then show ?thesis using assms rows_ok [of xx "sy_map s"] by (simp add: sys_inv_def SaveToDisk_def saveToDB_def)
next
  case False
  then show ?thesis using assms by (cases failure) (auto simp: sys_inv_def SaveToDisk_def saveToJSON_def)
qed

lemma sys_inv_tick: "sys_inv xx s \<Longrightarrow> sys_inv xx (saver_tick db failure commits s)"
  by (simp add: saver_tick_def sys_inv_save)

lemma sys_inv_Stop: "sys_inv xx s \<Longrightarrow> sys_inv xx (Stop db failure commits s)"
proof -
  assume "sys_inv xx s"
  then have "sys_inv xx (s\<lparr>sy_map := (sy_map s)\<lparr>im_stopped := True\<rparr>\<rparr>)" by (simp add: sys_inv_def)
  then show ?thesis using \<open>sys_inv xx s\<close> by (simp add: Stop_def sys_inv_tick)
qed

interpretation inode_map: step_invariant im_first "im_step xx" "sys_inv xx" for xx
proof
  show "sys_inv xx s" if "im_first s" for s
    using that by (simp add: im_first_def sys_inv_def im_inv_New table_ok_def)
  show "sys_inv xx t" if "sys_inv xx s" "im_step xx s t" for s t
    using that(2)
  proof cases
    case (Prune found n im t')
    have "table_ok xx t'"
      using Prune that(1) by (auto simp: sys_inv_def table_ok_def PruneMissing_def db_PruneMissing_def Let_def list_all_iff split: if_splits)
    then show ?thesis using that(1) im_inv_Prune [of xx "sy_map s" found "Some (sy_table s)"] Prune by (simp add: sys_inv_def)
  next
    case (PruneJSON found n im)
    then show ?thesis using that(1) im_inv_Prune [of xx "sy_map s" found None] by (simp add: sys_inv_def)
  next
    case Tick
    then show ?thesis using that(1) sys_inv_tick by simp
  next
    case Stops
    then show ?thesis using that(1) sys_inv_Stop by simp
  next
    case (RestartJSON ok im)
    then show ?thesis using that(1) load_json_inv [of "sy_file s" xx] by (simp add: sys_inv_def LoadFromDisk_def)
  next
    case (RestartDB f ok im)
    then show ?thesis using that(1) im_inv_load_rows [OF im_inv_New, of "LoadAll (sy_table s)" xx]
      by (auto simp: sys_inv_def LoadFromDisk_def loadFromDB_def table_ok_def LoadAll_def list_all_iff)
  qed (use that(1) in \<open>auto simp: sys_inv_def intro: im_inv_globals im_inv_RemoveFile\<close>)
qed



section \<open>Properties\<close>

lemma file_inode_bit:
  assumes "im_inv xx im"
  shows "\<not> bit (fst (getFileInodeFromMap xx p (Some im))) 63"
proof -
  have l: "look_fast xx (im\<lparr>im_misses := m\<rparr>) = look_fast xx im" for m using look_cong [of "im\<lparr>im_misses := m\<rparr>" im] by simp
  have "\<not> bit (fst (GetFileInode xx p im)) 63"
    using im_invD(3) [OF assms] file_mask_bit by (auto simp: GetFileInode_def Option.bind_eq_Some_conv split: option.split)
  moreover have "\<not> bit (fst (GetFileInodeByName xx n (snd (GetFileInode xx p im)))) 63" if "fst (GetFileInode xx p im) = 0" for n
    using im_invD(4) [OF im_inv_Get(1) [OF assms]] by (auto simp: GetFileInodeByName_def split: option.split)
  ultimately show ?thesis using file_mask_bit by (simp add: getFileInodeFromMap_def Let_def case_prod_beta)
qed

lemma dir_inode_fixed: "im_inv xx im \<Longrightarrow> fst (getDirInodeFromMap xx p (Some im)) = generateDirInode xx p"
  using im_invD(5) [of xx im p]
  by (auto simp: getDirInodeFromMap_def GetDirInode_def AddDir_def generateDirInode_def Let_def split: option.split)

text \<open>C6: In every state the system reaches, through any sequence of additions, lookups, removals, prunings, saves that may
  fail and restarts from either store, the inode of a file has bit 63 clear whatever path is asked for, the inode of a
  directory is the fixed function of its path also used before the map exists, and for other directories than the root it
  has bit 63 set: no file shares an inode with a directory.\<close>

theorem inode_namespaces:
  assumes "reachable im_first (im_step xx) s"
  shows "\<not> bit (fst (getFileInodeFromMap xx p (Some (sy_map s)))) 63
    \<and> fst (getDirInodeFromMap xx d (Some (sy_map s))) = fst (getDirInodeFromMap xx d None)
    \<and> (d \<noteq> ''/'' \<and> d \<noteq> [] \<longrightarrow> bit (fst (getDirInodeFromMap xx d (Some (sy_map s)))) 63)"
proof -
  have inv: "im_inv xx (sy_map s)" using inode_map.reachable_inv [OF assms] by (simp add: sys_inv_def)
  have "d \<noteq> ''/'' \<and> d \<noteq> [] \<longrightarrow> bit (generateDirInode xx d) 63" by (simp add: generateDirInode_def bit_or_iff)
  then show ?thesis unfolding dir_inode_fixed [OF inv] using file_inode_bit [OF inv] by (simp add: getDirInodeFromMap_def)
qed

definition sample_start :: im_system where
  "sample_start = \<lparr>sy_map = NewInodeMap, sy_file = None, sy_table = []\<rparr>"

lemma sample_reach: "reachable im_first (im_step xx) sample_start"
  by (rule reach_init) (simp add: im_first_def sample_start_def)

definition sample_added :: im_system where
  "sample_added = sample_start\<lparr>sy_map := the (snd (addFileToInodeMap (\<lambda>_. 77) ''/m/a.mkv''
     ''http://x/stream?link=0123456789abcdef0123456789abcdef01234567&index=3'' (Some NewInodeMap)))\<rparr>"

lemma sample_added_reach: "reachable im_first (im_step (\<lambda>_. 77)) sample_added"
proof -
  have "im_step (\<lambda>_. 77) sample_start sample_added"
    unfolding sample_added_def by (rule Add) (auto simp: sample_start_def addFileToInodeMap_def prod_eq_iff split: prod.split)
  then show ?thesis by (rule reach_step [OF sample_reach])
qed

theorem inode_namespaces_witness:
  "reachable im_first (im_step (\<lambda>_. 77)) sample_added
    \<and> \<not> bit (fst (getFileInodeFromMap (\<lambda>_. 77) ''/m/a.mkv'' (Some (sy_map sample_added)))) 63
    \<and> bit (fst (getDirInodeFromMap (\<lambda>_. 77) ''/m'' (Some (sy_map sample_added)))) 63"
  using inode_namespaces [OF sample_added_reach, of "''/m/a.mkv''" "''/m''"] sample_added_reach by auto




lemma look_AddFile:
  assumes "length (im_shards im) = 32" "h \<noteq> []"
  shows "look_name xx (snd (AddFile xx p h i im)) = (look_name xx im)(p \<mapsto> colon_key (ToLower h) i)"
    "length (im_shards (snd (AddFile xx p h i im))) = 32"
  using assms by (auto simp: AddFile_def Let_def fun_eq_iff)

lemma look_RemoveFile:
  assumes "length (im_shards im) = 32" "look_name xx im p = Some key"
  shows "look_name xx (RemoveFile xx p im) = (look_name xx im)(p := None)" "look_file xx (RemoveFile xx p im) = (look_file xx im)(key := None)"
proof -
  have l: "length (im_shards (del_name xx p im)) = 32" "length (im_shards (del_file xx key (del_name xx p im))) = 32"
    using assms(1) by (simp_all add: del_defs)
  show "look_name xx (RemoveFile xx p im) = (look_name xx im)(p := None)" "look_file xx (RemoveFile xx p im) = (look_file xx im)(key := None)"
    unfolding RemoveFile_eq using assms l by (simp_all add: Let_def)
qed

text \<open>When two paths name the same file of a torrent and one of them is removed, the inode shared by both is dropped:
  adding the other path again returns the inode but stores nothing, and looking it up by its path finds none.\<close>

theorem inode_alias_lost:
  assumes "reachable im_first (im_step xx) s" "h \<noteq> []" "p \<noteq> q"
    and "im1 = snd (AddFile xx q h i (snd (AddFile xx p h i (sy_map s))))"
    and "AddFile xx q h i (RemoveFile xx p im1) = (inode, im2)"
  shows "inode = generateFileInode xx h i \<and> im2 = RemoveFile xx p im1 \<and> fst (GetFileInode xx q im2) = 0"
proof -
  have "im_inv xx (sy_map s)" using inode_map.reachable_inv [OF assms(1)] by (simp add: sys_inv_def)
  then have l: "length (im_shards (sy_map s)) = 32" by (rule im_invD(2))
  note l1 = look_AddFile [OF l assms(2), where i = i and p = p and xx = xx]
  note l2 = look_AddFile [OF l1(2) assms(2), where i = i and p = q and xx = xx]
  have p: "look_name xx im1 p = Some (colon_key (ToLower h) i)" "look_name xx im1 q = Some (colon_key (ToLower h) i)"
    using l1 l2 assms(3,4) by simp_all
  have r: "look_name xx (RemoveFile xx p im1) q = Some (colon_key (ToLower h) i)"
    "look_file xx (RemoveFile xx p im1) (colon_key (ToLower h) i) = None"
    using look_RemoveFile [OF _ p(1)] l2(2) p(2) assms(3,4) by simp_all
  then have "inode = generateFileInode xx h i \<and> im2 = RemoveFile xx p im1"
    using assms(2,5) by (simp add: AddFile_def Let_def)
  then show ?thesis using r by (simp add: GetFileInode_def)
qed

theorem inode_alias_lost_witness:
  "fst (GetFileInode (\<lambda>_. 77) ''/m/b.mkv'' (snd (AddFile (\<lambda>_. 77) ''/m/b.mkv'' ''ab'' 0 (RemoveFile (\<lambda>_. 77) ''/m/a.mkv''
      (snd (AddFile (\<lambda>_. 77) ''/m/b.mkv'' ''ab'' 0 (snd (AddFile (\<lambda>_. 77) ''/m/a.mkv'' ''ab'' 0 NewInodeMap)))))))) = 0"
proof -
  have h: "''ab'' \<noteq> []" "''/m/a.mkv'' \<noteq> ''/m/b.mkv''" by simp_all
  show ?thesis
    using conjunct2 [OF conjunct2 [OF inode_alias_lost [OF sample_reach h refl prod.collapse [symmetric], where i = 0 and xx = "\<lambda>_. 77"]]]
    by (simp add: sample_start_def)
qed

end
