(* ===== verification/SyncCache.thy ===== *)
theory SyncCache
  imports StateDB
begin

text \<open>
  The caches of the synchronisation (\<^verbatim>\<open>synccache.go\<close>): hashes without a usable file and full packs already handled, in
  memory, with saving to the state database or, without it, to two JSON files, loading, clearing and the removal of stale
  entries. A JSON object is the list of its fields; the names of fields are matched without regard to case, as
  \<^verbatim>\<open>encoding/json\<close> does.
\<close>

section \<open>State\<close>

record NegativeCacheEntry =
  nc_Hash :: string
  nc_Timestamp :: time

record FullpackCacheEntry =
  fc_Hash :: string
  fc_Title :: string
  fc_ProcessedAt :: time

record SyncCacheManager =
  sc_negative :: "(string \<times> NegativeCacheEntry) list"
  sc_fullpack :: "(string \<times> FullpackCacheEntry) list"
  sc_dirty :: bool

definition NewSyncCacheManager :: SyncCacheManager where
  "NewSyncCacheManager = \<lparr>sc_negative = [], sc_fullpack = [], sc_dirty = False\<rparr>"

text \<open>What is stored: the two files and the table.\<close>

type_synonym json_obj = "(string \<times> string) list"
type_synonym json_doc = "(string \<times> json_obj) list"

record sync_disk =
  dk_negative :: "json_doc jfile"
  dk_fullpack :: "json_doc jfile"
  dk_table :: "cache_row list"

section \<open>JSON\<close>

text \<open>\<^verbatim>\<open>json.Marshal\<close> on the entries of the database package, whose fields have no tags.\<close>

definition marshal_neg :: "db_NegativeCacheEntry \<Rightarrow> json_obj" where
  "marshal_neg e = [(''Hash'', ne_Hash e), (''Timestamp'', ne_Timestamp e)]"

definition marshal_full :: "db_FullpackCacheEntry \<Rightarrow> json_obj" where
  "marshal_full e = [(''Hash'', fe_Hash e), (''Title'', fe_Title e), (''Timestamp'', fe_Timestamp e)]"

definition obj_field :: "string \<Rightarrow> json_obj \<Rightarrow> string option" where
  "obj_field name obj = map_of (rev (map (\<lambda>(k, v). (ToLower k, v)) obj)) (ToLower name)"

text \<open>The time of a field, the zero time when it is missing. The format of JSON times is stricter than that of \<^verbatim>\<open>Parse\<close>: two digits for the
  hour, a period before the fraction, and a zone below 24:00 with minutes below 60.\<close>

definition strict_time :: "string \<Rightarrow> bool" where
  "strict_time s \<longleftrightarrow> s ! 12 \<noteq> CHR '':'' \<and> s ! 19 \<noteq> CHR '','' \<and>
     (last s = CHR ''Z'' \<or> digits_val 0 (take 2 (drop (length s - 5) s)) < 24 \<and> digits_val 0 (drop (length s - 2) s) < 60)"

definition obj_time :: "string \<Rightarrow> json_obj \<Rightarrow> time option" where
  "obj_time name obj =
     (case obj_field name obj of None \<Rightarrow> Some 0
      | Some s \<Rightarrow> (case Parse s of None \<Rightarrow> None | Some t \<Rightarrow> if strict_time s then Some t else None))"

definition obj_text :: "string \<Rightarrow> json_obj \<Rightarrow> string" where
  "obj_text name obj = (case obj_field name obj of None \<Rightarrow> [] | Some s \<Rightarrow> s)"

definition unmarshal_neg :: "json_obj \<Rightarrow> NegativeCacheEntry option" where
  "unmarshal_neg obj = map_option (\<lambda>t. \<lparr>nc_Hash = obj_text ''hash'' obj, nc_Timestamp = t\<rparr>) (obj_time ''timestamp'' obj)"

definition unmarshal_full :: "json_obj \<Rightarrow> FullpackCacheEntry option" where
  "unmarshal_full obj =
     map_option (\<lambda>t. \<lparr>fc_Hash = obj_text ''hash'' obj, fc_Title = obj_text ''title'' obj, fc_ProcessedAt = t\<rparr>) (obj_time ''processed_at'' obj)"

text \<open>Decoding into a map adds to what it holds.\<close>

fun unmarshal_into :: "(json_obj \<Rightarrow> 'e option) \<Rightarrow> json_doc \<Rightarrow> (string \<times> 'e) list \<Rightarrow> (string \<times> 'e) list option" where
  "unmarshal_into f [] m = Some m"
| "unmarshal_into f ((k, obj) # doc) m = (case f obj of None \<Rightarrow> None | Some e \<Rightarrow> unmarshal_into f doc (AList.update k e m))"

definition load_file :: "(json_obj \<Rightarrow> 'e option) \<Rightarrow> json_doc jfile \<Rightarrow> (string \<times> 'e) list \<Rightarrow> (string \<times> 'e) list" where
  "load_file f file m =
     (case file of Doc doc \<Rightarrow> (case unmarshal_into f doc m of None \<Rightarrow> [] | Some m' \<Rightarrow> m') | _ \<Rightarrow> [])"

section \<open>Loading and saving\<close>

definition loadFromJSONLocked :: "sync_disk \<Rightarrow> SyncCacheManager \<Rightarrow> SyncCacheManager" where
  "loadFromJSONLocked disk m =
     m\<lparr>sc_negative := load_file unmarshal_neg (dk_negative disk) (sc_negative m),
       sc_fullpack := load_file unmarshal_full (dk_fullpack disk) (sc_fullpack m)\<rparr>"

text \<open>The database: not used, used but failing, or used.\<close>

datatype db_use = NoDB | DBDown | DBUp

definition LoadCachesFromDisk :: "db_use \<Rightarrow> sync_disk \<Rightarrow> SyncCacheManager \<Rightarrow> SyncCacheManager" where
  "LoadCachesFromDisk db disk m =
     (if db = DBUp
      then (let (neg, full) = LoadAllCaches (dk_table disk)
            in m\<lparr>sc_negative := map (\<lambda>(h, e). (h, \<lparr>nc_Hash = h, nc_Timestamp = Parse_or_zero (ne_Timestamp e)\<rparr>)) neg,
                 sc_fullpack := map (\<lambda>(h, e). (h, \<lparr>fc_Hash = h, fc_Title = fe_Title e, fc_ProcessedAt = Parse_or_zero (fe_Timestamp e)\<rparr>)) full\<rparr>)
      else loadFromJSONLocked disk m)"

definition neg_copy :: "SyncCacheManager \<Rightarrow> (string \<times> db_NegativeCacheEntry) list" where
  "neg_copy m = map (\<lambda>(k, v). (k, \<lparr>ne_Hash = k, ne_Timestamp = Format (nc_Timestamp v)\<rparr>)) (sc_negative m)"

definition full_copy :: "SyncCacheManager \<Rightarrow> (string \<times> db_FullpackCacheEntry) list" where
  "full_copy m = map (\<lambda>(k, v). (k, \<lparr>fe_Hash = k, fe_Title = fc_Title v, fe_Timestamp = Format (fc_ProcessedAt v)\<rparr>)) (sc_fullpack m)"

text \<open>\<^verbatim>\<open>atomicWriteJSON\<close>: the file is replaced only by the final rename; \<open>fails\<close> is whether a step before it, or the rename, fails.\<close>

definition atomicWriteJSON :: "bool \<Rightarrow> json_doc \<Rightarrow> json_doc jfile \<Rightarrow> bool \<times> json_doc jfile" where
  "atomicWriteJSON fails doc file = (if fails then (False, file) else (True, Doc doc))"

definition syncJSONLocked :: "bool \<Rightarrow> bool \<Rightarrow> (string \<times> db_NegativeCacheEntry) list \<Rightarrow> (string \<times> db_FullpackCacheEntry) list \<Rightarrow> sync_disk \<Rightarrow> bool \<times> sync_disk" where
  "syncJSONLocked negFails fullFails negCopy fullCopy disk =
     (let (ok1, nf) = atomicWriteJSON negFails (map (\<lambda>(k, e). (k, marshal_neg e)) negCopy) (dk_negative disk)
      in if \<not> ok1 then (False, disk\<lparr>dk_negative := nf\<rparr>)
         else (let (ok2, ff) = atomicWriteJSON fullFails (map (\<lambda>(k, e). (k, marshal_full e)) fullCopy) (dk_fullpack disk)
               in (ok2, disk\<lparr>dk_negative := nf, dk_fullpack := ff\<rparr>)))"

definition SyncToDisk :: "db_use \<Rightarrow> bool \<Rightarrow> bool \<Rightarrow> sync_disk \<Rightarrow> SyncCacheManager \<Rightarrow> bool \<times> sync_disk \<times> SyncCacheManager" where
  "SyncToDisk db negFails fullFails disk m =
     (if \<not> sc_dirty m then (True, disk, m)
      else (let m' = m\<lparr>sc_dirty := False\<rparr>
            in if db \<noteq> NoDB
               then (let (ok, t) = SaveAllCaches (db = DBUp) (neg_copy m) (full_copy m) (dk_table disk) in (ok, disk\<lparr>dk_table := t\<rparr>, m'))
               else (let (ok, disk') = syncJSONLocked negFails fullFails (neg_copy m) (full_copy m) disk in (ok, disk', m'))))"

section \<open>Changes\<close>

text \<open>The log line takes the first eight bytes of the hash: a shorter one panics, after the change. The first component is whether it returns.\<close>

definition ClearNegativeCache :: "string \<Rightarrow> SyncCacheManager \<Rightarrow> bool \<times> SyncCacheManager" where
  "ClearNegativeCache hash m =
     (if map_of (sc_negative m) hash = None then (True, m)
      else (8 \<le> length hash, m\<lparr>sc_negative := AList.delete hash (sc_negative m), sc_dirty := True\<rparr>))"

definition ClearFullpackCache :: "string \<Rightarrow> SyncCacheManager \<Rightarrow> bool \<times> SyncCacheManager" where
  "ClearFullpackCache hash m =
     (if map_of (sc_fullpack m) hash = None then (True, m)
      else (8 \<le> length hash, m\<lparr>sc_fullpack := AList.delete hash (sc_fullpack m), sc_dirty := True\<rparr>))"

definition CleanupStaleEntries :: "time \<Rightarrow> int \<Rightarrow> int \<Rightarrow> SyncCacheManager \<Rightarrow> SyncCacheManager" where
  "CleanupStaleEntries now negativeTTL fullpackTTL m =
     (let neg = filter (\<lambda>(_, e). \<not> Sub now (nc_Timestamp e) > negativeTTL) (sc_negative m);
          full = filter (\<lambda>(_, e). \<not> Sub now (fc_ProcessedAt e) > fullpackTTL) (sc_fullpack m);
          removed = length (sc_negative m) - length neg + (length (sc_fullpack m) - length full);
          m' = m\<lparr>sc_negative := neg, sc_fullpack := full\<rparr>
      in if removed > 0 then m'\<lparr>sc_dirty := True\<rparr> else m')"

definition sync_Stats :: "SyncCacheManager \<Rightarrow> int \<times> int" where
  "sync_Stats m = (int (length (sc_negative m)), int (length (sc_fullpack m)))"

section \<open>Well-formed caches\<close>

text \<open>No hash twice, and times the format can print.\<close>

definition printable_time :: "time \<Rightarrow> bool" where
  "printable_time t \<longleftrightarrow> - 366 \<le> t div second div 86400 \<and> fst (civil t) < 10000"

definition sync_ok :: "SyncCacheManager \<Rightarrow> bool" where
  "sync_ok m \<longleftrightarrow> distinct (map fst (sc_negative m)) \<and> distinct (map fst (sc_fullpack m))
     \<and> (\<forall>(h, e) \<in> set (sc_negative m). printable_time (nc_Timestamp e)) \<and> (\<forall>(h, e) \<in> set (sc_fullpack m). printable_time (fc_ProcessedAt e))"

lemma Parse_or_zero_Format: "printable_time t \<Longrightarrow> Parse_or_zero (Format t) = t div second * second"
  by (simp add: printable_time_def Parse_or_zero_def Parse_Format)

lemma load_neg_rows:
  "fold load_cache_row (map (neg_row \<circ> snd) es) (n, f) = (fold (\<lambda>(h, e). AList.update (ne_Hash e) \<lparr>ne_Hash = ne_Hash e, ne_Timestamp = ne_Timestamp e\<rparr>) es n, f)"
  by (induction es arbitrary: n) (auto simp: load_cache_row_def neg_row_def)

lemma load_full_rows:
  "fold load_cache_row (map (full_row \<circ> snd) es) (n, f) =
     (n, fold (\<lambda>(h, e). AList.update (fe_Hash e) \<lparr>fe_Hash = fe_Hash e, fe_Title = fe_Title e, fe_Timestamp = fe_Timestamp e\<rparr>) es f)"
  by (induction es arbitrary: f) (auto simp: load_cache_row_def full_row_def)

lemma update_new: "k \<notin> fst ` set m \<Longrightarrow> AList.update k v m = m @ [(k, v)]"
  by (induction m) auto

lemma fold_update_new:
  "distinct (map fst es) \<Longrightarrow> fst ` set es \<inter> fst ` set m = {} \<Longrightarrow> fold (\<lambda>(h, e). AList.update h e) es m = m @ es"
proof (induction es arbitrary: m)
  case (Cons he es)
  then show ?case using update_new [of "fst he" m "snd he"] by (cases he) auto
qed simp

lemma loaded_copies:
  assumes "sync_ok m"
  shows "LoadAllCaches (map (neg_row \<circ> snd) (neg_copy m) @ map (full_row \<circ> snd) (full_copy m)) = (neg_copy m, full_copy m)"
proof -
  have n: "fold (\<lambda>(h, e). AList.update (ne_Hash e) \<lparr>ne_Hash = ne_Hash e, ne_Timestamp = ne_Timestamp e\<rparr>) (neg_copy m) [] = fold (\<lambda>(h, e). AList.update h e) (neg_copy m) []"
    by (intro fold_cong) (auto simp: neg_copy_def)
  have f: "fold (\<lambda>(h, e). AList.update (fe_Hash e) \<lparr>fe_Hash = fe_Hash e, fe_Title = fe_Title e, fe_Timestamp = fe_Timestamp e\<rparr>) (full_copy m) [] = fold (\<lambda>(h, e). AList.update h e) (full_copy m) []"
    by (intro fold_cong) (auto simp: full_copy_def)
  have "map fst (neg_copy m) = map fst (sc_negative m)" "map fst (full_copy m) = map fst (sc_fullpack m)"
    by (auto simp: neg_copy_def full_copy_def)
  then show ?thesis
    using assms fold_update_new [of "neg_copy m" "[]"] fold_update_new [of "full_copy m" "[]"]
    by (simp add: LoadAllCaches_def load_neg_rows load_full_rows n f sync_ok_def)
qed

lemma copies_inserted:
  assumes "sync_ok m"
  shows "insert_all cache_clash (\<lambda>_. True) (map (neg_row \<circ> snd) (neg_copy m) @ map (full_row \<circ> snd) (full_copy m)) [] =
    Some (map (neg_row \<circ> snd) (neg_copy m) @ map (full_row \<circ> snd) (full_copy m))"
proof -
  let ?key = "\<lambda>r. (c_hash r, c_type r)"
  have k: "map ?key (map (neg_row \<circ> snd) (neg_copy m)) = map (\<lambda>h. (h, Negative)) (map fst (sc_negative m))"
    "map ?key (map (full_row \<circ> snd) (full_copy m)) = map (\<lambda>h. (h, Fullpack)) (map fst (sc_fullpack m))"
    by (auto simp: neg_copy_def full_copy_def neg_row_def full_row_def)
  have dd: "distinct (map (\<lambda>h. (h, c)) hs) = distinct hs" for hs :: "string list" and c :: cache_type
    by (simp add: distinct_map inj_on_def)
  have "distinct (map ?key (map (neg_row \<circ> snd) (neg_copy m) @ map (full_row \<circ> snd) (full_copy m)))"
    unfolding map_append k distinct_append dd using assms by (auto simp: sync_ok_def)
  then show ?thesis using insert_all_key [of cache_clash ?key] by (simp add: cache_clash_def list_all_iff)
qed

section \<open>Properties\<close>

text \<open>C24: Saving changed caches to the state database and loading them at the next start gives the same hashes and titles,
  with every time cut to its second, and the caches count as saved.\<close>

theorem sync_db_roundtrip:
  assumes "sync_ok m" "sc_dirty m" "SyncToDisk DBUp b b' disk m = (ok, disk', m')"
  shows "ok \<and> \<not> sc_dirty m'
    \<and> sc_negative (LoadCachesFromDisk DBUp disk' NewSyncCacheManager) =
        map (\<lambda>(h, e). (h, \<lparr>nc_Hash = h, nc_Timestamp = nc_Timestamp e div second * second\<rparr>)) (sc_negative m)
    \<and> sc_fullpack (LoadCachesFromDisk DBUp disk' NewSyncCacheManager) =
        map (\<lambda>(h, e). (h, \<lparr>fc_Hash = h, fc_Title = fc_Title e, fc_ProcessedAt = fc_ProcessedAt e div second * second\<rparr>)) (sc_fullpack m)"
proof -
  have "ok" "\<not> sc_dirty m'" and t: "dk_table disk' = map (neg_row \<circ> snd) (neg_copy m) @ map (full_row \<circ> snd) (full_copy m)"
    using assms(2,3) copies_inserted [OF assms(1)] by (auto simp: SyncToDisk_def SaveAllCaches_def)
  moreover have "Parse_or_zero (Format (nc_Timestamp e)) = nc_Timestamp e div second * second" if "(h, e) \<in> set (sc_negative m)" for h e
    using assms(1) that by (auto simp: sync_ok_def intro: Parse_or_zero_Format)
  moreover have "Parse_or_zero (Format (fc_ProcessedAt e)) = fc_ProcessedAt e div second * second" if "(h, e) \<in> set (sc_fullpack m)" for h e
    using assms(1) that by (auto simp: sync_ok_def intro: Parse_or_zero_Format)
  moreover have "LoadAllCaches (dk_table disk') = (neg_copy m, full_copy m)" unfolding t by (rule loaded_copies [OF assms(1)])
  ultimately show ?thesis by (auto simp: LoadCachesFromDisk_def neg_copy_def full_copy_def)
qed

lemma unmarshal_full_copies:
  assumes "distinct (map fst es)" "fst ` set es \<inter> fst ` set m = {}"
  shows "unmarshal_into unmarshal_full (map (\<lambda>(k, e). (k, marshal_full e)) es) m =
    Some (m @ map (\<lambda>(k, e). (k, \<lparr>fc_Hash = fe_Hash e, fc_Title = fe_Title e, fc_ProcessedAt = 0\<rparr>)) es)"
  using assms
proof (induction es arbitrary: m)
  case (Cons ke es)
  have "ToLower ''Hash'' = ''hash''" "ToLower ''Title'' = ''title''" "ToLower ''Timestamp'' = ''timestamp''"
    "ToLower ''hash'' = ''hash''" "ToLower ''title'' = ''title''" "ToLower ''processed_at'' = ''processed_at''" by code_simp+
  then have u: "unmarshal_full (marshal_full e) = Some \<lparr>fc_Hash = fe_Hash e, fc_Title = fe_Title e, fc_ProcessedAt = 0\<rparr>" for e
    by (simp add: unmarshal_full_def marshal_full_def obj_text_def obj_time_def obj_field_def)
  obtain k e where ke: "ke = (k, e)" by fastforce
  have "fst ` set es \<inter> fst ` set (m @ [(k, \<lparr>fc_Hash = fe_Hash e, fc_Title = fe_Title e, fc_ProcessedAt = 0\<rparr>)]) = {}"
    using Cons(2,3) ke by auto
  then show ?case using Cons(1) Cons(2,3) ke u by (simp add: update_new)
qed simp

text \<open>Without the database the times of full packs are lost: they are written under a name that the reader does not know,
  so after a restart every full pack counts as processed at the zero time, and the first removal of stale entries drops them all
  for every time to live below the largest duration.\<close>

theorem json_fullpacks_expire:
  assumes "sync_ok m" "sc_dirty m" "SyncToDisk NoDB False False disk m = (ok, disk', m')"
    and "m2 = LoadCachesFromDisk NoDB disk' NewSyncCacheManager" "2 ^ 63 \<le> now" "ttl < 2 ^ 63 - 1"
  shows "ok \<and> map fst (sc_fullpack m2) = map fst (sc_fullpack m) \<and> sc_fullpack (CleanupStaleEntries now nttl ttl m2) = []"
proof -
  have k: "map fst (full_copy m) = map fst (sc_fullpack m)" by (auto simp: full_copy_def)
  have d: "ok" "dk_fullpack disk' = Doc (map (\<lambda>(k, e). (k, marshal_full e)) (full_copy m))"
    using assms(2,3) by (auto simp: SyncToDisk_def syncJSONLocked_def atomicWriteJSON_def)
  have "sc_fullpack m2 = map (\<lambda>(k, e). (k, \<lparr>fc_Hash = fe_Hash e, fc_Title = fe_Title e, fc_ProcessedAt = 0\<rparr>)) (full_copy m)"
    using unmarshal_full_copies [of "full_copy m" "[]"] assms(1) k
    by (simp add: assms(4) LoadCachesFromDisk_def loadFromJSONLocked_def NewSyncCacheManager_def d(2) load_file_def sync_ok_def)
  moreover have "ttl < Sub now 0" using assms(5,6) by (simp add: Sub_def)
  ultimately show ?thesis using k d(1) by (auto simp: CleanupStaleEntries_def Let_def filter_empty_conv comp_def case_prod_beta)
qed

text \<open>A failed save is not repeated: the caches already count as saved, and the next save does nothing.\<close>

theorem failed_sync_forgotten:
  assumes "SyncToDisk DBDown b b' disk m = (ok, disk', m')" "sc_dirty m" "sync_ok m"
  shows "\<not> ok \<and> disk' = disk \<and> SyncToDisk DBUp c c' disk' m' = (True, disk, m')"
  using assms copies_inserted [OF assms(3)] by (auto simp: SyncToDisk_def SaveAllCaches_def)

definition sample_sync :: SyncCacheManager where
  "sample_sync = \<lparr>sc_negative = [(''0123456789'', \<lparr>nc_Hash = ''0123456789'', nc_Timestamp = 86400 * second + 7\<rparr>)],
     sc_fullpack = [(''abcdefabcdef'', \<lparr>fc_Hash = ''abcdefabcdef'', fc_Title = ''S'', fc_ProcessedAt = 2 * second + 5\<rparr>)], sc_dirty = True\<rparr>"

lemma sample_sync_ok: "sync_ok sample_sync"
proof -
  have "find_year 0 366 = (1, 0)" "find_year 0 367 = (1, 1)" by code_simp+
  then have "fst (civil (86400 * second + 7)) = 1" "fst (civil (2 * second + 5)) = 1"
    by (simp_all add: civil_def second_def case_prod_beta)
  then show ?thesis by (simp add: sync_ok_def sample_sync_def printable_time_def second_def)
qed

definition empty_disk :: sync_disk where
  "empty_disk = \<lparr>dk_negative = Missing, dk_fullpack = Missing, dk_table = []\<rparr>"

theorem sync_db_roundtrip_witness:
  "sc_fullpack (LoadCachesFromDisk DBUp (fst (snd (SyncToDisk DBUp False False empty_disk sample_sync))) NewSyncCacheManager) =
    [(''abcdefabcdef'', \<lparr>fc_Hash = ''abcdefabcdef'', fc_Title = ''S'', fc_ProcessedAt = 2 * second\<rparr>)]"
proof -
  define r where "r = SyncToDisk DBUp False False empty_disk sample_sync"
  have "SyncToDisk DBUp False False empty_disk sample_sync = (fst r, fst (snd r), snd (snd r))" by (simp add: r_def)
  from sync_db_roundtrip [OF sample_sync_ok _ this] show ?thesis by (simp add: r_def sample_sync_def second_def)
qed

theorem json_fullpacks_expire_witness:
  "sc_fullpack (CleanupStaleEntries (2 ^ 64) 5 (90 * 86400 * second)
    (LoadCachesFromDisk NoDB (fst (snd (SyncToDisk NoDB False False empty_disk sample_sync))) NewSyncCacheManager)) = []"
proof -
  define r where "r = SyncToDisk NoDB False False empty_disk sample_sync"
  have "SyncToDisk NoDB False False empty_disk sample_sync = (fst r, fst (snd r), snd (snd r))" by (simp add: r_def)
  from json_fullpacks_expire [OF sample_sync_ok _ this refl, of "2 ^ 64" "90 * 86400 * second" 5]
  show ?thesis by (simp add: r_def sample_sync_def second_def)
qed

end
