(* ===== verification/HealthCheck.thy ===== *)
theory HealthCheck
  imports StateDB Float64
begin

text \<open>
  The offline health checker (\<^verbatim>\<open>internal/syncer/health/checker.go\<close>) with the two functions of the engines that fill its table
  (\<^verbatim>\<open>saveMovieAlternatives\<close>, \<^verbatim>\<open>saveTVAlternatives\<close>). The tester, the replacer, the clock and the cancellation are parameters whose answers may
  differ from call to call; the calls are recorded.
\<close>

section \<open>Configuration and classification\<close>

record Config =
  cf_CheckInterval :: int
  cf_MinSpeedSlow :: int
  cf_MinSpeedFast :: int
  cf_MinSeeders :: int
  cf_SlowSeeders :: int
  cf_MaxReplacements :: int

definition DefaultConfig :: Config where
  "DefaultConfig = \<lparr>cf_CheckInterval = 24 * 3600 * second, cf_MinSpeedSlow = 100, cf_MinSpeedFast = 500, cf_MinSeeders = 10,
     cf_SlowSeeders = 5, cf_MaxReplacements = 5\<rparr>"

definition classifyHealthWithCfg :: "Config \<Rightarrow> int \<Rightarrow> int \<Rightarrow> string" where
  "classifyHealthWithCfg cfg speedKBps seeders =
     (if seeders = 0 then ''dead''
      else if seeders < cf_SlowSeeders cfg then ''verified_slow''
      else if speedKBps > cf_MinSpeedFast cfg \<and> seeders \<ge> cf_MinSeeders cfg then ''verified_healthy''
      else if speedKBps > cf_MinSpeedSlow cfg then ''verified_slow''
      else ''dead'')"

definition shouldReplaceWithCfg :: "int \<Rightarrow> int \<Rightarrow> bool" where
  "shouldReplaceWithCfg newSpeed oldSpeed \<longleftrightarrow> oldSpeed \<le> 0 \<or> fl (of_int newSpeed) \<ge> fl (fl (of_int oldSpeed) * (3 / 2))"

definition shouldReplaceStreamableWithCfg :: "Config \<Rightarrow> TorrentAlternative \<Rightarrow> TorrentAlternative \<Rightarrow> int \<Rightarrow> int \<Rightarrow> bool" where
  "shouldReplaceStreamableWithCfg cfg current nxt newSpeed newSeeders \<longleftrightarrow>
     al_Status current = ''verified_slow'' \<and> al_Size current > 0 \<and> al_Size nxt > 0
     \<and> newSeeders \<ge> cf_MinSeeders cfg \<and> newSpeed > cf_MinSpeedSlow cfg
     \<and> fl (of_int (al_Size nxt)) \<le> fl (fl (of_int (al_Size current)) * fl (8 / 10))"

definition BuildMagnet :: "string \<Rightarrow> string \<Rightarrow> string" where
  "BuildMagnet hash title = ''magnet:?xt=urn:btih:'' @ hash @ ''&dn='' @ title"

section \<open>The world around the checker\<close>

text \<open>Answers by the number of calls made before: the live status of a torrent, a test, which may fail, and a replacement.\<close>

record world =
  w_status :: "nat \<Rightarrow> string \<Rightarrow> (int \<times> int) option"
  w_test :: "nat \<Rightarrow> string \<Rightarrow> (int \<times> int) option"
  w_replace :: "nat \<Rightarrow> string \<Rightarrow> string \<Rightarrow> string \<Rightarrow> bool"
  w_now :: "nat \<Rightarrow> int"
  w_cancelled :: "nat \<Rightarrow> bool"

datatype hc_call = CurrentTorrentStatus string | TestTorrent string string | ReplaceTorrent string string string string string

record checker =
  hc_table :: "TorrentAlternative list"
  hc_calls :: "hc_call list"

definition made :: "checker \<Rightarrow> nat" where
  "made s = length (hc_calls s)"

definition call :: "hc_call \<Rightarrow> checker \<Rightarrow> checker" where
  "call c s = s\<lparr>hc_calls := c # hc_calls s\<rparr>"

text \<open>Errors of the statements are ignored.\<close>

definition db_do :: "(TorrentAlternative list \<Rightarrow> TorrentAlternative list option) \<Rightarrow> checker \<Rightarrow> checker" where
  "db_do f s = (case f (hc_table s) of None \<Rightarrow> s | Some t \<Rightarrow> s\<lparr>hc_table := t\<rparr>)"

section \<open>A cycle\<close>

definition checkAndUpdate :: "Config \<Rightarrow> world \<Rightarrow> TorrentAlternative \<Rightarrow> int \<Rightarrow> checker \<Rightarrow> checker" where
  "checkAndUpdate cfg w alt nowUnix s =
     (let h = al_Hash alt; s1 = call (CurrentTorrentStatus h) s
      in case w_status w (made s) h of
           Some (speed, seeders) \<Rightarrow>
             db_do (UpdateAlternativeHealth (al_ContentID alt) h (classifyHealthWithCfg cfg speed seeders) speed seeders nowUnix) s1
         | None \<Rightarrow>
             (let s2 = call (TestTorrent h (al_Title alt)) s1
              in case w_test w (made s1) h of
                   None \<Rightarrow> db_do (UpdateAlternativeHealth (al_ContentID alt) h ''dead'' 0 0 nowUnix) s2
                 | Some (speed, seeders) \<Rightarrow>
                     db_do (UpdateAlternativeHealth (al_ContentID alt) h (classifyHealthWithCfg cfg speed seeders) speed seeders nowUnix) s2))"

definition mark :: "string \<Rightarrow> TorrentAlternative \<Rightarrow> checker \<Rightarrow> checker" where
  "mark status a = db_do (UpdateAlternativeStatus (al_ContentID a) (al_Hash a) status)"

definition tryReplace :: "Config \<Rightarrow> world \<Rightarrow> TorrentAlternative \<Rightarrow> checker \<Rightarrow> bool \<times> checker" where
  "tryReplace cfg w dead s =
     (case GetNextBestAlternative (al_ContentID dead) (al_Hash dead) (hc_table s) of
        None \<Rightarrow> (False, s)
      | Some nxt \<Rightarrow>
          (let s1 = call (TestTorrent (al_Hash nxt) (al_Title nxt)) s
           in case w_test w (made s) (al_Hash nxt) of
                None \<Rightarrow> (False, mark ''tested_no_better'' nxt s1)
              | Some (speed, seeders) \<Rightarrow>
                  (let oldSpeed = (if al_AvgSpeedKBps dead \<le> 0 then 1 else al_AvgSpeedKBps dead)
                   in if \<not> shouldReplaceWithCfg speed oldSpeed \<and> \<not> shouldReplaceStreamableWithCfg cfg dead nxt speed seeders
                      then (False, db_do (IncrementReplacementCount (al_ContentID nxt) (al_Hash nxt)) (mark ''tested_no_better'' nxt s1))
                      else (let s2 = db_do (UpdateAlternativeHealth (al_ContentID nxt) (al_Hash nxt) (classifyHealthWithCfg cfg speed seeders)
                                              speed seeders (w_now w (made s1))) s1;
                                s3 = call (ReplaceTorrent (al_ContentID dead) (al_Hash dead) (al_Hash nxt)
                                             (BuildMagnet (al_Hash nxt) (al_Title nxt)) (al_Title nxt)) s2
                            in if \<not> w_replace w (made s2) (al_ContentID dead) (al_Hash dead) (al_Hash nxt)
                               then (False, mark ''tested_no_better'' nxt s3)
                               else (True, db_do (IncrementReplacementCount (al_ContentID nxt) (al_Hash nxt))
                                             (mark ''dead'' dead (mark ''active'' nxt s3)))))))"

fun check_loop :: "Config \<Rightarrow> world \<Rightarrow> int \<Rightarrow> TorrentAlternative list \<Rightarrow> int \<Rightarrow> checker \<Rightarrow> int \<times> checker" where
  "check_loop cfg w now [] replacements s = (replacements, s)"
| "check_loop cfg w now (alt # alts) replacements s =
     (if w_cancelled w (made s) \<or> replacements \<ge> cf_MaxReplacements cfg then (replacements, s)
      else (let s1 = checkAndUpdate cfg w alt now s
            in if al_Rank alt = 1 \<and> (al_Status alt = ''dead'' \<or> al_Status alt = ''verified_slow'')
               then (let (done, s2) = tryReplace cfg w alt s1
                     in check_loop cfg w now alts (if done then replacements + 1 else replacements) s2)
               else check_loop cfg w now alts replacements s1))"

definition runCheck :: "Config \<Rightarrow> world \<Rightarrow> checker \<Rightarrow> int \<times> checker" where
  "runCheck cfg w s =
     (let unhealthy = GetUnhealthyAlternatives (hc_table s)
      in if unhealthy = [] then (0, s) else check_loop cfg w (w_now w (made s)) unhealthy 0 s)"

section \<open>Saving alternatives\<close>

record stream =
  st_Title :: string
  st_Hash :: string
  st_SizeGB :: rat
  st_Seeders :: int
  st_QualityScore :: int

text \<open>The first twenty streams, ranked from 1; the factor of the size is a power of two and needs no rounding.\<close>

definition alternative :: "string \<Rightarrow> string \<Rightarrow> (nat \<Rightarrow> int) \<Rightarrow> nat \<times> stream \<Rightarrow> TorrentAlternative" where
  "alternative imdbID ctype now js =
     (let (i, s) = js
      in \<lparr>al_ContentID = imdbID, al_ContentType = ctype, al_Rank = int i + 1, al_Hash = st_Hash s, al_Title = st_Title s,
          al_Size = fl_to_int (st_SizeGB s * 1024 * 1024 * 1024), al_Seeders = st_Seeders s, al_QualityScore = st_QualityScore s,
          al_Status = ''active'', al_LastHealthCheck = now i, al_AvgSpeedKBps = 0, al_ReplacementCount = 0\<rparr>)"

definition alternatives_of :: "string \<Rightarrow> string \<Rightarrow> (nat \<Rightarrow> int) \<Rightarrow> stream list \<Rightarrow> TorrentAlternative list" where
  "alternatives_of imdbID ctype now streams = map (alternative imdbID ctype now) (enumerate 0 (take 20 streams))"

definition saveMovieAlternatives :: "bool \<Rightarrow> string \<Rightarrow> (nat \<Rightarrow> int) \<Rightarrow> stream list \<Rightarrow> checker \<Rightarrow> checker" where
  "saveMovieAlternatives up imdbID now streams s =
     (if streams = [] \<or> imdbID = [] then s
      else s\<lparr>hc_table := snd (SaveAlternativesForContent up imdbID (alternatives_of imdbID ''movie'' now streams) (hc_table s))\<rparr>)"

definition saveTVAlternatives :: "bool \<Rightarrow> string \<Rightarrow> (nat \<Rightarrow> int) \<Rightarrow> stream list \<Rightarrow> checker \<Rightarrow> checker" where
  "saveTVAlternatives up imdbID now streams s =
     (if streams = [] then s
      else s\<lparr>hc_table := snd (SaveAlternativesForContent up imdbID (alternatives_of imdbID ''tv'' now streams) (hc_table s))\<rparr>)"

section \<open>What a cycle keeps\<close>

text \<open>The columns that no step of the checker writes.\<close>

definition fixed_part :: "TorrentAlternative \<Rightarrow> string \<times> string \<times> int \<times> string \<times> string \<times> int \<times> int" where
  "fixed_part a = (al_ContentID a, al_ContentType a, al_Rank a, al_Hash a, al_Title a, al_Size a, al_QualityScore a)"

definition same_rows :: "checker \<Rightarrow> checker \<Rightarrow> bool" where
  "same_rows s s' \<longleftrightarrow> map fixed_part (hc_table s') = map fixed_part (hc_table s) \<and> (list_all alt_check (hc_table s) \<longrightarrow> list_all alt_check (hc_table s'))"

lemma same_rows_refl [simp]: "same_rows s s"
  by (simp add: same_rows_def)

lemma same_rows_trans: "same_rows a b \<Longrightarrow> same_rows b c \<Longrightarrow> same_rows a c"
  by (simp add: same_rows_def)

lemma same_rows_call [simp]: "same_rows s (call c s') = same_rows s s'"
  by (simp add: same_rows_def call_def)

lemma update_alt_fixed:
  assumes "update_alt c h f t = Some t'" "\<And>a. fixed_part (f a) = fixed_part a"
  shows "map fixed_part t' = map fixed_part t" "list_all alt_check t \<Longrightarrow> list_all alt_check t'"
  using assms by (auto simp: update_alt_def Let_def list_all_iff split: if_splits)

lemma same_rows_update:
  assumes "same_rows s s'" "\<And>a. fixed_part (f a) = fixed_part a"
  shows "same_rows s (db_do (update_alt c h f) s')"
proof (cases "update_alt c h f (hc_table s')")
  case (Some t)
  then show ?thesis using update_alt_fixed [OF Some assms(2)] assms(1) by (auto simp: same_rows_def db_do_def)
qed (use assms(1) in \<open>simp add: db_do_def\<close>)

lemmas alt_updates = UpdateAlternativeHealth_def UpdateAlternativeStatus_def IncrementReplacementCount_def

lemma same_rows_updates:
  assumes "same_rows s s'"
  shows "same_rows s (db_do (UpdateAlternativeHealth c h st v n u) s')" "same_rows s (mark st a s')"
    "same_rows s (db_do (IncrementReplacementCount c h) s')"
  using assms by (auto simp: mark_def alt_updates fixed_part_def intro!: same_rows_update)

lemma same_rows_check: "same_rows s s' \<Longrightarrow> same_rows s (checkAndUpdate cfg w alt now s')"
  unfolding checkAndUpdate_def Let_def by (auto intro!: same_rows_updates split: option.split)

lemma same_rows_replace: "same_rows s s' \<Longrightarrow> same_rows s (snd (tryReplace cfg w dead s'))"
  unfolding tryReplace_def Let_def by (auto intro!: same_rows_updates split: option.split)

lemma loop_keeps:
  "same_rows s (snd (check_loop cfg w now alts r s)) \<and> fst (check_loop cfg w now alts r s) \<le> max r (cf_MaxReplacements cfg)"
proof (induction alts arbitrary: r s)
  case (Cons alt alts)
  define s1 where "s1 = checkAndUpdate cfg w alt now s"
  have 1: "same_rows s s1" by (simp add: s1_def same_rows_check)
  obtain d s2 where t: "tryReplace cfg w alt s1 = (d, s2)" by fastforce
  have 2: "same_rows s s2" using same_rows_replace [OF 1, of cfg w alt] t by simp
  show ?case
    using Cons [of s1 r] Cons [of s2 "r + 1"] Cons [of s2 r] same_rows_trans [OF 1] same_rows_trans [OF 2]
    by (auto simp: s1_def [symmetric] t Let_def)
qed simp


section \<open>Properties\<close>

text \<open>A cycle replaces at most the configured number of torrents and keeps every row: only the status, the measured speed,
  the seeders, the time of the check and the number of replacements change, and all rows still pass the checks.\<close>

theorem cycle_bounded:
  assumes "runCheck cfg w s = (n, s')"
  shows "n \<le> max 0 (cf_MaxReplacements cfg) \<and> map fixed_part (hc_table s') = map fixed_part (hc_table s)
    \<and> (list_all alt_check (hc_table s) \<longrightarrow> list_all alt_check (hc_table s'))"
  using assms loop_keeps [of s cfg w _ _ 0] by (auto simp: runCheck_def Let_def same_rows_def split: if_splits) (metis fst_conv snd_conv)+

text \<open>The steps of the running program on the table: the engines save alternatives, and the checker runs its cycles.\<close>

inductive hc_step :: "checker \<Rightarrow> checker \<Rightarrow> bool" where
  Movie: "hc_step s (saveMovieAlternatives up imdbID now streams s)"
| TV: "hc_step s (saveTVAlternatives up imdbID now streams s)"
| Cycle: "runCheck cfg w s = (n, s') \<Longrightarrow> hc_step s s'"

definition hc_first :: "checker \<Rightarrow> bool" where
  "hc_first s \<longleftrightarrow> s = \<lparr>hc_table = [], hc_calls = []\<rparr>"

definition all_active :: "checker \<Rightarrow> bool" where
  "all_active s \<longleftrightarrow> list_all (\<lambda>a. al_Status a = ''active'') (hc_table s) \<and> hc_calls s = []"

lemma no_unhealthy: "all_active s \<Longrightarrow> runCheck cfg w s = (0, s)"
proof -
  assume "all_active s"
  then have "GetUnhealthyAlternatives (hc_table s) = []"
    by (auto simp: all_active_def GetUnhealthyAlternatives_def list_all_iff filter_empty_conv)
  then show ?thesis by (simp add: runCheck_def)
qed

lemma save_active:
  assumes "list_all (\<lambda>a. al_Status a = ''active'') t"
  shows "list_all (\<lambda>a. al_Status a = ''active'') (snd (SaveAlternativesForContent up c (alternatives_of c ctype now streams) t))"
proof -
  have i: "insert_all alt_clash alt_check alts t0 = Some t' \<Longrightarrow> t' = t0 @ alts" for alts t0 t'
    using insert_all_key [of alt_clash "\<lambda>a. (al_ContentID a, al_Hash a)"] by (auto simp: alt_clash_def split: if_splits)
  have "list_all (\<lambda>a. al_Status a = ''active'') (alternatives_of c ctype now streams)"
    by (auto simp: alternatives_of_def alternative_def list_all_iff)
  then show ?thesis using assms i
    by (auto simp: SaveAlternativesForContent_def list_all_iff split: option.split dest!: i)
qed

interpretation health: step_invariant hc_first hc_step all_active
proof
  show "all_active s" if "hc_first s" for s using that by (simp add: hc_first_def all_active_def)
  show "all_active t" if "all_active s" "hc_step s t" for s t
    using that(2)
  proof cases
    case (Cycle cfg w n)
    then show ?thesis using that(1) no_unhealthy [OF that(1), of cfg w] by simp
  qed (use that(1) save_active in \<open>auto simp: saveMovieAlternatives_def saveTVAlternatives_def all_active_def\<close>)
qed

text \<open>C40: The health checker never does anything: the engines save every alternative as active, a cycle looks only at rows that
  are dead or slow, and only a cycle could make a row so. In every reachable state a cycle changes nothing, and no torrent was
  ever tested or replaced.\<close>

theorem checker_inert:
  assumes "reachable hc_first hc_step s"
  shows "runCheck cfg w s = (0, s) \<and> hc_calls s = []"
  using health.reachable_inv [OF assms] no_unhealthy by (simp add: all_active_def)

definition sample_stream :: "string \<Rightarrow> stream" where
  "sample_stream h = \<lparr>st_Title = ''t'', st_Hash = h, st_SizeGB = 2, st_Seeders = 0, st_QualityScore = 5\<rparr>"

definition sample_checker :: checker where
  "sample_checker = saveMovieAlternatives True ''tt1'' (\<lambda>_. 5) [sample_stream ''a'', sample_stream ''b''] \<lparr>hc_table = [], hc_calls = []\<rparr>"

theorem checker_inert_witness:
  "length (hc_table sample_checker) = 2 \<and> runCheck DefaultConfig
     \<lparr>w_status = (\<lambda>_ _. None), w_test = (\<lambda>_ _. None), w_replace = (\<lambda>_ _ _ _. True), w_now = (\<lambda>_. 9), w_cancelled = (\<lambda>_. False)\<rparr> sample_checker
     = (0, sample_checker)"
proof -
  have "reachable hc_first hc_step \<lparr>hc_table = [], hc_calls = []\<rparr>" by (rule reach_init) (simp add: hc_first_def)
  moreover have "hc_step \<lparr>hc_table = [], hc_calls = []\<rparr> sample_checker" unfolding sample_checker_def by (rule Movie)
  ultimately have "reachable hc_first hc_step sample_checker" by (rule reach_step)
  moreover have "length (hc_table sample_checker) = 2"
    by (simp add: sample_checker_def saveMovieAlternatives_def alternatives_of_def alternative_def sample_stream_def SaveAlternativesForContent_def
        insert_new_def alt_check_def alt_clash_def)
  ultimately show ?thesis using checker_inert by simp
qed

section \<open>Replacing a healthy torrent\<close>

lemma update_alt_checked:
  assumes "list_all alt_check t" "\<And>a. a \<in> set t \<Longrightarrow> alt_check (f a)"
  shows "update_alt c h f t = Some (map (\<lambda>a. if al_ContentID a = c \<and> al_Hash a = h then f a else a) t)"
  using assms by (auto simp: update_alt_def list_all_iff)

lemma classify_valid: "alt_check a \<Longrightarrow> alt_check (a\<lparr>al_Status := classifyHealthWithCfg cfg v n, al_AvgSpeedKBps := x, al_Seeders := y, al_LastHealthCheck := z\<rparr>)"
  by (simp add: alt_check_def classifyHealthWithCfg_def)

lemma next_best_update:
  assumes "\<And>a. al_ContentID (f a) = al_ContentID a \<and> al_Hash (f a) = al_Hash a"
  shows "GetNextBestAlternative c h (map (\<lambda>a. if al_ContentID a = c \<and> al_Hash a = h then f a else a) t) = GetNextBestAlternative c h t"
proof -
  have "filter (\<lambda>a. al_ContentID a = c \<and> al_Hash a \<noteq> h \<and> al_Status a = ''active'') (map (\<lambda>a. if al_ContentID a = c \<and> al_Hash a = h then f a else a) t)
      = filter (\<lambda>a. al_ContentID a = c \<and> al_Hash a \<noteq> h \<and> al_Status a = ''active'') t"
    by (induction t) (use assms in auto)
  then show ?thesis by (simp add: GetNextBestAlternative_def)
qed

text \<open>The status of the row of \<open>a\<close>.\<close>

definition marked :: "string \<Rightarrow> TorrentAlternative \<Rightarrow> checker \<Rightarrow> bool" where
  "marked st a s \<longleftrightarrow> (\<forall>x \<in> set (hc_table s). al_ContentID x = al_ContentID a \<and> al_Hash x = al_Hash a \<longrightarrow> al_Status x = st)"

lemma mark_marked:
  assumes "list_all alt_check (hc_table s)" "st \<in> {''active'', ''tested_no_better'', ''verified_healthy'', ''verified_slow'', ''dead''}"
  shows "marked st a (mark st a s)"
proof -
  have "UpdateAlternativeStatus (al_ContentID a) (al_Hash a) st (hc_table s) =
      Some (map (\<lambda>x. if al_ContentID x = al_ContentID a \<and> al_Hash x = al_Hash a then x\<lparr>al_Status := st\<rparr> else x) (hc_table s))"
    unfolding UpdateAlternativeStatus_def using assms by (intro update_alt_checked) (auto simp: alt_check_def list_all_iff)
  then show ?thesis by (auto simp: marked_def mark_def db_do_def)
qed

lemma increment_marked: "marked st a s \<Longrightarrow> marked st a (db_do (IncrementReplacementCount c h) s)"
  by (auto simp: marked_def db_do_def IncrementReplacementCount_def update_alt_def Let_def split: option.split if_splits)

lemma replace_succeeds:
  assumes "list_all alt_check (hc_table s)" "GetNextBestAlternative (al_ContentID a) (al_Hash a) (hc_table s) = Some nxt"
    and "w_test w (made s) (al_Hash nxt) = Some (v, n)" "shouldReplaceWithCfg v (if al_AvgSpeedKBps a \<le> 0 then 1 else al_AvgSpeedKBps a)"
    and "w_replace w (Suc (made s)) (al_ContentID a) (al_Hash a) (al_Hash nxt)"
  shows "fst (tryReplace cfg w a s) \<and> marked ''dead'' a (snd (tryReplace cfg w a s))
    \<and> (\<exists>m t. ReplaceTorrent (al_ContentID a) (al_Hash a) (al_Hash nxt) m t \<in> set (hc_calls (snd (tryReplace cfg w a s))))"
proof -
  define s1 where "s1 = call (TestTorrent (al_Hash nxt) (al_Title nxt)) s"
  define s2 where "s2 = db_do (UpdateAlternativeHealth (al_ContentID nxt) (al_Hash nxt) (classifyHealthWithCfg cfg v n) v n (w_now w (made s1))) s1"
  define c where "c = ReplaceTorrent (al_ContentID a) (al_Hash a) (al_Hash nxt) (BuildMagnet (al_Hash nxt) (al_Title nxt)) (al_Title nxt)"
  have k: "hc_calls (db_do f x) = hc_calls x" for f x by (simp add: db_do_def split: option.split)
  have "made s2 = Suc (made s)" by (simp add: s2_def s1_def made_def k call_def)
  then have e: "tryReplace cfg w a s = (True, db_do (IncrementReplacementCount (al_ContentID nxt) (al_Hash nxt)) (mark ''dead'' a (mark ''active'' nxt (call c s2))))"
    using assms(2-5) by (simp add: tryReplace_def s1_def [symmetric] s2_def [symmetric] c_def [symmetric])
  have "same_rows s (mark ''active'' nxt (call c s2))" by (simp add: s2_def s1_def same_rows_updates)
  then have "marked ''dead'' a (mark ''dead'' a (mark ''active'' nxt (call c s2)))"
    using assms(1) by (intro mark_marked) (auto simp: same_rows_def)
  moreover have "c \<in> set (hc_calls (snd (tryReplace cfg w a s)))" by (simp add: e k mark_def call_def)
  ultimately show ?thesis using increment_marked by (auto simp: e c_def)
qed

text \<open>A cycle decides by the status that a torrent had before the cycle tested it: a first-ranked torrent that was dead and
  is now found healthy is nevertheless replaced, and its row is set to dead.\<close>

theorem healthy_torrent_replaced:
  assumes "list_all alt_check (hc_table s)" "GetUnhealthyAlternatives (hc_table s) = [a]" "al_Rank a = 1" "al_Status a = ''dead''"
    and "cf_MaxReplacements cfg > 0" "\<not> w_cancelled w (made s)"
    and "w_status w (made s) (al_Hash a) = Some (v, n)" "classifyHealthWithCfg cfg v n = ''verified_healthy''"
    and "GetNextBestAlternative (al_ContentID a) (al_Hash a) (hc_table s) = Some nxt"
    and "w_test w (Suc (made s)) (al_Hash nxt) = Some (v', n')" "shouldReplaceWithCfg v' (if al_AvgSpeedKBps a \<le> 0 then 1 else al_AvgSpeedKBps a)"
    and "w_replace w (Suc (Suc (made s))) (al_ContentID a) (al_Hash a) (al_Hash nxt)"
  shows "\<exists>s'. runCheck cfg w s = (1, s') \<and> marked ''dead'' a s'
    \<and> (\<exists>m t. ReplaceTorrent (al_ContentID a) (al_Hash a) (al_Hash nxt) m t \<in> set (hc_calls s'))"
proof -
  let ?f = "\<lambda>x. x\<lparr>al_Status := classifyHealthWithCfg cfg v n, al_AvgSpeedKBps := v, al_Seeders := n, al_LastHealthCheck := w_now w (made s)\<rparr>"
  define s1 where "s1 = checkAndUpdate cfg w a (w_now w (made s)) s"
  have "hc_table s1 = map (\<lambda>x. if al_ContentID x = al_ContentID a \<and> al_Hash x = al_Hash a then ?f x else x) (hc_table s) \<and> made s1 = Suc (made s)"
    using update_alt_checked [OF assms(1), of ?f] classify_valid assms(1,7)
    by (simp add: s1_def checkAndUpdate_def Let_def call_def made_def db_do_def UpdateAlternativeHealth_def list_all_iff)
  then have t: "GetNextBestAlternative (al_ContentID a) (al_Hash a) (hc_table s1) = Some nxt" "made s1 = Suc (made s)"
    using next_best_update [of ?f "al_ContentID a" "al_Hash a" "hc_table s"] assms(9) by auto
  have c: "list_all alt_check (hc_table s1)" using same_rows_check [OF same_rows_refl, of s cfg w a] assms(1) by (simp add: s1_def same_rows_def)
  obtain s2 where s2: "tryReplace cfg w a s1 = (True, s2)" "marked ''dead'' a s2"
      "\<exists>m t. ReplaceTorrent (al_ContentID a) (al_Hash a) (al_Hash nxt) m t \<in> set (hc_calls s2)"
    using replace_succeeds [OF c t(1), where v = v' and n = n' and w = w and cfg = cfg] assms(10-12) t(2)
    by (cases "tryReplace cfg w a s1") auto
  have "runCheck cfg w s = (1, s2)" using assms(2-6) s2(1) by (simp add: runCheck_def s1_def [symmetric])
  then show ?thesis using s2(2,3) by blast
qed


text \<open>With speeds below \<open>2 ^ 51\<close> the comparison of speeds is exact.\<close>

lemma should_replace_exact:
  assumes "0 < old" "old < 2 ^ 51" "0 \<le> new" "new < 2 ^ 53"
  shows "shouldReplaceWithCfg new old \<longleftrightarrow> 3 * old \<le> 2 * new"
proof -
  have o': "fl (of_int old) = of_int old" using fl_scaled [of old 0] assms by simp
  have n: "fl (of_int new) = of_int new" using fl_scaled [of new 0] assms by (cases "new = 0") auto
  have "fl (of_int (3 * old) / 2 ^ 1) = of_int (3 * old) / 2 ^ 1" using assms by (intro fl_scaled) auto
  moreover have "of_int old * (3 / 2) = rat_of_int (3 * old) / 2 ^ 1" by simp
  ultimately have e: "fl (of_int old * (3 / 2)) = of_int (3 * old) / 2" by (simp only: power_one_right)
  have "shouldReplaceWithCfg new old \<longleftrightarrow> of_int (3 * old) / 2 \<le> (of_int new :: rat)"
    unfolding shouldReplaceWithCfg_def o' n e using assms by simp
  also have "\<dots> \<longleftrightarrow> rat_of_int (3 * old) \<le> rat_of_int (2 * new)" by (simp add: field_simps)
  finally show ?thesis by (simp only: of_int_le_iff)
qed

definition sample_rows :: checker where
  "sample_rows = \<lparr>hc_table = [(sample_alt 1 ''a'')\<lparr>al_Status := ''dead''\<rparr>, sample_alt 2 ''b''], hc_calls = []\<rparr>"

definition sample_world :: world where
  "sample_world = \<lparr>w_status = (\<lambda>_ _. Some (900, 40)), w_test = (\<lambda>_ _. Some (600, 20)), w_replace = (\<lambda>_ _ _ _. True), w_now = (\<lambda>_. 9),
     w_cancelled = (\<lambda>_. False)\<rparr>"

theorem cycle_bounded_witness:
  "fst (runCheck DefaultConfig sample_world sample_rows) \<le> 5
    \<and> map fixed_part (hc_table (snd (runCheck DefaultConfig sample_world sample_rows))) = map fixed_part (hc_table sample_rows)"
  using cycle_bounded [OF prod.collapse [symmetric], of DefaultConfig sample_world sample_rows] by (simp add: DefaultConfig_def)

theorem healthy_torrent_replaced_witness:
  "classifyHealthWithCfg DefaultConfig 900 40 = ''verified_healthy''
    \<and> (\<exists>s'. runCheck DefaultConfig sample_world sample_rows = (1, s') \<and> marked ''dead'' (sample_alt 1 ''a'') s')"
proof -
  let ?a = "(sample_alt 1 ''a'')\<lparr>al_Status := ''dead''\<rparr>"
  have u: "GetUnhealthyAlternatives (hc_table sample_rows) = [?a]"
    and n: "GetNextBestAlternative (al_ContentID ?a) (al_Hash ?a) (hc_table sample_rows) = Some (sample_alt 2 ''b'')"
    and c: "list_all alt_check (hc_table sample_rows)"
    by (simp_all add: sample_rows_def sample_alt_def GetUnhealthyAlternatives_def GetNextBestAlternative_def alt_check_def)
  have r: "shouldReplaceWithCfg 600 1" by (simp add: should_replace_exact)
  have h: "classifyHealthWithCfg DefaultConfig 900 40 = ''verified_healthy''" by (simp add: classifyHealthWithCfg_def DefaultConfig_def)
  have "\<exists>s'. runCheck DefaultConfig sample_world sample_rows = (1, s') \<and> marked ''dead'' ?a s'
    \<and> (\<exists>m t. ReplaceTorrent (al_ContentID ?a) (al_Hash ?a) (al_Hash (sample_alt 2 ''b'')) m t \<in> set (hc_calls s'))"
    by (rule healthy_torrent_replaced [OF c u _ _ _ _ _ h n])
      (use r in \<open>simp_all add: sample_alt_def DefaultConfig_def sample_world_def\<close>)
  then show ?thesis using h by (auto simp: marked_def sample_alt_def)
qed

end
