(* ===== verification/Regex.thy ===== *)
theory Regex
  imports Main
begin

text \<open>
  The part of Go's regular expressions that the selection of torrents uses, on texts as lists of code points: literals and
  classes without regard to case, optional parts, repeated classes and word boundaries. \<^verbatim>\<open>MatchString\<close> asks whether the
  expression matches somewhere.
\<close>

type_synonym rune = nat
type_synonym runes = "rune list"

definition runes :: "string \<Rightarrow> runes" where
  "runes s = map of_char s"

datatype re =
    Lit rune
  | Exact rune
  | Dot
  | Digit
  | Space
  | AnyOf "rune list"
  | Seq re re
  | Alt re re
  | Opt re
  | Star re
  | Boundary
  | Empty
  | Never

definition lower_rune :: "rune \<Rightarrow> rune" where
  "lower_rune r = (if 65 \<le> r \<and> r \<le> 90 then r + 32 else r)"

text \<open>Two letters have a partner beyond ASCII: the Kelvin sign and the long s.\<close>

definition fold_eq :: "rune \<Rightarrow> rune \<Rightarrow> bool" where
  "fold_eq c r \<longleftrightarrow> lower_rune r = lower_rune c \<or> lower_rune c = 107 \<and> r = 8490 \<or> lower_rune c = 115 \<and> r = 383"

definition is_word :: "rune \<Rightarrow> bool" where
  "is_word r \<longleftrightarrow> 48 \<le> r \<and> r \<le> 57 \<or> 65 \<le> r \<and> r \<le> 90 \<or> r = 95 \<or> 97 \<le> r \<and> r \<le> 122"

definition word_at :: "runes \<Rightarrow> nat \<Rightarrow> bool" where
  "word_at s i \<longleftrightarrow> i < length s \<and> is_word (s ! i)"

definition boundary :: "runes \<Rightarrow> nat \<Rightarrow> bool" where
  "boundary s i \<longleftrightarrow> (0 < i \<and> word_at s (i - 1)) \<noteq> word_at s i"

text \<open>The end positions of the matches that start at a position. A star repeats its expression until nothing new is reached.\<close>

fun one :: "(rune \<Rightarrow> bool) \<Rightarrow> runes \<Rightarrow> nat \<Rightarrow> nat list" where
  "one p s i = (if i < length s \<and> p (s ! i) then [Suc i] else [])"

fun star_ends :: "nat \<Rightarrow> (nat \<Rightarrow> nat list) \<Rightarrow> nat \<Rightarrow> nat list" where
  "star_ends 0 f i = [i]"
| "star_ends (Suc n) f i = i # concat (map (star_ends n f) (filter (\<lambda>j. i < j) (f i)))"

fun ends :: "re \<Rightarrow> runes \<Rightarrow> nat \<Rightarrow> nat list" where
  "ends (Lit c) s i = one (fold_eq c) s i"
| "ends (Exact c) s i = one (\<lambda>r. r = c) s i"
| "ends Dot s i = one (\<lambda>r. r \<noteq> 10) s i"
| "ends Digit s i = one (\<lambda>r. 48 \<le> r \<and> r \<le> 57) s i"
| "ends Space s i = one (\<lambda>r. r \<in> {9, 10, 12, 13, 32}) s i"
| "ends (AnyOf cs) s i = one (\<lambda>r. r \<in> set cs) s i"
| "ends (Seq a b) s i = concat (map (ends b s) (ends a s i))"
| "ends (Alt a b) s i = ends a s i @ ends b s i"
| "ends (Opt a) s i = i # ends a s i"
| "ends (Star a) s i = star_ends (length s - i) (ends a s) i"
| "ends Boundary s i = (if boundary s i then [i] else [])"
| "ends Empty s i = [i]"
| "ends Never s i = []"

definition MatchString :: "re \<Rightarrow> runes \<Rightarrow> bool" where
  "MatchString r s = list_ex (\<lambda>i. ends r s i \<noteq> []) [0..<Suc (length s)]"

text \<open>Ways to write expressions: a word, a choice of words, a word between boundaries.\<close>

fun word :: "string \<Rightarrow> re" where
  "word [] = Empty"
| "word [c] = Lit (of_char c)"
| "word (c # cs) = Seq (Lit (of_char c)) (word cs)"

fun choice :: "re list \<Rightarrow> re" where
  "choice [] = Never"
| "choice [r] = r"
| "choice (r # rs) = Alt r (choice rs)"

definition words :: "string list \<Rightarrow> re" where
  "words ws = choice (map word ws)"

definition bounded :: "re \<Rightarrow> re" where
  "bounded r = Seq Boundary (Seq r Boundary)"

fun seqs :: "re list \<Rightarrow> re" where
  "seqs [] = Empty"
| "seqs [r] = r"
| "seqs (r # rs) = Seq r (seqs rs)"

definition plus :: "re \<Rightarrow> re" where
  "plus r = Seq r (Star r)"

section \<open>Matching a word\<close>

lemma ends_word: "ends (word w) s i = (if list_all2 fold_eq (map of_char w) (take (length w) (drop i s)) then [i + length w] else [])"
proof (induction w arbitrary: i rule: word.induct)
  case (2 c)
  show ?case
  proof (cases "i < length s")
    case True
    then have "take 1 (drop i s) = [s ! i]" by (simp add: take_Suc_conv_app_nth Cons_nth_drop_Suc [symmetric])
    then show ?thesis using True by simp
  qed simp
next
  case (3 c c' cs)
  show ?case
  proof (cases "i < length s")
    case True
    then have "drop i s = s ! i # drop (Suc i) s" by (rule Cons_nth_drop_Suc [symmetric])
    then show ?thesis using True 3 by simp
  qed simp
qed simp

text \<open>A word matches exactly if it stands in the text, letters compared without regard to case.\<close>

lemma MatchString_word: "MatchString (word w) s \<longleftrightarrow> (\<exists>i \<le> length s. list_all2 fold_eq (map of_char w) (take (length w) (drop i s)))"
proof -
  have "set [0..<Suc (length s)] = {i. i \<le> length s}" by auto
  then show ?thesis by (auto simp: MatchString_def list_ex_iff ends_word simp del: upt_Suc)
qed

lemma MatchString_Alt: "MatchString (Alt a b) s \<longleftrightarrow> MatchString a s \<or> MatchString b s"
  by (auto simp: MatchString_def list_ex_iff)

lemma MatchString_choice: "MatchString (choice rs) s \<longleftrightarrow> (\<exists>r \<in> set rs. MatchString r s)"
proof (induction rs rule: choice.induct)
  case 1
  then show ?case by (simp add: MatchString_def list_ex_iff)
qed (auto simp: MatchString_Alt)

end
