(* ===== verification/Streaming.thy ===== *)
theory Streaming
  imports Regex Float64 "HOL-Library.Product_Lexorder" "HOL-Library.List_Lexorder"
begin

text \<open>
  The choice of torrents for streaming (\<^verbatim>\<open>internal/syncer/quality/streaming_policy.go\<close>): which candidates are acceptable, their
  rank, and the order of ranks. Sizes are finite floating-point numbers; texts are lists of code points, and a hash is lowered in
  its ASCII letters.
\<close>

section \<open>Data\<close>

datatype MediaType = NoMedia | MediaMovie | MediaTV

datatype Resolution = NoResolution | Resolution4K | Resolution1080p | Resolution720p | Resolution480p | ResolutionSD | ResolutionUnknown

record StreamingCandidate =
  ca_Hash :: runes
  ca_Title :: runes
  ca_MediaType :: MediaType
  ca_Resolution :: Resolution
  ca_SizeGB :: float64
  ca_Seeders :: int
  ca_IsPack :: bool
  ca_EstimatedEpisodeCount :: int

record StreamingPolicy =
  po_MediaType :: MediaType
  po_IdealGB :: float64
  po_CompactGB :: float64
  po_FallbackGB :: float64
  po_StrictFileMaxGB :: float64
  po_MinSeeders :: int
  po_GoodSeeders :: int
  po_StrongSeeders :: int

record StreamingRank = StreamingCandidate +
  ra_EffectiveSizeGB :: float64
  ra_SizeTier :: int
  ra_PeerTier :: int
  ra_CompactTagScore :: int
  ra_ResolutionTier :: int
  ra_Score :: int

definition MovieStreamingPolicy :: StreamingPolicy where
  "MovieStreamingPolicy = \<lparr>po_MediaType = MediaMovie, po_IdealGB = 1, po_CompactGB = 2, po_FallbackGB = 8, po_StrictFileMaxGB = 2,
     po_MinSeeders = 5, po_GoodSeeders = 15, po_StrongSeeders = 50\<rparr>"

definition TVStreamingPolicy :: StreamingPolicy where
  "TVStreamingPolicy = \<lparr>po_MediaType = MediaTV, po_IdealGB = 1 / 2, po_CompactGB = 1, po_FallbackGB = 3 / 2, po_StrictFileMaxGB = 1,
     po_MinSeeders = 5, po_GoodSeeders = 15, po_StrongSeeders = 40\<rparr>"

section \<open>Titles\<close>

definition reStreaming4K :: re where
  "reStreaming4K = words [''2160p'', ''4k'', ''uhd'']"

definition reStreaming1080p :: re where
  "reStreaming1080p = words [''1080p'', ''1080i'', ''fhd'']"

definition reStreaming720p :: re where
  "reStreaming720p = words [''720p'', ''720i'']"

definition reStreaming480p :: re where
  "reStreaming480p = bounded (words [''480p'', ''576p'', ''sd''])"

definition sep :: re where
  "sep = Opt (AnyOf (runes ''-_. ''))"

definition reBadStreamingTags :: re where
  "reBadStreamingTags = bounded (choice (seqs [word ''bd'', sep, word ''remux''] #
     map word [''remux'', ''cam'', ''camrip'', ''hdcam'', ''hdts'', ''telesync'', ''telecine'', ''webscreener'', ''screener'', ''scr'']))"

text \<open>Flags are pairs of regional indicators.\<close>

definition flag :: "string \<Rightarrow> re" where
  "flag cc = seqs (map (\<lambda>c. Exact (127462 + (of_char c - 65))) cc)"

definition reBadLanguageTags :: re where
  "reBadLanguageTags = choice (map flag [''ES'', ''FR'', ''DE'', ''RU'', ''CN'', ''JP'', ''KR'', ''TH'', ''PT'', ''BR'', ''UA'', ''PL'', ''NL'', ''TR'', ''SA'',
     ''IN'', ''CZ'', ''HU'', ''RO''])"

definition reBadDubTags :: re where
  "reBadDubTags = seqs [Boundary, words [''Ukr'', ''Ukrainian'', ''Ger'', ''German'', ''Fra'', ''French'', ''Spa'', ''Spanish'', ''Por'', ''Portuguese'',
     ''Rus'', ''Russian'', ''Chi'', ''Chinese'', ''Pol'', ''Polish'', ''Tur'', ''Turkish'', ''Ara'', ''Arabic'', ''Hin'', ''Hindi'', ''Cze'', ''Czech'',
     ''Hun'', ''Hungarian''], plus Space, word ''Dub'', Boundary]"

definition reCompactSource :: re where
  "reCompactSource = bounded (choice [seqs [word ''web'', sep, word ''rip''], seqs [word ''web'', sep, word ''dl''], word ''web''])"

definition reCompactCodec :: re where
  "reCompactCodec = bounded (words [''x265'', ''h265'', ''hevc'', ''av1''])"

definition reCompactGroup :: re where
  "reCompactGroup = bounded (words [''yts'', ''yify'', ''rarbg'', ''pahe'', ''psa''])"

definition contains :: "runes \<Rightarrow> runes \<Rightarrow> bool" where
  "contains s w = list_ex (\<lambda>i. take (length w) (drop i s) = w) [0..<Suc (length s)]"

definition DetectResolution :: "runes \<Rightarrow> Resolution" where
  "DetectResolution title =
     (if MatchString reStreaming4K title then Resolution4K
      else if MatchString reStreaming1080p title then Resolution1080p
      else if MatchString reStreaming720p title then Resolution720p
      else if MatchString reStreaming480p title
      then (if contains (map lower_rune title) (runes ''480p'') then Resolution480p else ResolutionSD)
      else ResolutionUnknown)"

section \<open>Ranks\<close>

definition streamingSizeTier :: "float64 \<Rightarrow> StreamingPolicy \<Rightarrow> int" where
  "streamingSizeTier sizeGB policy = (if sizeGB \<le> po_IdealGB policy then 0 else if sizeGB \<le> po_CompactGB policy then 1 else 2)"

definition streamingPeerTier :: "int \<Rightarrow> StreamingPolicy \<Rightarrow> int" where
  "streamingPeerTier seeders policy =
     (if seeders \<ge> po_StrongSeeders policy then 3 else if seeders \<ge> po_GoodSeeders policy then 2
      else if seeders \<ge> po_MinSeeders policy then 1 else 0)"

definition streamingCompactTagScore :: "runes \<Rightarrow> int" where
  "streamingCompactTagScore title =
     (if MatchString reCompactSource title then 30 else 0) + (if MatchString reCompactCodec title then 20 else 0)
     + (if MatchString reCompactGroup title then 10 else 0)"

fun streamingResolutionTier :: "Resolution \<Rightarrow> int" where
  "streamingResolutionTier Resolution480p = 0"
| "streamingResolutionTier ResolutionSD = 0"
| "streamingResolutionTier Resolution720p = 1"
| "streamingResolutionTier Resolution1080p = 2"
| "streamingResolutionTier Resolution4K = 3"
| "streamingResolutionTier _ = 4"

definition streamingScore :: "StreamingRank \<Rightarrow> int" where
  "streamingScore rank = (let sizePoints = fl_to_int (fl (ra_EffectiveSizeGB rank * 1000))
     in (3 - ra_SizeTier rank) * 100000 + ra_PeerTier rank * 10000 + ra_CompactTagScore rank * 100
        - ra_ResolutionTier rank * 100 - sizePoints + ca_Seeders rank)"

definition is_space_rune :: "rune \<Rightarrow> bool" where
  "is_space_rune r \<longleftrightarrow> r \<in> {9, 10, 11, 12, 13, 32, 133, 160, 5760, 8232, 8233, 8239, 8287, 12288} \<or> 8192 \<le> r \<and> r \<le> 8202"

definition trim :: "runes \<Rightarrow> runes" where
  "trim s = rev (dropWhile is_space_rune (rev (dropWhile is_space_rune s)))"

text \<open>The checks after the hash is normalised and the resolution is found.\<close>

definition effective_size :: "StreamingCandidate \<Rightarrow> float64" where
  "effective_size c =
     (if ca_IsPack c \<and> ca_EstimatedEpisodeCount c > 0 then fl (ca_SizeGB c / fl (of_int (ca_EstimatedEpisodeCount c))) else ca_SizeGB c)"

definition bad_title :: "runes \<Rightarrow> bool" where
  "bad_title title \<longleftrightarrow> MatchString reBadStreamingTags title \<or> MatchString reBadLanguageTags title \<or> MatchString reBadDubTags title"

definition normalise :: "StreamingCandidate \<Rightarrow> StreamingCandidate" where
  "normalise c = c\<lparr>ca_Hash := map lower_rune (trim (ca_Hash c)),
     ca_Resolution := (if ca_Resolution c = ResolutionUnknown \<or> ca_Resolution c = NoResolution then DetectResolution (ca_Title c) else ca_Resolution c)\<rparr>"

definition acceptable :: "StreamingPolicy \<Rightarrow> StreamingCandidate \<Rightarrow> bool" where
  "acceptable policy c \<longleftrightarrow>
     ca_Hash c \<noteq> [] \<and> (po_MediaType policy = NoMedia \<or> ca_MediaType c = NoMedia \<or> ca_MediaType c = po_MediaType policy)
     \<and> \<not> bad_title (ca_Title c) \<and> ca_Resolution c \<noteq> ResolutionUnknown \<and> \<not> effective_size c \<le> 0
     \<and> \<not> (ca_Seeders c > 0 \<and> ca_Seeders c < po_MinSeeders policy) \<and> \<not> effective_size c > po_FallbackGB policy
     \<and> \<not> (ca_Resolution c = Resolution4K \<and> effective_size c > po_CompactGB policy \<and> ca_Seeders c < po_StrongSeeders policy)"

definition make_rank :: "StreamingPolicy \<Rightarrow> StreamingCandidate \<Rightarrow> StreamingRank" where
  "make_rank policy c =
     (let rank = StreamingCandidate.extend c
            \<lparr>ra_EffectiveSizeGB = effective_size c, ra_SizeTier = streamingSizeTier (effective_size c) policy,
             ra_PeerTier = streamingPeerTier (ca_Seeders c) policy, ra_CompactTagScore = streamingCompactTagScore (ca_Title c),
             ra_ResolutionTier = streamingResolutionTier (ca_Resolution c), ra_Score = 0\<rparr>
      in rank\<lparr>ra_Score := streamingScore rank\<rparr>)"

definition RankStreamingCandidate :: "StreamingCandidate \<Rightarrow> StreamingPolicy \<Rightarrow> StreamingRank option" where
  "RankStreamingCandidate candidate policy =
     (let c = normalise candidate in if acceptable policy c then Some (make_rank policy c) else None)"

definition RankExactStreamingFile :: "StreamingCandidate \<Rightarrow> StreamingPolicy \<Rightarrow> StreamingRank option" where
  "RankExactStreamingFile candidate policy =
     (if ca_SizeGB candidate > po_StrictFileMaxGB policy then None else RankStreamingCandidate candidate policy)"

fun rune_less :: "runes \<Rightarrow> runes \<Rightarrow> bool" where
  "rune_less _ [] = False"
| "rune_less [] (b # bs) = True"
| "rune_less (a # as) (b # bs) = (a < b \<or> a = b \<and> rune_less as bs)"

definition BetterThan :: "StreamingRank \<Rightarrow> StreamingRank \<Rightarrow> bool" where
  "BetterThan r other =
     (if ra_SizeTier r \<noteq> ra_SizeTier other then ra_SizeTier r < ra_SizeTier other
      else if ra_PeerTier r \<noteq> ra_PeerTier other then ra_PeerTier r > ra_PeerTier other
      else if ra_EffectiveSizeGB r \<noteq> ra_EffectiveSizeGB other then ra_EffectiveSizeGB r < ra_EffectiveSizeGB other
      else if ra_CompactTagScore r \<noteq> ra_CompactTagScore other then ra_CompactTagScore r > ra_CompactTagScore other
      else if ra_ResolutionTier r \<noteq> ra_ResolutionTier other then ra_ResolutionTier r < ra_ResolutionTier other
      else if ca_Seeders r \<noteq> ca_Seeders other then ca_Seeders r > ca_Seeders other
      else rune_less (ca_Hash r) (ca_Hash other))"

text \<open>\<^verbatim>\<open>sort.SliceStable\<close> as stable insertion.\<close>

fun stable_insert :: "('a \<Rightarrow> 'a \<Rightarrow> bool) \<Rightarrow> 'a \<Rightarrow> 'a list \<Rightarrow> 'a list" where
  "stable_insert lt x [] = [x]"
| "stable_insert lt x (y # ys) = (if lt y x then y # stable_insert lt x ys else x # y # ys)"

definition SliceStable :: "('a \<Rightarrow> 'a \<Rightarrow> bool) \<Rightarrow> 'a list \<Rightarrow> 'a list" where
  "SliceStable lt xs = foldr (stable_insert lt) xs []"

definition RankStreamingCandidates :: "StreamingCandidate list \<Rightarrow> StreamingPolicy \<Rightarrow> StreamingRank list" where
  "RankStreamingCandidates candidates policy =
     SliceStable BetterThan (List.map_filter (\<lambda>c. RankStreamingCandidate c policy) candidates)"

section \<open>The order of ranks\<close>

type_synonym rank_key = "int \<times> int \<times> rat \<times> int \<times> int \<times> int \<times> nat list"

definition rank_key :: "StreamingRank \<Rightarrow> rank_key" where
  "rank_key r = (ra_SizeTier r, - ra_PeerTier r, ra_EffectiveSizeGB r, - ra_CompactTagScore r, ra_ResolutionTier r, - ca_Seeders r, ca_Hash r)"

lemma rune_less_lex: "rune_less a b \<longleftrightarrow> a < b"
  by (induction a b rule: rune_less.induct) auto

lemma BetterThan_key: "BetterThan r s \<longleftrightarrow> rank_key r < rank_key s"
  by (auto simp: BetterThan_def rank_key_def rune_less_lex less_prod_def')

lemma stable_insert_key:
  fixes f :: "'a \<Rightarrow> 'b :: linorder"
  shows "stable_insert (\<lambda>x y. f x < f y) x ys = insort_key f x ys"
  by (induction ys) (auto simp: not_less)

lemma SliceStable_key:
  fixes f :: "'a \<Rightarrow> 'b :: linorder"
  shows "SliceStable (\<lambda>x y. f x < f y) xs = sort_key f xs"
proof -
  have "stable_insert (\<lambda>x y. f x < f y) = insort_key f" by (simp add: fun_eq_iff stable_insert_key)
  then show ?thesis by (simp add: SliceStable_def sort_key_def)
qed

section \<open>Properties\<close>

text \<open>C25: The ranked list is the list of the acceptable candidates sorted by one total order of keys, the best first: size tier, then
  more peers, then smaller, then more compact tags, then lower resolution, then more seeders, then the hash. Equal ones keep their order.\<close>

theorem ranking_is_sorted_by_key:
  "RankStreamingCandidates cs policy = sort_key rank_key (map (make_rank policy) (filter (acceptable policy) (map normalise cs)))"
proof -
  have m: "List.map_filter (\<lambda>c. RankStreamingCandidate c policy) cs = map (make_rank policy) (filter (acceptable policy) (map normalise cs))"
    by (induction cs) (auto simp: List.map_filter_def RankStreamingCandidate_def Let_def)
  have b: "BetterThan = (\<lambda>r s. rank_key r < rank_key s)" by (simp add: fun_eq_iff BetterThan_key)
  show ?thesis unfolding RankStreamingCandidates_def m b by (rule SliceStable_key)
qed

text \<open>A candidate with one to four seeders is refused, and one with none is accepted.\<close>

lemma no_seeders_accepted:
  assumes "acceptable policy (normalise c)" "po_MinSeeders policy > 1" "po_StrongSeeders policy \<ge> 0" "ca_Resolution (normalise c) \<noteq> Resolution4K"
  shows "RankStreamingCandidate (c\<lparr>ca_Seeders := 0\<rparr>) policy \<noteq> None \<and> RankStreamingCandidate (c\<lparr>ca_Seeders := 1\<rparr>) policy = None"
  using assms by (auto simp: RankStreamingCandidate_def acceptable_def normalise_def effective_size_def Let_def)

end
