(* ===== verification/Quality.thy ===== *)
theory Quality
  imports Regex Float64
begin

text \<open>
  The quality profiles of the engines (\<^verbatim>\<open>types.go\<close>, \<^verbatim>\<open>resolver.go\<close> and \<^verbatim>\<open>convert.go\<close> of \<^verbatim>\<open>internal/syncer/quality\<close>) with the part of the
  configuration they come from (\<^verbatim>\<open>internal/config/quality.go\<close>), and the scorer of titles (\<^verbatim>\<open>scorer.go\<close>). A pointer to a number or a
  flag is an option; limits of sizes are association lists, of which only the emptiness and the contents count.
\<close>

section \<open>Profiles\<close>

record MovieScoreWeights =
  mw_Resolution4K :: "int option"
  mw_Resolution1080p :: "int option"
  mw_Resolution720p :: "int option"
  mw_DolbyVision :: "int option"
  mw_HDR :: "int option"
  mw_HDR10Plus :: "int option"
  mw_Atmos :: "int option"
  mw_Audio51 :: "int option"
  mw_AudioStereo :: "int option"
  mw_BluRay :: "int option"
  mw_Remux :: "int option"
  mw_ITA :: "int option"
  mw_SeederBonus :: "int option"
  mw_SeederThreshold :: "int option"
  mw_UnknownSizePenalty :: "int option"
  mw_SizeBonusPerGBUnder :: "int option"

record MovieProfile =
  mp_Include4K :: "bool option"
  mp_Include1080p :: "bool option"
  mp_Include720p :: "bool option"
  mp_SizeFloorGB :: "(string \<times> float64) list"
  mp_SizeCeilingGB :: "(string \<times> float64) list"
  mp_MinSeeders :: "int option"
  mp_Fallback4KMinSeeders :: "int option"
  mp_PriorityOrder :: "string list"
  mp_ScoreWeights :: "MovieScoreWeights"

record TVScoreWeights =
  tw_Resolution4K :: "int option"
  tw_Resolution1080p :: "int option"
  tw_Resolution720p :: "int option"
  tw_Resolution480p :: "int option"
  tw_HDR :: "int option"
  tw_Atmos :: "int option"
  tw_Audio51 :: "int option"
  tw_ITA :: "int option"
  tw_Seeder100Bonus :: "int option"
  tw_Seeder50Bonus :: "int option"
  tw_Seeder20Bonus :: "int option"
  tw_SizeBonusPerGBUnder :: "int option"

record TVProfile =
  tp_Include4K :: "bool option"
  tp_Include1080p :: "bool option"
  tp_Include720p :: "bool option"
  tp_Include480p :: "bool option"
  tp_SizeFloorGB :: "(string \<times> float64) list"
  tp_SizeCeilingGB :: "(string \<times> float64) list"
  tp_MinSeeders4K :: "int option"
  tp_MinSeeders :: "int option"
  tp_FullpackBonus :: "int option"
  tp_PriorityOrder :: "string list"
  tp_ScoreWeights :: "TVScoreWeights"

definition DefaultQualityFirstMovies :: MovieProfile where
  "DefaultQualityFirstMovies =
     \<lparr>mp_Include4K = Some True, mp_Include1080p = Some True, mp_Include720p = Some False,
      mp_SizeFloorGB = [(''4k'', 10), (''1080p'', 4)], mp_SizeCeilingGB = [(''4k'', 60), (''1080p'', 20)], mp_MinSeeders = Some 15, mp_Fallback4KMinSeeders = None,
      mp_PriorityOrder = [''4k'', ''1080p'', ''720p''],
      mp_ScoreWeights = \<lparr>mw_Resolution4K = Some 200, mw_Resolution1080p = Some 50, mw_Resolution720p = None, mw_DolbyVision = Some 150, mw_HDR = Some 100, mw_HDR10Plus = Some 100, mw_Atmos = Some 50, mw_Audio51 = Some 25, mw_AudioStereo = Some (-50), mw_BluRay = Some 10, mw_Remux = Some (-500), mw_ITA = Some 60, mw_SeederBonus = Some 5, mw_SeederThreshold = Some 50, mw_UnknownSizePenalty = Some (-5), mw_SizeBonusPerGBUnder = None\<rparr>\<rparr>"

definition DefaultSizeFirstMovies :: MovieProfile where
  "DefaultSizeFirstMovies =
     \<lparr>mp_Include4K = Some True, mp_Include1080p = Some True, mp_Include720p = Some True,
      mp_SizeFloorGB = [(''720p'', 1 / 2), (''1080p'', 1 / 2), (''4k'', 1)], mp_SizeCeilingGB = [(''720p'', 3), (''1080p'', 10), (''4k'', 15)], mp_MinSeeders = Some 10, mp_Fallback4KMinSeeders = Some 50,
      mp_PriorityOrder = [''720p'', ''1080p'', ''4k''],
      mp_ScoreWeights = \<lparr>mw_Resolution4K = Some 100, mw_Resolution1080p = Some 300, mw_Resolution720p = Some 500, mw_DolbyVision = Some 50, mw_HDR = Some 40, mw_HDR10Plus = Some 40, mw_Atmos = Some 25, mw_Audio51 = Some 15, mw_AudioStereo = Some 10, mw_BluRay = Some 5, mw_Remux = Some (-500), mw_ITA = Some 60, mw_SeederBonus = Some 5, mw_SeederThreshold = Some 30, mw_UnknownSizePenalty = Some (-5), mw_SizeBonusPerGBUnder = Some 100\<rparr>\<rparr>"

definition DefaultQualityFirstTV :: TVProfile where
  "DefaultQualityFirstTV =
     \<lparr>tp_Include4K = Some True, tp_Include1080p = Some True, tp_Include720p = Some False, tp_Include480p = Some False,
      tp_SizeFloorGB = [(''4k'', 10), (''1080p'', 1)], tp_SizeCeilingGB = [(''4k'', 30), (''1080p'', 30)], tp_MinSeeders4K = Some 10, tp_MinSeeders = Some 5, tp_FullpackBonus = Some 500,
      tp_PriorityOrder = [''4k'', ''1080p'', ''720p'', ''480p''],
      tp_ScoreWeights = \<lparr>tw_Resolution4K = Some 200, tw_Resolution1080p = Some 50, tw_Resolution720p = None, tw_Resolution480p = Some 100, tw_HDR = Some 100, tw_Atmos = Some 50, tw_Audio51 = Some 25, tw_ITA = Some 40, tw_Seeder100Bonus = Some 100, tw_Seeder50Bonus = Some 50, tw_Seeder20Bonus = Some 10, tw_SizeBonusPerGBUnder = None\<rparr>\<rparr>"

definition DefaultSizeFirstTV :: TVProfile where
  "DefaultSizeFirstTV =
     \<lparr>tp_Include4K = Some True, tp_Include1080p = Some True, tp_Include720p = Some True, tp_Include480p = Some True,
      tp_SizeFloorGB = [(''720p'', fl (2 / 10)), (''1080p'', fl (2 / 10)), (''4k'', 1 / 2), (''480p'', fl (1 / 10))], tp_SizeCeilingGB = [(''720p'', 1), (''1080p'', 2), (''4k'', 3), (''480p'', 1 / 2)], tp_MinSeeders4K = Some 50, tp_MinSeeders = Some 10, tp_FullpackBonus = Some 300,
      tp_PriorityOrder = [''480p'', ''720p'', ''1080p'', ''4k''],
      tp_ScoreWeights = \<lparr>tw_Resolution4K = Some 100, tw_Resolution1080p = Some 300, tw_Resolution720p = Some 600, tw_Resolution480p = Some 800, tw_HDR = Some 40, tw_Atmos = Some 25, tw_Audio51 = Some 15, tw_ITA = Some 40, tw_Seeder100Bonus = Some 100, tw_Seeder50Bonus = Some 50, tw_Seeder20Bonus = Some 10, tw_SizeBonusPerGBUnder = Some 100\<rparr>\<rparr>"

section \<open>Resolution of profiles\<close>

record ProfileSet =
  ps_Movies :: "MovieProfile option"
  ps_TV :: "TVProfile option"

text \<open>The profiles are \<open>None\<close> for a nil map.\<close>

record QualityConfig =
  qc_Profile :: string
  qc_Profiles :: "(string \<rightharpoonup> ProfileSet) option"

definition defaultProfileByName :: "string \<Rightarrow> MovieProfile" where
  "defaultProfileByName name = (if name = ''size-first'' then DefaultSizeFirstMovies else DefaultQualityFirstMovies)"

definition defaultProfileByNameTV :: "string \<Rightarrow> TVProfile" where
  "defaultProfileByNameTV name = (if name = ''size-first'' then DefaultSizeFirstTV else DefaultQualityFirstTV)"

definition setIfNotNil :: "'a option \<Rightarrow> 'a option \<Rightarrow> 'a option" where
  "setIfNotNil dst src = (case src of None \<Rightarrow> dst | Some v \<Rightarrow> Some v)"

definition set_if_any :: "'a list \<Rightarrow> 'a list \<Rightarrow> 'a list" where
  "set_if_any dst src = (if length src > 0 then src else dst)"

definition mergeMovieWeights :: "MovieScoreWeights \<Rightarrow> MovieScoreWeights \<Rightarrow> MovieScoreWeights" where
  "mergeMovieWeights result custom = result\<lparr>
     mw_Resolution4K := setIfNotNil (mw_Resolution4K result) (mw_Resolution4K custom),
     mw_Resolution1080p := setIfNotNil (mw_Resolution1080p result) (mw_Resolution1080p custom),
     mw_Resolution720p := setIfNotNil (mw_Resolution720p result) (mw_Resolution720p custom),
     mw_DolbyVision := setIfNotNil (mw_DolbyVision result) (mw_DolbyVision custom),
     mw_HDR := setIfNotNil (mw_HDR result) (mw_HDR custom),
     mw_HDR10Plus := setIfNotNil (mw_HDR10Plus result) (mw_HDR10Plus custom),
     mw_Atmos := setIfNotNil (mw_Atmos result) (mw_Atmos custom),
     mw_Audio51 := setIfNotNil (mw_Audio51 result) (mw_Audio51 custom),
     mw_AudioStereo := setIfNotNil (mw_AudioStereo result) (mw_AudioStereo custom),
     mw_BluRay := setIfNotNil (mw_BluRay result) (mw_BluRay custom),
     mw_Remux := setIfNotNil (mw_Remux result) (mw_Remux custom),
     mw_ITA := setIfNotNil (mw_ITA result) (mw_ITA custom),
     mw_SeederBonus := setIfNotNil (mw_SeederBonus result) (mw_SeederBonus custom),
     mw_SeederThreshold := setIfNotNil (mw_SeederThreshold result) (mw_SeederThreshold custom),
     mw_UnknownSizePenalty := setIfNotNil (mw_UnknownSizePenalty result) (mw_UnknownSizePenalty custom)\<rparr>"

definition mergeMovieProfile :: "MovieProfile \<Rightarrow> MovieProfile \<Rightarrow> MovieProfile" where
  "mergeMovieProfile custom def = def\<lparr>
     mp_Include4K := setIfNotNil (mp_Include4K def) (mp_Include4K custom),
     mp_Include1080p := setIfNotNil (mp_Include1080p def) (mp_Include1080p custom),
     mp_Include720p := setIfNotNil (mp_Include720p def) (mp_Include720p custom),
     mp_SizeFloorGB := set_if_any (mp_SizeFloorGB def) (mp_SizeFloorGB custom),
     mp_SizeCeilingGB := set_if_any (mp_SizeCeilingGB def) (mp_SizeCeilingGB custom),
     mp_MinSeeders := setIfNotNil (mp_MinSeeders def) (mp_MinSeeders custom),
     mp_Fallback4KMinSeeders := setIfNotNil (mp_Fallback4KMinSeeders def) (mp_Fallback4KMinSeeders custom),
     mp_PriorityOrder := set_if_any (mp_PriorityOrder def) (mp_PriorityOrder custom),
     mp_ScoreWeights := mergeMovieWeights (mp_ScoreWeights def) (mp_ScoreWeights custom)\<rparr>"

definition mergeTVWeights :: "TVScoreWeights \<Rightarrow> TVScoreWeights \<Rightarrow> TVScoreWeights" where
  "mergeTVWeights result custom = result\<lparr>
     tw_Resolution4K := setIfNotNil (tw_Resolution4K result) (tw_Resolution4K custom),
     tw_Resolution1080p := setIfNotNil (tw_Resolution1080p result) (tw_Resolution1080p custom),
     tw_Resolution720p := setIfNotNil (tw_Resolution720p result) (tw_Resolution720p custom),
     tw_HDR := setIfNotNil (tw_HDR result) (tw_HDR custom),
     tw_Atmos := setIfNotNil (tw_Atmos result) (tw_Atmos custom),
     tw_Audio51 := setIfNotNil (tw_Audio51 result) (tw_Audio51 custom),
     tw_ITA := setIfNotNil (tw_ITA result) (tw_ITA custom),
     tw_Seeder100Bonus := setIfNotNil (tw_Seeder100Bonus result) (tw_Seeder100Bonus custom),
     tw_Seeder50Bonus := setIfNotNil (tw_Seeder50Bonus result) (tw_Seeder50Bonus custom),
     tw_Seeder20Bonus := setIfNotNil (tw_Seeder20Bonus result) (tw_Seeder20Bonus custom)\<rparr>"

definition mergeTVProfile :: "TVProfile \<Rightarrow> TVProfile \<Rightarrow> TVProfile" where
  "mergeTVProfile custom def = def\<lparr>
     tp_Include4K := setIfNotNil (tp_Include4K def) (tp_Include4K custom),
     tp_Include1080p := setIfNotNil (tp_Include1080p def) (tp_Include1080p custom),
     tp_Include720p := setIfNotNil (tp_Include720p def) (tp_Include720p custom),
     tp_SizeFloorGB := set_if_any (tp_SizeFloorGB def) (tp_SizeFloorGB custom),
     tp_SizeCeilingGB := set_if_any (tp_SizeCeilingGB def) (tp_SizeCeilingGB custom),
     tp_MinSeeders4K := setIfNotNil (tp_MinSeeders4K def) (tp_MinSeeders4K custom),
     tp_MinSeeders := setIfNotNil (tp_MinSeeders def) (tp_MinSeeders custom),
     tp_FullpackBonus := setIfNotNil (tp_FullpackBonus def) (tp_FullpackBonus custom),
     tp_PriorityOrder := set_if_any (tp_PriorityOrder def) (tp_PriorityOrder custom),
     tp_ScoreWeights := mergeTVWeights (tp_ScoreWeights def) (tp_ScoreWeights custom)\<rparr>"

definition ResolveMovies :: "QualityConfig option \<Rightarrow> MovieProfile" where
  "ResolveMovies qc =
     (case qc of None \<Rightarrow> DefaultQualityFirstMovies
      | Some c \<Rightarrow>
          (case qc_Profiles c of None \<Rightarrow> defaultProfileByName (qc_Profile c)
           | Some ps \<Rightarrow>
               (case Option.bind (ps (qc_Profile c)) ps_Movies of
                  Some m \<Rightarrow> mergeMovieProfile m (defaultProfileByName (qc_Profile c))
                | None \<Rightarrow> defaultProfileByName (qc_Profile c))))"

definition ResolveTV :: "QualityConfig option \<Rightarrow> TVProfile" where
  "ResolveTV qc =
     (case qc of None \<Rightarrow> DefaultQualityFirstTV
      | Some c \<Rightarrow>
          (case qc_Profiles c of None \<Rightarrow> defaultProfileByNameTV (qc_Profile c)
           | Some ps \<Rightarrow>
               (case Option.bind (ps (qc_Profile c)) ps_TV of
                  Some m \<Rightarrow> mergeTVProfile m (defaultProfileByNameTV (qc_Profile c))
                | None \<Rightarrow> defaultProfileByNameTV (qc_Profile c))))"

section \<open>The configuration\<close>

record cfg_MovieScoreWeights =
  cmw_Resolution4K :: "int option"
  cmw_Resolution1080p :: "int option"
  cmw_Resolution720p :: "int option"
  cmw_DolbyVision :: "int option"
  cmw_HDR :: "int option"
  cmw_HDR10Plus :: "int option"
  cmw_Atmos :: "int option"
  cmw_Audio51 :: "int option"
  cmw_AudioStereo :: "int option"
  cmw_BluRay :: "int option"
  cmw_Remux :: "int option"
  cmw_ITA :: "int option"
  cmw_SeederBonus :: "int option"
  cmw_SeederThreshold :: "int option"
  cmw_UnknownSizePenalty :: "int option"

record MovieQualityProfile =
  cmp_Include4K :: "bool option"
  cmp_Include1080p :: "bool option"
  cmp_Include720p :: "bool option"
  cmp_SizeFloorGB :: "(string \<times> float64) list"
  cmp_SizeCeilingGB :: "(string \<times> float64) list"
  cmp_MinSeeders :: "int option"
  cmp_Fallback4KMinSeeders :: "int option"
  cmp_PriorityOrder :: "string list"
  cmp_ScoreWeights :: "cfg_MovieScoreWeights"

record cfg_TVScoreWeights =
  ctw_Resolution4K :: "int option"
  ctw_Resolution1080p :: "int option"
  ctw_Resolution720p :: "int option"
  ctw_HDR :: "int option"
  ctw_Atmos :: "int option"
  ctw_Audio51 :: "int option"
  ctw_ITA :: "int option"
  ctw_Seeder100Bonus :: "int option"
  ctw_Seeder50Bonus :: "int option"
  ctw_Seeder20Bonus :: "int option"

record TVQualityProfile =
  ctp_Include4K :: "bool option"
  ctp_Include1080p :: "bool option"
  ctp_Include720p :: "bool option"
  ctp_SizeFloorGB :: "(string \<times> float64) list"
  ctp_SizeCeilingGB :: "(string \<times> float64) list"
  ctp_MinSeeders4K :: "int option"
  ctp_MinSeeders :: "int option"
  ctp_FullpackBonus :: "int option"
  ctp_PriorityOrder :: "string list"
  ctp_ScoreWeights :: "cfg_TVScoreWeights"

record QualityProfileSet =
  cps_Movies :: "MovieQualityProfile option"
  cps_TV :: "TVQualityProfile option"

record cfg_QualityConfig =
  cqc_Profile :: string
  cqc_Profiles :: "(string \<times> QualityProfileSet) list"

definition MovieProfileFromConfig :: "MovieQualityProfile \<Rightarrow> MovieProfile" where
  "MovieProfileFromConfig cp =
     (let sw = cmp_ScoreWeights cp
      in \<lparr>mp_Include4K = cmp_Include4K cp, mp_Include1080p = cmp_Include1080p cp, mp_Include720p = cmp_Include720p cp, mp_SizeFloorGB = cmp_SizeFloorGB cp, mp_SizeCeilingGB = cmp_SizeCeilingGB cp, mp_MinSeeders = cmp_MinSeeders cp, mp_Fallback4KMinSeeders = cmp_Fallback4KMinSeeders cp, mp_PriorityOrder = cmp_PriorityOrder cp,
          mp_ScoreWeights = \<lparr>mw_Resolution4K = cmw_Resolution4K sw, mw_Resolution1080p = cmw_Resolution1080p sw, mw_Resolution720p = cmw_Resolution720p sw, mw_DolbyVision = cmw_DolbyVision sw, mw_HDR = cmw_HDR sw, mw_HDR10Plus = cmw_HDR10Plus sw, mw_Atmos = cmw_Atmos sw, mw_Audio51 = cmw_Audio51 sw, mw_AudioStereo = cmw_AudioStereo sw, mw_BluRay = cmw_BluRay sw, mw_Remux = cmw_Remux sw, mw_ITA = cmw_ITA sw, mw_SeederBonus = cmw_SeederBonus sw, mw_SeederThreshold = cmw_SeederThreshold sw, mw_UnknownSizePenalty = cmw_UnknownSizePenalty sw, mw_SizeBonusPerGBUnder = None\<rparr>\<rparr>)"

definition TVProfileFromConfig :: "TVQualityProfile \<Rightarrow> TVProfile" where
  "TVProfileFromConfig cp =
     (let sw = ctp_ScoreWeights cp
      in \<lparr>tp_Include4K = ctp_Include4K cp, tp_Include1080p = ctp_Include1080p cp, tp_Include720p = ctp_Include720p cp, tp_Include480p = None,
          tp_SizeFloorGB = ctp_SizeFloorGB cp, tp_SizeCeilingGB = ctp_SizeCeilingGB cp, tp_MinSeeders4K = ctp_MinSeeders4K cp, tp_MinSeeders = ctp_MinSeeders cp, tp_FullpackBonus = ctp_FullpackBonus cp, tp_PriorityOrder = ctp_PriorityOrder cp,
          tp_ScoreWeights = \<lparr>tw_Resolution4K = ctw_Resolution4K sw, tw_Resolution1080p = ctw_Resolution1080p sw, tw_Resolution720p = ctw_Resolution720p sw, tw_Resolution480p = None, tw_HDR = ctw_HDR sw, tw_Atmos = ctw_Atmos sw, tw_Audio51 = ctw_Audio51 sw, tw_ITA = ctw_ITA sw, tw_Seeder100Bonus = ctw_Seeder100Bonus sw, tw_Seeder50Bonus = ctw_Seeder50Bonus sw, tw_Seeder20Bonus = ctw_Seeder20Bonus sw, tw_SizeBonusPerGBUnder = None\<rparr>\<rparr>)"

text \<open>\<^verbatim>\<open>toQualityConfig\<close> copies the same fields as the two functions above.\<close>

definition toQualityConfig :: "cfg_QualityConfig \<Rightarrow> QualityConfig option" where
  "toQualityConfig cfg =
     (if cqc_Profile cfg = [] \<and> length (cqc_Profiles cfg) = 0 then None
      else Some \<lparr>qc_Profile = cqc_Profile cfg,
        qc_Profiles = Some (\<lambda>name. map_option (\<lambda>ps. \<lparr>ps_Movies = map_option MovieProfileFromConfig (cps_Movies ps),
                                                     ps_TV = map_option TVProfileFromConfig (cps_TV ps)\<rparr>) (map_of (cqc_Profiles cfg) name))\<rparr>)"

definition ResolveMovieProfile :: "cfg_QualityConfig \<Rightarrow> MovieProfile" where
  "ResolveMovieProfile cfg = ResolveMovies (toQualityConfig cfg)"

definition ResolveTVProfile :: "cfg_QualityConfig \<Rightarrow> TVProfile" where
  "ResolveTVProfile cfg = ResolveTV (toQualityConfig cfg)"

section \<open>The scorer\<close>

record Weights =
  we_Res4K :: int
  we_Res1080p :: int
  we_Res720p :: int
  we_HDR :: int
  we_DolbyVision :: int
  we_HDR10Plus :: int
  we_Atmos :: int
  we_Audio51 :: int
  we_Stereo :: int
  we_BluRay :: int
  we_SeederBonus :: int
  we_SeederThreshold :: int

record Profile =
  pr_Weights :: Weights
  pr_FullpackBonus :: int

definition DefaultMovieProfile :: Profile where
  "DefaultMovieProfile = \<lparr>pr_Weights = \<lparr>we_Res4K = 200, we_Res1080p = 50, we_Res720p = 0, we_HDR = 100, we_DolbyVision = 150, we_HDR10Plus = 100,
     we_Atmos = 50, we_Audio51 = 25, we_Stereo = - 50, we_BluRay = 10, we_SeederBonus = 5, we_SeederThreshold = 50\<rparr>, pr_FullpackBonus = 0\<rparr>"

definition DefaultTVProfile :: Profile where
  "DefaultTVProfile = DefaultMovieProfile\<lparr>pr_FullpackBonus := 300\<rparr>"

definition ProfileFromConfig :: "Weights \<Rightarrow> Profile" where
  "ProfileFromConfig w = \<lparr>pr_Weights = w, pr_FullpackBonus = 0\<rparr>"

definition ProfileFromTVConfig :: "Weights \<Rightarrow> int \<Rightarrow> Profile" where
  "ProfileFromTVConfig w fullpackBonus = \<lparr>pr_Weights = w, pr_FullpackBonus = fullpackBonus\<rparr>"

definition re4K :: re where
  "re4K = words [''4k'', ''2160p'', ''uhd'']"

definition re1080p :: re where
  "re1080p = word ''1080p''"

definition re720p :: re where
  "re720p = bounded (word ''720p'')"

definition reHDR :: re where
  "reHDR = bounded (word ''HDR'')"

definition reDV :: re where
  "reDV = choice [seqs [word ''dolby'', Opt Dot, word ''vision''], bounded (word ''dv'')]"

definition reHDR10Plus :: re where
  "reHDR10Plus = words [''hdr10+'', ''hdr10plus'']"

definition reAtmos :: re where
  "reAtmos = word ''atmos''"

definition re51 :: re where
  "re51 = words [''5.1'', ''dts'', ''ddp5'', ''ddp'', ''dd+'', ''eac3'', ''ac3'']"

definition reStereo :: re where
  "reStereo = words [''stereo'', ''aac'', ''mp3'', ''2.0'']"

definition reBluRay :: re where
  "reBluRay = choice [word ''bluray'', seqs [word ''blu'', Opt Dot, word ''ray''], word ''bdrip'', word ''bdremux'', word ''remux'']"

definition reFullpackS :: re where
  "reFullpackS = seqs [word ''s'', Digit, Digit, Star Space, words [''complete'', ''pack'', ''full'']]"

definition reFullpackSeason :: re where
  "reFullpackSeason = seqs [word ''season'', Star Space, plus Digit, Star Space, words [''complete'', ''pack'', ''full'']]"

definition Score :: "runes \<Rightarrow> int \<Rightarrow> Profile \<Rightarrow> int" where
  "Score title seeders profile =
     (let w = pr_Weights profile; m = (\<lambda>r. MatchString r title)
      in (if m re4K then we_Res4K w else if m re1080p then we_Res1080p w else if m re720p then we_Res720p w else 0)
         + (if m reDV then we_DolbyVision w else 0)
         + (if m reHDR10Plus then we_HDR10Plus w else if m reHDR then we_HDR w else 0)
         + (if m reAtmos then we_Atmos w else 0)
         + (if m re51 then we_Audio51 w else 0)
         + (if m reStereo \<and> \<not> m re51 \<and> \<not> m reAtmos then we_Stereo w else 0)
         + (if m reBluRay then we_BluRay w else 0)
         + (if seeders > we_SeederThreshold w then we_SeederBonus w else 0))"

definition text_in :: "runes \<Rightarrow> runes \<Rightarrow> bool" where
  "text_in s w = list_ex (\<lambda>i. take (length w) (drop i s) = w) [0..<Suc (length s)]"

definition qIsFullpack :: "runes \<Rightarrow> bool" where
  "qIsFullpack title \<longleftrightarrow>
     (let t = map lower_rune title in text_in t (runes ''complete'') \<or> text_in t (runes ''full season''))
     \<or> MatchString reFullpackS title \<or> MatchString reFullpackSeason title"

section \<open>Properties\<close>

lemma setIfNotNil_simps [simp]: "setIfNotNil d None = d" "setIfNotNil d (Some v) = Some v"
  by (simp_all add: setIfNotNil_def)

text \<open>Every parameter the engines read without a test is set in a resolved profile.\<close>

lemma resolved_not_nil:
  "mp_Include4K (ResolveMovieProfile cfg) \<noteq> None" "mp_Include1080p (ResolveMovieProfile cfg) \<noteq> None" "mp_Include720p (ResolveMovieProfile cfg) \<noteq> None"
  "mp_MinSeeders (ResolveMovieProfile cfg) \<noteq> None"
  by (auto simp: ResolveMovieProfile_def ResolveMovies_def mergeMovieProfile_def defaultProfileByName_def DefaultSizeFirstMovies_def
      DefaultQualityFirstMovies_def setIfNotNil_def split: option.split)

text \<open>The bonus for small files and everything about 480p cannot be configured: whatever the configuration holds, a resolved
  profile has the values built in for its name. The other flags and numbers are those configured, or else built in.\<close>

theorem resolved_profile_overrides:
  assumes "map_of (cqc_Profiles cfg) (cqc_Profile cfg) = Some \<lparr>cps_Movies = Some cm, cps_TV = Some ct\<rparr>"
  shows "mw_SizeBonusPerGBUnder (mp_ScoreWeights (ResolveMovieProfile cfg)) = mw_SizeBonusPerGBUnder (mp_ScoreWeights (defaultProfileByName (cqc_Profile cfg)))
    \<and> tp_Include480p (ResolveTVProfile cfg) = tp_Include480p (defaultProfileByNameTV (cqc_Profile cfg))
    \<and> tw_Resolution480p (tp_ScoreWeights (ResolveTVProfile cfg)) = tw_Resolution480p (tp_ScoreWeights (defaultProfileByNameTV (cqc_Profile cfg)))
    \<and> mp_MinSeeders (ResolveMovieProfile cfg) = (if cmp_MinSeeders cm = None then mp_MinSeeders (defaultProfileByName (cqc_Profile cfg)) else cmp_MinSeeders cm)
    \<and> tp_MinSeeders (ResolveTVProfile cfg) = (if ctp_MinSeeders ct = None then tp_MinSeeders (defaultProfileByNameTV (cqc_Profile cfg)) else ctp_MinSeeders ct)
    \<and> mp_PriorityOrder (ResolveMovieProfile cfg) = (if cmp_PriorityOrder cm = [] then mp_PriorityOrder (defaultProfileByName (cqc_Profile cfg)) else cmp_PriorityOrder cm)"
proof -
  have ne: "length (cqc_Profiles cfg) \<noteq> 0" using assms by auto
  have m: "ResolveMovieProfile cfg = mergeMovieProfile (MovieProfileFromConfig cm) (defaultProfileByName (cqc_Profile cfg))"
    using assms ne by (simp add: ResolveMovieProfile_def ResolveMovies_def toQualityConfig_def)
  have t: "ResolveTVProfile cfg = mergeTVProfile (TVProfileFromConfig ct) (defaultProfileByNameTV (cqc_Profile cfg))"
    using assms ne by (simp add: ResolveTVProfile_def ResolveTV_def toQualityConfig_def)
  show ?thesis
    by (auto simp: m t mergeMovieProfile_def mergeTVProfile_def mergeMovieWeights_def mergeTVWeights_def MovieProfileFromConfig_def
        TVProfileFromConfig_def Let_def set_if_any_def setIfNotNil_def split: option.split)
qed

end
