(* ===== verification/Errors.thy ===== *)
theory Errors
  imports Main
begin

text \<open>
  The translation of errors into error numbers of the operating system (\<^verbatim>\<open>errors.go\<close>). An error is a plain one, a wrapper of one
  error, or a join of several, which \<^verbatim>\<open>errors.Unwrap\<close> does not open but \<^verbatim>\<open>errors.Is\<close> and \<^verbatim>\<open>errors.As\<close> search. The numbers are those of Linux.
\<close>

datatype plain_error = Errno int | ErrNotExist | ErrPermission | TimeoutError | EOF | ErrUnexpectedEOF | ErrClosedPipe | OtherError

datatype goerr = Plain plain_error | Wrapped goerr | Joined "goerr list"

abbreviation "EPERM \<equiv> (1 :: int)"
abbreviation "ENOENT \<equiv> (2 :: int)"
abbreviation "EIO \<equiv> (5 :: int)"
abbreviation "EAGAIN \<equiv> (11 :: int)"
abbreviation "EACCES \<equiv> (13 :: int)"
abbreviation "EBUSY \<equiv> (16 :: int)"
abbreviation "EINVAL \<equiv> (22 :: int)"
abbreviation "EPIPE \<equiv> (32 :: int)"
abbreviation "ETIMEDOUT \<equiv> (110 :: int)"

text \<open>The plain errors \<^verbatim>\<open>errors.Is\<close> and \<^verbatim>\<open>errors.As\<close> look at, in their order.\<close>

fun plains :: "goerr \<Rightarrow> plain_error list" where
  "plains (Plain e) = [e]"
| "plains (Wrapped e) = plains e"
| "plains (Joined es) = concat (map plains es)"

text \<open>The first error with the methods of \<^verbatim>\<open>net.Error\<close>, which error numbers have too, and whether it is a timeout.\<close>

fun net_timeout :: "plain_error list \<Rightarrow> bool" where
  "net_timeout [] = False"
| "net_timeout (TimeoutError # es) = True"
| "net_timeout (Errno n # es) = (n \<in> {EAGAIN, ETIMEDOUT})"
| "net_timeout (_ # es) = net_timeout es"

fun ToErrno :: "goerr option \<Rightarrow> int" where
  "ToErrno None = 0"
| "ToErrno (Some (Wrapped e)) = ToErrno (Some e)"
| "ToErrno (Some (Plain (Errno n))) = n"
| "ToErrno (Some (Plain ErrNotExist)) = ENOENT"
| "ToErrno (Some (Plain ErrPermission)) = EPERM"
| "ToErrno (Some (Plain TimeoutError)) = ETIMEDOUT"
| "ToErrno (Some e) =
     (if net_timeout (plains e) then ETIMEDOUT
      else if EOF \<in> set (plains e) then 0
      else if ErrUnexpectedEOF \<in> set (plains e) then EIO
      else if ErrClosedPipe \<in> set (plains e) then EPIPE
      else EIO)"

definition MapHTTPStatusToErrno :: "int \<Rightarrow> int" where
  "MapHTTPStatusToErrno statusCode =
     (if statusCode \<in> {200, 206, 204} then 0
      else if statusCode = 404 then ENOENT
      else if statusCode \<in> {403, 401} then EACCES
      else if statusCode \<in> {408, 504} then ETIMEDOUT
      else if statusCode = 429 then EBUSY
      else if statusCode = 416 then EINVAL
      else if statusCode \<in> {500, 502, 503} then EIO
      else if statusCode \<ge> 400 \<and> statusCode < 500 then EINVAL
      else if statusCode \<ge> 500 then EIO
      else 0)"

text \<open>Success is reported exactly for statuses below 400.\<close>

lemma http_success: "MapHTTPStatusToErrno s = 0 \<longleftrightarrow> s < 400"
  by (simp add: MapHTTPStatusToErrno_def)

text \<open>An error is reported as success only if it holds the end of a file or the error number 0.\<close>

lemma errno_zero: "ToErrno (Some e) = 0 \<Longrightarrow> EOF \<in> set (plains e) \<or> Errno 0 \<in> set (plains e)"
proof (induction e rule: plains.induct)
  case (1 e)
  then show ?case by (cases e) auto
qed (auto split: if_splits)

text \<open>A wrapped error has the number of what it wraps.\<close>

lemma errno_wrapped: "ToErrno (Some ((Wrapped ^^ n) e)) = ToErrno (Some e)"
  by (induction n) auto

end
