(* ===== verification/PeerProtocol.thy ===== *)
theory PeerProtocol
  imports Prelude
begin

text \<open>
  The wire protocol between peers (\<^verbatim>\<open>internal/anacrolix-torrent-v1.55/peer_protocol\<close>) and the buffered writer of a connection
  (\<^verbatim>\<open>peer-conn-msg-writer.go\<close>). A reader is the list of the bytes that are still to come, after which it reports the end of the
  input; decoding returns the error, the message with the fields set so far, and the bytes left. Lengths are kept at 32 bits,
  since the decoder subtracts from them without a check. Writes to a byte buffer cannot fail. The chunk pool is the slice it
  hands out, shown at its full capacity.
\<close>

section \<open>Numbers and readers\<close>

type_synonym u32 = "32 word"

definition put32 :: "u32 \<Rightarrow> byte list" where
  "put32 w = [ucast (drop_bit 24 w), ucast (drop_bit 16 w), ucast (drop_bit 8 w), ucast w]"

definition get32 :: "byte list \<Rightarrow> u32" where
  "get32 b = push_bit 24 (ucast (b ! 0)) OR push_bit 16 (ucast (b ! 1)) OR push_bit 8 (ucast (b ! 2)) OR ucast (b ! 3)"

definition put16 :: "16 word \<Rightarrow> byte list" where
  "put16 w = [ucast (drop_bit 8 w), ucast w]"

definition get16 :: "byte list \<Rightarrow> 16 word" where
  "get16 b = push_bit 8 (ucast (b ! 0)) OR ucast (b ! 1)"

datatype rerr = EOF | ErrUnexpectedEOF | ReadingLength rerr | MessageTooLong | PieceTooLong | UnknownType byte
  | UnusedBytes u32 byte | TrailingBytes nat

text \<open>\<^verbatim>\<open>io.ReadFull\<close> into a slice: a short read fills the front of the slice.\<close>

definition read_full :: "byte list \<Rightarrow> byte list \<Rightarrow> rerr option \<times> byte list \<times> byte list" where
  "read_full buf r =
     (if length buf \<le> length r then (None, take (length buf) r, drop (length buf) r)
      else (Some (if r = [] then EOF else ErrUnexpectedEOF), r @ drop (length r) buf, []))"

definition zeros :: "nat \<Rightarrow> byte list" where
  "zeros n = replicate n 0"

definition Integer_Read :: "u32 \<Rightarrow> byte list \<Rightarrow> rerr option \<times> u32 \<times> byte list" where
  "Integer_Read i r = (case read_full (zeros 4) r of (err, b, r') \<Rightarrow> (err, if err = None then get32 b else i, r'))"

section \<open>Messages\<close>

record Message =
  m_Keepalive :: bool
  m_Type :: byte
  m_Index :: u32
  m_Begin :: u32
  m_Length :: u32
  m_Piece :: "byte list"
  m_Bitfield :: "bool list"
  m_ExtendedID :: byte
  m_ExtendedPayload :: "byte list"
  m_Port :: "16 word"

abbreviation (input) "mt_Choke \<equiv> (0 :: byte)"
abbreviation (input) "mt_Unchoke \<equiv> (1 :: byte)"
abbreviation (input) "mt_Interested \<equiv> (2 :: byte)"
abbreviation (input) "mt_NotInterested \<equiv> (3 :: byte)"
abbreviation (input) "mt_Have \<equiv> (4 :: byte)"
abbreviation (input) "mt_Bitfield \<equiv> (5 :: byte)"
abbreviation (input) "mt_Request \<equiv> (6 :: byte)"
abbreviation (input) "mt_Piece \<equiv> (7 :: byte)"
abbreviation (input) "mt_Cancel \<equiv> (8 :: byte)"
abbreviation (input) "mt_Port \<equiv> (9 :: byte)"
abbreviation (input) "mt_Suggest \<equiv> (13 :: byte)"
abbreviation (input) "mt_HaveAll \<equiv> (14 :: byte)"
abbreviation (input) "mt_HaveNone \<equiv> (15 :: byte)"
abbreviation (input) "mt_Reject \<equiv> (16 :: byte)"
abbreviation (input) "mt_AllowedFast \<equiv> (17 :: byte)"
abbreviation (input) "mt_Extended \<equiv> (20 :: byte)"

definition FastExtension :: "byte \<Rightarrow> bool" where
  "FastExtension mt \<longleftrightarrow> mt \<ge> mt_Suggest \<and> mt \<le> mt_AllowedFast"

definition zero_msg :: Message where
  "zero_msg = \<lparr>m_Keepalive = False, m_Type = 0, m_Index = 0, m_Begin = 0, m_Length = 0, m_Piece = [], m_Bitfield = [],
     m_ExtendedID = 0, m_ExtendedPayload = [], m_Port = 0\<rparr>"

definition MakeCancelMessage :: "u32 \<Rightarrow> u32 \<Rightarrow> u32 \<Rightarrow> Message" where
  "MakeCancelMessage piece offset len = zero_msg\<lparr>m_Type := mt_Cancel, m_Index := piece, m_Begin := offset, m_Length := len\<rparr>"

record RequestSpec =
  rs_Index :: u32
  rs_Begin :: u32
  rs_Length :: u32

definition to_RequestSpec :: "Message \<Rightarrow> RequestSpec" where
  "to_RequestSpec msg = \<lparr>rs_Index = m_Index msg, rs_Begin = m_Begin msg,
     rs_Length = (if m_Type msg = mt_Piece then of_nat (length (m_Piece msg)) else m_Length msg)\<rparr>"

text \<open>The kinds of message that share a case of the switches.\<close>

definition plain_type :: "byte \<Rightarrow> bool" where
  "plain_type t \<longleftrightarrow> t \<in> {mt_Choke, mt_Unchoke, mt_Interested, mt_NotInterested, mt_HaveAll, mt_HaveNone}"

definition index_type :: "byte \<Rightarrow> bool" where
  "index_type t \<longleftrightarrow> t \<in> {mt_Have, mt_AllowedFast, mt_Suggest}"

definition request_type :: "byte \<Rightarrow> bool" where
  "request_type t \<longleftrightarrow> t \<in> {mt_Request, mt_Cancel, mt_Reject}"

text \<open>Bits are set one by one in a slice of zeros.\<close>

definition marshalBitfield :: "bool list \<Rightarrow> byte list" where
  "marshalBitfield bf =
     fold (\<lambda>(i, have) b. if \<not> have then b else b[i div 8 := b ! (i div 8) OR push_bit (7 - i mod 8) 1])
       (enumerate 0 bf) (zeros ((length bf + 7) div 8))"

definition unmarshalBitfield :: "byte list \<Rightarrow> bool list" where
  "unmarshalBitfield b = concat (map (\<lambda>c. map (\<lambda>i. drop_bit i c AND 1 = 1) [7, 6, 5, 4, 3, 2, 1, 0]) b)"

text \<open>\<^verbatim>\<open>MarshalTo\<close> a byte buffer. An unknown type is an error, reported after the type was written.\<close>

definition MarshalTo :: "Message \<Rightarrow> byte list \<Rightarrow> rerr option \<times> byte list" where
  "MarshalTo msg w =
     (if m_Keepalive msg then (None, w)
      else let w = w @ [m_Type msg]; t = m_Type msg
        in if plain_type t then (None, w)
           else if index_type t then (None, w @ put32 (m_Index msg))
           else if request_type t then (None, w @ put32 (m_Index msg) @ put32 (m_Begin msg) @ put32 (m_Length msg))
           else if t = mt_Bitfield then (None, w @ marshalBitfield (m_Bitfield msg))
           else if t = mt_Piece then (None, w @ put32 (m_Index msg) @ put32 (m_Begin msg) @ m_Piece msg)
           else if t = mt_Extended then (None, w @ [m_ExtendedID msg] @ m_ExtendedPayload msg)
           else if t = mt_Port then (None, w @ put16 (m_Port msg))
           else (Some (UnknownType t), w))"

definition MarshalBinary :: "Message \<Rightarrow> rerr + byte list" where
  "MarshalBinary msg =
     (case MarshalTo msg [] of (Some e, _) \<Rightarrow> Inl e | (None, b) \<Rightarrow> Inr (put32 (of_nat (length b)) @ b))"

section \<open>The decoder\<close>

record Decoder =
  d_Pool :: "byte list option"
  d_MaxLength :: u32

definition and_then :: "rerr option \<times> 'a \<times> byte list \<Rightarrow> ('a \<Rightarrow> byte list \<Rightarrow> rerr option \<times> 'a \<times> byte list) \<Rightarrow> rerr option \<times> 'a \<times> byte list"
  where "and_then x f = (case x of (None, m, r) \<Rightarrow> f m r | e \<Rightarrow> e)"

definition read_Index :: "Message \<Rightarrow> byte list \<Rightarrow> rerr option \<times> Message \<times> byte list" where
  "read_Index msg r = (case Integer_Read (m_Index msg) r of (err, i, r') \<Rightarrow> (err, msg\<lparr>m_Index := i\<rparr>, r'))"

definition read_Begin :: "Message \<Rightarrow> byte list \<Rightarrow> rerr option \<times> Message \<times> byte list" where
  "read_Begin msg r = (case Integer_Read (m_Begin msg) r of (err, i, r') \<Rightarrow> (err, msg\<lparr>m_Begin := i\<rparr>, r'))"

definition read_Length :: "Message \<Rightarrow> byte list \<Rightarrow> rerr option \<times> Message \<times> byte list" where
  "read_Length msg r = (case Integer_Read (m_Length msg) r of (err, i, r') \<Rightarrow> (err, msg\<lparr>m_Length := i\<rparr>, r'))"

text \<open>The check after the switch: an error is kept, bytes of the frame that were not used are one.\<close>

definition check_unused :: "u32 \<Rightarrow> rerr option \<times> Message \<times> byte list \<Rightarrow> rerr option \<times> Message \<times> byte list" where
  "check_unused len x = (case x of (err, msg, r) \<Rightarrow> (if err = None \<and> len \<noteq> 0 then Some (UnusedBytes len (m_Type msg)) else err, msg, r))"

definition read_Piece :: "byte list option \<Rightarrow> u32 \<Rightarrow> Message \<Rightarrow> byte list \<Rightarrow> rerr option \<times> Message \<times> byte list" where
  "read_Piece pool dataLen msg r =
     (case pool of
        None \<Rightarrow> (case read_full (zeros (unat dataLen)) r of (err, b, r') \<Rightarrow> (err, msg\<lparr>m_Piece := b\<rparr>, r'))
      | Some buf \<Rightarrow>
          if length buf < unat dataLen then (Some PieceTooLong, msg\<lparr>m_Piece := buf\<rparr>, r)
          else (case read_full (take (unat dataLen) buf) r of (err, b, r') \<Rightarrow> (err, msg\<lparr>m_Piece := b\<rparr>, r')))"

text \<open>The switch on the type; \<open>len\<close> is what is left of the frame after the type.\<close>

definition decode_body :: "Decoder \<Rightarrow> u32 \<Rightarrow> Message \<Rightarrow> byte list \<Rightarrow> rerr option \<times> Message \<times> byte list" where
  "decode_body d len msg r =
     (let t = m_Type msg
      in if plain_type t then check_unused len (None, msg, r)
         else if index_type t then check_unused (len - 4) (read_Index msg r)
         else if request_type t
         then check_unused (len - 12) (and_then (and_then (read_Index msg r) read_Begin) read_Length)
         else if t = mt_Bitfield
         then (case read_full (zeros (unat len)) r of (err, b, r') \<Rightarrow> (err, msg\<lparr>m_Bitfield := unmarshalBitfield b\<rparr>, r'))
         else if t = mt_Piece then and_then (and_then (read_Index msg r) read_Begin) (read_Piece (d_Pool d) (len - 8))
         else if t = mt_Extended
         then (case r of [] \<Rightarrow> (Some EOF, msg, [])
               | b # r1 \<Rightarrow>
                   (case read_full (zeros (unat (len - 1))) r1 of
                      (err, p, r') \<Rightarrow> (err, msg\<lparr>m_ExtendedID := b, m_ExtendedPayload := p\<rparr>, r')))
         else if t = mt_Port
         then check_unused (len - 2)
                (case read_full (zeros 2) r of
                   (err, b, r') \<Rightarrow> (err, if err = None then msg\<lparr>m_Port := get16 b\<rparr> else msg, r'))
         else (Some (UnknownType t), msg, r))"

definition unexpected :: "rerr option \<Rightarrow> rerr option" where
  "unexpected err = (if err = Some EOF then Some ErrUnexpectedEOF else err)"

definition Decode :: "Decoder \<Rightarrow> Message \<Rightarrow> byte list \<Rightarrow> rerr option \<times> Message \<times> byte list" where
  "Decode d msg r =
     (case Integer_Read 0 r of
        (Some e, _, r') \<Rightarrow> (Some (ReadingLength e), msg, r')
      | (None, len, r') \<Rightarrow>
          if len > d_MaxLength d then (Some MessageTooLong, msg, r')
          else if len = 0 then (None, msg\<lparr>m_Keepalive := True\<rparr>, r')
          else (case r' of [] \<Rightarrow> (Some ErrUnexpectedEOF, msg, [])
                | c # r1 \<Rightarrow> (case decode_body d (len - 1) (msg\<lparr>m_Type := c\<rparr>) r1 of (err, m, rest) \<Rightarrow> (unexpected err, m, rest))))"

text \<open>\<^verbatim>\<open>UnmarshalBinary\<close> makes a decoder without setting its limit. The buffered reader holds the whole input at once.\<close>

definition UnmarshalBinary :: "Message \<Rightarrow> byte list \<Rightarrow> rerr option \<times> Message" where
  "UnmarshalBinary me b =
     (case Decode \<lparr>d_Pool = None, d_MaxLength = 0\<rparr> me b of
        (Some e, m, _) \<Rightarrow> (Some e, m)
      | (None, m, r) \<Rightarrow> (if r \<noteq> [] then Some (TrailingBytes (length r)) else None, m))"

section \<open>Reading numbers back\<close>

lemma length_put_bytes [simp]: "length (put32 w) = 4" "length (put16 v) = 2" "length (zeros n) = n"
  by (simp_all add: put32_def put16_def zeros_def)

lemma get_put32 [simp]: "get32 (put32 w) = w"
proof (rule bit_word_eqI)
  fix n :: nat
  assume "n < LENGTH(32)"
  then consider "n < 8" | "8 \<le> n" "n < 16" | "16 \<le> n" "n < 24" | "24 \<le> n" "n < 32" by fastforce
  then show "bit (get32 (put32 w)) n = bit w n" by cases (auto simp: get32_def put32_def bit_simps)
qed

lemma get_put16 [simp]: "get16 (put16 w) = w"
  by (rule bit_word_eqI) (auto simp: get16_def put16_def bit_simps)

lemma read_full_append [simp]: "length buf = length b \<Longrightarrow> read_full buf (b @ r) = (None, b, r)"
  by (simp add: read_full_def)

lemma read_fullD: "read_full buf r = (None, b, r') \<Longrightarrow> r = b @ r' \<and> length b = length buf"
  by (auto simp: read_full_def split: if_splits)

lemma Integer_Read_put [simp]: "Integer_Read i (put32 w @ r) = (None, w, r)"
  by (simp add: Integer_Read_def)

lemma Integer_ReadD: "Integer_Read i r = (None, w, r') \<Longrightarrow> 4 \<le> length r \<and> r' = drop 4 r \<and> w = get32 (take 4 r)"
  by (auto simp: Integer_Read_def dest!: read_fullD split: prod.splits if_splits)

section \<open>Bitfields\<close>

definition padded :: "bool list \<Rightarrow> bool list" where
  "padded bf = bf @ replicate (8 * ((length bf + 7) div 8) - length bf) False"

definition set_bits_of :: "nat \<Rightarrow> bool list \<Rightarrow> byte list" where
  "set_bits_of n bf = fold (\<lambda>(i, have) b. if \<not> have then b else b[i div 8 := b ! (i div 8) OR push_bit (7 - i mod 8) 1]) (enumerate 0 bf) (zeros n)"

lemma length_set_bits_of [simp]: "length (set_bits_of n bf) = n"
  by (induction bf rule: rev_induct) (simp_all add: set_bits_of_def enumerate_append_eq)

lemma set_bits_of_snoc:
  "set_bits_of n (bf @ [x]) =
     (let b = set_bits_of n bf; i = length bf in if \<not> x then b else b[i div 8 := b ! (i div 8) OR push_bit (7 - i mod 8) 1])"
  by (simp add: set_bits_of_def enumerate_append_eq Let_def)

lemma bit_set_bits_of:
  assumes "length bf \<le> 8 * n" "i < 8 * n"
  shows "bit (set_bits_of n bf ! (i div 8)) (7 - i mod 8) \<longleftrightarrow> i < length bf \<and> bf ! i"
  using assms(1)
proof (induction bf rule: rev_induct)
  case Nil
  have "i div 8 < n" using assms(2) by linarith
  then show ?case by (simp add: set_bits_of_def zeros_def)
next
  case (snoc x bf)
  have m: "length bf div 8 < n" "i div 8 < n" using snoc.prems assms(2) by auto
  have e: "i = length bf \<longleftrightarrow> i div 8 = length bf div 8 \<and> 7 - i mod 8 = 7 - length bf mod 8"
  proof -
    have "i mod 8 \<le> 7" "length bf mod 8 \<le> 7" by simp_all
    then have "7 - i mod 8 = 7 - length bf mod 8 \<longleftrightarrow> i mod 8 = length bf mod 8" by linarith
    then show ?thesis using div_mult_mod_eq [of i 8] div_mult_mod_eq [of "length bf" 8] by metis
  qed
  have b: "bit (push_bit (7 - length bf mod 8) (1 :: byte)) (7 - i mod 8) \<longleftrightarrow> 7 - i mod 8 = 7 - length bf mod 8"
    by (auto simp: bit_simps)
  have IH: "bit (set_bits_of n bf ! (i div 8)) (7 - i mod 8) \<longleftrightarrow> i < length bf \<and> bf ! i" using snoc by simp
  show ?case using m e b IH by (auto simp: set_bits_of_snoc Let_def nth_list_update bit_or_iff nth_append less_Suc_eq)
qed

lemma unmarshalBitfield_upt: "unmarshalBitfield b = map (\<lambda>i. bit (b ! (i div 8)) (7 - i mod 8)) [0..<8 * length b]"
proof (induction b rule: rev_induct)
  case (snoc c b)
  have u: "[0..<8 * length (b @ [c])] = [0..<8 * length b] @ map (\<lambda>j. 8 * length b + j) [0..<8]"
    using upt_add_eq_append [of 0 "8 * length b" 8] map_add_upt [of "8 * length b" 8] by (simp add: add.commute)
  have o: "drop_bit i x AND 1 = 1 \<longleftrightarrow> bit x i" for i and x :: byte by (simp add: and_one_eq bit_iff_odd_drop_bit odd_iff_mod_2_eq_one)
  have "unmarshalBitfield (b @ [c]) = unmarshalBitfield b @ map (\<lambda>j. bit c (7 - j)) [0, 1, 2, 3, 4, 5, 6, 7]"
    unfolding unmarshalBitfield_def o by simp
  moreover have "[0, 1, 2, 3, 4, 5, 6, 7] = [0..<8]" by code_simp
  moreover have "map (\<lambda>i. bit ((b @ [c]) ! (i div 8)) (7 - i mod 8)) (map (\<lambda>j. 8 * length b + j) [0..<8]) = map (\<lambda>j. bit c (7 - j)) [0..<8]"
    by (simp add: nth_append)
  moreover have "map (\<lambda>i. bit ((b @ [c]) ! (i div 8)) (7 - i mod 8)) [0..<8 * length b] = unmarshalBitfield b"
    unfolding snoc.IH by (simp add: nth_append less_mult_imp_div_less mult.commute)
  ultimately show ?case unfolding u map_append by metis
qed (simp add: unmarshalBitfield_def)

lemma length_unmarshalBitfield [simp]: "length (unmarshalBitfield b) = 8 * length b"
  by (simp add: unmarshalBitfield_upt)

lemma length_marshalBitfield [simp]: "length (marshalBitfield bf) = (length bf + 7) div 8"
  using length_set_bits_of [of "(length bf + 7) div 8" bf] by (simp add: marshalBitfield_def set_bits_of_def)

lemma bitfield_roundtrip [simp]: "unmarshalBitfield (marshalBitfield bf) = padded bf"
proof (rule nth_equalityI)
  show "length (unmarshalBitfield (marshalBitfield bf)) = length (padded bf)" by (simp add: padded_def)
  fix i
  assume "i < length (unmarshalBitfield (marshalBitfield bf))"
  then have i: "i < 8 * ((length bf + 7) div 8)" by simp
  have m: "marshalBitfield bf = set_bits_of ((length bf + 7) div 8) bf" by (simp add: marshalBitfield_def set_bits_of_def)
  have "unmarshalBitfield (marshalBitfield bf) ! i \<longleftrightarrow> i < length bf \<and> bf ! i"
    using bit_set_bits_of [OF _ i, of bf] i by (simp add: unmarshalBitfield_upt m)
  then show "unmarshalBitfield (marshalBitfield bf) ! i = padded bf ! i" using i by (auto simp: padded_def nth_append)
qed

section \<open>Decoding what was encoded\<close>

text \<open>What a receiver gets of a message: the fields of its type, a bitfield padded to whole bytes.\<close>

definition received :: "Message \<Rightarrow> Message" where
  "received msg =
     (if m_Keepalive msg then zero_msg\<lparr>m_Keepalive := True\<rparr>
      else let t = m_Type msg; z = zero_msg\<lparr>m_Type := t\<rparr>
        in if plain_type t then z
           else if index_type t then z\<lparr>m_Index := m_Index msg\<rparr>
           else if request_type t then z\<lparr>m_Index := m_Index msg, m_Begin := m_Begin msg, m_Length := m_Length msg\<rparr>
           else if t = mt_Bitfield then z\<lparr>m_Bitfield := padded (m_Bitfield msg)\<rparr>
           else if t = mt_Piece then z\<lparr>m_Index := m_Index msg, m_Begin := m_Begin msg, m_Piece := m_Piece msg\<rparr>
           else if t = mt_Extended then z\<lparr>m_ExtendedID := m_ExtendedID msg, m_ExtendedPayload := m_ExtendedPayload msg\<rparr>
           else z\<lparr>m_Port := m_Port msg\<rparr>)"

definition fits :: "Decoder \<Rightarrow> Message \<Rightarrow> bool" where
  "fits d msg \<longleftrightarrow> length (snd (MarshalTo msg [])) \<le> unat (d_MaxLength d)
     \<and> (case d_Pool d of None \<Rightarrow> True | Some buf \<Rightarrow> m_Type msg = mt_Piece \<longrightarrow> length (m_Piece msg) \<le> length buf)"

lemma unat_u32: "n < 2 ^ 32 \<Longrightarrow> unat (of_nat n :: u32) = n"
  by (simp add: unsigned_of_nat take_bit_nat_eq_self)

lemma unat_less_u32: "unat (w :: u32) < 2 ^ 32"
  using unsigned_less [of w] by simp

lemma fits_small: "fits d msg \<Longrightarrow> length (snd (MarshalTo msg [])) < 2 ^ 32"
  by (rule le_less_trans [of _ "unat (d_MaxLength d)"]) (simp_all add: fits_def unat_less_u32 [simplified])

text \<open>The payload of a message, after its type.\<close>

definition payload :: "Message \<Rightarrow> byte list" where
  "payload msg = tl (snd (MarshalTo msg []))"

lemma MarshalTo_parts:
  assumes "MarshalTo msg [] = (None, b)" "\<not> m_Keepalive msg"
  shows "b = m_Type msg # payload msg"
  using assms by (auto simp: payload_def MarshalTo_def Let_def split: if_splits)

lemmas type_defs = plain_type_def index_type_def request_type_def

lemma read_parts [simp]:
  "read_Index msg (put32 i @ r) = (None, msg\<lparr>m_Index := i\<rparr>, r)"
  "read_Begin msg (put32 i @ r) = (None, msg\<lparr>m_Begin := i\<rparr>, r)"
  "read_Length msg (put32 i @ r) = (None, msg\<lparr>m_Length := i\<rparr>, r)"
  by (simp_all add: read_Index_def read_Begin_def read_Length_def)

lemma and_then_None [simp]: "and_then (None, m, r) f = f m r"
  by (simp add: and_then_def)

lemma read_Piece_ok [simp]:
  assumes "length p < 2 ^ 32" "case pool of None \<Rightarrow> True | Some buf \<Rightarrow> length p \<le> length buf"
  shows "read_Piece pool (of_nat (length p)) msg (p @ r) = (None, msg\<lparr>m_Piece := p\<rparr>, r)"
  using assms by (auto simp: read_Piece_def unat_u32 split: option.splits)

lemma decode_body_payload:
  assumes "MarshalTo msg [] = (None, b)" "\<not> m_Keepalive msg" "fits d msg"
  shows "decode_body d (of_nat (length (payload msg))) (zero_msg\<lparr>m_Type := m_Type msg\<rparr>) (payload msg @ rest) = (None, received msg, rest)"
proof -
  have l: "length (payload msg) < 2 ^ 32" using fits_small [OF assms(3)] MarshalTo_parts [OF assms(1,2)] assms(1) by simp
  have pool: "m_Type msg = mt_Piece \<Longrightarrow> case d_Pool d of None \<Rightarrow> True | Some buf \<Rightarrow> length (m_Piece msg) \<le> length buf"
    using assms(3) by (auto simp: fits_def split: option.splits)
  consider "plain_type (m_Type msg)" | "index_type (m_Type msg)" | "request_type (m_Type msg)" | "m_Type msg = mt_Bitfield"
    | "m_Type msg = mt_Piece" | "m_Type msg = mt_Extended" | "m_Type msg = mt_Port"
    using assms(1,2) by (auto simp: MarshalTo_def Let_def split: if_splits)
  then show ?thesis
    using l assms(2) pool
    by cases (auto simp: decode_body_def received_def payload_def MarshalTo_def check_unused_def type_defs Let_def unat_u32)
qed

lemma decode_encoded:
  assumes "MarshalBinary msg = Inr data" "fits d msg"
  shows "Decode d zero_msg (data @ rest) = (None, received msg, rest)"
proof -
  obtain b where b: "MarshalTo msg [] = (None, b)" "data = put32 (of_nat (length b)) @ b"
    using assms(1) by (auto simp: MarshalBinary_def split: prod.splits option.splits)
  have small: "length b < 2 ^ 32" "\<not> d_MaxLength d < of_nat (length b)"
    using fits_small [OF assms(2)] assms(2) b by (auto simp: fits_def word_less_nat_alt unat_u32)
  show ?thesis
  proof (cases "m_Keepalive msg")
    case True
    then have "b = []" using b(1) by (simp add: MarshalTo_def)
    then show ?thesis using True b by (simp add: Decode_def received_def)
  next
    case False
    note p = MarshalTo_parts [OF b(1) False]
    have "of_nat (length b) \<noteq> (0 :: u32)" using small(1) p unat_u32 [OF small(1)] by (metis length_0_conv list.distinct(1) unat_0)
    then show ?thesis using decode_body_payload [OF b(1) False assms(2), of rest] small p b(2) by (simp add: Decode_def unexpected_def)
  qed
qed

section \<open>Frames\<close>

text \<open>The frames for which no length of the decoder wraps around: an extended message has an identifier, and a piece its two
  numbers or a pool of less than four gigabytes to stop it.\<close>

definition frame_ok :: "Decoder \<Rightarrow> byte \<Rightarrow> u32 \<Rightarrow> bool" where
  "frame_ok d t len \<longleftrightarrow> (t = mt_Extended \<longrightarrow> len \<noteq> 0)
     \<and> (t = mt_Piece \<longrightarrow> 8 \<le> len \<or> (case d_Pool d of None \<Rightarrow> False | Some buf \<Rightarrow> length buf < 2 ^ 32 - 8))"

lemma read_partD:
  "read_Index msg r = (None, m, r') \<Longrightarrow> 4 \<le> length r \<and> r' = drop 4 r \<and> m_Type m = m_Type msg"
  "read_Begin msg r = (None, m, r') \<Longrightarrow> 4 \<le> length r \<and> r' = drop 4 r \<and> m_Type m = m_Type msg"
  "read_Length msg r = (None, m, r') \<Longrightarrow> 4 \<le> length r \<and> r' = drop 4 r \<and> m_Type m = m_Type msg"
  by (auto simp: read_Index_def read_Begin_def read_Length_def dest!: Integer_ReadD split: prod.splits)

lemma and_thenD: "and_then x f = (None, m, r) \<Longrightarrow> \<exists>m1 r1. x = (None, m1, r1) \<and> f m1 r1 = (None, m, r)"
  by (auto simp: and_then_def split: prod.splits option.splits)

lemma check_unusedD: "check_unused len x = (None, m, r) \<Longrightarrow> x = (None, m, r) \<and> len = 0"
  by (auto simp: check_unused_def split: prod.splits if_splits)

lemma unat_minus: "n \<le> unat (len :: u32) \<Longrightarrow> unat (len - of_nat n) = unat len - n"
  using unat_u32 [of n] unat_less_u32 [of len] by (simp add: unat_sub_if')

lemma read_PieceD:
  assumes "read_Piece (d_Pool d) (len - 8) msg r = (None, m, r')" "frame_ok d mt_Piece len"
  shows "8 \<le> unat len \<and> unat len - 8 \<le> length r \<and> r' = drop (unat len - 8) r"
proof -
  have ge: "8 \<le> unat len"
  proof (rule ccontr)
    assume c: "\<not> 8 \<le> unat len"
    then obtain buf where b: "d_Pool d = Some buf" "length buf < 2 ^ 32 - 8"
      using assms(2) by (auto simp: frame_ok_def word_le_nat_alt split: option.splits)
    have "unat (len - 8) = 2 ^ 32 + unat len - 8"
      using c by (simp add: unat_sub_if')
    then show False using assms(1) b by (auto simp: read_Piece_def split: if_splits)
  qed
  then show ?thesis using assms(1) unat_minus [of 8 len]
    by (auto simp: read_Piece_def dest!: read_fullD split: prod.splits option.splits if_splits)
qed

lemma decode_body_consumes:
  assumes "decode_body d len msg r = (None, m, r')" "frame_ok d (m_Type msg) len"
  shows "unat len \<le> length r \<and> r' = drop (unat len) r"
proof -
  consider "plain_type (m_Type msg)" | "index_type (m_Type msg)" | "request_type (m_Type msg)" | "m_Type msg = mt_Bitfield"
    | "m_Type msg = mt_Piece" | "m_Type msg = mt_Extended" | "m_Type msg = mt_Port"
    using assms(1) by (auto simp: decode_body_def Let_def split: if_splits)
  then show ?thesis
  proof cases
    case 1
    then show ?thesis using assms(1) by (auto simp: decode_body_def dest!: check_unusedD)
  next
    case 2
    then have "len = 4" "read_Index msg r = (None, m, r')"
      using assms(1) by (auto simp: decode_body_def type_defs dest!: check_unusedD)
    then show ?thesis by (auto dest!: read_partD)
  next
    case 3
    then have "len = 12" "and_then (and_then (read_Index msg r) read_Begin) read_Length = (None, m, r')"
      using assms(1) by (auto simp: decode_body_def type_defs dest!: check_unusedD)
    then show ?thesis by (auto dest!: and_thenD read_partD)
  next
    case 4
    then show ?thesis using assms(1) by (auto simp: decode_body_def type_defs dest!: read_fullD split: prod.splits)
  next
    case 5
    then obtain m1 r1 where "and_then (read_Index msg r) read_Begin = (None, m1, r1)" "read_Piece (d_Pool d) (len - 8) m1 r1 = (None, m, r')"
      using assms(1) by (auto simp: decode_body_def type_defs dest!: and_thenD)
    then show ?thesis using 5 assms(2) by (auto dest!: and_thenD read_partD read_PieceD)
  next
    case 6
    then have "len \<noteq> 0" using assms(2) by (simp add: frame_ok_def)
    then have "unat (len - 1) = unat len - 1" "0 < unat len" using unat_minus [of 1 len] by (simp_all add: unat_gt_0 Suc_leI)
    then show ?thesis using 6 assms(1) by (auto simp: decode_body_def type_defs drop_Cons' dest!: read_fullD split: prod.splits list.splits)
  next
    case 7
    then have "len = 2" using assms(1) by (auto simp: decode_body_def type_defs dest!: check_unusedD)
    then show ?thesis using 7 assms(1) by (auto simp: decode_body_def type_defs dest!: check_unusedD read_fullD split: prod.splits)
  qed
qed

lemma Decode_cases:
  assumes "Decode d msg r = (None, m, r')"
  obtains "4 \<le> length r" "get32 (take 4 r) = 0" "r' = drop 4 r"
    | c r1 where "4 \<le> length r" "get32 (take 4 r) \<noteq> 0" "drop 4 r = c # r1"
        "decode_body d (get32 (take 4 r) - 1) (msg\<lparr>m_Type := c\<rparr>) r1 = (None, m, r')"
  using assms
  by (auto simp: Decode_def unexpected_def dest!: Integer_ReadD split: prod.splits option.splits if_splits list.splits) metis

lemma frame_consumed:
  assumes "Decode d msg r = (None, m, r')" "frame_ok d (r ! 4) (get32 (take 4 r) - 1)"
  shows "4 + unat (get32 (take 4 r)) \<le> length r \<and> r' = drop (4 + unat (get32 (take 4 r))) r"
  using assms(1)
proof (cases rule: Decode_cases)
  case (2 c r1)
  have c: "r ! 4 = c" using nth_via_drop [OF 2(3)] .
  have u: "unat (get32 (take 4 r) - 1) = unat (get32 (take 4 r)) - 1" "0 < unat (get32 (take 4 r))"
    using 2(2) unat_minus [of 1 "get32 (take 4 r)"] by (simp_all add: unat_gt_0 Suc_leI)
  have b: "unat (get32 (take 4 r)) - 1 \<le> length r1 \<and> r' = drop (unat (get32 (take 4 r)) - 1) r1"
    using decode_body_consumes [OF 2(4)] assms(2) c u by simp
  have "length r = 5 + length r1" using arg_cong [OF 2(3), of length] by simp
  moreover have "drop (4 + unat (get32 (take 4 r))) r = drop (unat (get32 (take 4 r))) (c # r1)"
    unfolding 2(3) [symmetric] by (simp add: add.commute)
  ultimately show ?thesis using b u(2) by (auto simp: drop_Cons')
qed simp

lemma read_full_shorter: "read_full buf r = (e, b, r') \<Longrightarrow> length r' \<le> length r"
  by (auto simp: read_full_def split: if_splits)

lemma decode_body_shorter:
  assumes "decode_body d len msg r = (None, m, r')"
  shows "length r' \<le> length r"
proof -
  have p: "read_Piece pool n m1 r1 = (None, m, r') \<Longrightarrow> length r' \<le> length r1" for pool n m1 r1
    by (auto simp: read_Piece_def dest!: read_full_shorter split: option.splits if_splits prod.splits)
  show ?thesis using assms
    by (auto simp: decode_body_def Let_def dest!: check_unusedD and_thenD read_partD p read_full_shorter split: if_splits prod.splits list.splits)
qed

lemma Decode_shorter:
  assumes "Decode d msg r = (None, m, r')"
  shows "length r' < length r"
  using assms
proof (cases rule: Decode_cases)
  case (2 c r1)
  have "length r = 5 + length r1" using arg_cong [OF 2(3), of length] by simp
  then show ?thesis using decode_body_shorter [OF 2(4)] by simp
qed auto

text \<open>The reading loop of a connection: fresh messages are decoded until the first error.\<close>

function decode_all :: "Decoder \<Rightarrow> byte list \<Rightarrow> Message list \<times> rerr" where
  "decode_all d r =
     (case Decode d zero_msg r of
        (Some e, _, _) \<Rightarrow> ([], e)
      | (None, m, r') \<Rightarrow> (case decode_all d r' of (ms, e) \<Rightarrow> (m # ms, e)))"
  by pat_completeness auto
termination
  by (relation "measure (\<lambda>(d, r). length r)") (auto dest: Decode_shorter [OF sym])

declare decode_all.simps [simp del]

section \<open>The writer of a connection\<close>

abbreviation "writeBufferHighWaterLen \<equiv> (32768 :: nat)"

definition put_at :: "nat \<Rightarrow> byte list \<Rightarrow> byte list \<Rightarrow> byte list" where
  "put_at i b w = take i w @ b @ drop (i + length b) w"

text \<open>\<^verbatim>\<open>write\<close>: a dummy length, the message, then the length is filled in. \<open>None\<close> is a panic.\<close>

definition msg_write :: "Message \<Rightarrow> byte list \<Rightarrow> (byte list \<times> bool) option" where
  "msg_write msg wb =
     (let startPos = length wb
      in case MarshalTo msg (wb @ [0, 0, 0, 0]) of
           (Some _, _) \<Rightarrow> None
         | (None, wb1) \<Rightarrow>
             let endPos = length wb1; len = of_nat (endPos - startPos - 4); wb2 = put_at startPos (put32 len) wb1
             in Some (wb2, \<not> length wb2 \<ge> writeBufferHighWaterLen))"

text \<open>The state of the writer: the two buffers, what the connection has taken, whether the loop has ended, and the messages
  written so far.\<close>

record Writer =
  w_writeBuffer :: "byte list"
  w_frontBuf :: "byte list"
  w_sent :: "byte list"
  w_ended :: bool
  w_log :: "Message list"

definition new_writer :: "Writer \<Rightarrow> bool" where
  "new_writer s \<longleftrightarrow> s = \<lparr>w_writeBuffer = [], w_frontBuf = [], w_sent = [], w_ended = False, w_log = []\<rparr>"

abbreviation "keepalive \<equiv> zero_msg\<lparr>m_Keepalive := True\<rparr>"

text \<open>The steps: some goroutine writes a message; the loop puts a keep-alive into an empty buffer; it flips the buffers; it
  sends a part of the front buffer, or fails to and ends.\<close>

inductive writer_step :: "Writer \<Rightarrow> Writer \<Rightarrow> bool" where
  step_write: "msg_write msg (w_writeBuffer s) = Some (wb, room) \<Longrightarrow>
    writer_step s (s\<lparr>w_writeBuffer := wb, w_log := w_log s @ [msg]\<rparr>)"
| step_keepalive: "\<not> w_ended s \<Longrightarrow> w_frontBuf s = [] \<Longrightarrow> w_writeBuffer s = [] \<Longrightarrow> MarshalBinary keepalive = Inr b \<Longrightarrow>
    writer_step s (s\<lparr>w_writeBuffer := b, w_log := w_log s @ [keepalive]\<rparr>)"
| step_flip: "\<not> w_ended s \<Longrightarrow> w_frontBuf s = [] \<Longrightarrow> w_writeBuffer s \<noteq> [] \<Longrightarrow>
    writer_step s (s\<lparr>w_frontBuf := w_writeBuffer s, w_writeBuffer := w_frontBuf s\<rparr>)"
| step_send: "\<not> w_ended s \<Longrightarrow> w_frontBuf s \<noteq> [] \<Longrightarrow>
    writer_step s (s\<lparr>w_sent := w_sent s @ take 65535 (w_frontBuf s), w_frontBuf := drop 65535 (w_frontBuf s)\<rparr>)"
| step_fail: "\<not> w_ended s \<Longrightarrow> w_frontBuf s \<noteq> [] \<Longrightarrow> n \<le> min 65535 (length (w_frontBuf s)) \<Longrightarrow>
    writer_step s (s\<lparr>w_sent := w_sent s @ take n (w_frontBuf s), w_ended := True\<rparr>)"

definition encoded :: "Message \<Rightarrow> byte list" where
  "encoded msg = (case MarshalBinary msg of Inl _ \<Rightarrow> [] | Inr b \<Rightarrow> b)"

definition writer_inv :: "Writer \<Rightarrow> bool" where
  "writer_inv s \<longleftrightarrow> (\<forall>m \<in> set (w_log s). \<exists>b. MarshalBinary m = Inr b)
     \<and> prefix (w_sent s) (concat (map encoded (w_log s)))
     \<and> (\<not> w_ended s \<longrightarrow> w_sent s @ w_frontBuf s @ w_writeBuffer s = concat (map encoded (w_log s)))"

lemma MarshalTo_append: "MarshalTo msg w = (fst (MarshalTo msg []), w @ snd (MarshalTo msg []))"
  by (simp add: MarshalTo_def Let_def)

lemma msg_write_eq:
  "msg_write msg wb = (case MarshalBinary msg of Inl _ \<Rightarrow> None | Inr b \<Rightarrow> Some (wb @ b, length (wb @ b) < writeBufferHighWaterLen))"
  by (subst msg_write_def, subst MarshalTo_append) (auto simp: MarshalBinary_def put_at_def Let_def split: prod.splits option.splits)

interpretation conn_writer: step_invariant new_writer writer_step writer_inv
proof
  fix s t
  assume i: "writer_inv s" and "writer_step s t"
  from this(2) show "writer_inv t"
  proof (cases rule: writer_step.cases)
    case (step_fail n)
    have "take n (w_frontBuf s) @ drop n (w_frontBuf s) = w_frontBuf s" by simp
    then have "(w_sent s @ take n (w_frontBuf s)) @ drop n (w_frontBuf s) @ w_writeBuffer s = concat (map encoded (w_log s))"
      using i step_fail(2) by (metis append.assoc writer_inv_def)
    then show ?thesis using i step_fail by (auto simp: writer_inv_def intro: prefixI [OF sym])
  next
    case step_send
    then have "(w_sent s @ take 65535 (w_frontBuf s)) @ drop 65535 (w_frontBuf s) @ w_writeBuffer s = concat (map encoded (w_log s))"
      using i by (metis append.assoc append_take_drop_id writer_inv_def)
    then show ?thesis using i step_send by (auto simp: writer_inv_def intro: prefixI [OF sym])
  qed (use i in \<open>auto simp: writer_inv_def msg_write_eq encoded_def intro: prefix_prefix split: sum.splits\<close>)
qed (simp add: new_writer_def writer_inv_def)

section \<open>From the writer to the reader\<close>

lemma frame_ok_encoded:
  assumes "MarshalTo msg [] = (None, b)" "\<not> m_Keepalive msg" "fits d msg"
  shows "frame_ok d (m_Type msg) (of_nat (length (payload msg)))"
proof -
  have l: "length (payload msg) < 2 ^ 32" using fits_small [OF assms(3)] MarshalTo_parts [OF assms(1,2)] assms(1) by simp
  have "m_Type msg = mt_Extended \<Longrightarrow> 0 < length (payload msg)" "m_Type msg = mt_Piece \<Longrightarrow> 8 \<le> length (payload msg)"
    using assms(2) by (auto simp: payload_def MarshalTo_def type_defs)
  then show ?thesis using unat_u32 [OF l] by (fastforce simp: frame_ok_def word_le_nat_alt)
qed

lemma truncated_fails:
  assumes "MarshalBinary msg = Inr data" "fits d msg" "strict_prefix p data"
  shows "Decode d zero_msg p \<noteq> (None, m, r')"
proof
  assume a: "Decode d zero_msg p = (None, m, r')"
  obtain b where b: "MarshalTo msg [] = (None, b)" "data = put32 (of_nat (length b)) @ b"
    using assms(1) by (auto simp: MarshalBinary_def split: prod.splits option.splits)
  have small: "length b < 2 ^ 32" using fits_small [OF assms(2)] b by simp
  have less: "length p < 4 + length b" using assms(3) b(2) prefix_length_less by fastforce
  obtain q where q: "data = p @ q" using assms(3) by (auto elim: strict_prefixE')
  have len4: "4 \<le> length p" using a by (cases rule: Decode_cases) auto
  then have t4: "take 4 p = put32 (of_nat (length b))" using b(2) q by (metis append_eq_append_conv_if length_put_bytes(1) take_append)
  from a show False
  proof (cases rule: Decode_cases)
    case 1
    then have "length b = 0" using t4 unat_u32 [OF small] by (metis get_put32 unat_0)
    then show False using less len4 by simp
  next
    case (2 c r1)
    have "b \<noteq> []" using 2(2) t4 by auto
    then have k: "\<not> m_Keepalive msg" using b(1) by (auto simp: MarshalTo_def)
    note parts = MarshalTo_parts [OF b(1) k]
    have "p ! 4 = data ! 4" using 2(3) q by (metis drop_eq_Nil list.distinct(1) not_le nth_append)
    then have "p ! 4 = m_Type msg" using b(2) parts by (simp add: nth_append)
    then have "frame_ok d (p ! 4) (get32 (take 4 p) - 1)" using frame_ok_encoded [OF b(1) k assms(2)] t4 parts by simp
    then show False using frame_consumed [OF a] t4 unat_u32 [OF small] less by simp
  qed
qed

lemma decode_all_encoded:
  assumes "\<forall>m \<in> set ms. (\<exists>b. MarshalBinary m = Inr b) \<and> fits d m" "prefix p (concat (map encoded ms))"
  shows "\<exists>k e. decode_all d p = (map received (take k ms), e) \<and> (p = concat (map encoded ms) \<longrightarrow> k = length ms \<and> e = ReadingLength EOF)"
  using assms
proof (induction ms arbitrary: p)
  case Nil
  then have "Decode d zero_msg p = (Some (ReadingLength EOF), zero_msg, [])"
    by (simp add: Decode_def Integer_Read_def read_full_def zeros_def)
  then show ?case by (auto simp: decode_all.simps [of d p])
next
  case (Cons m ms)
  then obtain b where b: "MarshalBinary m = Inr b" "fits d m" by auto
  then have e: "encoded m = b" by (simp add: encoded_def)
  show ?case
  proof (cases "prefix b p")
    case True
    then obtain p' where p: "p = b @ p'" by (auto simp: prefix_def)
    then obtain k er where "decode_all d p' = (map received (take k ms), er)" "p' = concat (map encoded ms) \<longrightarrow> k = length ms \<and> er = ReadingLength EOF"
      using Cons e by fastforce
    then have "decode_all d p = (map received (take (Suc k) (m # ms)), er)"
      using decode_encoded [OF b, of p'] p by (simp add: decode_all.simps [of d "b @ p'"])
    then show ?thesis using p e \<open>p' = _ \<longrightarrow> _\<close> by (intro exI [of _ "Suc k"] exI [of _ er]) auto
  next
    case False
    have "prefix p (b @ concat (map encoded ms))" using Cons.prems(2) e by simp
    then have s: "strict_prefix p b" using False by (metis prefix_def prefix_order.less_le prefix_same_cases)
    obtain x m1 r1 where D: "Decode d zero_msg p = (x, m1, r1)" by (metis prod_cases3)
    then obtain er where "x = Some er" using truncated_fails [OF b s, of m1 r1] by (cases x) auto
    then show ?thesis using D False e by (intro exI [of _ 0] exI [of _ er]) (simp add: decode_all.simps [of d p], auto)
  qed
qed

text \<open>C14: Whatever goroutines write to a connection, in any interleaving with the loop that sends it and wherever that loop
  fails, the peer decodes the messages in their order, without a gap and without a message that was not written; it
  gets all of them once the buffers are empty. A message must fit the peer's decoder; a bitfield arrives padded to bytes.\<close>

theorem connection_delivers:
  assumes "reachable new_writer writer_step s" "\<forall>m \<in> set (w_log s). fits d m"
  shows "\<exists>k e. decode_all d (w_sent s) = (map received (take k (w_log s)), e)
    \<and> (\<not> w_ended s \<and> w_frontBuf s = [] \<and> w_writeBuffer s = [] \<longrightarrow> k = length (w_log s) \<and> e = ReadingLength EOF)"
  using decode_all_encoded [of "w_log s" d "w_sent s"] conn_writer.reachable_inv [OF assms(1)] assms(2)
  by (fastforce simp: writer_inv_def)

text \<open>A successful decoding consumes exactly the length that the frame states and its prefix of four bytes, whatever bytes a peer
  sends, provided that no length wraps around.\<close>

theorem decode_consumes_frame:
  assumes "Decode d msg r = (None, m, r')" "frame_ok d (r ! 4) (get32 (take 4 r) - 1)"
  shows "4 + unat (get32 (take 4 r)) \<le> length r" "r' = drop (4 + unat (get32 (take 4 r))) r"
  using frame_consumed [OF assms] by simp_all

text \<open>C36: An extended message of length one, without an identifier, makes the decoder take the next byte for it and allocate and wait
  for 2^32 - 1 bytes: all that the peer sends afterwards is swallowed.\<close>

theorem short_extended_swallows:
  assumes "1 \<le> d_MaxLength d" "length r < 2 ^ 32 - 1"
  shows "\<exists>m. Decode d msg ([0, 0, 0, 1, 20] @ b # r) = (Some ErrUnexpectedEOF, m, []) \<and> length (m_ExtendedPayload m) = 2 ^ 32 - 1"
proof -
  have "put32 1 = [0, 0, 0, 1]" by code_simp
  then have g: "[0, 0, 0, 1, 20] @ b # r = put32 1 @ 20 # b # r" by simp
  have n: "unat (- 1 :: u32) = 2 ^ 32 - 1" by (simp add: unsigned_minus_1_eq_mask mask_eq_exp_minus_1)
  have "Decode d msg (put32 1 @ 20 # b # r) = (case decode_body d 0 (msg\<lparr>m_Type := 20\<rparr>) (b # r) of (err, m, rest) \<Rightarrow> (unexpected err, m, rest))"
    using assms(1) by (auto simp: Decode_def not_less)
  moreover have "read_full (zeros (2 ^ 32 - 1)) r = (Some (if r = [] then EOF else ErrUnexpectedEOF), r @ drop (length r) (zeros (2 ^ 32 - 1)), [])"
    using assms(2) by (simp add: read_full_def)
  ultimately show ?thesis unfolding g using n assms(2) by (simp add: decode_body_def type_defs unexpected_def)
qed

definition sample_have :: Message where
  "sample_have = zero_msg\<lparr>m_Type := mt_Have, m_Index := 5\<rparr>"

definition sample_decoder :: Decoder where
  "sample_decoder = \<lparr>d_Pool = Some [0, 0], d_MaxLength = 100\<rparr>"

lemma sample_sent:
  "reachable new_writer writer_step \<lparr>w_writeBuffer = [], w_frontBuf = [], w_sent = [0, 0, 0, 5, 4, 0, 0, 0, 5], w_ended = False, w_log = [sample_have]\<rparr>"
proof -
  let ?w = "\<lambda>b f t l. \<lparr>w_writeBuffer = b, w_frontBuf = f, w_sent = t, w_ended = False, w_log = l\<rparr>"
  let ?b = "[0, 0, 0, 5, 4, 0, 0, 0, 5] :: byte list"
  have "reachable new_writer writer_step (?w [] [] [] [])" by (rule reach_init) (simp add: new_writer_def)
  moreover have "MarshalBinary sample_have = Inr ?b" by code_simp
  then have "msg_write sample_have [] = Some (?b, True)" by (simp add: msg_write_eq)
  then have "writer_step (?w [] [] [] []) (?w ?b [] [] [sample_have])" using step_write [of sample_have "?w [] [] [] []" ?b True] by simp
  ultimately have "reachable new_writer writer_step (?w ?b [] [] [sample_have])" by (rule reach_step)
  moreover have "writer_step (?w ?b [] [] [sample_have]) (?w [] ?b [] [sample_have])" using step_flip [of "?w ?b [] [] [sample_have]"] by simp
  ultimately have "reachable new_writer writer_step (?w [] ?b [] [sample_have])" by (rule reach_step)
  moreover have "writer_step (?w [] ?b [] [sample_have]) (?w [] [] ?b [sample_have])" using step_send [of "?w [] ?b [] [sample_have]"] by simp
  ultimately show ?thesis by (rule reach_step)
qed

theorem connection_delivers_witness:
  "decode_all sample_decoder [0, 0, 0, 5, 4, 0, 0, 0, 5] = ([sample_have], ReadingLength EOF)"
proof -
  have "fits sample_decoder sample_have" "received sample_have = sample_have" by code_simp+
  then show ?thesis using connection_delivers [OF sample_sent, of sample_decoder] by auto
qed

theorem decode_consumes_frame_witness:
  "\<exists>m. Decode sample_decoder zero_msg [0, 0, 0, 1, 2, 0, 0] = (None, m, drop 5 [0, 0, 0, 1, 2, 0, 0])"
proof -
  have "MarshalBinary (zero_msg\<lparr>m_Type := 2\<rparr>) = Inr [0, 0, 0, 1, 2]" by code_simp
  moreover have "fits sample_decoder (zero_msg\<lparr>m_Type := 2\<rparr>)" "received (zero_msg\<lparr>m_Type := 2\<rparr>) = zero_msg\<lparr>m_Type := 2\<rparr>" by code_simp+
  ultimately have D: "Decode sample_decoder zero_msg [0, 0, 0, 1, 2, 0, 0] = (None, zero_msg\<lparr>m_Type := 2\<rparr>, [0, 0])"
    using decode_encoded [of "zero_msg\<lparr>m_Type := 2\<rparr>" "[0, 0, 0, 1, 2]" sample_decoder "[0, 0]"] by simp
  have f: "frame_ok sample_decoder ([0, 0, 0, 1, 2, 0, 0] ! 4) (get32 (take 4 [0, 0, 0, 1, 2, 0, 0]) - 1)" by (simp add: frame_ok_def)
  have "unat (get32 (take 4 [0, 0, 0, 1, 2, 0, 0])) = 1" by code_simp
  then show ?thesis using decode_consumes_frame(2) [OF D f] D by simp
qed

theorem short_extended_swallows_witness:
  "\<exists>m. Decode sample_decoder zero_msg ([0, 0, 0, 1, 20] @ 0 # [0, 0, 1, 2]) = (Some ErrUnexpectedEOF, m, []) \<and> length (m_ExtendedPayload m) = 2 ^ 32 - 1"
proof -
  have "1 \<le> d_MaxLength sample_decoder" by code_simp
  then show ?thesis using short_extended_swallows [of sample_decoder "[0, 0, 1, 2]" zero_msg 0] by simp
qed

end
