(* ===== verification/PeerHandshake.thy ===== *)
theory PeerHandshake
  imports PeerProtocol
begin

text \<open>
  The handshake that opens a connection (\<^verbatim>\<open>peer_protocol/handshake.go\<close>) with its extension bits, and the messages of the hole
  punching extension (\<^verbatim>\<open>peer_protocol/ut-holepunch\<close>). A handshake is a function of the bytes that the peer sends; it returns its
  result, its error and the posts it sends, in order. Arrays of fixed size are lists; \<open>None\<close> is an index out of range.
\<close>

section \<open>Extension bits\<close>

definition SetBit :: "nat \<Rightarrow> bool \<Rightarrow> byte list \<Rightarrow> byte list option" where
  "SetBit b on pex =
     (if b div 8 > 7 then None
      else let i = 7 - b div 8
        in Some (if on then pex[i := pex ! i OR push_bit (b mod 8) 1] else pex[i := pex ! i AND NOT (push_bit (b mod 8) 1)]))"

definition GetBit :: "nat \<Rightarrow> byte list \<Rightarrow> bool option" where
  "GetBit b pex = (if b div 8 > 7 then None else Some (pex ! (7 - b div 8) AND push_bit (b mod 8) 1 \<noteq> 0))"

abbreviation (input) "ExtensionBitDht \<equiv> (0 :: nat)"
abbreviation (input) "ExtensionBitFast \<equiv> (2 :: nat)"
abbreviation (input) "ExtensionBitLtep \<equiv> (20 :: nat)"

definition SupportsExtended :: "byte list \<Rightarrow> bool option" where
  "SupportsExtended pex = GetBit ExtensionBitLtep pex"

definition SupportsDHT :: "byte list \<Rightarrow> bool option" where
  "SupportsDHT pex = GetBit ExtensionBitDht pex"

definition SupportsFast :: "byte list \<Rightarrow> bool option" where
  "SupportsFast pex = GetBit ExtensionBitFast pex"

definition NewPeerExtensionBytes :: "nat list \<Rightarrow> byte list option" where
  "NewPeerExtensionBytes bits = foldl (\<lambda>ret b. Option.bind ret (SetBit b True)) (Some (zeros 8)) bits"

lemma and_push_bit_1: "(w :: byte) AND push_bit n 1 \<noteq> 0 \<longleftrightarrow> bit w n"
  by (simp add: bit_iff_and_push_bit_not_eq_0)

lemma length_SetBit: "SetBit b on pex = Some pex' \<Longrightarrow> length pex' = length pex"
  by (auto simp: SetBit_def Let_def split: if_splits)

lemma GetBit_SetBit:
  assumes "length pex = 8" "SetBit b on pex = Some pex'" "c < 64"
  shows "GetBit c pex' = (if c = b then Some on else GetBit c pex)"
proof -
  have l: "b div 8 \<le> 7" "c div 8 \<le> 7" using assms(2,3) by (auto simp: SetBit_def split: if_splits)
  have e: "c = b \<longleftrightarrow> 7 - c div 8 = 7 - b div 8 \<and> c mod 8 = b mod 8"
  proof -
    have "7 - c div 8 = 7 - b div 8 \<longleftrightarrow> c div 8 = b div 8" using l by linarith
    then show ?thesis using div_mult_mod_eq [of c 8] div_mult_mod_eq [of b 8] by metis
  qed
  define f where "f w = (if on then w OR push_bit (b mod 8) 1 else w AND NOT (push_bit (b mod 8) 1))" for w :: byte
  have p: "pex' = pex[7 - b div 8 := f (pex ! (7 - b div 8))]" using assms(2) by (auto simp: SetBit_def f_def Let_def split: if_splits)
  have "bit (f w) (c mod 8) = (if c mod 8 = b mod 8 then on else bit w (c mod 8))" for w
    by (auto simp: f_def bit_or_iff bit_and_iff bit_not_iff bit_exp_iff)
  moreover have "GetBit c q = Some (bit (q ! (7 - c div 8)) (c mod 8))" for q using l(2) unfolding GetBit_def and_push_bit_1 by simp
  moreover have "pex' ! (7 - c div 8) = (if 7 - c div 8 = 7 - b div 8 then f (pex ! (7 - b div 8)) else pex ! (7 - c div 8))"
    unfolding p using assms(1) by simp
  ultimately show ?thesis using e by (cases "c = b") auto
qed

lemma new_extension_bits_step:
  assumes "length pex = 8" "foldl (\<lambda>ret b. Option.bind ret (SetBit b True)) (Some pex) bits = Some pex'" "c < 64"
  shows "GetBit c pex' = (if c \<in> set bits then Some True else GetBit c pex)"
  using assms(1,2)
proof (induction bits arbitrary: pex)
  case (Cons b bits)
  have n: "foldl (\<lambda>ret b. Option.bind ret (SetBit b True)) None bs = None" for bs by (induction bs) auto
  obtain p1 where p1: "SetBit b True pex = Some p1" using Cons.prems(2) n by (cases "SetBit b True pex") auto
  then show ?case using Cons.IH [of p1] Cons.prems length_SetBit [OF p1] GetBit_SetBit [OF Cons.prems(1) p1 assms(3)] by auto
qed simp

lemma NewPeerExtensionBytes_bits:
  assumes "NewPeerExtensionBytes bits = Some pex" "c < 64"
  shows "GetBit c pex = Some (c \<in> set bits)"
proof -
  have "GetBit c (zeros 8) = Some False" using assms(2) by (simp add: GetBit_def zeros_def and_push_bit_1)
  then show ?thesis using new_extension_bits_step [OF _ assms(1) [unfolded NewPeerExtensionBytes_def] assms(2)] by simp
qed

section \<open>The handshake\<close>

definition Protocol :: "byte list" where
  "Protocol = map (\<lambda>c. of_nat (of_char c)) (CHR 0x13 # ''BitTorrent protocol'')"

record HandshakeResult =
  hr_PeerExtensionBits :: "byte list"
  hr_PeerID :: "byte list"
  hr_Hash :: "byte list"

datatype herr = WhileReading rerr | UnexpectedProtocol | ErrorWriting

definition zero_result :: HandshakeResult where
  "zero_result = \<lparr>hr_PeerExtensionBits = zeros 8, hr_PeerID = zeros 20, hr_Hash = zeros 20\<rparr>"

text \<open>\<open>wfail\<close> says whether writing a post fails; it is asked for only when the reading went well.\<close>

definition Handshake :: "bool \<Rightarrow> byte list option \<Rightarrow> byte list \<Rightarrow> byte list \<Rightarrow> byte list \<Rightarrow> HandshakeResult \<times> herr option \<times> byte list list" where
  "Handshake wfail ih peerID extensions sock =
     (let posts = [Protocol, extensions] @ (case ih of None \<Rightarrow> [] | Some h \<Rightarrow> [h, peerID])
      in case read_full (zeros 68) sock of
           (Some e, _, _) \<Rightarrow> (zero_result, Some (WhileReading e), posts)
         | (None, b, _) \<Rightarrow>
             if take 20 b \<noteq> Protocol then (zero_result, Some UnexpectedProtocol, posts)
             else let res = \<lparr>hr_PeerExtensionBits = take 8 (drop 20 b), hr_PeerID = take 20 (drop 48 b), hr_Hash = take 20 (drop 28 b)\<rparr>
               in (res, if wfail then Some ErrorWriting else None,
                   posts @ (case ih of None \<Rightarrow> [hr_Hash res, peerID] | Some _ \<Rightarrow> [])))"

text \<open>The channel of posts has room for four.\<close>

lemma posts_fit: "length (snd (snd (Handshake wfail ih peerID extensions sock))) \<le> 4"
  by (auto simp: Handshake_def Let_def split: prod.splits option.splits)

lemma length_Protocol [simp]: "length Protocol = 20"
  by (simp add: Protocol_def)

lemma Handshake_reads:
  assumes "length e = 8" "length h = 20" "length i = 20"
  shows "Handshake False ih peerID ext (Protocol @ e @ h @ i @ rest)
    = (\<lparr>hr_PeerExtensionBits = e, hr_PeerID = i, hr_Hash = h\<rparr>, None,
       case ih of None \<Rightarrow> [Protocol, ext, h, peerID] | Some h' \<Rightarrow> [Protocol, ext, h', peerID])"
  using assms by (simp add: Handshake_def read_full_def split: option.split)

text \<open>Two peers that read what the other posts, one of which names a torrent and one of which waits to be told, complete the handshake;
  each learns the identity and extension bits of the other, and both hold the hash that was named.\<close>

theorem handshake_agrees:
  assumes "Handshake False (Some h) idA extA (concat postsB) = (resA, errA, postsA)"
    and "Handshake False None idB extB (concat postsA) = (resB, errB, postsB)"
    and "length h = 20" "length idA = 20" "length idB = 20" "length extA = 8" "length extB = 8"
  shows "errA = None \<and> errB = None \<and> resA = \<lparr>hr_PeerExtensionBits = extB, hr_PeerID = idB, hr_Hash = h\<rparr>
    \<and> resB = \<lparr>hr_PeerExtensionBits = extA, hr_PeerID = idA, hr_Hash = h\<rparr>"
proof -
  have "postsA = [Protocol, extA, h, idA]"
    using assms(1) by (auto simp: Handshake_def Let_def split: prod.splits option.splits if_splits)
  moreover from this have "resB = \<lparr>hr_PeerExtensionBits = extA, hr_PeerID = idA, hr_Hash = h\<rparr>" "errB = None" "postsB = [Protocol, extB, h, idB]"
    using assms(2) Handshake_reads [OF assms(6,3,4), of None idB extB "[]"] by simp_all
  ultimately show ?thesis using assms(1) Handshake_reads [OF assms(7,3,5), of "Some h" idA extA "[]"] by simp
qed

theorem handshake_agrees_witness:
  "fst (Handshake False None (replicate 20 2) (zeros 8) (Protocol @ zeros 8 @ replicate 20 7 @ replicate 20 1))
     = \<lparr>hr_PeerExtensionBits = zeros 8, hr_PeerID = replicate 20 1, hr_Hash = replicate 20 7\<rparr>"
proof -
  have A: "Handshake False (Some (replicate 20 7)) (replicate 20 1) (zeros 8) (concat [Protocol, zeros 8, replicate 20 7, replicate 20 2])
    = (\<lparr>hr_PeerExtensionBits = zeros 8, hr_PeerID = replicate 20 2, hr_Hash = replicate 20 7\<rparr>, None, [Protocol, zeros 8, replicate 20 7, replicate 20 1])"
    using Handshake_reads [of "zeros 8" "replicate 20 7" "replicate 20 2" "Some (replicate 20 7)" "replicate 20 1" "zeros 8" "[]"] by simp
  have B: "Handshake False None (replicate 20 2) (zeros 8) (concat [Protocol, zeros 8, replicate 20 7, replicate 20 1])
    = (\<lparr>hr_PeerExtensionBits = zeros 8, hr_PeerID = replicate 20 1, hr_Hash = replicate 20 7\<rparr>, None, [Protocol, zeros 8, replicate 20 7, replicate 20 2])"
    using Handshake_reads [of "zeros 8" "replicate 20 7" "replicate 20 1" None "replicate 20 2" "zeros 8" "[]"] by simp
  show ?thesis using handshake_agrees [OF A B] B by simp
qed

section \<open>Decoding without a limit\<close>

text \<open>\<^verbatim>\<open>Message.UnmarshalBinary\<close> refuses what \<^verbatim>\<open>MarshalBinary\<close> wrote, since the limit of its decoder is zero; only keep-alives pass.\<close>

theorem UnmarshalBinary_refuses:
  assumes "MarshalBinary msg = Inr data" "\<not> m_Keepalive msg" "length data < 2 ^ 32"
  shows "UnmarshalBinary me data = (Some MessageTooLong, me)"
proof -
  obtain b where b: "MarshalTo msg [] = (None, b)" "data = put32 (of_nat (length b)) @ b"
    using assms(1) by (auto simp: MarshalBinary_def split: prod.splits option.splits)
  have "b \<noteq> []" using MarshalTo_parts [OF b(1) assms(2)] by simp
  then have "0 < (of_nat (length b) :: u32)" using unat_u32 [of "length b"] assms(3) b(2) by (simp add: word_less_nat_alt)
  then show ?thesis using b(2) by (simp add: UnmarshalBinary_def Decode_def)
qed

section \<open>Hole punching\<close>

datatype Addr = ZeroAddr | Addr4 "byte list" | Addr6 "byte list" string

definition Addr_ok :: "Addr \<Rightarrow> bool" where
  "Addr_ok a = (case a of ZeroAddr \<Rightarrow> True | Addr4 b \<Rightarrow> length b = 4 | Addr6 b _ \<Rightarrow> length b = 16)"

record hpMsg =
  hp_MsgType :: byte
  hp_Addr :: Addr
  hp_Port :: "16 word"
  hp_ErrCode :: u32

datatype hperr = BufferTooSmall | NotEnoughBytes | UnhandledAddrType byte | TrailingUnused nat

definition hp_tail :: "Addr \<Rightarrow> byte list \<Rightarrow> hpMsg \<Rightarrow> hperr option \<times> hpMsg" where
  "hp_tail addr b m =
     (let rest = drop 6 b
      in (if rest \<noteq> [] then Some (TrailingUnused (length rest)) else None,
          m\<lparr>hp_Addr := addr, hp_Port := get16 b, hp_ErrCode := get32 (drop 2 b)\<rparr>))"

definition hp_UnmarshalBinary :: "hpMsg \<Rightarrow> byte list \<Rightarrow> hperr option \<times> hpMsg" where
  "hp_UnmarshalBinary m b =
     (if length b < 12 then (Some BufferTooSmall, m)
      else let m = m\<lparr>hp_MsgType := b ! 0\<rparr>; addrType = b ! 1; b = drop 2 b
        in if addrType = 0 then hp_tail (Addr4 (take 4 b)) (drop 4 b) m
           else if addrType = 1
           then if length b < 22 then (Some NotEnoughBytes, m) else hp_tail (Addr6 (take 16 b) []) (drop 16 b) m
           else (Some (UnhandledAddrType addrType), m))"

definition hp_MarshalBinary :: "hpMsg \<Rightarrow> byte list option" where
  "hp_MarshalBinary m =
     (case hp_Addr m of
        Addr4 a \<Rightarrow> Some ([hp_MsgType m, 0] @ a @ put16 (hp_Port m) @ put32 (hp_ErrCode m))
      | Addr6 a _ \<Rightarrow> Some ([hp_MsgType m, 1] @ a @ put16 (hp_Port m) @ put32 (hp_ErrCode m))
      | ZeroAddr \<Rightarrow> None)"

definition drop_zone :: "Addr \<Rightarrow> Addr" where
  "drop_zone a = (case a of Addr6 b _ \<Rightarrow> Addr6 b [] | _ \<Rightarrow> a)"

lemma high_bits: "8 \<le> n \<Longrightarrow> \<not> bit (w :: byte) n"
  using bit_imp_le_length [of w n] by auto

lemma put_get32:
  assumes "length b = 4"
  shows "put32 (get32 b) = b"
proof -
  obtain w x y z where b: "b = [w, x, y, z]" using assms by (auto simp: numeral_eq_Suc length_Suc_conv)
  have "bit (ucast (drop_bit 24 (get32 b)) :: byte) n = bit w n" "bit (ucast (drop_bit 16 (get32 b)) :: byte) n = bit x n"
    "bit (ucast (drop_bit 8 (get32 b)) :: byte) n = bit y n" "bit (ucast (get32 b) :: byte) n = bit z n" if "n < 8" for n
    using that by (simp_all add: b get32_def bit_simps high_bits)
  then have "ucast (drop_bit 24 (get32 b)) = w" "ucast (drop_bit 16 (get32 b)) = x" "ucast (drop_bit 8 (get32 b)) = y" "ucast (get32 b) = z"
    by (auto intro: bit_word_eqI)
  then show ?thesis unfolding put32_def by (simp only: b)
qed

lemma put_get16:
  assumes "length b = 2"
  shows "put16 (get16 b) = b"
proof -
  obtain w x where b: "b = [w, x]" using assms by (auto simp: numeral_eq_Suc length_Suc_conv)
  have "bit (ucast (drop_bit 8 (get16 b)) :: byte) n = bit w n" "bit (ucast (get16 b) :: byte) n = bit x n" if "n < 8" for n
    using that by (simp_all add: b get16_def bit_simps high_bits)
  then have "ucast (drop_bit 8 (get16 b)) = w" "ucast (get16 b) = x" by (auto intro: bit_word_eqI)
  then show ?thesis unfolding put16_def by (simp only: b)
qed

lemma get_append: "length a = 2 \<Longrightarrow> get16 (a @ r) = get16 a" "length c = 4 \<Longrightarrow> get32 (c @ r) = get32 c"
  by (simp_all add: get16_def get32_def nth_append)

lemma hp_tail_written:
  "hp_tail addr (put16 p @ put32 e) m = (None, m\<lparr>hp_Addr := addr, hp_Port := p, hp_ErrCode := e\<rparr>)"
  by (simp add: hp_tail_def get_append)

lemma hp_tail_read:
  assumes "hp_tail addr c m = (None, m')" "6 \<le> length c"
  shows "c = put16 (hp_Port m') @ put32 (hp_ErrCode m')" "hp_Addr m' = addr" "hp_MsgType m' = hp_MsgType m"
proof -
  have l: "length c = 6" using assms by (auto simp: hp_tail_def Let_def split: if_splits)
  have c: "c = take 2 c @ drop 2 c" by simp
  have "get16 c = get16 (take 2 c)" using get_append(1) [of "take 2 c" "drop 2 c"] l by simp
  then have "put16 (get16 c) = take 2 c" using put_get16 [of "take 2 c"] l by simp
  moreover have "put32 (get32 (drop 2 c)) = drop 2 c" using put_get32 [of "drop 2 c"] l by simp
  ultimately show "c = put16 (hp_Port m') @ put32 (hp_ErrCode m')" "hp_Addr m' = addr" "hp_MsgType m' = hp_MsgType m"
    using assms c by (auto simp: hp_tail_def Let_def split: if_splits)
qed

lemma hp_read_written:
  assumes "hp_UnmarshalBinary m0 b = (None, m)"
  shows "hp_MarshalBinary m = Some b"
proof -
  have len: "12 \<le> length b" using assms by (auto simp: hp_UnmarshalBinary_def split: if_splits)
  then obtain t a c where b: "b = t # a # c" by (cases b; cases "tl b") auto
  have u: "hp_UnmarshalBinary m0 b = (let m = m0\<lparr>hp_MsgType := t\<rparr>
      in if a = 0 then hp_tail (Addr4 (take 4 c)) (drop 4 c) m
         else if a = 1 then if length c < 22 then (Some NotEnoughBytes, m) else hp_tail (Addr6 (take 16 c) []) (drop 16 c) m
         else (Some (UnhandledAddrType a), m))"
    using len by (simp add: hp_UnmarshalBinary_def b)
  consider "a = 0" | "a = 1" "22 \<le> length c" using assms u by (auto simp: Let_def split: if_splits)
  then show ?thesis
  proof cases
    case 1
    then have h: "hp_tail (Addr4 (take 4 c)) (drop 4 c) (m0\<lparr>hp_MsgType := t\<rparr>) = (None, m)" using assms u by simp
    then have "drop 4 c = put16 (hp_Port m) @ put32 (hp_ErrCode m)" using hp_tail_read [OF h] len b by simp
    then have "take 4 c @ put16 (hp_Port m) @ put32 (hp_ErrCode m) = c" by (metis append_take_drop_id)
    then show ?thesis using hp_tail_read(2,3) [OF h] len b 1 by (simp add: hp_MarshalBinary_def)
  next
    case 2
    then have h: "hp_tail (Addr6 (take 16 c) []) (drop 16 c) (m0\<lparr>hp_MsgType := t\<rparr>) = (None, m)" using assms u by simp
    then have "drop 16 c = put16 (hp_Port m) @ put32 (hp_ErrCode m)" using hp_tail_read [OF h] 2 by simp
    then have "take 16 c @ put16 (hp_Port m) @ put32 (hp_ErrCode m) = c" by (metis append_take_drop_id)
    then show ?thesis using hp_tail_read(2,3) [OF h] 2 b by (simp add: hp_MarshalBinary_def)
  qed
qed

lemma hp_written_read:
  assumes "Addr_ok (hp_Addr m)" "hp_MarshalBinary m = Some b"
  shows "hp_UnmarshalBinary m0 b = (None, m\<lparr>hp_Addr := drop_zone (hp_Addr m)\<rparr>)"
proof -
  have t: "hp_tail addr (put16 (hp_Port m) @ put32 (hp_ErrCode m)) (m0\<lparr>hp_MsgType := hp_MsgType m\<rparr>) = (None, m\<lparr>hp_Addr := addr\<rparr>)" for addr
    by (simp add: hp_tail_written)
  show ?thesis
  proof (cases "hp_Addr m")
    case (Addr4 a)
    then have "b = hp_MsgType m # 0 # a @ put16 (hp_Port m) @ put32 (hp_ErrCode m)" "length a = 4"
      using assms by (auto simp: hp_MarshalBinary_def Addr_ok_def)
    then show ?thesis using t Addr4 by (simp add: hp_UnmarshalBinary_def drop_zone_def)
  next
    case (Addr6 a z)
    then have "b = hp_MsgType m # 1 # a @ put16 (hp_Port m) @ put32 (hp_ErrCode m)" "length a = 16"
      using assms by (auto simp: hp_MarshalBinary_def Addr_ok_def)
    then show ?thesis using t Addr6 by (simp add: hp_UnmarshalBinary_def drop_zone_def)
  qed (use assms in \<open>simp add: hp_MarshalBinary_def\<close>)
qed

text \<open>A hole punching message that can be written is read back, without the zone of an address; a buffer that is read without an error is
  exactly what writing the result gives.\<close>

theorem holepunch_roundtrip:
  "Addr_ok (hp_Addr m) \<Longrightarrow> hp_MarshalBinary m = Some b \<Longrightarrow> hp_UnmarshalBinary m0 b = (None, m\<lparr>hp_Addr := drop_zone (hp_Addr m)\<rparr>)"
  "hp_UnmarshalBinary m0 b = (None, m) \<Longrightarrow> hp_MarshalBinary m = Some b"
  by (rule hp_written_read; assumption) (rule hp_read_written)

end
