(* ===== verification/DiskWarmup.thy ===== *)
theory DiskWarmup
  imports Prelude "HOL-Library.AList" "HOL-Library.Multiset"
begin

text \<open>
  The warm-up store on disk (\<^verbatim>\<open>disk_warmup.go\<close>): one file with the head and one with the tail of each streamed file. The files of the
  directory are an association list from their names to contents and modification times; since the directory is fixed, the
  maps keyed by paths are keyed by names. Each method is one step. A handle stands for the file of its name, which holds
  because every removal closes the handle first; only its time of last use is kept. Offsets and sizes are natural numbers.
  What the file system may refuse is an argument: opening a file, and a write that stops after some bytes.
\<close>

section \<open>State\<close>

record wfile =
  wf_data :: "byte list"
  wf_mtime :: int

record warmupWrite =
  ww_hash :: string
  ww_fileID :: nat
  ww_data :: "byte list"
  ww_off :: nat

record DiskWarmupCache =
  dw_files :: "(string \<times> wfile) list"
  dw_totalSize :: int
  dw_missing :: "string \<rightharpoonup> int"
  dw_handles :: "string \<rightharpoonup> int"
  dw_sizeCache :: "string \<rightharpoonup> nat \<times> int"
  dw_tailCoverage :: "string \<rightharpoonup> nat"
  dw_writeCh :: "warmupWrite list"

record warmupConfig =
  warmupFileSize :: nat
  DiskWarmupQuotaGB :: int

record disk_faults =
  open_fails :: bool
  write_stops :: "nat option"

definition tailWarmupSize :: nat where
  "tailWarmupSize = 16 * 1024 * 1024"

definition warmupSuffix :: string where
  "warmupSuffix = ''.warmup''"

definition tailSuffix :: string where
  "tailSuffix = ''.warmup-tail''"

definition filePath :: "string \<Rightarrow> nat \<Rightarrow> string" where
  "filePath hash fileID = hash @ ''-'' @ show_nat fileID @ warmupSuffix"

definition tailPath :: "string \<Rightarrow> nat \<Rightarrow> string" where
  "tailPath hash fileID = hash @ ''-'' @ show_nat fileID @ tailSuffix"

abbreviation file_at :: "DiskWarmupCache \<Rightarrow> string \<Rightarrow> wfile option" where
  "file_at d p \<equiv> map_of (dw_files d) p"

definition set_file :: "string \<Rightarrow> wfile \<Rightarrow> DiskWarmupCache \<Rightarrow> DiskWarmupCache" where
  "set_file p f d = d\<lparr>dw_files := AList.update p f (dw_files d)\<rparr>"

definition is_warmup_file :: "string \<Rightarrow> bool" where
  "is_warmup_file name \<longleftrightarrow> suffix warmupSuffix name \<or> suffix tailSuffix name"

text \<open>\<^verbatim>\<open>File.WriteAt\<close>: a gap before the offset reads as zeros. A fault stops the write after some bytes.\<close>

definition write_at :: "nat \<Rightarrow> byte list \<Rightarrow> byte list \<Rightarrow> byte list" where
  "write_at off b old = (if b = [] then old
     else take off old @ replicate (off - length old) 0 @ b @ drop (off + length b) old)"

definition read_at :: "nat \<Rightarrow> nat \<Rightarrow> byte list \<Rightarrow> byte list" where
  "read_at off len b = take len (drop off b)"

section \<open>Operations\<close>

text \<open>\<^verbatim>\<open>InitDiskWarmup\<close>, once the directory is known: the sizes of the files in it are added up.\<close>

definition InitDiskWarmup :: "(string \<times> wfile) list \<Rightarrow> DiskWarmupCache" where
  "InitDiskWarmup entries = \<lparr>dw_files = entries,
     dw_totalSize = sum_list (map (\<lambda>(name, f). if is_warmup_file name then int (length (wf_data f)) else 0) entries),
     dw_missing = Map.empty, dw_handles = Map.empty, dw_sizeCache = Map.empty, dw_tailCoverage = Map.empty, dw_writeCh = []\<rparr>"

definition handleReaper :: "int \<Rightarrow> DiskWarmupCache \<Rightarrow> DiskWarmupCache" where
  "handleReaper now d = d\<lparr>dw_handles := mfilter (\<lambda>_ used. \<not> now - used > 30 * 10 ^ 9) (dw_handles d)\<rparr>"

text \<open>\<^verbatim>\<open>getHandle\<close>: whether there is a handle, and its use recorded.\<close>

definition getHandle :: "disk_faults \<Rightarrow> int \<Rightarrow> string \<Rightarrow> DiskWarmupCache \<Rightarrow> bool \<times> DiskWarmupCache" where
  "getHandle fl now p d =
     (if dw_handles d p \<noteq> None \<or> (file_at d p \<noteq> None \<and> \<not> open_fails fl)
      then (True, d\<lparr>dw_handles := (dw_handles d)(p \<mapsto> now)\<rparr>) else (False, d))"

definition closeHandle :: "string \<Rightarrow> DiskWarmupCache \<Rightarrow> DiskWarmupCache" where
  "closeHandle p d = d\<lparr>dw_handles := (dw_handles d)(p := None)\<rparr>"

definition remove_file :: "string \<Rightarrow> DiskWarmupCache \<Rightarrow> DiskWarmupCache" where
  "remove_file p d = d\<lparr>dw_files := AList.delete p (dw_files d)\<rparr>"

text \<open>What eviction and removal do with one file.\<close>

definition forget_file :: "string \<Rightarrow> DiskWarmupCache \<Rightarrow> DiskWarmupCache" where
  "forget_file p d =
     remove_file p ((closeHandle p d)\<lparr>dw_sizeCache := (dw_sizeCache d)(p := None), dw_tailCoverage := (dw_tailCoverage d)(p := None)\<rparr>)"

definition quota_bytes :: "warmupConfig \<Rightarrow> int" where
  "quota_bytes cfg = (if DiskWarmupQuotaGB cfg > 0 then DiskWarmupQuotaGB cfg * 1024 * 1024 * 1024 else 32 * 1024 * 1024 * 1024)"

fun evict_files :: "int \<Rightarrow> int \<Rightarrow> (string \<times> wfile) list \<Rightarrow> int \<Rightarrow> DiskWarmupCache \<Rightarrow> int \<times> DiskWarmupCache" where
  "evict_files quota needed [] tot d = (tot, d)"
| "evict_files quota needed ((p, f) # fs) tot d =
     (if tot + needed \<le> quota then (tot, d)
      else evict_files quota needed fs (tot - int (length (wf_data f))) (forget_file p d))"

definition disk_total :: "(string \<times> wfile) list \<Rightarrow> int" where
  "disk_total fs = sum_list (map (\<lambda>(_, f). int (length (wf_data f))) fs)"

text \<open>\<open>srt\<close> is \<^verbatim>\<open>sort.Slice\<close> by modification time, which leaves the order of equal times open.\<close>

definition enforceQuotaLocked :: "((string \<times> wfile) list \<Rightarrow> (string \<times> wfile) list) \<Rightarrow> warmupConfig \<Rightarrow> int \<Rightarrow> DiskWarmupCache \<Rightarrow> DiskWarmupCache" where
  "enforceQuotaLocked srt cfg needed d =
     (let quota = quota_bytes cfg
      in if dw_totalSize d + needed \<le> quota then d
         else let files = filter (\<lambda>(name, _). is_warmup_file name) (dw_files d);
                  diskTotal = disk_total files;
                  d = d\<lparr>dw_totalSize := diskTotal\<rparr>
              in if diskTotal + needed \<le> quota then d
                 else case evict_files quota needed (srt files) diskTotal d of (tot, d') \<Rightarrow> d'\<lparr>dw_totalSize := tot\<rparr>)"

text \<open>\<^verbatim>\<open>WriteChunk\<close> copies the data into a queue of 32, or drops it.\<close>

definition WriteChunk :: "warmupConfig \<Rightarrow> string \<Rightarrow> nat \<Rightarrow> byte list \<Rightarrow> nat \<Rightarrow> DiskWarmupCache \<Rightarrow> DiskWarmupCache" where
  "WriteChunk cfg hash fileID data off d =
     (if off > warmupFileSize cfg then d
      else if length (dw_writeCh d) < 32
      then d\<lparr>dw_writeCh := dw_writeCh d @ [\<lparr>ww_hash = hash, ww_fileID = fileID, ww_data = data, ww_off = off\<rparr>]\<rparr>
      else d)"

text \<open>The part of \<^verbatim>\<open>processWrite\<close> from the handle on.\<close>

definition write_head :: "disk_faults \<Rightarrow> int \<Rightarrow> string \<Rightarrow> byte list \<Rightarrow> nat \<Rightarrow> DiskWarmupCache \<Rightarrow> DiskWarmupCache" where
  "write_head fl now p data off d =
     (case getHandle fl now p d of
        (False, d) \<Rightarrow> d
      | (True, d) \<Rightarrow>
          case file_at d p of None \<Rightarrow> d
          | Some f \<Rightarrow>
              let prevSize = (case dw_sizeCache d p of Some (s, _) \<Rightarrow> s | None \<Rightarrow> length (wf_data f))
              in case write_stops fl of
                   Some k \<Rightarrow> set_file p (f\<lparr>wf_data := write_at off (take k data) (wf_data f), wf_mtime := now\<rparr>) d
                 | None \<Rightarrow>
                     let d = set_file p (f\<lparr>wf_data := write_at off data (wf_data f), wf_mtime := now\<rparr>) d;
                         currentSize = off + length data;
                         d = (if currentSize > prevSize then d\<lparr>dw_totalSize := dw_totalSize d + int (currentSize - prevSize)\<rparr> else d)
                     in d\<lparr>dw_sizeCache := (dw_sizeCache d)(p \<mapsto> (currentSize, now))\<rparr>)"

text \<open>A file that is not there is created, after room was made for it.\<close>

definition create_and_write :: "((string \<times> wfile) list \<Rightarrow> (string \<times> wfile) list) \<Rightarrow> warmupConfig \<Rightarrow> disk_faults \<Rightarrow> int \<Rightarrow> string \<Rightarrow> byte list \<Rightarrow> nat \<Rightarrow> DiskWarmupCache \<Rightarrow> DiskWarmupCache" where
  "create_and_write srt cfg fl now p data off d =
     (case file_at d p of
        Some _ \<Rightarrow> write_head fl now p data off d
      | None \<Rightarrow>
          let d = enforceQuotaLocked srt cfg (int (warmupFileSize cfg)) d;
              d = d\<lparr>dw_missing := (dw_missing d)(p := None)\<rparr>
          in if open_fails fl then d
             else write_head fl now p data off (set_file p \<lparr>wf_data = [], wf_mtime = now\<rparr> (d\<lparr>dw_handles := (dw_handles d)(p \<mapsto> now)\<rparr>)))"

definition processWrite :: "((string \<times> wfile) list \<Rightarrow> (string \<times> wfile) list) \<Rightarrow> warmupConfig \<Rightarrow> disk_faults \<Rightarrow> int \<Rightarrow> warmupWrite \<Rightarrow> DiskWarmupCache \<Rightarrow> DiskWarmupCache" where
  "processWrite srt cfg fl now w d =
     (let off = ww_off w; W = warmupFileSize cfg; p = filePath (ww_hash w) (ww_fileID w);
          data = (if off < W \<and> off + length (ww_data w) > W then take (W - off) (ww_data w) else ww_data w)
      in if off > W then d
         else case dw_sizeCache d p of
                Some (s, _) \<Rightarrow> if s > W then d else create_and_write srt cfg fl now p data off d
              | None \<Rightarrow>
                  (case file_at d p of
                     Some f \<Rightarrow> if length (wf_data f) > W then d\<lparr>dw_sizeCache := (dw_sizeCache d)(p \<mapsto> (length (wf_data f), now))\<rparr>
                               else create_and_write srt cfg fl now p data off d
                   | None \<Rightarrow> create_and_write srt cfg fl now p data off d))"

definition writeWorker :: "((string \<times> wfile) list \<Rightarrow> (string \<times> wfile) list) \<Rightarrow> warmupConfig \<Rightarrow> disk_faults \<Rightarrow> int \<Rightarrow> DiskWarmupCache \<Rightarrow> DiskWarmupCache" where
  "writeWorker srt cfg fl now d =
     (case dw_writeCh d of [] \<Rightarrow> d | w # ws \<Rightarrow> processWrite srt cfg fl now w (d\<lparr>dw_writeCh := ws\<rparr>))"

text \<open>\<^verbatim>\<open>GetAvailableRange\<close> once no cached size answers: a file that is too big is taken for corrupt and removed.\<close>

definition stat_head :: "warmupConfig \<Rightarrow> int \<Rightarrow> string \<Rightarrow> DiskWarmupCache \<Rightarrow> nat \<times> DiskWarmupCache" where
  "stat_head cfg now p d =
     (case file_at d p of
        None \<Rightarrow> (0, d\<lparr>dw_missing := (dw_missing d)(p \<mapsto> now)\<rparr>)
      | Some f \<Rightarrow>
          if length (wf_data f) > warmupFileSize cfg + 16 * 1024 * 1024
          then (0, (remove_file p ((closeHandle p d)\<lparr>dw_sizeCache := (dw_sizeCache d)(p := None)\<rparr>))\<lparr>dw_missing := (dw_missing d)(p \<mapsto> now)\<rparr>)
          else (length (wf_data f), d\<lparr>dw_sizeCache := (dw_sizeCache d)(p \<mapsto> (length (wf_data f), now))\<rparr>))"

definition GetAvailableRange :: "warmupConfig \<Rightarrow> int \<Rightarrow> string \<Rightarrow> nat \<Rightarrow> DiskWarmupCache \<Rightarrow> nat \<times> DiskWarmupCache" where
  "GetAvailableRange cfg now hash fileID d =
     (let p = filePath hash fileID
      in if dw_missing d p \<noteq> None then (0, d)
         else case dw_sizeCache d p of
             Some (s, updated) \<Rightarrow> if now - updated < 10 * 10 ^ 9 then (s, d) else stat_head cfg now p d
           | None \<Rightarrow> stat_head cfg now p d)"

text \<open>\<^verbatim>\<open>ReadAt\<close> gives the bytes read, none of them when the file has nothing at the offset.\<close>

definition head_ReadAt :: "warmupConfig \<Rightarrow> disk_faults \<Rightarrow> int \<Rightarrow> string \<Rightarrow> nat \<Rightarrow> nat \<Rightarrow> nat \<Rightarrow> DiskWarmupCache \<Rightarrow> byte list \<times> DiskWarmupCache" where
  "head_ReadAt cfg fl now hash fileID len off d =
     (if off > warmupFileSize cfg then ([], d)
      else case getHandle fl now (filePath hash fileID) d of
          (False, d) \<Rightarrow> ([], d)
        | (True, d) \<Rightarrow>
            (case GetAvailableRange cfg now hash fileID d of
               (availSize, d) \<Rightarrow>
                 if off \<ge> availSize then ([], d)
                 else (case file_at d (filePath hash fileID) of None \<Rightarrow> ([], d)
                       | Some f \<Rightarrow> (read_at off (min len (availSize - off)) (wf_data f), d))))"

text \<open>The writing part of \<^verbatim>\<open>WriteTail\<close>.\<close>

definition write_tail :: "disk_faults \<Rightarrow> int \<Rightarrow> string \<Rightarrow> byte list \<Rightarrow> nat \<Rightarrow> DiskWarmupCache \<Rightarrow> DiskWarmupCache" where
  "write_tail fl now p data relOffset d =
     (case getHandle fl now p d of
        (False, d) \<Rightarrow> d
      | (True, d) \<Rightarrow>
          case file_at d p of None \<Rightarrow> d
          | Some f \<Rightarrow>
              let n = (case write_stops fl of None \<Rightarrow> length data | Some k \<Rightarrow> min k (length data));
                  d = set_file p (f\<lparr>wf_data := write_at relOffset (take n data) (wf_data f), wf_mtime := now\<rparr>) d;
                  endOff = relOffset + n
              in d\<lparr>dw_sizeCache := (dw_sizeCache d)(p \<mapsto> (endOff, now)),
                   dw_tailCoverage := (dw_tailCoverage d)(p \<mapsto> (case dw_tailCoverage d p of Some h \<Rightarrow> max h endOff | None \<Rightarrow> endOff))\<rparr>)"

definition create_tail :: "disk_faults \<Rightarrow> int \<Rightarrow> string \<Rightarrow> byte list \<Rightarrow> nat \<Rightarrow> DiskWarmupCache \<Rightarrow> DiskWarmupCache" where
  "create_tail fl now p data relOffset d =
     (case file_at d p of
        Some _ \<Rightarrow> write_tail fl now p data relOffset d
      | None \<Rightarrow>
          let d = d\<lparr>dw_missing := (dw_missing d)(p := None)\<rparr>
          in if open_fails fl then d
             else write_tail fl now p data relOffset (set_file p \<lparr>wf_data = [], wf_mtime = now\<rparr> (d\<lparr>dw_handles := (dw_handles d)(p \<mapsto> now)\<rparr>)))"

text \<open>\<open>None\<close> is the panic of a slice with a negative bound, for an offset behind the end of the file.\<close>

definition WriteTail :: "disk_faults \<Rightarrow> int \<Rightarrow> string \<Rightarrow> nat \<Rightarrow> byte list \<Rightarrow> nat \<Rightarrow> nat \<Rightarrow> DiskWarmupCache \<Rightarrow> DiskWarmupCache option" where
  "WriteTail fl now hash fileID data absoluteOffset fileSize d =
     (let p = tailPath hash fileID; tailStart = fileSize - tailWarmupSize; relOffset = absoluteOffset - tailStart
      in if absoluteOffset < tailStart then Some d
         else if relOffset > tailWarmupSize then None
         else let data = take (tailWarmupSize - relOffset) data
           in if data = [] then Some d
              else case dw_tailCoverage d p of
                  Some h \<Rightarrow> Some (if h \<ge> tailWarmupSize then d else create_tail fl now p data relOffset d)
                | None \<Rightarrow>
                    (case file_at d p of
                       Some f \<Rightarrow> if length (wf_data f) \<ge> tailWarmupSize
                                 then Some (d\<lparr>dw_tailCoverage := (dw_tailCoverage d)(p \<mapsto> length (wf_data f))\<rparr>)
                                 else Some (create_tail fl now p data relOffset d)
                     | None \<Rightarrow> Some (create_tail fl now p data relOffset d)))"

definition ReadTail :: "disk_faults \<Rightarrow> int \<Rightarrow> string \<Rightarrow> nat \<Rightarrow> nat \<Rightarrow> nat \<Rightarrow> nat \<Rightarrow> DiskWarmupCache \<Rightarrow> byte list \<times> DiskWarmupCache" where
  "ReadTail fl now hash fileID len absoluteOffset fileSize d =
     (let p = tailPath hash fileID; tailStart = fileSize - tailWarmupSize; relOffset = absoluteOffset - tailStart;
          readEnd = relOffset + len;
          on_disk = (case file_at d p of None \<Rightarrow> False | Some f \<Rightarrow> readEnd \<le> length (wf_data f));
          hit = (case dw_tailCoverage d p of Some h \<Rightarrow> readEnd \<le> h \<or> on_disk | None \<Rightarrow> on_disk);
          d1 = (case (dw_tailCoverage d p, file_at d p) of (None, Some f) \<Rightarrow> d\<lparr>dw_tailCoverage := (dw_tailCoverage d)(p \<mapsto> length (wf_data f))\<rparr> | _ \<Rightarrow> d)
      in if absoluteOffset < tailStart then ([], d)
         else if \<not> hit then ([], d)
         else case getHandle fl now p d1 of
             (False, d2) \<Rightarrow> ([], d2)
           | (True, d2) \<Rightarrow> (case file_at d2 p of None \<Rightarrow> ([], d2) | Some f \<Rightarrow> (read_at relOffset len (wf_data f), d2)))"

definition GetTailRange :: "int \<Rightarrow> string \<Rightarrow> nat \<Rightarrow> DiskWarmupCache \<Rightarrow> nat \<times> DiskWarmupCache" where
  "GetTailRange now hash fileID d =
     (let p = tailPath hash fileID;
          stat = (case file_at d p of
             None \<Rightarrow> (0, d\<lparr>dw_missing := (dw_missing d)(p \<mapsto> now)\<rparr>)
           | Some f \<Rightarrow> (length (wf_data f), d\<lparr>dw_sizeCache := (dw_sizeCache d)(p \<mapsto> (length (wf_data f), now))\<rparr>))
      in if dw_missing d p \<noteq> None then (0, d)
         else case dw_sizeCache d p of
             Some (s, updated) \<Rightarrow> if now - updated < 10 * 10 ^ 9 then (s, d) else stat
           | None \<Rightarrow> stat)"

text \<open>\<^verbatim>\<open>filepath.Glob\<close> with one star, in a directory without subdirectories.\<close>

definition glob :: "string \<Rightarrow> string \<Rightarrow> (string \<times> wfile) list \<Rightarrow> string list" where
  "glob pre suf fs = filter (\<lambda>name. prefix pre name \<and> suffix suf (drop (length pre) name)) (map fst fs)"

definition remove_one :: "string \<Rightarrow> DiskWarmupCache \<Rightarrow> DiskWarmupCache" where
  "remove_one p d = forget_file p (case file_at d p of None \<Rightarrow> d | Some f \<Rightarrow> d\<lparr>dw_totalSize := dw_totalSize d - int (length (wf_data f))\<rparr>)"

definition RemoveHash :: "string \<Rightarrow> DiskWarmupCache \<Rightarrow> DiskWarmupCache" where
  "RemoveHash hash d =
     fold remove_one (glob (hash @ ''-'') warmupSuffix (dw_files d) @ glob (hash @ ''-'') tailSuffix (dw_files d)) d"

section \<open>Names\<close>

lemma dash_not_in_show_nat: "CHR ''-'' \<notin> set (show_nat n)"
  using show_nat_digits [of n] not_digit_minus(1) by (auto simp: list_all_iff)

lemma filePath_inj [simp]: "filePath h i = filePath h' i' \<longleftrightarrow> h = h' \<and> i = i'"
  using append_sep_inj [of h "CHR ''-''" "show_nat i" h' "show_nat i'"] dash_not_in_show_nat
  by (auto simp: filePath_def show_nat_inj)

lemma tailPath_inj [simp]: "tailPath h i = tailPath h' i' \<longleftrightarrow> h = h' \<and> i = i'"
  using append_sep_inj [of h "CHR ''-''" "show_nat i" h' "show_nat i'"] dash_not_in_show_nat
  by (auto simp: tailPath_def show_nat_inj)

lemma filePath_not_tailPath [simp]: "filePath h i \<noteq> tailPath h' i'" "tailPath h' i' \<noteq> filePath h i"
proof -
  have "last (filePath h i) = CHR ''p''" "last (tailPath h' i') = CHR ''l''"
    by (simp_all add: filePath_def tailPath_def warmupSuffix_def tailSuffix_def)
  then show "filePath h i \<noteq> tailPath h' i'" "tailPath h' i' \<noteq> filePath h i" by fastforce+
qed

section \<open>Contents\<close>

lemma write_at_prefix:
  assumes "prefix old F" "off \<le> length old" "prefix b (drop off F)"
  shows "prefix (write_at off b old) F"
proof (cases "b = []")
  case False
  define n m where "n = length old" and "m = length b"
  have old: "old = take n F" and b: "b = take m (drop off F)" using assms(1,3) by (auto simp: n_def m_def prefix_def)
  have "take off old = take off F" using assms(2) unfolding n_def [symmetric] by (simp add: old)
  moreover have "drop (off + m) old = take (n - (off + m)) (drop (off + m) F)" by (simp add: old drop_take)
  moreover have "write_at off b old = take off old @ b @ drop (off + m) old" using False assms(2) by (simp add: write_at_def m_def)
  ultimately have "write_at off b old = (take off F @ take m (drop off F)) @ take (n - (off + m)) (drop (off + m) F)" using b by simp
  then have "write_at off b old = take (off + m) F @ take (n - (off + m)) (drop (off + m) F)" by (simp only: take_add)
  also have "\<dots> = take (off + m + (n - (off + m))) F" by (simp only: take_add)
  finally show ?thesis by (simp add: take_is_prefix)
qed (use assms in \<open>simp add: write_at_def\<close>)

lemma read_at_prefix: "prefix b F \<Longrightarrow> prefix (read_at off len b) (drop off F)"
  by (auto simp: read_at_def prefix_def) (metis append.assoc append_take_drop_id)

text \<open>What the files hold, given the contents \<open>F\<close> of the streamed files: initial parts of the head and of the tail.\<close>

definition files_ok :: "(string \<Rightarrow> nat \<Rightarrow> byte list) \<Rightarrow> (string \<rightharpoonup> wfile) \<Rightarrow> bool" where
  "files_ok F fs \<longleftrightarrow> (\<forall>h i f. fs (filePath h i) = Some f \<longrightarrow> prefix (wf_data f) (F h i))
     \<and> (\<forall>h i f. fs (tailPath h i) = Some f \<longrightarrow> prefix (wf_data f) (drop (length (F h i) - tailWarmupSize) (F h i)))"

lemma files_ok_upd:
  "files_ok F fs \<Longrightarrow> files_ok F (fs(p := None))"
  "files_ok F fs \<Longrightarrow> prefix (wf_data f) (F h i) \<Longrightarrow> files_ok F (fs(filePath h i \<mapsto> f))"
  "files_ok F fs \<Longrightarrow> prefix (wf_data f) (drop (length (F h i) - tailWarmupSize) (F h i)) \<Longrightarrow> files_ok F (fs(tailPath h i \<mapsto> f))"
  by (auto simp: files_ok_def)

lemma map_of_files [simp]:
  "map_of (dw_files (set_file p f d)) = (map_of (dw_files d))(p \<mapsto> f)"
  "map_of (dw_files (forget_file p d)) = (map_of (dw_files d))(p := None)"
  "map_of (dw_files (remove_file p d)) = (map_of (dw_files d))(p := None)"
  by (auto simp: set_file_def forget_file_def remove_file_def closeHandle_def update_conv' delete_conv')

lemma getHandle_files: "getHandle fl now p d = (b, d') \<Longrightarrow> dw_files d' = dw_files d \<and> dw_writeCh d' = dw_writeCh d"
  by (auto simp: getHandle_def split: if_splits)

lemma evict_files_ok:
  "evict_files quota needed fs tot d = (tot', d') \<Longrightarrow> files_ok F (map_of (dw_files d)) \<Longrightarrow> files_ok F (map_of (dw_files d')) \<and> dw_writeCh d' = dw_writeCh d"
  by (induction quota needed fs tot d rule: evict_files.induct)
    (auto simp: forget_file_def remove_file_def closeHandle_def delete_conv' intro: files_ok_upd split: if_splits)

lemma enforceQuota_ok:
  assumes "files_ok F (map_of (dw_files d))"
  shows "files_ok F (map_of (dw_files (enforceQuotaLocked srt cfg n d)))" "dw_writeCh (enforceQuotaLocked srt cfg n d) = dw_writeCh d"
  using assms evict_files_ok [of _ _ _ _ _ _ _ F]
  by (fastforce simp: enforceQuotaLocked_def Let_def split: prod.splits)+

section \<open>Contiguous writing\<close>

definition size_at :: "DiskWarmupCache \<Rightarrow> string \<Rightarrow> nat" where
  "size_at d p = (case file_at d p of None \<Rightarrow> 0 | Some f \<Rightarrow> length (wf_data f))"

definition dw_ok :: "(string \<Rightarrow> nat \<Rightarrow> byte list) \<Rightarrow> DiskWarmupCache \<Rightarrow> bool" where
  "dw_ok F d \<longleftrightarrow> files_ok F (map_of (dw_files d))
     \<and> (\<forall>w \<in> set (dw_writeCh d). prefix (ww_data w) (drop (ww_off w) (F (ww_hash w) (ww_fileID w))))"

lemma dw_ok_files: "files_ok F (map_of (dw_files d')) \<Longrightarrow> dw_writeCh d' = dw_writeCh d \<Longrightarrow> dw_ok F d \<Longrightarrow> dw_ok F d'"
  by (simp add: dw_ok_def)

lemma prefix_take: "prefix b F \<Longrightarrow> prefix (take k b) F"
  using prefix_order.trans take_is_prefix by blast

lemma write_head_ok:
  assumes "dw_ok F d" "off \<le> size_at d (filePath h i)" "prefix data (drop off (F h i))"
  shows "dw_ok F (write_head fl now (filePath h i) data off d)"
proof (cases "getHandle fl now (filePath h i) d")
  case (Pair b d1)
  have f1: "dw_files d1 = dw_files d" "dw_writeCh d1 = dw_writeCh d" using getHandle_files [OF Pair] by auto
  then have ok1: "dw_ok F d1" using assms(1) by (simp add: dw_ok_def)
  show ?thesis
  proof (cases "file_at d1 (filePath h i)")
    case (Some f)
    have pf: "prefix (write_at off b' (wf_data f)) (F h i)" if "prefix b' (drop off (F h i))" for b'
      using write_at_prefix [of "wf_data f" "F h i" off b'] that assms(2) Some f1 ok1 by (simp add: size_at_def dw_ok_def files_ok_def)
    have upd: "dw_ok F (set_file (filePath h i) (f\<lparr>wf_data := write_at off b' (wf_data f), wf_mtime := now\<rparr>) d1)" if "prefix b' (drop off (F h i))" for b'
      by (rule dw_ok_files [OF _ _ ok1]) (use pf [OF that] ok1 in \<open>auto intro: files_ok_upd simp: dw_ok_def set_file_def update_conv'\<close>)
    then show ?thesis using Some Pair ok1 upd [OF assms(3)] upd [OF prefix_take [OF assms(3)]]
      by (auto simp: write_head_def Let_def dw_ok_def split: bool.split option.split)
  qed (use Pair ok1 in \<open>auto simp: write_head_def split: bool.split\<close>)
qed

lemma create_and_write_ok:
  assumes "dw_ok F d" "off \<le> size_at d (filePath h i)" "prefix data (drop off (F h i))"
  shows "dw_ok F (create_and_write srt cfg fl now (filePath h i) data off d)"
proof (cases "file_at d (filePath h i)")
  case None
  define d1 where "d1 = (enforceQuotaLocked srt cfg (int (warmupFileSize cfg)) d)\<lparr>dw_missing := (dw_missing (enforceQuotaLocked srt cfg (int (warmupFileSize cfg)) d))(filePath h i := None)\<rparr>"
  have ok1: "dw_ok F d1" using assms(1) enforceQuota_ok [of F d] by (simp add: dw_ok_def d1_def)
  define d2 where "d2 = set_file (filePath h i) \<lparr>wf_data = [], wf_mtime = now\<rparr> (d1\<lparr>dw_handles := (dw_handles d1)(filePath h i \<mapsto> now)\<rparr>)"
  have "dw_ok F d2" by (rule dw_ok_files [OF _ _ ok1]) (use ok1 in \<open>auto intro: files_ok_upd simp: d2_def dw_ok_def set_file_def update_conv'\<close>)
  moreover have "off = 0" using assms(2) None by (simp add: size_at_def)
  ultimately have "dw_ok F (write_head fl now (filePath h i) data off d2)" using write_head_ok assms(3) by blast
  then show ?thesis using None ok1 by (simp add: create_and_write_def Let_def d1_def [symmetric] d2_def [symmetric])
qed (use assms write_head_ok in \<open>simp add: create_and_write_def\<close>)

lemma processWrite_ok:
  assumes "dw_ok F d" "ww_off w \<le> size_at d (filePath (ww_hash w) (ww_fileID w))" "prefix (ww_data w) (drop (ww_off w) (F (ww_hash w) (ww_fileID w)))"
  shows "dw_ok F (processWrite srt cfg fl now w d)"
proof -
  define b where "b = (if ww_off w < warmupFileSize cfg \<and> ww_off w + length (ww_data w) > warmupFileSize cfg then take (warmupFileSize cfg - ww_off w) (ww_data w) else ww_data w)"
  have "prefix b (drop (ww_off w) (F (ww_hash w) (ww_fileID w)))" using assms(3) prefix_take [OF assms(3)] by (simp add: b_def)
  note c = create_and_write_ok [OF assms(1,2) this]
  show ?thesis unfolding processWrite_def Let_def b_def [symmetric] using c assms(1) by (auto simp: dw_ok_def split: option.split)
qed

lemma write_tail_ok:
  assumes "dw_ok F d" "off \<le> size_at d (tailPath h i)" "prefix data (drop off (drop (length (F h i) - tailWarmupSize) (F h i)))"
  shows "dw_ok F (write_tail fl now (tailPath h i) data off d)"
proof (cases "getHandle fl now (tailPath h i) d")
  case (Pair b d1)
  have f1: "dw_files d1 = dw_files d" "dw_writeCh d1 = dw_writeCh d" using getHandle_files [OF Pair] by auto
  then have ok1: "dw_ok F d1" using assms(1) by (simp add: dw_ok_def)
  show ?thesis
  proof (cases "file_at d1 (tailPath h i)")
    case (Some f)
    define T where "T = drop (length (F h i) - tailWarmupSize) (F h i)"
    have "prefix (write_at off (take n data) (wf_data f)) T" for n
      using write_at_prefix [of "wf_data f" T off "take n data"] prefix_take [OF assms(3), of n] assms(2) Some f1 ok1
      unfolding T_def [symmetric] by (simp add: size_at_def dw_ok_def files_ok_def T_def)
    then have "dw_ok F (set_file (tailPath h i) (f\<lparr>wf_data := write_at off (take n data) (wf_data f), wf_mtime := now\<rparr>) d1)" for n
      by (intro dw_ok_files [OF _ _ ok1]) (use ok1 in \<open>auto intro: files_ok_upd simp: dw_ok_def set_file_def update_conv' T_def\<close>)
    then show ?thesis using Some Pair ok1 by (auto simp: write_tail_def Let_def dw_ok_def split: bool.split option.split)
  qed (use Pair ok1 in \<open>auto simp: write_tail_def split: bool.split\<close>)
qed

lemma create_tail_ok:
  assumes "dw_ok F d" "off \<le> size_at d (tailPath h i)" "prefix data (drop off (drop (length (F h i) - tailWarmupSize) (F h i)))"
  shows "dw_ok F (create_tail fl now (tailPath h i) data off d)"
proof (cases "file_at d (tailPath h i)")
  case None
  define d1 where "d1 = d\<lparr>dw_missing := (dw_missing d)(tailPath h i := None)\<rparr>"
  have ok1: "dw_ok F d1" using assms(1) by (simp add: dw_ok_def d1_def)
  define d2 where "d2 = set_file (tailPath h i) \<lparr>wf_data = [], wf_mtime = now\<rparr> (d1\<lparr>dw_handles := (dw_handles d1)(tailPath h i \<mapsto> now)\<rparr>)"
  have "dw_ok F d2" by (rule dw_ok_files [OF _ _ ok1]) (use ok1 in \<open>auto intro: files_ok_upd simp: d2_def dw_ok_def set_file_def update_conv'\<close>)
  moreover have "off = 0" using assms(2) None by (simp add: size_at_def)
  ultimately have "dw_ok F (write_tail fl now (tailPath h i) data off d2)" using write_tail_ok assms(3) by blast
  then show ?thesis using None ok1 by (simp add: create_tail_def Let_def d1_def [symmetric] d2_def [symmetric])
qed (use assms write_tail_ok in \<open>simp add: create_tail_def\<close>)

lemma WriteTail_ok:
  assumes "WriteTail fl now h i data off (length (F h i)) d = Some d'" "dw_ok F d"
    and "off - (length (F h i) - tailWarmupSize) \<le> size_at d (tailPath h i)" "prefix data (drop off (F h i))"
  shows "dw_ok F d'"
proof -
  define r where "r = off - (length (F h i) - tailWarmupSize)"
  have "prefix (take (tailWarmupSize - r) data) (drop r (drop (length (F h i) - tailWarmupSize) (F h i)))"
    if "length (F h i) - tailWarmupSize \<le> off" using that prefix_take [OF assms(4)] by (simp add: r_def)
  note c = create_tail_ok [OF assms(2) assms(3) [folded r_def] this]
  show ?thesis using assms(1,2) c
    by (auto simp: WriteTail_def Let_def r_def [symmetric] dw_ok_def not_less split: if_splits option.splits)
qed

text \<open>The operations in any order and at any times, with the contents \<open>F\<close> of the streamed files. The bytes handed over are those of the
  file; a chunk is written to disk only when nothing is missing before it.\<close>

inductive warmup_step :: "(string \<Rightarrow> nat \<Rightarrow> byte list) \<Rightarrow> ((string \<times> wfile) list \<Rightarrow> (string \<times> wfile) list) \<Rightarrow> warmupConfig \<Rightarrow> DiskWarmupCache \<Rightarrow> DiskWarmupCache \<Rightarrow> bool"
  for F srt cfg where
  ws_chunk: "prefix data (drop off (F h i)) \<Longrightarrow> warmup_step F srt cfg d (WriteChunk cfg h i data off d)"
| ws_work: "(case dw_writeCh d of [] \<Rightarrow> True | w # _ \<Rightarrow> ww_off w \<le> size_at d (filePath (ww_hash w) (ww_fileID w))) \<Longrightarrow>
    warmup_step F srt cfg d (writeWorker srt cfg fl now d)"
| ws_range: "warmup_step F srt cfg d (snd (GetAvailableRange cfg now h i d))"
| ws_read: "warmup_step F srt cfg d (snd (head_ReadAt cfg fl now h i len off d))"
| ws_tail: "prefix data (drop off (F h i)) \<Longrightarrow> off - (length (F h i) - tailWarmupSize) \<le> size_at d (tailPath h i) \<Longrightarrow>
    WriteTail fl now h i data off (length (F h i)) d = Some d' \<Longrightarrow> warmup_step F srt cfg d d'"
| ws_read_tail: "warmup_step F srt cfg d (snd (ReadTail fl now h i len off (length (F h i)) d))"
| ws_tail_range: "warmup_step F srt cfg d (snd (GetTailRange now h i d))"
| ws_remove: "warmup_step F srt cfg d (RemoveHash h d)"
| ws_reap: "warmup_step F srt cfg d (handleReaper now d)"

definition warmup_init :: "(string \<Rightarrow> nat \<Rightarrow> byte list) \<Rightarrow> DiskWarmupCache \<Rightarrow> bool" where
  "warmup_init F d \<longleftrightarrow> (\<exists>fs. files_ok F (map_of fs) \<and> d = InitDiskWarmup fs)"

lemma dw_ok_less:
  assumes "dw_ok F d" "\<And>p. map_of (dw_files d') p = None \<or> map_of (dw_files d') p = map_of (dw_files d) p" "dw_writeCh d' = dw_writeCh d"
  shows "dw_ok F d'"
  using assms unfolding dw_ok_def files_ok_def by (metis option.distinct(1))

lemma range_files:
  "map_of (dw_files (snd (GetAvailableRange cfg now h i d))) p = None \<or> map_of (dw_files (snd (GetAvailableRange cfg now h i d))) p = map_of (dw_files d) p"
  "dw_writeCh (snd (GetAvailableRange cfg now h i d)) = dw_writeCh d"
  by (auto simp: GetAvailableRange_def stat_head_def Let_def remove_file_def closeHandle_def delete_conv' split: option.split)

lemma read_files:
  "map_of (dw_files (snd (head_ReadAt cfg fl now h i len off d))) p = None \<or> map_of (dw_files (snd (head_ReadAt cfg fl now h i len off d))) p = map_of (dw_files d) p"
  "dw_writeCh (snd (head_ReadAt cfg fl now h i len off d)) = dw_writeCh d"
proof -
  obtain b d1 where g: "getHandle fl now (filePath h i) d = (b, d1)" by fastforce
  obtain a d2 where r: "GetAvailableRange cfg now h i d1 = (a, d2)" by fastforce
  have "dw_files d1 = dw_files d" "dw_writeCh d1 = dw_writeCh d" using getHandle_files [OF g] by auto
  moreover have "map_of (dw_files d2) p = None \<or> map_of (dw_files d2) p = map_of (dw_files d1) p" "dw_writeCh d2 = dw_writeCh d1"
    using range_files [of cfg now h i d1] r by auto
  ultimately show "map_of (dw_files (snd (head_ReadAt cfg fl now h i len off d))) p = None \<or> map_of (dw_files (snd (head_ReadAt cfg fl now h i len off d))) p = map_of (dw_files d) p"
    "dw_writeCh (snd (head_ReadAt cfg fl now h i len off d)) = dw_writeCh d"
    using g r by (auto simp: head_ReadAt_def split: bool.split option.split)
qed

lemma read_tail_files:
  "dw_files (snd (ReadTail fl now h i len off sz d)) = dw_files d" "dw_writeCh (snd (ReadTail fl now h i len off sz d)) = dw_writeCh d"
  by (auto simp: ReadTail_def Let_def dest!: getHandle_files split: option.split prod.split bool.split)

lemma fold_remove_ok: "dw_ok F d \<Longrightarrow> dw_ok F (fold remove_one ps d)"
proof (induction ps arbitrary: d)
  case (Cons p ps)
  have "dw_ok F (remove_one p d)"
    by (rule dw_ok_less [OF Cons.prems]) (auto simp: remove_one_def forget_file_def remove_file_def closeHandle_def delete_conv' split: option.split)
  then show ?case using Cons.IH by simp
qed simp

interpretation warmup: step_invariant "warmup_init F" "warmup_step F srt cfg" "dw_ok F" for F srt cfg
proof
  fix d d'
  assume ok: "dw_ok F d" and st: "warmup_step F srt cfg d d'"
  from st show "dw_ok F d'"
  proof (cases rule: warmup_step.cases)
    case (ws_chunk data off h i)
    then show ?thesis using ok by (auto simp: WriteChunk_def dw_ok_def)
  next
    case (ws_work fl now)
    then show ?thesis using ok processWrite_ok [of F "d\<lparr>dw_writeCh := tl (dw_writeCh d)\<rparr>" "hd (dw_writeCh d)" srt cfg fl now]
      by (cases "dw_writeCh d") (auto simp: writeWorker_def dw_ok_def size_at_def)
  next
    case (ws_tail data off h i fl now)
    then show ?thesis using WriteTail_ok [OF ws_tail(3) ok] by simp
  next
    case (ws_tail_range now h i)
    then show ?thesis using ok by (auto simp: GetTailRange_def Let_def dw_ok_def split: option.split)
  next
    case (ws_range now h i)
    then show ?thesis using dw_ok_less [OF ok range_files] by simp
  next
    case (ws_read fl now h i len off)
    then show ?thesis using dw_ok_less [OF ok read_files] by simp
  next
    case (ws_remove h)
    then show ?thesis unfolding RemoveHash_def using fold_remove_ok [OF ok] by metis
  qed (use ok read_tail_files in \<open>auto simp: handleReaper_def dw_ok_def\<close>)
qed (auto simp: warmup_init_def InitDiskWarmup_def dw_ok_def)

text \<open>C13: As long as no chunk is written past a gap, reading from the warm-up files gives bytes of the streamed file at the
  offset asked for, under any sequence of writes, evictions, removals and failing disk operations.\<close>

theorem warmup_reads_file_bytes:
  assumes "reachable (warmup_init F) (warmup_step F srt cfg) d"
  shows "prefix (fst (head_ReadAt cfg fl now h i len off d)) (drop off (F h i))
    \<and> prefix (fst (ReadTail fl now h i len off (length (F h i)) d)) (drop off (F h i))"
proof -
  have ok: "dw_ok F d" by (rule warmup.reachable_inv [OF assms])
  obtain b d1 where g: "getHandle fl now (filePath h i) d = (b, d1)" by fastforce
  obtain a d2 where r: "GetAvailableRange cfg now h i d1 = (a, d2)" by fastforce
  have "dw_ok F d1" using ok getHandle_files [OF g] by (simp add: dw_ok_def)
  then have "dw_ok F d2" using dw_ok_less [OF _ range_files, of F d1 cfg now h i] r by simp
  then have "prefix (read_at off n (wf_data f)) (drop off (F h i))" if "file_at d2 (filePath h i) = Some f" for n f
    using that by (intro read_at_prefix) (simp add: dw_ok_def files_ok_def)
  then have "prefix (fst (head_ReadAt cfg fl now h i len off d)) (drop off (F h i))"
    using g r by (auto simp: head_ReadAt_def split: bool.split option.split)
  moreover have "prefix (read_at (off - (length (F h i) - tailWarmupSize)) len (wf_data f)) (drop off (F h i))"
    if "file_at d (tailPath h i) = Some f" "length (F h i) - tailWarmupSize \<le> off" for f
    using that ok read_at_prefix [of "wf_data f" "drop (length (F h i) - tailWarmupSize) (F h i)" "off - (length (F h i) - tailWarmupSize)" len]
    by (simp add: dw_ok_def files_ok_def)
  then have "prefix (fst (ReadTail fl now h i len off (length (F h i)) d)) (drop off (F h i))"
    by (auto simp: ReadTail_def Let_def not_less dest!: getHandle_files split: bool.split option.split prod.split)
  ultimately show ?thesis by simp
qed

section \<open>A new file\<close>

abbreviation no_faults :: disk_faults where
  "no_faults \<equiv> \<lparr>open_fails = False, write_stops = None\<rparr>"

lemma write_head_new:
  assumes "file_at d p = Some f" "dw_missing d p = None"
  shows "file_at (write_head no_faults now p b off d) p = Some (f\<lparr>wf_data := write_at off b (wf_data f), wf_mtime := now\<rparr>)"
    "dw_missing (write_head no_faults now p b off d) p = None" "dw_sizeCache (write_head no_faults now p b off d) p = Some (off + length b, now)"
  using assms by (auto simp: write_head_def getHandle_def set_file_def Let_def update_conv' split: option.split)

lemma fresh_write:
  assumes "file_at d (filePath h i) = None" "dw_sizeCache d (filePath h i) = None" "off \<le> warmupFileSize cfg"
    and "off = warmupFileSize cfg \<or> off + length b \<le> warmupFileSize cfg"
  shows "file_at (processWrite srt cfg no_faults now \<lparr>ww_hash = h, ww_fileID = i, ww_data = b, ww_off = off\<rparr> d) (filePath h i)
      = Some \<lparr>wf_data = write_at off b [], wf_mtime = now\<rparr>"
    "dw_missing (processWrite srt cfg no_faults now \<lparr>ww_hash = h, ww_fileID = i, ww_data = b, ww_off = off\<rparr> d) (filePath h i) = None"
    "dw_sizeCache (processWrite srt cfg no_faults now \<lparr>ww_hash = h, ww_fileID = i, ww_data = b, ww_off = off\<rparr> d) (filePath h i) = Some (off + length b, now)"
proof -
  define p where "p = filePath h i"
  define e where "e = enforceQuotaLocked srt cfg (int (warmupFileSize cfg)) d"
  define d1 where "d1 = e\<lparr>dw_missing := (dw_missing e)(p := None)\<rparr>"
  define d2 where "d2 = set_file p \<lparr>wf_data = [], wf_mtime = now\<rparr> (d1\<lparr>dw_handles := (dw_handles d1)(p \<mapsto> now)\<rparr>)"
  have P: "processWrite srt cfg no_faults now \<lparr>ww_hash = h, ww_fileID = i, ww_data = b, ww_off = off\<rparr> d = write_head no_faults now p b off d2"
    using assms by (auto simp: processWrite_def create_and_write_def Let_def p_def e_def d1_def d2_def)
  have "file_at d2 p = Some \<lparr>wf_data = [], wf_mtime = now\<rparr>" "dw_missing d2 p = None"
    by (simp_all add: d2_def set_file_def update_conv' d1_def)
  note w = write_head_new [OF this, of now b off]
  show "file_at (processWrite srt cfg no_faults now \<lparr>ww_hash = h, ww_fileID = i, ww_data = b, ww_off = off\<rparr> d) (filePath h i)
      = Some \<lparr>wf_data = write_at off b [], wf_mtime = now\<rparr>"
    "dw_missing (processWrite srt cfg no_faults now \<lparr>ww_hash = h, ww_fileID = i, ww_data = b, ww_off = off\<rparr> d) (filePath h i) = None"
    "dw_sizeCache (processWrite srt cfg no_faults now \<lparr>ww_hash = h, ww_fileID = i, ww_data = b, ww_off = off\<rparr> d) (filePath h i) = Some (off + length b, now)"
    unfolding P p_def [symmetric] using w by simp_all
qed

lemma head_ReadAt_cached:
  assumes "file_at d (filePath h i) = Some f" "dw_missing d (filePath h i) = None" "dw_sizeCache d (filePath h i) = Some (sz, t)"
    and "now - t < 10 * 10 ^ 9" "off \<le> warmupFileSize cfg"
  shows "fst (head_ReadAt cfg no_faults now h i len off d) = read_at off (min len (sz - off)) (wf_data f)"
  using assms by (auto simp: head_ReadAt_def getHandle_def GetAvailableRange_def Let_def read_at_def)

text \<open>A chunk at the start of a file that has no warm-up file yet is read back as it was written, and one that is written
  behind a gap, as after a chunk that the full queue dropped, makes the bytes of the gap read as zeros, whatever the streamed file holds there.\<close>

theorem warmup_new_file:
  assumes "file_at d (filePath h i) = None" "dw_sizeCache d (filePath h i) = None" "off \<le> warmupFileSize cfg"
    and "off = warmupFileSize cfg \<or> off + length b \<le> warmupFileSize cfg" "b \<noteq> []" "now' - now < 10 * 10 ^ 9"
    and "processWrite srt cfg no_faults now \<lparr>ww_hash = h, ww_fileID = i, ww_data = b, ww_off = off\<rparr> d = d'"
  shows "fst (head_ReadAt cfg no_faults now' h i len off d') = take len b
    \<and> (len \<le> off \<longrightarrow> fst (head_ReadAt cfg no_faults now' h i len 0 d') = replicate len 0)"
proof -
  note f = fresh_write [OF assms(1-4), of srt now, unfolded assms(7)]
  note r = head_ReadAt_cached [OF f assms(6)]
  show ?thesis using r [OF assms(3), of len] r [of 0 cfg len] assms(5) by (auto simp: write_at_def read_at_def min_def)
qed

section \<open>The quota\<close>










definition sample_store :: DiskWarmupCache where
  "sample_store = InitDiskWarmup [(filePath ''ab'' 0, \<lparr>wf_data = [1, 2], wf_mtime = 5\<rparr>)]"


theorem warmup_reads_file_bytes_witness:
  "fst (head_ReadAt \<lparr>warmupFileSize = 100, DiskWarmupQuotaGB = 1\<rparr> no_faults 7 ''ab'' 0 9 1 sample_store) = [2]
    \<and> prefix [2] (drop 1 [1, 2, 3 :: byte])"
proof -
  let ?cfg = "\<lparr>warmupFileSize = 100, DiskWarmupQuotaGB = 1\<rparr>"
  have i: "warmup_init (\<lambda>_ _. [1, 2, 3]) sample_store" 
    unfolding warmup_init_def sample_store_def by (rule exI, rule conjI [OF _ refl]) (auto simp: files_ok_def)
  have v: "fst (head_ReadAt ?cfg no_faults 7 ''ab'' 0 9 1 sample_store) = [2]"
    by (simp add: head_ReadAt_def getHandle_def GetAvailableRange_def stat_head_def sample_store_def InitDiskWarmup_def read_at_def Let_def)
  have "reachable (warmup_init (\<lambda>_ _. [1, 2, 3])) (warmup_step (\<lambda>_ _. [1, 2, 3]) id ?cfg) sample_store" by (rule reach_init) (rule i)
  then show ?thesis using warmup_reads_file_bytes [of "\<lambda>_ _. [1, 2, 3]" id ?cfg sample_store no_faults 7 "''ab''" 0 9 1] v by simp
qed

theorem warmup_new_file_witness:
  "fst (head_ReadAt \<lparr>warmupFileSize = 100, DiskWarmupQuotaGB = 1\<rparr> no_faults 7 ''ab'' 0 3 0
     (processWrite id \<lparr>warmupFileSize = 100, DiskWarmupQuotaGB = 1\<rparr> no_faults 6 \<lparr>ww_hash = ''ab'', ww_fileID = 0, ww_data = [9], ww_off = 4\<rparr> (InitDiskWarmup [])))
    = [0, 0, 0]"
  using warmup_new_file [where d = "InitDiskWarmup []" and h = "''ab''" and i = 0 and off = 4 and b = "[9]" and now = 6 and now' = 7 and len = 3 and srt = id
      and cfg = "\<lparr>warmupFileSize = 100, DiskWarmupQuotaGB = 1\<rparr>", OF _ _ _ _ _ _ refl]
  by (simp add: InitDiskWarmup_def numeral_3_eq_3)


end
