(* ===== verification/SyncScheduler.thy ===== *)
theory SyncScheduler
  imports GoTime "HOL-Library.Sublist"
begin

text \<open>
  The scheduler of the synchronisation jobs (\<^verbatim>\<open>internal/syncer/scheduler\<close>): daily and interval jobs, their states with the file that
  keeps them, and the goroutines that run them, from their start by \<^verbatim>\<open>tick\<close> or \<^verbatim>\<open>TriggerRun\<close> to their end. Times count from the zero
  time. The local zone is a fixed offset \<open>z\<close> from UTC, so that days have 24 hours; with it, \<^verbatim>\<open>time.Date\<close> of the year, month and day
  of a time is the start of its day. Jobs are their keys with the names their engines report. A tick reads the clock for its checks and
  again for its plan; the start and the end of a run are one step each.
\<close>

section \<open>Days\<close>

definition DAY :: int where
  "DAY = 86400 * second"

definition day_of :: "int \<Rightarrow> time \<Rightarrow> int" where
  "day_of z t = (t + z) div DAY"

text \<open>\<^verbatim>\<open>time.Date\<close> with the day of a time and an hour and minute.\<close>

definition date_at :: "int \<Rightarrow> int \<Rightarrow> int \<Rightarrow> int \<Rightarrow> time" where
  "date_at z d hour minute = d * DAY + (hour * 3600 + minute * 60) * second - z"

text \<open>The first day of the calendar is a Monday; weeks count from Sunday.\<close>

definition Weekday :: "int \<Rightarrow> time \<Rightarrow> int" where
  "Weekday z t = (day_of z t + 1) mod 7"

section \<open>Configuration and state\<close>

record JobState =
  js_LastRun :: time
  js_NextRun :: time
  js_Running :: bool
  js_LastError :: string
  js_LastStatus :: string

record DailyJobConfig =
  dj_Enabled :: bool
  dj_DaysOfWeek :: "int list"
  dj_Hour :: int
  dj_Minute :: int

record WatchlistSyncConfig =
  wl_Enabled :: bool
  wl_IntervalHours :: int

record TVChannelSchedule =
  ch_Name :: string
  ch_Enabled :: bool
  ch_DaysOfWeek :: "int list"
  ch_Hour :: int
  ch_Minute :: int

record SchedulerConfig =
  sc_Enabled :: bool
  sc_MoviesSync :: DailyJobConfig
  sc_TVSync :: DailyJobConfig
  sc_WatchlistSync :: WatchlistSyncConfig
  sc_TVChannels :: "TVChannelSchedule list"

datatype phase = Spawned | Active

record job_run =
  jr_key :: string
  jr_name :: string
  jr_phase :: phase
  jr_cancelled :: bool

record Scheduler =
  sd_cfg :: SchedulerConfig
  sd_jobs :: "(string \<times> string) list"
  sd_state :: "string \<rightharpoonup> JobState"
  sd_disk :: "string \<rightharpoonup> JobState"
  sd_cancels :: "string \<rightharpoonup> nat"
  sd_runs :: "nat \<rightharpoonup> job_run"
  sd_fresh :: nat

definition zero_job :: JobState where
  "zero_job = \<lparr>js_LastRun = 0, js_NextRun = 0, js_Running = False, js_LastError = [], js_LastStatus = []\<rparr>"

text \<open>\<^verbatim>\<open>StateStore.Tracker\<close> with \<^verbatim>\<open>Snapshot\<close>.\<close>

definition Snapshot :: "string \<Rightarrow> Scheduler \<Rightarrow> JobState" where
  "Snapshot name s = (case sd_state s name of Some j \<Rightarrow> j | None \<Rightarrow> zero_job)"

definition set_job :: "string \<Rightarrow> JobState \<Rightarrow> Scheduler \<Rightarrow> Scheduler" where
  "set_job name j s = s\<lparr>sd_state := (sd_state s)(name \<mapsto> j)\<rparr>"

definition SetRunning :: "string \<Rightarrow> bool \<Rightarrow> Scheduler \<Rightarrow> Scheduler" where
  "SetRunning name r s = set_job name ((Snapshot name s)\<lparr>js_Running := r\<rparr>) s"

definition SetStatus :: "time \<Rightarrow> string \<Rightarrow> string \<Rightarrow> string \<Rightarrow> Scheduler \<Rightarrow> Scheduler" where
  "SetStatus now name status errMsg s =
     set_job name ((Snapshot name s)\<lparr>js_LastStatus := status, js_LastError := errMsg, js_LastRun := now\<rparr>) s"

definition SetNextRun :: "string \<Rightarrow> time \<Rightarrow> Scheduler \<Rightarrow> Scheduler" where
  "SetNextRun name t s = set_job name ((Snapshot name s)\<lparr>js_NextRun := t\<rparr>) s"

text \<open>\<^verbatim>\<open>Save\<close> replaces the file, or fails and leaves it.\<close>

definition Save :: "bool \<Rightarrow> Scheduler \<Rightarrow> Scheduler" where
  "Save ok s = (if ok then s\<lparr>sd_disk := sd_state s\<rparr> else s)"

section \<open>The plan\<close>

fun next_candidate :: "int \<Rightarrow> int list \<Rightarrow> time \<Rightarrow> nat \<Rightarrow> time" where
  "next_candidate z days base 0 = 0"
| "next_candidate z days base (Suc k) =
     (let candidate = base + (7 - int k) * DAY
      in if Weekday z candidate \<in> set days then candidate else next_candidate z days base k)"

text \<open>The loop over the offsets 0 to 7; offset 0 counts only if it is still to come.\<close>

definition nextRunTime :: "int \<Rightarrow> time \<Rightarrow> bool \<Rightarrow> int list \<Rightarrow> int \<Rightarrow> int \<Rightarrow> time" where
  "nextRunTime z now enabled days hour minute =
     (if \<not> enabled then 0
      else let base = date_at z (day_of z now) hour minute
        in if base > now \<and> Weekday z base \<in> set days then base else next_candidate z days base 7)"

definition shouldRunDaily :: "int \<Rightarrow> time \<Rightarrow> JobState \<Rightarrow> bool \<Rightarrow> int list \<Rightarrow> int \<Rightarrow> int \<Rightarrow> bool" where
  "shouldRunDaily z now j enabled days hour minute =
     (if \<not> enabled then False
      else if js_NextRun j \<noteq> 0 \<and> now < js_NextRun j then False
      else let today = date_at z (day_of z now) hour minute
        in if Weekday z today \<notin> set days then False
           else if now < today then False
           else if js_LastRun j \<noteq> 0 \<and> \<not> date_at z (day_of z (js_LastRun j)) 0 0 < date_at z (day_of z now) 0 0 then False
           else True)"

text \<open>\<^verbatim>\<open>time.Duration(intervalHours)*time.Hour\<close>, in 64 bits.\<close>

definition hours_duration :: "int \<Rightarrow> int" where
  "hours_duration h = (h * 3600 * second + 2 ^ 63) mod 2 ^ 64 - 2 ^ 63"

definition shouldRunInterval :: "time \<Rightarrow> JobState \<Rightarrow> bool \<Rightarrow> int \<Rightarrow> bool" where
  "shouldRunInterval now j enabled hours =
     (if \<not> enabled \<or> hours \<le> 0 then False
      else if js_LastRun j = 0 then True
      else Sub now (js_LastRun j) \<ge> hours_duration hours)"

definition channel_of :: "string \<Rightarrow> SchedulerConfig \<Rightarrow> TVChannelSchedule option" where
  "channel_of name cfg = List.find (\<lambda>ch. ch_Name ch = drop 3 name) (sc_TVChannels cfg)"

definition shouldRun :: "int \<Rightarrow> time \<Rightarrow> SchedulerConfig \<Rightarrow> string \<Rightarrow> JobState \<Rightarrow> bool" where
  "shouldRun z now cfg name j =
     (let daily = (\<lambda>c. shouldRunDaily z now j (dj_Enabled c) (dj_DaysOfWeek c) (dj_Hour c) (dj_Minute c))
      in if js_Running j then False
         else if name = ''movies'' then daily (sc_MoviesSync cfg)
         else if name = ''tv'' then daily (sc_TVSync cfg)
         else if name = ''watchlist'' then shouldRunInterval now j (wl_Enabled (sc_WatchlistSync cfg)) (wl_IntervalHours (sc_WatchlistSync cfg))
         else if prefix ''tv:'' name
         then (case channel_of name cfg of
                 Some ch \<Rightarrow> shouldRunDaily z now j (ch_Enabled ch) (ch_DaysOfWeek ch) (ch_Hour ch) (ch_Minute ch)
               | None \<Rightarrow> daily (sc_TVSync cfg))
         else False)"

definition next_run :: "int \<Rightarrow> time \<Rightarrow> SchedulerConfig \<Rightarrow> string \<Rightarrow> JobState \<Rightarrow> time" where
  "next_run z now cfg name j =
     (let daily = (\<lambda>c. nextRunTime z now (dj_Enabled c) (dj_DaysOfWeek c) (dj_Hour c) (dj_Minute c))
      in if name = ''movies'' then daily (sc_MoviesSync cfg)
         else if name = ''tv'' then daily (sc_TVSync cfg)
         else if name = ''watchlist''
         then (if wl_Enabled (sc_WatchlistSync cfg) \<and> wl_IntervalHours (sc_WatchlistSync cfg) > 0
               then js_LastRun j + hours_duration (wl_IntervalHours (sc_WatchlistSync cfg)) else 0)
         else if prefix ''tv:'' name
         then (case channel_of name cfg of
                 Some ch \<Rightarrow> nextRunTime z now (ch_Enabled ch) (ch_DaysOfWeek ch) (ch_Hour ch) (ch_Minute ch)
               | None \<Rightarrow> 0)
         else 0)"

definition update_next :: "int \<Rightarrow> time \<Rightarrow> string \<Rightarrow> Scheduler \<Rightarrow> Scheduler" where
  "update_next z now name s =
     (let next = next_run z now (sd_cfg s) name (Snapshot name s)
      in if next \<noteq> js_NextRun (Snapshot name s) then SetNextRun name next s else set_job name (Snapshot name s) s)"

definition updateNextRuns :: "int \<Rightarrow> time \<Rightarrow> Scheduler \<Rightarrow> Scheduler" where
  "updateNextRuns z now s = fold (update_next z now) (map fst (sd_jobs s)) s"

section \<open>Running jobs\<close>

definition go_runJob :: "string \<times> string \<Rightarrow> Scheduler \<Rightarrow> Scheduler" where
  "go_runJob job s = s\<lparr>sd_runs := (sd_runs s)(sd_fresh s \<mapsto> \<lparr>jr_key = fst job, jr_name = snd job, jr_phase = Spawned, jr_cancelled = False\<rparr>),
     sd_fresh := Suc (sd_fresh s)\<rparr>"

definition tick_job :: "int \<Rightarrow> time \<Rightarrow> string \<times> string \<Rightarrow> Scheduler \<Rightarrow> Scheduler" where
  "tick_job z now job s =
     (let s = set_job (fst job) (Snapshot (fst job) s) s
      in if shouldRun z now (sd_cfg s) (fst job) (Snapshot (fst job) s) then go_runJob job s else s)"

definition sched_tick :: "int \<Rightarrow> bool \<Rightarrow> time \<Rightarrow> time \<Rightarrow> Scheduler \<Rightarrow> Scheduler" where
  "sched_tick z ok now now' s = Save ok (updateNextRuns z now' (fold (tick_job z now) (sd_jobs s) s))"

datatype trigger_result = Triggered | UnknownJob | ErrAlreadyRunning

definition TriggerRun :: "string \<Rightarrow> Scheduler \<Rightarrow> trigger_result \<times> Scheduler" where
  "TriggerRun name s =
     (case map_of (sd_jobs s) name of
        None \<Rightarrow> (UnknownJob, s)
      | Some syncer \<Rightarrow>
          let s = set_job name (Snapshot name s) s
          in if js_Running (Snapshot name s) then (ErrAlreadyRunning, s) else (Triggered, go_runJob (name, syncer) s))"

text \<open>\<^verbatim>\<open>StopJob\<close>: whether there was something to cancel.\<close>

definition StopJob :: "string \<Rightarrow> Scheduler \<Rightarrow> bool \<times> Scheduler" where
  "StopJob name s =
     (case sd_cancels s name of
        None \<Rightarrow> (False, s)
      | Some r \<Rightarrow> (True, s\<lparr>sd_runs := (case sd_runs s r of None \<Rightarrow> sd_runs s | Some g \<Rightarrow> (sd_runs s)(r \<mapsto> g\<lparr>jr_cancelled := True\<rparr>))\<rparr>))"

definition UpdateTVChannels :: "TVChannelSchedule list \<Rightarrow> Scheduler \<Rightarrow> Scheduler" where
  "UpdateTVChannels chs s = s\<lparr>sd_cfg := (sd_cfg s)\<lparr>sc_TVChannels := chs\<rparr>\<rparr>"

text \<open>\<^verbatim>\<open>runJob\<close> up to the call of the engine.\<close>

definition run_begin :: "bool \<Rightarrow> nat \<Rightarrow> Scheduler \<Rightarrow> Scheduler" where
  "run_begin ok r s =
     (case sd_runs s r of
        None \<Rightarrow> s
      | Some g \<Rightarrow>
          let s = Save ok (SetRunning (jr_key g) True s)
          in s\<lparr>sd_cancels := (sd_cancels s)(jr_name g \<mapsto> r), sd_runs := (sd_runs s)(r \<mapsto> g\<lparr>jr_phase := Active\<rparr>)\<rparr>)"

datatype outcome = RunOk | RunErr string | RunPanic string

text \<open>\<^verbatim>\<open>runJob\<close> from the return or panic of the engine on.\<close>

definition run_end :: "bool \<Rightarrow> time \<Rightarrow> outcome \<Rightarrow> nat \<Rightarrow> Scheduler \<Rightarrow> Scheduler" where
  "run_end ok now res r s =
     (case sd_runs s r of
        None \<Rightarrow> s
      | Some g \<Rightarrow>
          let s = SetRunning (jr_key g) False s;
              s = (case res of
                     RunPanic msg \<Rightarrow> SetStatus now (jr_key g) ''failed'' (''panic: '' @ msg) s
                   | RunErr msg \<Rightarrow> if jr_cancelled g then SetStatus now (jr_key g) ''stopped'' [] s else SetStatus now (jr_key g) ''failed'' msg s
                   | RunOk \<Rightarrow> if jr_cancelled g then SetStatus now (jr_key g) ''stopped'' [] s else SetStatus now (jr_key g) ''ok'' [] s);
              s = Save ok s
          in s\<lparr>sd_cancels := (sd_cancels s)(jr_name g := None), sd_runs := (sd_runs s)(r := None)\<rparr>)"

text \<open>\<^verbatim>\<open>NewStateStore\<close>: the states of the file, if it could be read and parsed; a job whose state is null is a nil pointer
  that the loop dereferences.\<close>

definition NewStateStore :: "(string \<times> JobState option) list option \<Rightarrow> (string \<rightharpoonup> JobState) option" where
  "NewStateStore file =
     (case file of
        None \<Rightarrow> Some Map.empty
      | Some sf \<Rightarrow> if list_all (\<lambda>(name, js). js \<noteq> None) sf then Some (map_of (map (\<lambda>(name, js). (name, the js)) sf)) else None)"

definition sched_New :: "int \<Rightarrow> time \<Rightarrow> SchedulerConfig \<Rightarrow> (string \<times> string) list \<Rightarrow> (string \<times> JobState option) list option \<Rightarrow> Scheduler option" where
  "sched_New z now cfg jobs file =
     (case NewStateStore file of
        None \<Rightarrow> None
      | Some st \<Rightarrow>
          let s = \<lparr>sd_cfg = cfg, sd_jobs = jobs, sd_state = st, sd_disk = st, sd_cancels = Map.empty, sd_runs = Map.empty, sd_fresh = 0\<rparr>
          in Some (updateNextRuns z now (fold (\<lambda>job. SetRunning (fst job) False) jobs s)))"

definition Status :: "Scheduler \<Rightarrow> string \<rightharpoonup> JobState" where
  "Status s = sd_state s"

section \<open>The next run\<close>

text \<open>The instants a daily job is planned for.\<close>

definition scheduled :: "int \<Rightarrow> int list \<Rightarrow> int \<Rightarrow> int \<Rightarrow> time \<Rightarrow> bool" where
  "scheduled z days hour minute t \<longleftrightarrow> t = date_at z (day_of z t) hour minute \<and> Weekday z t \<in> set days"

definition clock_ok :: "int \<Rightarrow> int \<Rightarrow> bool" where
  "clock_ok hour minute \<longleftrightarrow> 0 \<le> hour \<and> hour < 24 \<and> 0 \<le> minute \<and> minute < 60"

lemma DAY_pos [simp]: "0 < DAY"
  by (simp add: DAY_def second_def)

lemma day_of_date [simp]:
  assumes "clock_ok hour minute"
  shows "day_of z (date_at z d hour minute) = d"
proof -
  have "0 \<le> (hour * 3600 + minute * 60) * second" "(hour * 3600 + minute * 60) * second < DAY"
    using assms by (auto simp: clock_ok_def second_def DAY_def)
  then show ?thesis by (simp add: day_of_def date_at_def)
qed

lemma date_at_add: "date_at z d hour minute + k * DAY = date_at z (d + k) hour minute"
  by (simp add: date_at_def algebra_simps)

lemma date_at_less [simp]: "date_at z d hour minute < date_at z d' hour minute \<longleftrightarrow> d < d'"
  by (simp add: date_at_def)

lemma date_at_le [simp]: "date_at z d hour minute \<le> date_at z d' hour minute \<longleftrightarrow> d \<le> d'"
  by (simp add: date_at_def)

lemma day_of_bounds: "day_of z t * DAY \<le> t + z" "t + z < (day_of z t + 1) * DAY"
  using pos_mod_bound [OF DAY_pos, of "t + z"] pos_mod_sign [OF DAY_pos, of "t + z"] div_mult_mod_eq [of "t + z" DAY]
  unfolding day_of_def distrib_right by linarith+

lemma date_at_day:
  assumes "clock_ok hour minute"
  shows "d < day_of z t \<Longrightarrow> date_at z d hour minute < t" "d > day_of z t \<Longrightarrow> t < date_at z d hour minute"
proof -
  have o: "0 \<le> (hour * 3600 + minute * 60) * second" "(hour * 3600 + minute * 60) * second < DAY"
    using assms by (auto simp: clock_ok_def second_def DAY_def)
  have m: "(d + 1) * DAY \<le> day_of z t * DAY" if "d < day_of z t" using that by (intro mult_right_mono) (auto simp: less_imp_le)
  have m': "(day_of z t + 1) * DAY \<le> d * DAY" if "d > day_of z t" using that by (intro mult_right_mono) (auto simp: less_imp_le)
  show "d < day_of z t \<Longrightarrow> date_at z d hour minute < t" using m o day_of_bounds(1) [of z t] by (simp add: date_at_def algebra_simps)
  show "d > day_of z t \<Longrightarrow> t < date_at z d hour minute" using m' o day_of_bounds(2) [of t z] by (simp add: date_at_def algebra_simps)
qed

lemma scheduled_date: "clock_ok hour minute \<Longrightarrow> scheduled z days hour minute (date_at z d hour minute) \<longleftrightarrow> (d + 1) mod 7 \<in> set days"
  by (simp add: scheduled_def Weekday_def)

lemma next_candidate_find:
  assumes "clock_ok hour minute" "n \<le> 7"
  shows "next_candidate z days (date_at z d hour minute) n =
    (case List.find (\<lambda>j. (d + j + 1) mod 7 \<in> set days) [8 - int n..7] of Some j \<Rightarrow> date_at z (d + j) hour minute | None \<Rightarrow> 0)"
  using assms(2)
proof (induction n)
  case (Suc k)
  have u: "[8 - int (Suc k)..7] = (7 - int k) # [8 - int k..7]" using upto_rec1 [of "7 - int k" 7] by (simp add: algebra_simps)
  show ?case using Suc assms(1) unfolding u by (simp add: Let_def date_at_add Weekday_def)
qed simp

lemma find_upto:
  assumes "List.find P [1..7] = Some j"
  shows "1 \<le> j \<and> j \<le> 7 \<and> P j \<and> (\<forall>k. 1 \<le> k \<and> k < j \<longrightarrow> \<not> P k)"
proof -
  obtain i where i: "i < 7" "P ([1..7] ! i)" "j = [1..7] ! i" "\<forall>k < i. \<not> P ([1..7] ! k)" using assms by (auto simp: find_Some_iff)
  have n: "[1..7] ! k = 1 + int k" if "k < 7" for k using that by (subst nth_upto) auto
  have "\<not> P k" if "1 \<le> k" "k < j" for k
  proof -
    have "nat (k - 1) < i" using that i(1,3) n by auto
    then show ?thesis using i(1,4) n [of "nat (k - 1)"] that by fastforce
  qed
  then show ?thesis using i n by auto
qed

text \<open>The days from \<open>d\<close> on, by their distance.\<close>

lemma day_week: "(d + (k + 7) + 1) mod 7 = (d + k + 1) mod (7 :: int)"
proof -
  have e: "d + (k + 7) + 1 = d + k + 1 + 7" by simp
  show ?thesis unfolding e by (rule mod_add_self2)
qed

lemma day_first_week: "(d + (1 + (k - 1) mod 7) + 1) mod 7 = (d + k + 1) mod (7 :: int)"
proof -
  have e: "d + (1 + (k - 1) mod 7) + 1 = d + 2 + (k - 1) mod 7" "d + k + 1 = d + 2 + (k - 1)" by simp_all
  show ?thesis unfolding e by (rule mod_add_right_eq)
qed

lemma some_weekday: "(\<exists>w \<in> {0..6}. w \<in> S) \<longleftrightarrow> (\<exists>k. (d + k + 1) mod 7 \<in> (S :: int set))"
proof
  assume "\<exists>w \<in> {0..6}. w \<in> S"
  then obtain w where w: "0 \<le> w" "w \<le> 6" "w \<in> S" by auto
  then have "(d + (w - d - 1) + 1) mod 7 \<in> S" by simp
  then show "\<exists>k. (d + k + 1) mod 7 \<in> S" by blast
next
  assume "\<exists>k. (d + k + 1) mod 7 \<in> S"
  then obtain k where "(d + k + 1) mod 7 \<in> S" by blast
  then show "\<exists>w \<in> {0..6}. w \<in> S" by (intro bexI [of _ "(d + k + 1) mod 7"]) auto
qed

lemma no_weekday:
  assumes "\<And>k. 1 \<le> k \<Longrightarrow> k \<le> 7 \<Longrightarrow> (d + k + 1) mod 7 \<notin> (S :: int set)"
  shows "(d + k + 1) mod 7 \<notin> S"
  using assms [of "1 + (k - 1) mod 7"] unfolding day_first_week by simp

lemma scheduled_iff:
  assumes "clock_ok hour minute"
  shows "scheduled z days hour minute u \<longleftrightarrow> (\<exists>k. u = date_at z (d + k) hour minute \<and> (d + k + 1) mod 7 \<in> set days)"
proof
  assume a: "scheduled z days hour minute u"
  have "u = date_at z (d + (day_of z u - d)) hour minute" "(d + (day_of z u - d) + 1) mod 7 \<in> set days" using a by (simp_all add: scheduled_def Weekday_def)
  then show "\<exists>k. u = date_at z (d + k) hour minute \<and> (d + k + 1) mod 7 \<in> set days" by blast
qed (auto simp: scheduled_date [OF assms])

definition first_day :: "int \<Rightarrow> int \<Rightarrow> int \<Rightarrow> time \<Rightarrow> int" where
  "first_day z hour minute now = (if date_at z (day_of z now) hour minute > now then 0 else 1)"

lemma date_after:
  assumes "clock_ok hour minute"
  shows "now < date_at z (day_of z now + k) hour minute \<longleftrightarrow> first_day z hour minute now \<le> k"
  using date_at_day [OF assms, where d = "day_of z now + k" and z = z and t = now]
  by (cases k "0 :: int" rule: linorder_cases) (auto simp: first_day_def)

lemma first_planned_day:
  assumes "clock_ok hour minute" "d = day_of z now" "b = first_day z hour minute now" "t = date_at z (d + k) hour minute"
    and k: "(d + k + 1) mod 7 \<in> set days" "b \<le> k" "k \<le> 7" "k = 7 \<longrightarrow> b = 1" "\<And>i. b \<le> i \<Longrightarrow> i < k \<Longrightarrow> (d + i + 1) mod 7 \<notin> set days"
  shows "now < t \<and> t \<le> now + 7 * DAY \<and> scheduled z days hour minute t \<and> (\<forall>u. now < u \<and> scheduled z days hour minute u \<longrightarrow> t \<le> u)"
proof -
  note after = date_after [OF assms(1), of now z, folded assms(2,3)] and s = scheduled_iff [OF assms(1), where d = d]
  have "date_at z (d + (k - 7)) hour minute \<le> now" using after [of "k - 7"] k(2-4) by (auto simp: assms(3) first_day_def not_less split: if_splits)
  then have "t \<le> now + 7 * DAY" using assms(4) date_at_add [of z "d + (k - 7)" hour minute 7] by simp
  moreover have "now < t" using assms(4) k(2) after by simp
  moreover have "scheduled z days hour minute t" using assms(4) k(1) s by auto
  moreover have "t \<le> u" if u: "now < u" "scheduled z days hour minute u" for u
  proof -
    obtain i where i: "u = date_at z (d + i) hour minute" "(d + i + 1) mod 7 \<in> set days" using u(2) unfolding s by blast
    have "b \<le> i" using u(1) i(1) after by simp
    then have "k \<le> i" using k(5) [of i] i(2) by (meson not_le)
    then show ?thesis using i(1) assms(4) by simp
  qed
  ultimately show ?thesis by blast
qed

lemma nextRunTime_spec:
  assumes "clock_ok hour minute" "nextRunTime z now True days hour minute = t"
  shows "if \<exists>w \<in> {0..6}. w \<in> set days
    then now < t \<and> t \<le> now + 7 * DAY \<and> scheduled z days hour minute t \<and> (\<forall>u. now < u \<and> scheduled z days hour minute u \<longrightarrow> t \<le> u)
    else t = 0 \<and> (\<forall>u. \<not> scheduled z days hour minute u)"
proof -
  define d where "d = day_of z now"
  define ok where "ok = (\<lambda>k. (d + k + 1) mod 7 \<in> set days)"
  define b where "b = first_day z hour minute now"
  have t: "t = (if b = 0 \<and> ok 0 then date_at z d hour minute
      else case List.find ok [1..7] of Some j \<Rightarrow> date_at z (d + j) hour minute | None \<Rightarrow> 0)"
    using assms by (auto simp: nextRunTime_def b_def first_day_def d_def [symmetric] next_candidate_find [OF assms(1)] ok_def Let_def Weekday_def [of z "date_at z d hour minute"])
  have some: "(\<exists>w \<in> {0..6}. w \<in> set days) \<longleftrightarrow> (\<exists>k. ok k)" unfolding ok_def by (rule some_weekday)
  have b: "b = 0 \<or> b = 1" by (simp add: b_def first_day_def)
  show ?thesis
  proof (cases "List.find ok [1..7]")
    case None
    have "\<not> ok k" if "1 \<le> k" "k \<le> 7" for k using None that by (auto simp: find_None_iff)
    then have all: "\<not> ok k" for k using no_weekday [of d "set days" k] by (simp add: ok_def)
    then show ?thesis using t None some scheduled_iff [OF assms(1), where d = d] by (auto simp: ok_def)
  next
    case (Some j)
    note j = find_upto [OF Some]
    have week: "ok 7 = ok 0" using day_week [of d 0] by (simp add: ok_def)
    show ?thesis
    proof (cases "b = 0 \<and> ok 0")
      case True
      then show ?thesis using t first_planned_day [OF assms(1) d_def b_def, where days = days and t = t and k = 0] some by (auto simp: ok_def)
    next
      case False
      have "j = 7 \<longrightarrow> b = 1" using False j week b by auto
      moreover have "\<not> ok i" if "b \<le> i" "i < j" for i using that False j b by (cases "i = 0") auto
      moreover have "t = date_at z (d + j) hour minute" using t Some False by auto
      ultimately show ?thesis using j some b first_planned_day [OF assms(1) d_def b_def, where days = days and t = t and k = j] by (auto simp: ok_def)
    qed
  qed
qed

section \<open>Starting a daily job\<close>

lemma shouldRunDaily_exact:
  assumes "clock_ok hour minute" "js_NextRun j = nextRunTime z t0 True days hour minute" "0 \<le> t0"
  shows "shouldRunDaily z now j True days hour minute \<longleftrightarrow>
    (\<exists>x. scheduled z days hour minute x \<and> t0 < x \<and> x \<le> now \<and> day_of z x = day_of z now)
      \<and> (js_LastRun j = 0 \<or> day_of z (js_LastRun j) < day_of z now)"
proof -
  define today where "today = date_at z (day_of z now) hour minute"
  have td: "day_of z today = day_of z now" using assms(1) by (simp add: today_def)
  have same: "x = today" if "scheduled z days hour minute x" "day_of z x = day_of z now" for x using that by (simp add: scheduled_def today_def)
  have sched: "scheduled z days hour minute today \<longleftrightarrow> Weekday z today \<in> set days" using td by (simp add: scheduled_def today_def)
  note spec = nextRunTime_spec [OF assms(1) assms(2) [symmetric]]
  have "(js_NextRun j = 0 \<or> js_NextRun j \<le> now) \<longleftrightarrow> t0 < today" if s: "scheduled z days hour minute today" and le: "today \<le> now"
  proof -
    have n: "t0 < js_NextRun j" "scheduled z days hour minute (js_NextRun j)" "\<And>u. t0 < u \<Longrightarrow> scheduled z days hour minute u \<Longrightarrow> js_NextRun j \<le> u"
      using spec s by (auto split: if_splits)
    have "t0 < today" if c: "js_NextRun j \<le> now"
    proof (rule ccontr)
      assume "\<not> t0 < today"
      then have lt: "today < js_NextRun j" using n(1) by simp
      have e: "js_NextRun j = date_at z (day_of z (js_NextRun j)) hour minute" using n(2) by (simp add: scheduled_def)
      then have "day_of z now < day_of z (js_NextRun j)" using lt unfolding today_def by (metis date_at_less)
      then have "now < js_NextRun j" using date_at_day(2) [OF assms(1)] e by metis
      then show False using c by simp
    qed
    then show ?thesis using n(1) n(3) [OF _ s] le assms(3) by auto
  qed
  moreover have "shouldRunDaily z now j True days hour minute \<longleftrightarrow> (js_NextRun j = 0 \<or> js_NextRun j \<le> now) \<and> Weekday z today \<in> set days \<and> today \<le> now
      \<and> (js_LastRun j = 0 \<or> day_of z (js_LastRun j) < day_of z now)"
    by (simp add: shouldRunDaily_def Let_def today_def [symmetric] not_less)
  moreover have "(\<exists>x. scheduled z days hour minute x \<and> t0 < x \<and> x \<le> now \<and> day_of z x = day_of z now)
      \<longleftrightarrow> scheduled z days hour minute today \<and> t0 < today \<and> today \<le> now"
    using same td by blast
  ultimately show ?thesis using sched by blast
qed

text \<open>The daily schedule of a job.\<close>

definition daily_of :: "SchedulerConfig \<Rightarrow> string \<Rightarrow> DailyJobConfig option" where
  "daily_of cfg name =
     (if name = ''movies'' then Some (sc_MoviesSync cfg)
      else if name = ''tv'' then Some (sc_TVSync cfg)
      else if name = ''watchlist'' \<or> \<not> prefix ''tv:'' name then None
      else map_option (\<lambda>ch. \<lparr>dj_Enabled = ch_Enabled ch, dj_DaysOfWeek = ch_DaysOfWeek ch, dj_Hour = ch_Hour ch, dj_Minute = ch_Minute ch\<rparr>) (channel_of name cfg))"

lemma daily_run:
  assumes "daily_of cfg name = Some c"
  shows "shouldRun z now cfg name j \<longleftrightarrow> \<not> js_Running j \<and> shouldRunDaily z now j (dj_Enabled c) (dj_DaysOfWeek c) (dj_Hour c) (dj_Minute c)"
    "next_run z now cfg name j = nextRunTime z now (dj_Enabled c) (dj_DaysOfWeek c) (dj_Hour c) (dj_Minute c)"
  using assms by (auto simp: daily_of_def shouldRun_def next_run_def Let_def split: if_splits option.splits)

lemma Snapshot_set_job [simp]: "Snapshot n (set_job m j s) = (if n = m then j else Snapshot n s)"
  by (simp add: Snapshot_def set_job_def)

lemma set_job_fields [simp]: "sd_cfg (set_job m j s) = sd_cfg s" "sd_jobs (set_job m j s) = sd_jobs s" "sd_runs (set_job m j s) = sd_runs s"
    "sd_fresh (set_job m j s) = sd_fresh s" "sd_cancels (set_job m j s) = sd_cancels s"
  by (simp_all add: set_job_def)

lemma update_next_fields [simp]: "sd_cfg (update_next z now n s) = sd_cfg s" "sd_jobs (update_next z now n s) = sd_jobs s" "sd_runs (update_next z now n s) = sd_runs s"
    "sd_fresh (update_next z now n s) = sd_fresh s"
  by (simp_all add: update_next_def SetNextRun_def Let_def)

lemma Snapshot_update_next: "Snapshot k (update_next z now n s) =
    (if k = n then (Snapshot k s)\<lparr>js_NextRun := next_run z now (sd_cfg s) n (Snapshot n s)\<rparr> else Snapshot k s)"
  by (auto simp: update_next_def SetNextRun_def Let_def)

lemma next_run_NextRun [simp]: "next_run z now cfg n (j\<lparr>js_NextRun := t\<rparr>) = next_run z now cfg n j"
  by (simp add: next_run_def Let_def)

lemma fold_update_next:
  "sd_cfg (fold (update_next z now) ns s) = sd_cfg s" "sd_runs (fold (update_next z now) ns s) = sd_runs s" "sd_fresh (fold (update_next z now) ns s) = sd_fresh s"
  "sd_jobs (fold (update_next z now) ns s) = sd_jobs s"
  "Snapshot k (fold (update_next z now) ns s) = (if k \<in> set ns then (Snapshot k s)\<lparr>js_NextRun := next_run z now (sd_cfg s) k (Snapshot k s)\<rparr> else Snapshot k s)"
proof (induction ns arbitrary: s)
  case (Cons n ns)
  {
    case 1 then show ?case using Cons by simp
  next
    case 2 then show ?case using Cons by simp
  next
    case 3 then show ?case using Cons by simp
  next
    case 4 then show ?case using Cons by simp
  next
    case 5 then show ?case using Cons(5) [of "update_next z now n s"] by (auto simp: Snapshot_update_next)
  }
qed auto

text \<open>The runs that started from some number on.\<close>

definition started_since :: "nat \<Rightarrow> string \<Rightarrow> Scheduler \<Rightarrow> bool" where
  "started_since n k s \<longleftrightarrow> (\<exists>r g. n \<le> r \<and> sd_runs s r = Some g \<and> jr_key g = k)"

definition runs_ok :: "Scheduler \<Rightarrow> bool" where
  "runs_ok s \<longleftrightarrow> (\<forall>r \<ge> sd_fresh s. sd_runs s r = None)"

lemma tick_job_keeps:
  assumes "runs_ok s" "n \<le> sd_fresh s"
  shows "runs_ok (tick_job z now job s)" "n \<le> sd_fresh (tick_job z now job s)" "sd_cfg (tick_job z now job s) = sd_cfg s" "sd_jobs (tick_job z now job s) = sd_jobs s"
    "Snapshot k (tick_job z now job s) = Snapshot k s"
  using assms by (auto simp: runs_ok_def tick_job_def go_runJob_def Let_def Snapshot_def set_job_def split: if_splits)

lemma tick_job_started:
  assumes "runs_ok s" "n \<le> sd_fresh s"
  shows "started_since n k (tick_job z now job s) \<longleftrightarrow> started_since n k s \<or> (k = fst job \<and> shouldRun z now (sd_cfg s) k (Snapshot k s))"
proof (cases "shouldRun z now (sd_cfg s) (fst job) (Snapshot (fst job) s)")
  case True
  then have r: "sd_runs (tick_job z now job s) = (sd_runs s)(sd_fresh s \<mapsto> \<lparr>jr_key = fst job, jr_name = snd job, jr_phase = Spawned, jr_cancelled = False\<rparr>)"
    by (simp add: tick_job_def go_runJob_def Let_def)
  have "sd_runs s (sd_fresh s) = None" using assms(1) by (simp add: runs_ok_def)
  then have "started_since n k (tick_job z now job s) \<longleftrightarrow> k = fst job \<or> started_since n k s"
    using assms(2) unfolding started_since_def r by (metis fun_upd_apply job_run.select_convs(1) option.distinct(1) option.inject)
  then show ?thesis using True by auto
qed (auto simp: started_since_def tick_job_def Let_def)

lemma fold_tick_started:
  assumes "runs_ok s" "n \<le> sd_fresh s"
  shows "(started_since n k (fold (tick_job z now) js s) \<longleftrightarrow> started_since n k s \<or> (k \<in> fst ` set js \<and> shouldRun z now (sd_cfg s) k (Snapshot k s)))
    \<and> sd_cfg (fold (tick_job z now) js s) = sd_cfg s \<and> Snapshot k (fold (tick_job z now) js s) = Snapshot k s
    \<and> sd_jobs (fold (tick_job z now) js s) = sd_jobs s \<and> runs_ok (fold (tick_job z now) js s)"
  using assms
proof (induction js arbitrary: s)
  case (Cons job js)
  note t = tick_job_keeps [OF Cons.prems, where z = z and now = now and job = job]
  show ?case using Cons.IH [OF t(1,2)] t tick_job_started [OF Cons.prems, where k = k and z = z and now = now and job = job] by auto
qed auto

lemma tick_starts:
  assumes "runs_ok s"
  shows "started_since (sd_fresh s) k (sched_tick z ok now now' s) \<longleftrightarrow> k \<in> fst ` set (sd_jobs s) \<and> shouldRun z now (sd_cfg s) k (Snapshot k s)"
proof -
  have "\<not> started_since (sd_fresh s) k s" using assms by (auto simp: started_since_def runs_ok_def)
  moreover have "started_since (sd_fresh s) k (sched_tick z ok now now' s) = started_since (sd_fresh s) k (fold (tick_job z now) (sd_jobs s) s)"
    by (simp add: sched_tick_def Save_def updateNextRuns_def started_since_def fold_update_next)
  ultimately show ?thesis using fold_tick_started [OF assms order_refl] by simp
qed

lemma tick_plans:
  assumes "runs_ok s" "k \<in> fst ` set (sd_jobs s)" "daily_of (sd_cfg s) k = Some c"
  shows "js_NextRun (Snapshot k (sched_tick z ok t0 t0' s)) = nextRunTime z t0' (dj_Enabled c) (dj_DaysOfWeek c) (dj_Hour c) (dj_Minute c)"
proof -
  have "Snapshot k (Save ok u) = Snapshot k u" for u by (simp add: Save_def Snapshot_def)
  then show ?thesis using assms fold_tick_started [OF assms(1) order_refl, of k z t0 "sd_jobs s"] daily_run(2) [OF assms(3)]
    by (auto simp: sched_tick_def updateNextRuns_def fold_update_next)
qed

section \<open>Between two ticks\<close>

text \<open>What happens between two ticks: jobs are triggered and stopped by hand, and goroutines begin and end their runs.\<close>

inductive run_step :: "Scheduler \<Rightarrow> Scheduler \<Rightarrow> bool" where
  rs_trigger: "run_step s (snd (TriggerRun name s))"
| rs_stop: "run_step s (snd (StopJob name s))"
| rs_begin: "sd_runs s r = Some g \<Longrightarrow> jr_phase g = Spawned \<Longrightarrow> run_step s (run_begin ok r s)"
| rs_end: "sd_runs s r = Some g \<Longrightarrow> jr_phase g = Active \<Longrightarrow> run_step s (run_end ok now res r s)"

definition same_plan :: "Scheduler \<Rightarrow> Scheduler \<Rightarrow> bool" where
  "same_plan s t \<longleftrightarrow> sd_cfg t = sd_cfg s \<and> sd_jobs t = sd_jobs s \<and> (\<forall>k. js_NextRun (Snapshot k t) = js_NextRun (Snapshot k s)) \<and> runs_ok t"

lemma SetRunning_plan: "sd_cfg (SetRunning k b s) = sd_cfg s" "sd_jobs (SetRunning k b s) = sd_jobs s" "sd_runs (SetRunning k b s) = sd_runs s"
    "sd_fresh (SetRunning k b s) = sd_fresh s" "js_NextRun (Snapshot n (SetRunning k b s)) = js_NextRun (Snapshot n s)"
  by (simp_all add: SetRunning_def)

lemma SetStatus_plan: "sd_cfg (SetStatus t k a b s) = sd_cfg s" "sd_jobs (SetStatus t k a b s) = sd_jobs s" "sd_runs (SetStatus t k a b s) = sd_runs s"
    "sd_fresh (SetStatus t k a b s) = sd_fresh s" "js_NextRun (Snapshot n (SetStatus t k a b s)) = js_NextRun (Snapshot n s)"
  by (simp_all add: SetStatus_def)

lemma Save_plan [simp]: "sd_cfg (Save ok s) = sd_cfg s" "sd_jobs (Save ok s) = sd_jobs s" "sd_runs (Save ok s) = sd_runs s" "sd_fresh (Save ok s) = sd_fresh s"
    "Snapshot k (Save ok s) = Snapshot k s" "sd_cancels (Save ok s) = sd_cancels s"
  by (simp_all add: Save_def Snapshot_def)

lemma Snapshot_runs [simp]: "Snapshot k (s\<lparr>sd_cancels := c, sd_runs := r\<rparr>) = Snapshot k s" "Snapshot k (s\<lparr>sd_runs := r\<rparr>) = Snapshot k s"
    "Snapshot k (s\<lparr>sd_runs := r, sd_fresh := n\<rparr>) = Snapshot k s" "Snapshot k (s\<lparr>sd_cancels := c\<rparr>) = Snapshot k s"
  by (simp_all add: Snapshot_def)

lemma run_step_plan: "run_step s t \<Longrightarrow> runs_ok s \<Longrightarrow> same_plan s t"
proof (induction rule: run_step.induct)
  case (rs_trigger s name)
  then show ?case by (auto simp: same_plan_def TriggerRun_def go_runJob_def Let_def runs_ok_def split: option.split)
next
  case (rs_stop s name)
  then show ?case by (auto simp: same_plan_def StopJob_def runs_ok_def split: option.split)
next
  case (rs_begin s r g ok)
  then have "r < sd_fresh s" if "sd_runs s r \<noteq> None" using that by (auto simp: runs_ok_def not_le [symmetric])
  then show ?case using rs_begin by (auto simp: same_plan_def run_begin_def Let_def runs_ok_def SetRunning_plan split: option.split)
next
  case (rs_end s r g ok now res)
  then show ?case
    by (auto simp: same_plan_def run_end_def Let_def runs_ok_def SetRunning_plan SetStatus_plan split: option.split outcome.split)
qed

lemma between_plan: "run_step\<^sup>*\<^sup>* s t \<Longrightarrow> runs_ok s \<Longrightarrow> same_plan s t"
proof (induction rule: rtranclp_induct)
  case (step t u)
  then show ?case using run_step_plan [of t u] by (auto simp: same_plan_def)
qed (auto simp: same_plan_def)

text \<open>The whole scheduler: its ticks, changes of the channels, and the steps in between.\<close>

inductive sched_step :: "Scheduler \<Rightarrow> Scheduler \<Rightarrow> bool" where
  ss_tick: "now \<le> now' \<Longrightarrow> sched_step s (sched_tick z ok now now' s)"
| ss_channels: "sched_step s (UpdateTVChannels chs s)"
| ss_run: "run_step s t \<Longrightarrow> sched_step s t"

definition sched_init :: "Scheduler \<Rightarrow> bool" where
  "sched_init s \<longleftrightarrow> (\<exists>z now cfg jobs file. sched_New z now cfg jobs file = Some s)"

lemma tick_keeps:
  assumes "runs_ok s"
  shows "runs_ok (sched_tick z ok now now' s)" "sd_cfg (sched_tick z ok now now' s) = sd_cfg s" "sd_jobs (sched_tick z ok now now' s) = sd_jobs s"
  using fold_tick_started [OF assms order_refl, of k z now "sd_jobs s"]
  by (simp_all add: sched_tick_def updateNextRuns_def fold_update_next runs_ok_def)

lemma reset_running: "sd_runs (fold (\<lambda>job. SetRunning (fst job) False) jobs s) = sd_runs s \<and> sd_fresh (fold (\<lambda>job. SetRunning (fst job) False) jobs s) = sd_fresh s
    \<and> sd_cancels (fold (\<lambda>job. SetRunning (fst job) False) jobs s) = sd_cancels s"
  by (induction jobs arbitrary: s) (simp_all add: SetRunning_plan SetRunning_def set_job_def)

lemma runs_ok_init: "sched_init s \<Longrightarrow> runs_ok s"
  by (auto simp: sched_init_def sched_New_def Let_def updateNextRuns_def runs_ok_def fold_update_next reset_running split: option.splits)

lemma runs_ok_step: "runs_ok s \<Longrightarrow> sched_step s t \<Longrightarrow> runs_ok t"
proof (erule sched_step.cases)
  show ?thesis if "runs_ok s" "run_step s' t'" "s = s'" "t = t'" for s' t' using that run_step_plan by (simp add: same_plan_def)
qed (auto simp: tick_keeps(1) UpdateTVChannels_def, simp add: runs_ok_def)

interpretation sync: step_invariant sched_init sched_step runs_ok
  by unfold_locales (auto intro: runs_ok_init runs_ok_step)

text \<open>C21: Of two consecutive ticks, the second starts a daily job exactly if a planned instant of the present day has come between the
  first tick's plan and the second's check, the job is not running, and it has not ended a run today; whatever was triggered, stopped,
  begun and ended in between, and whatever happened before.\<close>

theorem tick_starts_daily_job:
  assumes "reachable sched_init sched_step s" "k \<in> fst ` set (sd_jobs s)" "daily_of (sd_cfg s) k = Some c" "dj_Enabled c"
    and "clock_ok (dj_Hour c) (dj_Minute c)" "0 \<le> t0'" "run_step\<^sup>*\<^sup>* (sched_tick z ok t0 t0' s) s'"
  shows "started_since (sd_fresh s') k (sched_tick z ok' now now' s') \<longleftrightarrow>
    (\<exists>x. scheduled z (dj_DaysOfWeek c) (dj_Hour c) (dj_Minute c) x \<and> t0' < x \<and> x \<le> now \<and> day_of z x = day_of z now)
      \<and> \<not> js_Running (Snapshot k s') \<and> (js_LastRun (Snapshot k s') = 0 \<or> day_of z (js_LastRun (Snapshot k s')) < day_of z now)"
proof -
  have inv: "runs_ok s" by (rule sync.reachable_inv [OF assms(1)])
  have p: "same_plan (sched_tick z ok t0 t0' s) s'" by (rule between_plan [OF assms(7) tick_keeps(1) [OF inv]])
  have "js_NextRun (Snapshot k s') = nextRunTime z t0' True (dj_DaysOfWeek c) (dj_Hour c) (dj_Minute c)"
    using p tick_plans [OF inv assms(2,3), of z ok t0 t0'] assms(4) by (simp add: same_plan_def)
  note e = shouldRunDaily_exact [OF assms(5) this assms(6), of now]
  have "daily_of (sd_cfg s') k = Some c" "k \<in> fst ` set (sd_jobs s')" "runs_ok s'" using p tick_keeps [OF inv] assms(2,3) by (simp_all add: same_plan_def)
  then show ?thesis using tick_starts [of s' k z ok' now now'] daily_run(1) [of "sd_cfg s'" k c z now] e assms(4) by auto
qed

definition night_job :: DailyJobConfig where
  "night_job = \<lparr>dj_Enabled = True, dj_DaysOfWeek = [0, 2, 3], dj_Hour = 3, dj_Minute = 0\<rparr>"

definition night_cfg :: SchedulerConfig where
  "night_cfg = \<lparr>sc_Enabled = True, sc_MoviesSync = night_job, sc_TVSync = night_job, sc_WatchlistSync = \<lparr>wl_Enabled = False, wl_IntervalHours = 0\<rparr>,
     sc_TVChannels = []\<rparr>"

definition night_sched :: Scheduler where
  "night_sched = the (sched_New 0 0 night_cfg [(''movies'', ''movies'')] None)"

definition night_tick :: Scheduler where
  "night_tick = sched_tick 0 True (date_at 0 100 2 59) (date_at 0 100 2 59) night_sched"

lemma night_reachable: "reachable sched_init sched_step night_sched"
proof (rule reach_init)
  have "sched_New 0 0 night_cfg [(''movies'', ''movies'')] None = Some night_sched" by (simp add: night_sched_def sched_New_def NewStateStore_def Let_def)
  then show "sched_init night_sched" unfolding sched_init_def by blast
qed

theorem tick_starts_daily_job_witness: "started_since (sd_fresh night_tick) ''movies'' (sched_tick 0 True (date_at 0 100 3 0) (date_at 0 100 3 0) night_tick)"
proof -
  have a: "''movies'' \<in> fst ` set (sd_jobs night_sched)" "sd_cfg night_sched = night_cfg" "daily_of night_cfg ''movies'' = Some night_job"
    by code_simp+
  have c: "clock_ok (dj_Hour night_job) (dj_Minute night_job)" "dj_Enabled night_job" "0 \<le> date_at 0 100 2 59" by code_simp+
  have l: "\<not> js_Running (Snapshot ''movies'' night_tick)" "js_LastRun (Snapshot ''movies'' night_tick) = 0" by code_simp+
  have x: "scheduled 0 (dj_DaysOfWeek night_job) (dj_Hour night_job) (dj_Minute night_job) (date_at 0 100 3 0)" "date_at 0 100 2 59 < date_at 0 100 3 0"
    by code_simp+
  show ?thesis
    using tick_starts_daily_job [OF night_reachable a(1), of night_job "date_at 0 100 2 59" 0 True "date_at 0 100 2 59" night_tick True
        "date_at 0 100 3 0" "date_at 0 100 3 0"] a c l x
    by (auto simp: night_tick_def)
qed

text \<open>A run that ends after midnight counts for the day it ends on: no tick of that day starts the job again, even if it was planned.\<close>

theorem late_end_skips_day:
  assumes "sd_runs s r = Some g" "jr_key g = k" "daily_of (sd_cfg s) k = Some c" "now \<noteq> 0" "day_of z later = day_of z now"
  shows "\<not> shouldRun z later (sd_cfg s) k (Snapshot k (run_end ok now res r s))"
proof -
  have "js_LastRun (Snapshot k (run_end ok now res r s)) = now"
    using assms(1,2) by (auto simp: run_end_def Let_def SetStatus_def split: outcome.split)
  then show ?thesis using daily_run(1) [OF assms(3)] assms(4,5) by (auto simp: shouldRunDaily_def Let_def)
qed

definition late_run :: Scheduler where
  "late_run = run_begin True 0 (snd (TriggerRun ''movies'' night_sched))"

theorem late_end_skips_day_witness:
  "\<not> shouldRun 0 (date_at 0 100 3 0) night_cfg ''movies'' (Snapshot ''movies'' (run_end True (date_at 0 100 0 5) RunOk 0 late_run))"
proof -
  obtain g where g: "sd_runs late_run 0 = Some g" "jr_key g = ''movies''" "sd_cfg late_run = night_cfg"
  proof -
    have "sd_runs late_run 0 = Some \<lparr>jr_key = ''movies'', jr_name = ''movies'', jr_phase = Active, jr_cancelled = False\<rparr>" "sd_cfg late_run = night_cfg"
      by code_simp+
    then show ?thesis using that by simp
  qed
  have d: "daily_of night_cfg ''movies'' = Some night_job" "date_at 0 100 0 5 \<noteq> 0" "day_of 0 (date_at 0 100 3 0) = day_of 0 (date_at 0 100 0 5)" by code_simp+
  show ?thesis using late_end_skips_day [OF g(1,2), of night_job "date_at 0 100 0 5" 0 "date_at 0 100 3 0" True RunOk] g(3) d by simp
qed

text \<open>C37: A second trigger before the goroutine of the first has begun is accepted too. Once the second run has ended, the first goes on,
  but the job counts as not running, and it cannot be stopped.\<close>

theorem double_trigger_loses_run:
  assumes "TriggerRun name s = (Triggered, s1)" "map_of (sd_jobs s) name = Some syncer"
  shows "\<exists>s2 s3. TriggerRun name s1 = (Triggered, s2)
    \<and> s3 = run_end ok3 now res (Suc (sd_fresh s)) (run_begin ok2 (Suc (sd_fresh s)) (run_begin ok1 (sd_fresh s) s2))
    \<and> (\<exists>g. sd_runs s3 (sd_fresh s) = Some g \<and> jr_key g = name \<and> jr_phase g = Active)
    \<and> \<not> js_Running (Snapshot name s3) \<and> fst (StopJob syncer s3) = False"
proof -
  define g where "g = \<lparr>jr_key = name, jr_name = syncer, jr_phase = Spawned, jr_cancelled = False\<rparr>"
  have s1: "s1 = go_runJob (name, syncer) (set_job name (Snapshot name s) s)" "\<not> js_Running (Snapshot name s)"
    using assms by (auto simp: TriggerRun_def Let_def split: if_splits)
  define s2 where "s2 = snd (TriggerRun name s1)"
  have s2: "TriggerRun name s1 = (Triggered, s2)" "sd_runs s2 = (sd_runs s)(sd_fresh s \<mapsto> g, Suc (sd_fresh s) \<mapsto> g)"
    using assms(2) s1 by (auto simp: s2_def TriggerRun_def Let_def go_runJob_def set_job_def Snapshot_def g_def)
  define b where "b = run_begin ok2 (Suc (sd_fresh s)) (run_begin ok1 (sd_fresh s) s2)"
  have b: "sd_runs b = (sd_runs s)(sd_fresh s \<mapsto> g\<lparr>jr_phase := Active\<rparr>, Suc (sd_fresh s) \<mapsto> g\<lparr>jr_phase := Active\<rparr>)"
    by (auto simp: b_def run_begin_def s2(2) Let_def SetRunning_plan fun_upd_twist)
  define s3 where "s3 = run_end ok3 now res (Suc (sd_fresh s)) b"
  have "sd_runs s3 (sd_fresh s) = Some (g\<lparr>jr_phase := Active\<rparr>)" "\<not> js_Running (Snapshot name s3)" "sd_cancels s3 syncer = None"
    by (auto simp: s3_def run_end_def b Let_def g_def SetStatus_def SetRunning_plan SetRunning_def split: outcome.split)
  then show ?thesis using s2(1) by (auto simp: s3_def b_def [symmetric] StopJob_def g_def intro!: exI [of _ s2])
qed

theorem double_trigger_loses_run_witness: "\<exists>s2 s3. TriggerRun ''movies'' (snd (TriggerRun ''movies'' night_sched)) = (Triggered, s2)
    \<and> s3 = run_end True 9 RunOk 1 (run_begin True 1 (run_begin True 0 s2))
    \<and> (\<exists>g. sd_runs s3 0 = Some g \<and> jr_key g = ''movies'' \<and> jr_phase g = Active)
    \<and> \<not> js_Running (Snapshot ''movies'' s3) \<and> fst (StopJob ''movies'' s3) = False"
proof -
  have "fst (TriggerRun ''movies'' night_sched) = Triggered" "map_of (sd_jobs night_sched) ''movies'' = Some ''movies''" "sd_fresh night_sched = 0" by code_simp+
  then show ?thesis
    using double_trigger_loses_run [of "''movies''" night_sched "snd (TriggerRun ''movies'' night_sched)" "''movies''" True 9 RunOk True True]
    by (simp add: prod_eq_iff)
qed

end
