(* ===== verification/Bencode.thy ===== *)
theory Bencode
  imports Prelude "HOL-Library.Char_ord" "HOL-Library.List_Lexorder"
begin

text \<open>
  Bencoding (\<^verbatim>\<open>internal/anacrolix-torrent-v1.55/bencode\<close>) of values of any type: the encoder of integers, strings, lists and maps, the
  decoder into an empty interface, and the reading of one raw value for types that unmarshal themselves. Strings are strings of
  bytes, and a byte is a character. The decoder's buffer is part of its state. A panic inside the decoder is an error \<open>Inl\<close>, as
  \<^verbatim>\<open>Decode\<close> recovers all of these. Readers give all of their input and then the end of file.
\<close>

section \<open>Values\<close>

text \<open>What an empty interface holds after decoding: \<^verbatim>\<open>int64\<close>, \<^verbatim>\<open>*big.Int\<close>, \<^verbatim>\<open>string\<close>, \<^verbatim>\<open>[]interface{}\<close> or \<^verbatim>\<open>map[string]interface{}\<close>. A map is
  a list of its keys and values in any order.\<close>

datatype bval = BInt int | BBig int | BStr string | BList "bval list" | BDict "(string \<times> bval) list"

datatype bwhat = UnexpectedEOF | IntParse | FailedInt | UnknownType char | NonStringKey | KeysUnsorted | MissingValue | UnexpectedE

datatype berr = EOF | ErrUnexpectedEOF | SyntaxError int bwhat | LeadingDigit | LengthLimit | ShortRead | SetZeroValue | TrailingBytes nat | OutOfFuel

record bdec =
  bd_r :: string
  bd_Offset :: int
  bd_buf :: string

definition bbind :: "'e + 'a \<Rightarrow> ('a \<Rightarrow> 'e + 'b) \<Rightarrow> 'e + 'b" where
  "bbind m f = (case m of Inl e \<Rightarrow> Inl e | Inr x \<Rightarrow> f x)"

section \<open>Encoding\<close>

text \<open>\<^verbatim>\<open>writeString\<close> copies through an array of 64 bytes.\<close>

fun writeString :: "string \<Rightarrow> string \<Rightarrow> string" where
  "writeString w s = (if s = [] then w else writeString (w @ take 64 s) (drop 64 s))"

declare writeString.simps [simp del]

definition writeStringPrefix :: "nat \<Rightarrow> string \<Rightarrow> string" where
  "writeStringPrefix l w = writeString (w @ show_nat l) '':''"

definition reflectString :: "string \<Rightarrow> string \<Rightarrow> string" where
  "reflectString s w = writeString (writeStringPrefix (length s) w) s"

lemma bval_size_dict [termination_simp]: "(k, v) \<in> set kvs \<Longrightarrow> size v < Suc (size_list (size_prod (\<lambda>x. 0) size) kvs)"
  by (induction kvs) auto

fun reflectValue :: "bval \<Rightarrow> string \<Rightarrow> string" where
  "reflectValue (BInt n) w = writeString (writeString w ''i'' @ show_int n) ''e''"
| "reflectValue (BBig n) w = writeString (writeString (writeString w ''i'') (show_int n)) ''e''"
| "reflectValue (BStr s) w = reflectString s w"
| "reflectValue (BList vs) w = writeString (fold reflectValue vs (writeString w ''l'')) ''e''"
| "reflectValue (BDict kvs) w =
     writeString (fold (\<lambda>(k, v) w. reflectValue v (reflectString k w)) (sort_key fst kvs) (writeString w ''d'')) ''e''"

definition Marshal :: "bval \<Rightarrow> string" where
  "Marshal v = reflectValue v []"

section \<open>Decoding\<close>

definition readByte :: "bdec \<Rightarrow> berr + char \<times> bdec" where
  "readByte d =
     (case bd_r d of
        [] \<Rightarrow> Inl (SyntaxError (bd_Offset d) UnexpectedEOF)
      | b # r \<Rightarrow> Inr (b, d\<lparr>bd_r := r, bd_Offset := bd_Offset d + 1\<rparr>))"

fun read_until :: "char \<Rightarrow> string \<Rightarrow> int \<Rightarrow> string \<Rightarrow> berr + bdec" where
  "read_until sep [] ofs buf = Inl (SyntaxError ofs UnexpectedEOF)"
| "read_until sep (b # r) ofs buf =
     (if b = sep then Inr \<lparr>bd_r = r, bd_Offset = ofs + 1, bd_buf = buf\<rparr> else read_until sep r (ofs + 1) (buf @ [b]))"

definition readUntil :: "char \<Rightarrow> bdec \<Rightarrow> berr + bdec" where
  "readUntil sep d = read_until sep (bd_r d) (bd_Offset d) (bd_buf d)"

definition checkBufferedInt :: "string \<Rightarrow> bool" where
  "checkBufferedInt b =
     (if length b \<le> 1 then True
      else let b = (if hd b = CHR ''-'' then tl b else b)
        in \<not> (hd b < CHR ''1'' \<or> hd b > CHR ''9''))"

text \<open>Whether \<^verbatim>\<open>strconv.ParseInt\<close> fails with \<^verbatim>\<open>ErrRange\<close>: its loop stops at the first overflow, before it has seen the rest.\<close>

fun uint_range :: "nat \<Rightarrow> nat \<Rightarrow> string \<Rightarrow> bool" where
  "uint_range limit n [] = (n > limit)"
| "uint_range limit n (c # cs) =
     (if \<not> is_digit c then False
      else if 10 * n + digit_val c \<ge> 2 ^ 64 then True else uint_range limit (10 * n + digit_val c) cs)"

definition ErrRange :: "string \<Rightarrow> bool" where
  "ErrRange s =
     (case s of
        [] \<Rightarrow> False
      | c # cs \<Rightarrow>
          if c = CHR ''-'' then uint_range (2 ^ 63) 0 cs
          else if c = CHR ''+'' then uint_range (2 ^ 63 - 1) 0 cs else uint_range (2 ^ 63 - 1) 0 s)"

text \<open>\<^verbatim>\<open>big.Int.SetString\<close> in base ten.\<close>

definition SetString :: "string \<Rightarrow> int option" where
  "SetString s =
     (let ds = (if s \<noteq> [] \<and> (hd s = CHR ''-'' \<or> hd s = CHR ''+'') then tl s else s)
      in if ds \<noteq> [] \<and> list_all is_digit ds
         then Some (if hd s = CHR ''-'' then - int (digits_val 0 ds) else int (digits_val 0 ds)) else None)"

definition parseIntInterface :: "bdec \<Rightarrow> berr + bval \<times> bdec" where
  "parseIntInterface d =
     (let start = bd_Offset d - 1
      in bbind (readUntil (CHR ''e'') d)
        (\<lambda>d. if \<not> checkBufferedInt (bd_buf d) then Inl LeadingDigit
             else case parse_int64 (bd_buf d) of
               Some n \<Rightarrow> Inr (BInt n, d\<lparr>bd_buf := []\<rparr>)
             | None \<Rightarrow>
                 if ErrRange (bd_buf d)
                 then (case SetString (bd_buf d) of None \<Rightarrow> Inl (SyntaxError start FailedInt) | Some i \<Rightarrow> Inr (BBig i, d\<lparr>bd_buf := []\<rparr>))
                 else Inl (SyntaxError start IntParse)))"

definition getMaxStrLen :: "int \<Rightarrow> int" where
  "getMaxStrLen mx = (if mx = 0 then 2 ^ 27 - 1 else mx)"

definition parseStringLength :: "int \<Rightarrow> bdec \<Rightarrow> berr + nat \<times> bdec" where
  "parseStringLength mx d =
     (let start = bd_Offset d - 1
      in bbind (readUntil (CHR '':'') d)
        (\<lambda>d. if \<not> checkBufferedInt (bd_buf d) then Inl LeadingDigit
             else case parse_int64 (bd_buf d) of
               None \<Rightarrow> Inl (SyntaxError start IntParse)
             | Some n \<Rightarrow> if n > getMaxStrLen mx then Inl LengthLimit else Inr (nat n, d\<lparr>bd_buf := []\<rparr>)))"

definition parseStringInterface :: "int \<Rightarrow> bdec \<Rightarrow> berr + string \<times> bdec" where
  "parseStringInterface mx d =
     bbind (parseStringLength mx d)
       (\<lambda>(n, d). let b = take n (bd_r d)
          in if length b \<noteq> n then Inl ShortRead
             else Inr (b, d\<lparr>bd_r := drop n (bd_r d), bd_Offset := bd_Offset d + int (length b)\<rparr>))"

text \<open>\<^verbatim>\<open>parseValueInterface\<close>, \<^verbatim>\<open>parseListInterface\<close> and \<^verbatim>\<open>parseDictInterface\<close> call each other. The first argument bounds the number of nested
  calls; twice the input is always enough, see below.\<close>

fun parseValueInterface :: "nat \<Rightarrow> int \<Rightarrow> bdec \<Rightarrow> berr + bval option \<times> bdec"
  and parseListInterface :: "nat \<Rightarrow> int \<Rightarrow> bval list \<Rightarrow> bdec \<Rightarrow> berr + bval list \<times> bdec"
  and parseDictInterface :: "nat \<Rightarrow> int \<Rightarrow> string option \<Rightarrow> (string \<times> bval) list \<Rightarrow> bdec \<Rightarrow> berr + (string \<times> bval) list \<times> bdec" where
  "parseValueInterface 0 mx d = Inl OutOfFuel"
| "parseValueInterface (Suc k) mx d =
     (case bd_r d of
        [] \<Rightarrow> Inl EOF
      | b # r \<Rightarrow>
          let d = d\<lparr>bd_r := r, bd_Offset := bd_Offset d + 1\<rparr>
          in if b = CHR ''e'' then Inr (None, d)
             else if b = CHR ''d'' then bbind (parseDictInterface k mx None [] d) (\<lambda>(kvs, d). Inr (Some (BDict kvs), d))
             else if b = CHR ''l'' then bbind (parseListInterface k mx [] d) (\<lambda>(vs, d). Inr (Some (BList vs), d))
             else if b = CHR ''i'' then bbind (parseIntInterface d) (\<lambda>(v, d). Inr (Some v, d))
             else if is_digit b
             then bbind (parseStringInterface mx (d\<lparr>bd_buf := bd_buf d @ [b]\<rparr>)) (\<lambda>(s, d). Inr (Some (BStr s), d))
             else Inl (SyntaxError (bd_Offset d - 1) (UnknownType b)))"
| "parseListInterface 0 mx vs d = Inl OutOfFuel"
| "parseListInterface (Suc k) mx vs d =
     bbind (parseValueInterface k mx d)
       (\<lambda>(vo, d). case vo of None \<Rightarrow> Inr (vs, d) | Some v \<Rightarrow> parseListInterface k mx (vs @ [v]) d)"
| "parseDictInterface 0 mx lastKey dict d = Inl OutOfFuel"
| "parseDictInterface (Suc k) mx lastKey dict d =
     (let start = bd_Offset d
      in bbind (parseValueInterface k mx d)
        (\<lambda>(keyi, d). case keyi of
             None \<Rightarrow> Inr (dict, d)
           | Some (BStr key) \<Rightarrow>
               if (case lastKey of Some l \<Rightarrow> key \<le> l | None \<Rightarrow> False) then Inl (SyntaxError start KeysUnsorted)
               else let start = bd_Offset d
                 in bbind (parseValueInterface k mx d)
                   (\<lambda>(valuei, d). case valuei of
                        None \<Rightarrow> Inl (SyntaxError start MissingValue)
                      | Some v \<Rightarrow> parseDictInterface k mx (Some key) (dict @ [(key, v)]) d)
           | Some _ \<Rightarrow> Inl (SyntaxError (bd_Offset d) NonStringKey)))"

text \<open>\<^verbatim>\<open>Decode\<close> into an empty interface, with \<^verbatim>\<open>parseValue\<close>; an end instead of a value is a reflection error.\<close>

definition DecodeInterface :: "int \<Rightarrow> bdec \<Rightarrow> berr + bval \<times> bdec" where
  "DecodeInterface mx d =
     (case parseValueInterface (2 * length (bd_r d) + 1) mx d of
        Inl EOF \<Rightarrow> Inl ErrUnexpectedEOF
      | Inl e \<Rightarrow> Inl e
      | Inr (None, d) \<Rightarrow> Inl SetZeroValue
      | Inr (Some v, d) \<Rightarrow> Inr (v, d))"

definition Unmarshal :: "string \<Rightarrow> berr + bval" where
  "Unmarshal data =
     bbind (DecodeInterface 0 \<lparr>bd_r = data, bd_Offset = 0, bd_buf = []\<rparr>)
       (\<lambda>(v, d). if bd_r d \<noteq> [] then Inl (TrailingBytes (length (bd_r d))) else Inr v)"

section \<open>Raw values\<close>

text \<open>\<^verbatim>\<open>readOneValue\<close> appends the bytes of one value to the buffer, or stops before an end.\<close>

definition read_raw_string :: "nat \<Rightarrow> bdec \<Rightarrow> berr + bdec" where
  "read_raw_string start d =
     bbind (readUntil (CHR '':'') d)
       (\<lambda>d. case parse_int64 (drop start (bd_buf d)) of
          None \<Rightarrow> Inl (SyntaxError (bd_Offset d - 1) IntParse)
        | Some n \<Rightarrow>
            let b = take (nat n) (bd_r d); ofs = bd_Offset d + int (length b)
            in if length b < nat n then Inl (SyntaxError ofs UnexpectedEOF)
               else Inr (d\<lparr>bd_r := drop (nat n) (bd_r d), bd_Offset := ofs, bd_buf := bd_buf d @ '':'' @ b\<rparr>))"

fun readOneValue :: "nat \<Rightarrow> bdec \<Rightarrow> berr + bool \<times> bdec"
  and readValues :: "nat \<Rightarrow> bdec \<Rightarrow> berr + bdec" where
  "readOneValue 0 d = Inl OutOfFuel"
| "readOneValue (Suc k) d =
     (case bd_r d of
        [] \<Rightarrow> Inl EOF
      | b # r \<Rightarrow>
          if b = CHR ''e'' then Inr (False, d)
          else let d = d\<lparr>bd_r := r, bd_Offset := bd_Offset d + 1, bd_buf := bd_buf d @ [b]\<rparr>
            in if b = CHR ''d'' \<or> b = CHR ''l''
               then bbind (readValues k d) (\<lambda>d. bbind (readByte d) (\<lambda>(b, d). Inr (True, d\<lparr>bd_buf := bd_buf d @ [b]\<rparr>)))
               else if b = CHR ''i'' then bbind (readUntil (CHR ''e'') d) (\<lambda>d. Inr (True, d\<lparr>bd_buf := bd_buf d @ ''e''\<rparr>))
               else if is_digit b then bbind (read_raw_string (length (bd_buf d) - 1) d) (\<lambda>d. Inr (True, d))
               else Inl (SyntaxError (bd_Offset d - 1) (UnknownType b)))"
| "readValues 0 d = Inl OutOfFuel"
| "readValues (Suc k) d = bbind (readOneValue k d) (\<lambda>(more, d). if more then readValues k d else Inr d)"

text \<open>\<^verbatim>\<open>Decode\<close> into \<^verbatim>\<open>Bytes\<close>, which keeps the raw value. At an end the value is parsed as a slice, which sees the end too.\<close>

definition DecodeBytes :: "bdec \<Rightarrow> berr + string \<times> bdec" where
  "DecodeBytes d =
     (case readOneValue (2 * length (bd_r d) + 2) (d\<lparr>bd_buf := []\<rparr>) of
        Inl EOF \<Rightarrow> Inl ErrUnexpectedEOF
      | Inl e \<Rightarrow> Inl e
      | Inr (False, d) \<Rightarrow> Inl (SyntaxError (bd_Offset d) UnexpectedE)
      | Inr (True, d) \<Rightarrow> Inr (bd_buf d, d))"

section \<open>What the encoder writes\<close>

lemma writeString_eq [simp]: "writeString w s = w @ s"
proof (induction w s rule: writeString.induct)
  case (1 w s)
  then show ?case by (subst writeString.simps) simp
qed

definition bstring :: "string \<Rightarrow> string" where
  "bstring s = show_nat (length s) @ '':'' @ s"

lemma reflectString_eq [simp]: "reflectString s w = w @ bstring s"
  by (simp add: reflectString_def writeStringPrefix_def bstring_def)

lemma fold_append: "(\<And>x w. x \<in> set xs \<Longrightarrow> f x w = w @ g x) \<Longrightarrow> fold f xs w = w @ concat (map g xs)"
  by (induction xs arbitrary: w) auto

lemma reflectValue_eq: "reflectValue v w = w @ Marshal v"
proof (induction v arbitrary: w rule: measure_induct_rule [of size])
  case (less v)
  have l: "fold reflectValue vs w = w @ concat (map Marshal vs)" if "v = BList vs" for vs w
    using that less by (intro fold_append) (auto simp: less_Suc_eq_le size_list_estimation')
  have d: "fold (\<lambda>(k, v) w. reflectValue v (w @ bstring k)) (sort_key fst kvs) w = w @ concat (map (\<lambda>(k, v). bstring k @ Marshal v) (sort_key fst kvs))"
    if "v = BDict kvs" for kvs w
    using that less bval_size_dict [of _ _ kvs] by (intro fold_append) fastforce
  show ?case by (cases v) (simp_all add: Marshal_def l d)
qed

lemma Marshal_simps:
  "Marshal (BInt n) = ''i'' @ show_int n @ ''e''"
  "Marshal (BBig n) = ''i'' @ show_int n @ ''e''"
  "Marshal (BStr s) = bstring s"
  "Marshal (BList vs) = ''l'' @ concat (map Marshal vs) @ ''e''"
  "Marshal (BDict kvs) = ''d'' @ concat (map (\<lambda>(k, v). bstring k @ Marshal v) (sort_key fst kvs)) @ ''e''"
proof -
  have l: "fold reflectValue vs w = w @ concat (map Marshal vs)" for w by (rule fold_append) (rule reflectValue_eq)
  have d: "fold (\<lambda>(k, v) w. reflectValue v (w @ bstring k)) kvs w = w @ concat (map (\<lambda>(k, v). bstring k @ Marshal v) kvs)" for kvs w
    by (rule fold_append) (auto simp: reflectValue_eq)
  show "Marshal (BList vs) = ''l'' @ concat (map Marshal vs) @ ''e''" by (simp add: Marshal_def [of "BList vs"] l)
  show "Marshal (BDict kvs) = ''d'' @ concat (map (\<lambda>(k, v). bstring k @ Marshal v) (sort_key fst kvs)) @ ''e''"
    by (simp add: Marshal_def [of "BDict kvs"] d)
qed (simp_all add: Marshal_def)

section \<open>Numbers\<close>

lemma digit_bounds: "is_digit c \<longleftrightarrow> CHR ''0'' \<le> c \<and> c \<le> CHR ''9''"
  by (simp add: is_digit_def less_eq_char_def)

lemma read_until_append:
  "sep \<notin> set s \<Longrightarrow> read_until sep (s @ sep # r) ofs buf = Inr \<lparr>bd_r = r, bd_Offset = ofs + int (length s) + 1, bd_buf = buf @ s\<rparr>"
  by (induction s arbitrary: ofs buf) auto

lemma read_untilD:
  "read_until sep r ofs buf = Inr d \<Longrightarrow>
    \<exists>s. r = s @ sep # bd_r d \<and> sep \<notin> set s \<and> d = \<lparr>bd_r = bd_r d, bd_Offset = ofs + int (length s) + 1, bd_buf = buf @ s\<rparr>"
proof (induction r arbitrary: ofs buf)
  case (Cons b r)
  show ?case
  proof (cases "b = sep")
    case True
    then show ?thesis using Cons.prems by (intro exI [of _ "[]"]) auto
  next
    case False
    then obtain s where "r = s @ sep # bd_r d" "sep \<notin> set s" "d = \<lparr>bd_r = bd_r d, bd_Offset = ofs + 1 + int (length s) + 1, bd_buf = (buf @ [b]) @ s\<rparr>"
      using Cons.IH [of "ofs + 1" "buf @ [b]"] Cons.prems by auto
    then show ?thesis using False by (intro exI [of _ "b # s"]) auto
  qed
qed simp

text \<open>The canonical decimals: what the decoder lets through is what the encoder writes.\<close>

lemma show_nat_first: "n > 0 \<Longrightarrow> CHR ''1'' \<le> hd (show_nat n) \<and> hd (show_nat n) \<le> CHR ''9''"
proof (induction n rule: show_nat.induct)
  case (1 n)
  show ?case
  proof (cases "n < 10")
    case True
    have "of_char (digit n) = 48 + n" using True by (rule of_char_digit)
    then show ?thesis using True 1(2) by (simp add: less_eq_char_def)
  next
    case False
    then show ?thesis using 1 by (subst (1 2) show_nat.simps) simp
  qed
qed

lemma show_nat_of_digits:
  assumes "list_all is_digit ds" "ds \<noteq> []" "length ds = 1 \<or> hd ds \<noteq> CHR ''0''"
  shows "show_nat (digits_val 0 ds) = ds"
  using assms
proof (induction ds rule: rev_induct)
  case (snoc c ds)
  have c: "digit (digit_val c) = c" "digit_val c < 10" using snoc.prems(1) by (auto simp: digit_def digit_val_def is_digit_def)
  show ?case
  proof (cases "ds = []")
    case True
    then show ?thesis using c by simp
  next
    case False
    have ih: "show_nat (digits_val 0 ds) = ds" using snoc False by auto
    have "digits_val 0 ds \<noteq> 0"
    proof
      assume "digits_val 0 ds = 0"
      then have "ds = ''0''" using ih by (simp add: digit_chars)
      then show False using snoc.prems(3) by simp
    qed
    then have "\<not> 10 * digits_val 0 ds + digit_val c < 10" by simp
    then show ?thesis using c ih by (simp add: digits_val_append show_nat_big)
  qed
qed simp

lemma canonical_digits:
  assumes "checkBufferedInt s" "ds \<noteq> []" "list_all is_digit ds" "s = ds \<or> s = CHR ''-'' # ds"
  shows "show_nat (digits_val 0 ds) = ds" "s \<noteq> ds \<Longrightarrow> digits_val 0 ds > 0"
proof -
  have h: "hd ds \<noteq> CHR ''0''" if "length s > 1"
    using assms that by (cases ds) (auto simp: checkBufferedInt_def Let_def less_char_def digit_bounds less_eq_char_def split: if_splits)
  show e: "show_nat (digits_val 0 ds) = ds" using assms h by (intro show_nat_of_digits) (cases ds; auto)+
  have "hd ds \<noteq> CHR ''0''" if "s \<noteq> ds" using that assms h by auto
  then show "digits_val 0 ds > 0" if "s \<noteq> ds" using that e by (cases "digits_val 0 ds = 0") (auto simp: digit_chars)
qed

lemma no_plus: "checkBufferedInt s \<Longrightarrow> s = CHR ''+'' # ds \<Longrightarrow> ds = []"
  by (cases ds) (auto simp: checkBufferedInt_def less_char_def)

lemma SetString_canonical:
  assumes "checkBufferedInt s" "SetString s = Some n"
  shows "s = show_int n"
proof (cases "s \<noteq> [] \<and> hd s = CHR ''-''")
  case True
  then obtain ds where s: "s = CHR ''-'' # ds" by (cases s) auto
  then have d: "ds \<noteq> []" "list_all is_digit ds" "n = - int (digits_val 0 ds)" using assms(2) by (auto simp: SetString_def Let_def split: if_splits)
  then show ?thesis using canonical_digits [OF assms(1) d(1,2)] s by (auto simp: show_int_def)
next
  case False
  then have d: "s \<noteq> []" "list_all is_digit s" "n = int (digits_val 0 s)"
    using assms no_plus [OF assms(1)] by (cases s; auto simp: SetString_def Let_def split: if_splits)+
  then show ?thesis using canonical_digits(1) [OF assms(1) d(1,2)] by (simp add: show_int_def)
qed

lemma parse_int64_SetString: "parse_int64 s = (case SetString s of None \<Rightarrow> None | Some n \<Rightarrow> if - (2 ^ 63) \<le> n \<and> n < 2 ^ 63 then Some n else None)"
  by (auto simp: parse_int64_def SetString_def Let_def)

lemma SetString_show [simp]: "SetString (show_int n) = Some n"
  by (auto simp: SetString_def show_int_def Let_def show_nat_digits digits_val_show_nat)

lemma checkBufferedInt_show [simp]: "checkBufferedInt (show_int n)"
proof -
  have "CHR ''1'' \<le> hd (show_nat m) \<and> hd (show_nat m) \<le> CHR ''9''" if "length (show_nat m) > 1 \<or> m > 0" for m
    using that show_nat_first [of m] by (cases "m = 0") auto
  then show ?thesis by (auto simp: checkBufferedInt_def show_int_def Let_def not_less)
qed

lemma uint_range_digits: "list_all is_digit cs \<Longrightarrow> digits_val n cs > limit \<Longrightarrow> uint_range limit n cs"
  by (induction cs arbitrary: n) auto

lemma ErrRange_show:
  assumes "\<not> (- (2 ^ 63) \<le> n \<and> n < 2 ^ 63)"
  shows "ErrRange (show_int n)"
proof (cases "n < 0")
  case True
  then show ?thesis using assms by (auto simp: ErrRange_def show_int_def intro!: uint_range_digits show_nat_digits simp: digits_val_show_nat)
next
  case False
  have "uint_range (2 ^ 63 - 1) 0 (show_nat (nat n))" using False assms by (auto intro!: uint_range_digits show_nat_digits simp: digits_val_show_nat)
  moreover have "\<not> is_digit (hd s)" if "hd s = CHR ''-'' \<or> hd s = CHR ''+''" for s using that by auto
  ultimately show ?thesis using False hd_show_nat_digit [of "nat n"] by (cases "show_nat (nat n)") (auto simp: ErrRange_def show_int_def)
qed

lemma show_int_chars: "c \<in> set (show_int n) \<Longrightarrow> is_digit c \<or> c = CHR ''-''"
  using show_nat_digits by (auto simp: show_int_def list_all_iff split: if_splits)

lemma stop_not_shown: "CHR ''e'' \<notin> set (show_int n)" "CHR '':'' \<notin> set (show_nat m)" "CHR ''e'' \<notin> set (show_nat m)"
  using show_int_chars [of "CHR ''e''" n] show_nat_digits [of m] by (auto simp: is_digit_def list_all_iff)

section \<open>Round trips\<close>

definition int64 :: "int \<Rightarrow> bool" where
  "int64 n \<longleftrightarrow> - (2 ^ 63) \<le> n \<and> n < 2 ^ 63"

definition int_val :: "int \<Rightarrow> bval" where
  "int_val n = (if int64 n then BInt n else BBig n)"

lemma parseInt_show:
  "parseIntInterface \<lparr>bd_r = show_int n @ CHR ''e'' # r, bd_Offset = ofs, bd_buf = []\<rparr> =
    Inr (int_val n, \<lparr>bd_r = r, bd_Offset = ofs + int (length (show_int n)) + 1, bd_buf = []\<rparr>)"
  using ErrRange_show [of n]
  by (auto simp: parseIntInterface_def readUntil_def read_until_append stop_not_shown bbind_def parse_int64_SetString int_val_def int64_def)

lemma parseIntD:
  assumes "parseIntInterface d = Inr (v, d')" "bd_buf d = []"
  shows "\<exists>n. v = int_val n \<and> bd_r d = show_int n @ CHR ''e'' # bd_r d' \<and> d' = \<lparr>bd_r = bd_r d', bd_Offset = bd_Offset d + int (length (show_int n)) + 1, bd_buf = []\<rparr>"
proof -
  obtain d1 where d1: "readUntil (CHR ''e'') d = Inr d1" "checkBufferedInt (bd_buf d1)"
    using assms(1) by (auto simp: parseIntInterface_def bbind_def Let_def split: sum.splits if_splits)
  obtain s where s: "bd_r d = s @ CHR ''e'' # bd_r d1" "d1 = \<lparr>bd_r = bd_r d1, bd_Offset = bd_Offset d + int (length s) + 1, bd_buf = s\<rparr>"
    using read_untilD [OF d1(1) [unfolded readUntil_def]] assms(2) by auto
  have buf: "bd_buf d1 = s" "bd_Offset d1 = bd_Offset d + int (length s) + 1" using s(2) by (metis bdec.select_convs(3), metis bdec.select_convs(2))
  obtain n where n: "SetString s = Some n" "v = int_val n" "d' = d1\<lparr>bd_buf := []\<rparr>"
    using assms(1) d1 buf(1) by (auto simp: parseIntInterface_def bbind_def Let_def parse_int64_SetString int_val_def int64_def split: option.splits if_splits)
  then have "s = show_int n" using SetString_canonical d1(2) buf(1) by simp
  then show ?thesis using n(2,3) s(1) buf by (intro exI [of _ n]) auto
qed

lemma bstring_first: "\<exists>c ds. bstring s = c # ds \<and> is_digit c"
  using hd_show_nat_digit [of "length s"] by (cases "show_nat (length s)") (auto simp: bstring_def)

lemma parseString_bstring:
  assumes "bstring s @ r = c # ds" "int (length s) \<le> getMaxStrLen mx" "length s < 2 ^ 63"
  shows "parseStringInterface mx \<lparr>bd_r = ds, bd_Offset = ofs, bd_buf = [c]\<rparr> =
    Inr (s, \<lparr>bd_r = r, bd_Offset = ofs + int (length (bstring s)) - 1, bd_buf = []\<rparr>)"
proof -
  obtain ns where n: "show_nat (length s) = c # ns" "ds = ns @ CHR '':'' # s @ r"
    using assms(1) by (cases "show_nat (length s)") (auto simp: bstring_def)
  have colon: "CHR '':'' \<notin> set ns" using stop_not_shown(2) [of "length s"] n(1) by simp
  have i: "show_int (int (length s)) = c # ns" using n(1) by (simp add: show_int_def)
  have "checkBufferedInt (c # ns)" "parse_int64 (c # ns) = Some (int (length s))"
    using checkBufferedInt_show [of "int (length s)"] assms(3) unfolding i [symmetric] by (simp_all add: parse_int64_SetString)
  then show ?thesis
    using n(1) assms(2) by (simp add: parseStringInterface_def parseStringLength_def readUntil_def n(2) read_until_append [OF colon] bbind_def bstring_def Let_def)
qed

lemma parseStringD:
  assumes "parseStringInterface mx d = Inr (s, d')" "bd_buf d = [c]" "is_digit c"
  shows "c # bd_r d = bstring s @ bd_r d' \<and> int (length s) \<le> getMaxStrLen mx \<and> length s < 2 ^ 63
    \<and> d' = \<lparr>bd_r = bd_r d', bd_Offset = bd_Offset d + int (length (bstring s)) - 1, bd_buf = []\<rparr>"
proof -
  obtain d1 n where d1: "readUntil (CHR '':'') d = Inr d1" "checkBufferedInt (bd_buf d1)" "parse_int64 (bd_buf d1) = Some n" "n \<le> getMaxStrLen mx"
    and s: "s = take (nat n) (bd_r d1)" "length s = nat n" "d' = d1\<lparr>bd_buf := [], bd_r := drop (nat n) (bd_r d1), bd_Offset := bd_Offset d1 + int (length s)\<rparr>"
    using assms(1) by (auto simp: parseStringInterface_def parseStringLength_def bbind_def Let_def split: sum.splits if_splits option.splits)
  obtain t where t: "bd_r d = t @ CHR '':'' # bd_r d1" "d1 = \<lparr>bd_r = bd_r d1, bd_Offset = bd_Offset d + int (length t) + 1, bd_buf = c # t\<rparr>"
    using read_untilD [OF d1(1) [unfolded readUntil_def]] assms(2) by auto
  have buf: "bd_buf d1 = c # t" "bd_Offset d1 = bd_Offset d + int (length t) + 1" using t(2) by (metis bdec.select_convs(3), metis bdec.select_convs(2))
  have "SetString (c # t) = Some n" "n < 2 ^ 63" using d1(3) buf(1) by (auto simp: parse_int64_SetString split: option.splits if_splits)
  then have i: "c # t = show_int n" using SetString_canonical d1(2) buf(1) by simp
  then have "n \<ge> 0" using assms(3) by (auto simp: show_int_def split: if_splits)
  then have sh: "show_nat (length s) = c # t" using i s(2) by (simp add: show_int_def)
  have "c # bd_r d = bstring s @ bd_r d'" "length (bstring s) = Suc (Suc (length t + length s))" using s(1,3) t(1) unfolding bstring_def sh by simp_all
  then show ?thesis using s(2,3) d1(4) buf(2) \<open>n \<ge> 0\<close> \<open>n < 2 ^ 63\<close> by auto
qed

text \<open>The values the decoder can give: integers by their size, strings within the limit, distinct keys.\<close>

fun wf_bval :: "int \<Rightarrow> bval \<Rightarrow> bool" where
  "wf_bval mx (BInt n) = int64 n"
| "wf_bval mx (BBig n) = (\<not> int64 n)"
| "wf_bval mx (BStr s) = (int (length s) \<le> getMaxStrLen mx \<and> length s < 2 ^ 63)"
| "wf_bval mx (BList vs) = (\<forall>v \<in> set vs. wf_bval mx v)"
| "wf_bval mx (BDict kvs) = (distinct (map fst kvs) \<and> (\<forall>(k, v) \<in> set kvs. wf_bval mx (BStr k) \<and> wf_bval mx v))"

text \<open>Maps in the order of their keys.\<close>

fun norm_bval :: "bval \<Rightarrow> bval" where
  "norm_bval (BList vs) = BList (map norm_bval vs)"
| "norm_bval (BDict kvs) = BDict (map (\<lambda>(k, v). (k, norm_bval v)) (sort_key fst kvs))"
| "norm_bval v = v"

lemma digit_not_mark: "is_digit c \<Longrightarrow> c \<noteq> CHR ''e'' \<and> c \<noteq> CHR ''d'' \<and> c \<noteq> CHR ''l'' \<and> c \<noteq> CHR ''i''"
  by (auto simp: is_digit_def)

lemma Marshal_long: "length (Marshal v) \<ge> 2"
  using show_nat_nonempty by (cases v) (auto simp: Marshal_simps bstring_def Suc_le_eq simp flip: length_greater_0_conv)

lemma decode_string:
  assumes "wf_bval mx (BStr s)" "k > 0"
  shows "parseValueInterface k mx \<lparr>bd_r = bstring s @ r, bd_Offset = ofs, bd_buf = []\<rparr> =
    Inr (Some (BStr s), \<lparr>bd_r = r, bd_Offset = ofs + int (length (bstring s)), bd_buf = []\<rparr>)"
proof -
  obtain j where k: "k = Suc j" using assms(2) by (cases k) auto
  obtain c ds where c: "bstring s @ r = c # ds" "is_digit c" using bstring_first [of s] by auto
  then show ?thesis using digit_not_mark [OF c(2)] parseString_bstring [OF c(1), of mx "ofs + 1"] assms(1)
    by (simp add: k c(1) bbind_def del: append_eq_Cons_conv)
qed

definition decodes :: "int \<Rightarrow> bval \<Rightarrow> bool" where
  "decodes mx v \<longleftrightarrow> (\<forall>k r ofs. 2 * length (Marshal v) < k \<longrightarrow> parseValueInterface k mx \<lparr>bd_r = Marshal v @ r, bd_Offset = ofs, bd_buf = []\<rparr> =
     Inr (Some (norm_bval v), \<lparr>bd_r = r, bd_Offset = ofs + int (length (Marshal v)), bd_buf = []\<rparr>))"

lemma decode_list:
  assumes "\<forall>v \<in> set vs. decodes mx v" "2 * length (concat (map Marshal vs)) + 2 \<le> k"
  shows "parseListInterface k mx acc \<lparr>bd_r = concat (map Marshal vs) @ CHR ''e'' # r, bd_Offset = ofs, bd_buf = []\<rparr> =
    Inr (acc @ map norm_bval vs, \<lparr>bd_r = r, bd_Offset = ofs + int (length (concat (map Marshal vs))) + 1, bd_buf = []\<rparr>)"
  using assms
proof (induction vs arbitrary: acc k ofs)
  case Nil
  then obtain j where "k = Suc (Suc j)" by (cases k; cases "k - 1") auto
  then show ?case by (simp add: bbind_def)
next
  case (Cons v vs)
  then obtain j where k: "k = Suc j" by (cases k) auto
  have j: "2 * length (Marshal v) < j" "2 * length (concat (map Marshal vs)) + 2 \<le> j" using Cons.prems(2) Marshal_long [of v] k by auto
  then have v: "parseValueInterface j mx \<lparr>bd_r = Marshal v @ (concat (map Marshal vs) @ CHR ''e'' # r), bd_Offset = ofs, bd_buf = []\<rparr> =
     Inr (Some (norm_bval v), \<lparr>bd_r = concat (map Marshal vs) @ CHR ''e'' # r, bd_Offset = ofs + int (length (Marshal v)), bd_buf = []\<rparr>)"
    using Cons.prems(1) by (simp add: decodes_def)
  show ?case using Cons.IH [OF _ j(2), of "acc @ [norm_bval v]" "ofs + int (length (Marshal v))"] Cons.prems(1) v by (simp add: k bbind_def add.assoc)
qed

lemma decode_dict:
  assumes "\<forall>(key, v) \<in> set kvs. wf_bval mx (BStr key) \<and> decodes mx v" "2 * length (concat (map (\<lambda>(key, v). bstring key @ Marshal v) kvs)) + 2 \<le> k"
    and "sorted_wrt (<) (map fst kvs)" "\<forall>l \<in> set_option l0. \<forall>key \<in> fst ` set kvs. l < key"
  shows "parseDictInterface k mx l0 acc \<lparr>bd_r = concat (map (\<lambda>(key, v). bstring key @ Marshal v) kvs) @ CHR ''e'' # r, bd_Offset = ofs, bd_buf = []\<rparr> =
    Inr (acc @ map (\<lambda>(key, v). (key, norm_bval v)) kvs,
      \<lparr>bd_r = r, bd_Offset = ofs + int (length (concat (map (\<lambda>(key, v). bstring key @ Marshal v) kvs))) + 1, bd_buf = []\<rparr>)"
  using assms
proof (induction kvs arbitrary: acc k ofs l0)
  case Nil
  then obtain j where "k = Suc (Suc j)" by (cases k; cases "k - 1") auto
  then show ?case by (simp add: bbind_def)
next
  case (Cons kv kvs)
  obtain key v where kv: "kv = (key, v)" by (cases kv)
  obtain j where k: "k = Suc j" using Cons.prems(2) by (cases k) auto
  let ?t = "concat (map (\<lambda>(key, v). bstring key @ Marshal v) kvs)"
  have j: "2 * length (Marshal v) < j" "2 * length ?t + 2 \<le> j" "j > 0" using Cons.prems(2) Marshal_long [of v] k kv by auto
  have s: "parseValueInterface j mx \<lparr>bd_r = bstring key @ (Marshal v @ (?t @ CHR ''e'' # r)), bd_Offset = ofs, bd_buf = []\<rparr> =
     Inr (Some (BStr key), \<lparr>bd_r = Marshal v @ (?t @ CHR ''e'' # r), bd_Offset = ofs + int (length (bstring key)), bd_buf = []\<rparr>)"
    using Cons.prems(1) j(3) kv by (intro decode_string) auto
  have v: "parseValueInterface j mx \<lparr>bd_r = Marshal v @ (?t @ CHR ''e'' # r), bd_Offset = o', bd_buf = []\<rparr> =
     Inr (Some (norm_bval v), \<lparr>bd_r = ?t @ CHR ''e'' # r, bd_Offset = o' + int (length (Marshal v)), bd_buf = []\<rparr>)" for o'
    using Cons.prems(1) j(1) kv by (simp add: decodes_def)
  have "\<not> (case l0 of Some l \<Rightarrow> key \<le> l | None \<Rightarrow> False)" using Cons.prems(4) kv by (auto simp: not_le split: option.split)
  then show ?case
    using Cons.IH [of j "Some key" "acc @ [(key, norm_bval v)]" "ofs + int (length (bstring key)) + int (length (Marshal v))"] Cons.prems(1,3) j(2) kv s v
    by (simp add: k bbind_def add.assoc)
qed

lemma decode_Marshal: "wf_bval mx v \<Longrightarrow> decodes mx v"
proof (induction v rule: measure_induct_rule [of size])
  case (less v)
  have one: "decodes mx v" if "\<And>j r ofs. 2 * length (Marshal v) \<le> j \<Longrightarrow> parseValueInterface (Suc j) mx \<lparr>bd_r = Marshal v @ r, bd_Offset = ofs, bd_buf = []\<rparr> =
     Inr (Some (norm_bval v), \<lparr>bd_r = r, bd_Offset = ofs + int (length (Marshal v)), bd_buf = []\<rparr>)"
    unfolding decodes_def using that by (metis Suc_le_mono Suc_le_D less_eq_Suc_le)
  show ?case
  proof (cases v)
    case (BList vs)
    have "\<forall>v \<in> set vs. decodes mx v" using less BList by (auto simp: less_Suc_eq_le size_list_estimation')
    then show ?thesis using BList by (intro one) (simp add: Marshal_simps decode_list bbind_def)
  next
    case (BDict kvs)
    have s: "sorted_wrt (<) (map fst (sort_key fst kvs))" using less.prems BDict by (simp add: strict_sorted_iff distinct_map)
    have "\<forall>(key, v) \<in> set (sort_key fst kvs). wf_bval mx (BStr key) \<and> decodes mx v" using less BDict bval_size_dict [of _ _ kvs] by fastforce
    then show ?thesis using BDict s by (intro one) (simp add: Marshal_simps decode_dict bbind_def)
  next
    case (BStr t)
    then show ?thesis using less.prems decode_string by (simp add: decodes_def Marshal_simps)
  next
    case (BInt n)
    then show ?thesis using less.prems by (intro one) (simp add: Marshal_simps parseInt_show bbind_def int_val_def)
  next
    case (BBig n)
    then show ?thesis using less.prems by (intro one) (simp add: Marshal_simps parseInt_show bbind_def int_val_def)
  qed
qed

section \<open>Only canonical input is accepted\<close>

definition consumed :: "string \<Rightarrow> bdec \<Rightarrow> bdec \<Rightarrow> bool" where
  "consumed c d d' \<longleftrightarrow> bd_r d = c @ bd_r d' \<and> bd_Offset d' = bd_Offset d + int (length c)"

lemma consumed_trans: "consumed a d1 d2 \<Longrightarrow> consumed b d2 d3 \<Longrightarrow> consumed (a @ b) d1 d3"
  by (simp add: consumed_def)

definition canonical :: "int \<Rightarrow> bval \<Rightarrow> bool" where
  "canonical mx v \<longleftrightarrow> wf_bval mx v \<and> norm_bval v = v"

lemma sorted_keys: "sorted_wrt (<) (map fst kvs) \<Longrightarrow> sort_key fst kvs = kvs"
  by (simp add: strict_sorted_iff sort_key_id_if_sorted)

lemma canonical_dict:
  assumes "sorted_wrt (<) (map fst kvs)" "\<forall>(k, v) \<in> set kvs. wf_bval mx (BStr k) \<and> canonical mx v"
  shows "canonical mx (BDict kvs)"
proof -
  have "map (\<lambda>(k, v). (k, norm_bval v)) kvs = kvs" using assms(2) by (intro map_idI) (auto simp: canonical_def)
  then show ?thesis using assms sorted_keys [OF assms(1)] by (auto simp: canonical_def strict_sorted_iff)
qed

lemma canonical_list: "\<forall>v \<in> set vs. canonical mx v \<Longrightarrow> canonical mx (BList vs)"
  by (simp add: canonical_def map_idI)

lemma parseInt_canonical:
  assumes "parseIntInterface d = Inr (v, d')" "bd_buf d = []"
  shows "canonical mx v" "\<exists>t. Marshal v = CHR ''i'' # t \<and> consumed t d d'" "bd_buf d' = []"
proof -
  obtain n where n: "v = int_val n" "bd_r d = show_int n @ CHR ''e'' # bd_r d'"
      "d' = \<lparr>bd_r = bd_r d', bd_Offset = bd_Offset d + int (length (show_int n)) + 1, bd_buf = []\<rparr>" using parseIntD [OF assms] by blast
  have o: "bd_Offset d' = bd_Offset d + int (length (show_int n)) + 1" using n(3) by (metis bdec.select_convs(2))
  show "canonical mx v" using n(1) by (simp add: canonical_def int_val_def)
  show "bd_buf d' = []" using n(3) by (metis bdec.select_convs(3))
  show "\<exists>t. Marshal v = CHR ''i'' # t \<and> consumed t d d'"
    using n(1,2) o by (intro exI [of _ "show_int n @ ''e''"]) (simp add: consumed_def int_val_def Marshal_simps)
qed

lemma parseString_canonical:
  assumes "parseStringInterface mx d = Inr (s, d')" "bd_buf d = [c]" "is_digit c"
  shows "wf_bval mx (BStr s)" "\<exists>t. bstring s = c # t \<and> consumed t d d'" "bd_buf d' = []"
proof -
  note a = parseStringD [OF assms]
  obtain t where t: "bstring s = c # t" using a bstring_first [of s] by (metis append_Cons list.inject)
  have "bd_Offset d' = bd_Offset d + int (length t)" using a t by (metis bdec.select_convs(2) add_diff_cancel_right' length_Cons of_nat_Suc add.assoc add.commute)
  then show "\<exists>t. bstring s = c # t \<and> consumed t d d'" using a t by (auto simp: consumed_def)
  show "wf_bval mx (BStr s)" "bd_buf d' = []" using a by (simp, metis bdec.select_convs(3))
qed

definition value_read :: "int \<Rightarrow> bval option \<Rightarrow> bdec \<Rightarrow> bdec \<Rightarrow> bool" where
  "value_read mx vo d d' \<longleftrightarrow> bd_buf d' = [] \<and> (case vo of None \<Rightarrow> consumed ''e'' d d' | Some v \<Rightarrow> canonical mx v \<and> consumed (Marshal v) d d')"

definition list_read :: "int \<Rightarrow> bval list \<Rightarrow> bval list \<Rightarrow> bdec \<Rightarrow> bdec \<Rightarrow> bool" where
  "list_read mx acc vs d d' \<longleftrightarrow> bd_buf d' = []
     \<and> (\<exists>ws. vs = acc @ ws \<and> (\<forall>v \<in> set ws. canonical mx v) \<and> consumed (concat (map Marshal ws) @ ''e'') d d')"

definition dict_read :: "int \<Rightarrow> string option \<Rightarrow> (string \<times> bval) list \<Rightarrow> (string \<times> bval) list \<Rightarrow> bdec \<Rightarrow> bdec \<Rightarrow> bool" where
  "dict_read mx l0 acc kvs d d' \<longleftrightarrow> bd_buf d' = []
     \<and> (\<exists>ws. kvs = acc @ ws \<and> (\<forall>(k, v) \<in> set ws. wf_bval mx (BStr k) \<and> canonical mx v) \<and> sorted_wrt (<) (map fst ws)
          \<and> (\<forall>l \<in> set_option l0. \<forall>k \<in> fst ` set ws. l < k) \<and> consumed (concat (map (\<lambda>(k, v). bstring k @ Marshal v) ws) @ ''e'') d d')"

lemma list_read_step:
  assumes "value_read mx (Some v) d d1" "list_read mx (acc @ [v]) vs d1 d'"
  shows "list_read mx acc vs d d'"
proof -
  obtain ws where "vs = acc @ [v] @ ws" "\<forall>v \<in> set ws. canonical mx v" "consumed (concat (map Marshal ws) @ ''e'') d1 d'" "bd_buf d' = []"
    using assms(2) by (auto simp: list_read_def)
  then show ?thesis using assms(1) consumed_trans [of "Marshal v" d d1] unfolding list_read_def value_read_def by (intro conjI exI [of _ "v # ws"]) auto
qed

lemma dict_read_step:
  assumes "value_read mx (Some (BStr key)) d d1" "value_read mx (Some v) d1 d2" "dict_read mx (Some key) (acc @ [(key, v)]) kvs d2 d'"
    and "\<not> (case l0 of Some l \<Rightarrow> key \<le> l | None \<Rightarrow> False)"
  shows "dict_read mx l0 acc kvs d d'"
proof -
  obtain ws where ws: "kvs = acc @ [(key, v)] @ ws" "\<forall>(k, v) \<in> set ws. wf_bval mx (BStr k) \<and> canonical mx v" "sorted_wrt (<) (map fst ws)"
      "\<forall>k \<in> fst ` set ws. key < k" "consumed (concat (map (\<lambda>(k, v). bstring k @ Marshal v) ws) @ ''e'') d2 d'" "bd_buf d' = []"
    using assms(3) by (auto simp: dict_read_def)
  have l: "l < key" if "l0 = Some l" for l using assms(4) that by simp
  have "consumed (bstring key @ Marshal v @ concat (map (\<lambda>(k, v). bstring k @ Marshal v) ws) @ ''e'') d d'"
    using assms(1,2) ws(5) by (simp add: value_read_def Marshal_simps consumed_def)
  then show ?thesis using ws assms(1,2) l unfolding dict_read_def value_read_def
    by (intro conjI exI [of _ "(key, v) # ws"]) (auto simp: canonical_def intro: less_trans)
qed

lemma bbind_Inr: "bbind m f = Inr y \<longleftrightarrow> (\<exists>x. m = Inr x \<and> f x = Inr y)"
  by (auto simp: bbind_def split: sum.splits)

lemma value_read_step:
  assumes "parseValueInterface (Suc k) mx d = Inr (vo, d')" "bd_buf d = []" "bd_r d = b # r" "d1 = d\<lparr>bd_r := r, bd_Offset := bd_Offset d + 1\<rparr>"
    and dict: "\<And>kvs. b = CHR ''d'' \<Longrightarrow> parseDictInterface k mx None [] d1 = Inr (kvs, d') \<Longrightarrow> dict_read mx None [] kvs d1 d'"
    and list: "\<And>vs. b = CHR ''l'' \<Longrightarrow> parseListInterface k mx [] d1 = Inr (vs, d') \<Longrightarrow> list_read mx [] vs d1 d'"
  shows "value_read mx vo d d'"
proof -
  have step: "value_read mx (Some v) d d'" if "canonical mx v" "Marshal v = b # t" "consumed t d1 d'" "bd_buf d' = []" for v t
    using that assms(3,4) by (simp add: value_read_def consumed_def)
  have buf: "bd_buf d1 = []" using assms(2,4) by simp
  note p = assms(1) [unfolded parseValueInterface.simps assms(3) list.case Let_def, folded assms(4)]
  consider "b = CHR ''e''" | "b = CHR ''d''" | "b = CHR ''l''" | "b = CHR ''i''" | "is_digit b" "b \<noteq> CHR ''e''" "b \<noteq> CHR ''d''" "b \<noteq> CHR ''l''" "b \<noteq> CHR ''i''"
    using p by (auto split: if_splits)
  then show ?thesis
  proof cases
    case 1
    then show ?thesis using p buf assms(3,4) by (auto simp: value_read_def consumed_def)
  next
    case 2
    obtain kvs where k: "parseDictInterface k mx None [] d1 = Inr (kvs, d')" "vo = Some (BDict kvs)" using p 2 by (auto simp: bbind_Inr)
    then have "sorted_wrt (<) (map fst kvs)" "\<forall>(k, v) \<in> set kvs. wf_bval mx (BStr k) \<and> canonical mx v" "bd_buf d' = []"
      "consumed (concat (map (\<lambda>(k, v). bstring k @ Marshal v) kvs) @ ''e'') d1 d'" using dict [OF 2 k(1)] by (auto simp: dict_read_def)
    then show ?thesis unfolding k(2) using 2 by (intro step) (simp_all add: canonical_dict Marshal_simps sorted_keys)
  next
    case 3
    obtain vs where k: "parseListInterface k mx [] d1 = Inr (vs, d')" "vo = Some (BList vs)" using p 3 by (auto simp: bbind_Inr)
    then show ?thesis unfolding k(2) using 3 list [OF 3 k(1)] by (intro step) (auto simp: list_read_def canonical_list Marshal_simps)
  next
    case 4
    obtain v where k: "parseIntInterface d1 = Inr (v, d')" "vo = Some v" using p 4 by (auto simp: bbind_Inr)
    then show ?thesis using parseInt_canonical [OF k(1) buf] 4 step by metis
  next
    case 5
    obtain s where k: "parseStringInterface mx (d1\<lparr>bd_buf := [b]\<rparr>) = Inr (s, d')" "vo = Some (BStr s)" using p 5 buf by (auto simp: bbind_Inr)
    obtain t where t: "wf_bval mx (BStr s)" "bstring s = b # t" "consumed t d1 d'" "bd_buf d' = []"
      using parseString_canonical [OF k(1) _ 5(1)] by (auto simp: consumed_def)
    then show ?thesis unfolding k(2) by (intro step [of _ t]) (simp_all add: Marshal_simps canonical_def)
  qed
qed

lemma dict_step_cases:
  assumes "parseDictInterface (Suc k) mx l0 dict d = Inr (kvs, d')"
  obtains "parseValueInterface k mx d = Inr (None, d')" "kvs = dict"
  | key d1 v d2 where "parseValueInterface k mx d = Inr (Some (BStr key), d1)" "\<not> (case l0 of Some l \<Rightarrow> key \<le> l | None \<Rightarrow> False)"
      "parseValueInterface k mx d1 = Inr (Some v, d2)" "parseDictInterface k mx (Some key) (dict @ [(key, v)]) d2 = Inr (kvs, d')"
proof -
  obtain vo d1 where v: "parseValueInterface k mx d = Inr (vo, d1)" using assms by (auto simp: bbind_Inr Let_def)
  show ?thesis
  proof (cases vo)
    case None
    then show ?thesis using assms v that(1) by (auto simp: bbind_def)
  next
    case (Some w)
    then obtain key v2 d2 where "w = BStr key" "\<not> (case l0 of Some l \<Rightarrow> key \<le> l | None \<Rightarrow> False)"
        "parseValueInterface k mx d1 = Inr (Some v2, d2)" "parseDictInterface k mx (Some key) (dict @ [(key, v2)]) d2 = Inr (kvs, d')"
      using assms v by (auto simp: bbind_def Let_def split: bval.splits if_splits sum.splits option.splits)
    then show ?thesis using that(2) v Some by blast
  qed
qed

lemma parse_canonical:
  "parseValueInterface k mx d = Inr (vo, d') \<Longrightarrow> bd_buf d = [] \<Longrightarrow> value_read mx vo d d'"
  "parseListInterface k mx acc d = Inr (vs, d') \<Longrightarrow> bd_buf d = [] \<Longrightarrow> list_read mx acc vs d d'"
  "parseDictInterface k mx l0 dict d = Inr (kvs, d') \<Longrightarrow> bd_buf d = [] \<Longrightarrow> dict_read mx l0 dict kvs d d'"
proof (induction k mx d and k mx acc d and k mx l0 dict d arbitrary: vo d' and vs d' and kvs d'
    rule: parseValueInterface_parseListInterface_parseDictInterface.induct)
  case (2 k mx d)
  then obtain b r where r: "bd_r d = b # r" by (auto split: list.splits)
  show ?case by (rule value_read_step [OF "2.prems" r refl]) (use "2.IH" r "2.prems"(2) in auto)
next
  case (4 k mx acc d)
  obtain vo d1 where v: "parseValueInterface k mx d = Inr (vo, d1)" using "4.prems"(1) by (auto simp: bbind_Inr)
  note r = "4.IH"(1) [OF v "4.prems"(2)]
  show ?case
  proof (cases vo)
    case None
    then show ?thesis using "4.prems"(1) v r by (auto simp: bbind_def value_read_def list_read_def)
  next
    case (Some w)
    have "parseListInterface k mx (acc @ [w]) d1 = Inr (vs, d')" "bd_buf d1 = []" using "4.prems"(1) v r Some by (auto simp: bbind_def value_read_def)
    then have "list_read mx (acc @ [w]) vs d1 d'" using "4.IH"(2) Some by blast
    then show ?thesis using r Some list_read_step by blast
  qed
next
  case (6 k mx l0 dict d)
  show ?case
  proof (rule dict_step_cases [OF "6.prems"(1)])
    show ?thesis if "parseValueInterface k mx d = Inr (None, d')" "kvs = dict"
      using "6.IH"(1) [OF refl that(1) "6.prems"(2)] that(2) by (simp add: value_read_def dict_read_def)
    show ?thesis if k: "parseValueInterface k mx d = Inr (Some (BStr key), d1)" "\<not> (case l0 of Some l \<Rightarrow> key \<le> l | None \<Rightarrow> False)"
        "parseValueInterface k mx d1 = Inr (Some v, d2)" "parseDictInterface k mx (Some key) (dict @ [(key, v)]) d2 = Inr (kvs, d')" for key d1 v d2
    proof -
      have r: "value_read mx (Some (BStr key)) d d1" using "6.IH"(1) [OF refl k(1) "6.prems"(2)] .
      then have v: "value_read mx (Some v) d1 d2" using "6.IH"(2) [OF refl refl refl k(2) refl k(3)] by (simp add: value_read_def)
      then have "dict_read mx (Some key) (dict @ [(key, v)]) kvs d2 d'" using "6.IH"(3) [OF refl refl refl k(2) refl refl k(4)] by (simp add: value_read_def)
      then show ?thesis using dict_read_step [OF r v _ k(2)] by blast
    qed
  qed
qed simp_all

section \<open>The decoder always comes to an end\<close>

lemma read_until_fuel: "read_until sep r ofs buf \<noteq> Inl OutOfFuel" "read_until sep r ofs buf = Inr d \<Longrightarrow> length (bd_r d) < length r"
  by (induction r arbitrary: ofs buf) (auto intro: less_SucI split: if_splits)

lemma parseInt_fuel: "parseIntInterface d \<noteq> Inl OutOfFuel" "parseIntInterface d = Inr (v, d') \<Longrightarrow> length (bd_r d') < length (bd_r d)"
  using read_until_fuel [of "CHR ''e''" "bd_r d"]
  by (auto simp: parseIntInterface_def readUntil_def bbind_def Let_def split: sum.splits option.splits if_splits)

lemma parseString_fuel: "parseStringInterface mx d \<noteq> Inl OutOfFuel" "parseStringInterface mx d = Inr (s, d') \<Longrightarrow> length (bd_r d') < length (bd_r d)"
  using read_until_fuel [of "CHR '':''" "bd_r d"]
  by (auto simp: parseStringInterface_def parseStringLength_def readUntil_def bbind_def Let_def less_imp_diff_less split: sum.splits option.splits if_splits)

lemma parse_shrinks:
  "parseValueInterface k mx d = Inr (vo, d') \<Longrightarrow> length (bd_r d') < length (bd_r d)"
  "parseListInterface k mx acc d = Inr (vs, d') \<Longrightarrow> length (bd_r d') < length (bd_r d)"
  "parseDictInterface k mx l0 dict d = Inr (kvs, d') \<Longrightarrow> length (bd_r d') < length (bd_r d)"
proof (induction k mx d and k mx acc d and k mx l0 dict d arbitrary: vo d' and vs d' and kvs d'
    rule: parseValueInterface_parseListInterface_parseDictInterface.induct)
  case (2 k mx d)
  then show ?case
    by (auto simp: Let_def bbind_Inr split: list.splits if_splits dest: parseInt_fuel(2) parseString_fuel(2)) fastforce+
next
  case (4 k mx acc d)
  then show ?case by (fastforce simp: bbind_Inr split: option.splits)
next
  case (6 k mx l0 dict d)
  show ?case
  proof (rule dict_step_cases [OF "6.prems"])
    show ?thesis if "parseValueInterface k mx d = Inr (None, d')" using "6.IH"(1) [OF refl that] .
    show ?thesis if k: "parseValueInterface k mx d = Inr (Some (BStr key), d1)" "\<not> (case l0 of Some l \<Rightarrow> key \<le> l | None \<Rightarrow> False)"
        "parseValueInterface k mx d1 = Inr (Some v, d2)" "parseDictInterface k mx (Some key) (dict @ [(key, v)]) d2 = Inr (kvs, d')" for key d1 v d2
      using "6.IH"(1) [OF refl k(1)] "6.IH"(2) [OF refl refl refl k(2) refl k(3)] "6.IH"(3) [OF refl refl refl k(2) refl refl k(4)] by simp
  qed
qed simp_all

lemma bbind_fuel: "bbind m f = Inl OutOfFuel \<longleftrightarrow> m = Inl OutOfFuel \<or> (\<exists>x. m = Inr x \<and> f x = Inl OutOfFuel)"
  by (auto simp: bbind_def split: sum.splits)

lemma parse_fuel:
  "2 * length (bd_r d) < k \<Longrightarrow> parseValueInterface k mx d \<noteq> Inl OutOfFuel"
  "2 * length (bd_r d) + 1 < k \<Longrightarrow> parseListInterface k mx acc d \<noteq> Inl OutOfFuel"
  "2 * length (bd_r d) + 1 < k \<Longrightarrow> parseDictInterface k mx l0 dict d \<noteq> Inl OutOfFuel"
proof (induction k mx d and k mx acc d and k mx l0 dict d rule: parseValueInterface_parseListInterface_parseDictInterface.induct)
  case (2 k mx d)
  then show ?case by (auto simp: Let_def bbind_fuel parseInt_fuel(1) parseString_fuel(1) split: list.splits if_splits)
next
  case (4 k mx acc d)
  have "parseListInterface k mx (acc @ [v]) d1 \<noteq> Inl OutOfFuel" if "parseValueInterface k mx d = Inr (Some v, d1)" for v d1
    using "4.IH"(2) [OF refl] parse_shrinks(1) [OF that] "4.prems" by simp
  then show ?case using "4.IH"(1) "4.prems" by (auto simp: bbind_fuel split: option.splits)
next
  case (6 k mx l0 dict d)
  have v: "parseValueInterface k mx d1 \<noteq> Inl OutOfFuel" "\<And>v d2. parseValueInterface k mx d1 = Inr (Some v, d2) \<Longrightarrow> parseDictInterface k mx (Some key) (dict @ [(key, v)]) d2 \<noteq> Inl OutOfFuel"
    if k: "parseValueInterface k mx d = Inr (Some (BStr key), d1)" "\<not> (case l0 of Some l \<Rightarrow> key \<le> l | None \<Rightarrow> False)" for key d1
  proof -
    have l: "length (bd_r d1) < length (bd_r d)" using parse_shrinks(1) [OF k(1)] .
    show "parseValueInterface k mx d1 \<noteq> Inl OutOfFuel" using "6.IH"(2) [OF refl refl refl k(2) refl] l "6.prems" by simp
    show "parseDictInterface k mx (Some key) (dict @ [(key, v)]) d2 \<noteq> Inl OutOfFuel" if "parseValueInterface k mx d1 = Inr (Some v, d2)" for v d2
      using "6.IH"(3) [OF refl refl refl k(2) refl refl] l parse_shrinks(1) [OF that] "6.prems" by simp
  qed
  have f: "parseValueInterface k mx d \<noteq> Inl OutOfFuel" using "6.IH"(1) [OF refl] "6.prems" by simp
  show ?case
  proof (cases "parseValueInterface k mx d")
    case (Inr x)
    then obtain vo d1 where x: "parseValueInterface k mx d = Inr (vo, d1)" by (cases x) auto
    show ?thesis using x v by (cases vo) (auto simp: bbind_def Let_def split: bval.splits sum.splits option.splits if_splits)
  qed (use f in \<open>auto simp: bbind_def\<close>)
qed simp_all

section \<open>Raw values are read as they are\<close>

definition raw_read :: "bdec \<Rightarrow> bdec \<Rightarrow> bool" where
  "raw_read d d' \<longleftrightarrow> (\<exists>c. consumed c d d' \<and> bd_buf d' = bd_buf d @ c)"

lemma raw_read_refl: "raw_read d d"
  by (auto simp: raw_read_def consumed_def)

lemma raw_read_trans: "raw_read d1 d2 \<Longrightarrow> raw_read d2 d3 \<Longrightarrow> raw_read d1 d3"
  using consumed_trans by (fastforce simp: raw_read_def)

lemma raw_read_byte: "bd_r d = b # r \<Longrightarrow> raw_read d (d\<lparr>bd_r := r, bd_Offset := bd_Offset d + 1, bd_buf := bd_buf d @ [b]\<rparr>)"
  by (auto simp: raw_read_def consumed_def)

lemma raw_read_until:
  assumes "readUntil sep d = Inr d'"
  shows "raw_read d (d'\<lparr>bd_buf := bd_buf d' @ [sep]\<rparr>)"
proof -
  obtain s where s: "bd_r d = s @ sep # bd_r d'" "d' = \<lparr>bd_r = bd_r d', bd_Offset = bd_Offset d + int (length s) + 1, bd_buf = bd_buf d @ s\<rparr>"
    using read_untilD [OF assms [unfolded readUntil_def]] by auto
  have "bd_Offset d' = bd_Offset d + int (length s) + 1" "bd_buf d' = bd_buf d @ s" using s(2) by (metis bdec.select_convs(2), metis bdec.select_convs(3))
  then show ?thesis unfolding raw_read_def using s(1) by (intro exI [of _ "s @ [sep]"]) (simp add: consumed_def)
qed

lemma raw_read_string:
  assumes "read_raw_string start d = Inr d'"
  shows "raw_read d d'"
proof -
  obtain d1 m where m: "readUntil (CHR '':'') d = Inr d1" "parse_int64 (drop start (bd_buf d1)) = Some m"
    using assms by (auto simp: read_raw_string_def bbind_Inr split: option.splits)
  define n where "n = nat m"
  have d1: "\<not> length (take n (bd_r d1)) < n"
      "d' = d1\<lparr>bd_r := drop n (bd_r d1), bd_Offset := bd_Offset d1 + int (length (take n (bd_r d1))), bd_buf := bd_buf d1 @ '':'' @ take n (bd_r d1)\<rparr>"
    using assms m unfolding read_raw_string_def bbind_def Let_def n_def by (auto simp del: length_take split: if_splits)
  have "raw_read (d1\<lparr>bd_buf := bd_buf d1 @ '':''\<rparr>) d'" unfolding raw_read_def using d1(2) by (intro exI [of _ "take n (bd_r d1)"]) (simp add: consumed_def)
  then show ?thesis using raw_read_until [OF m(1)] raw_read_trans by simp
qed

lemma raw_read_length: "raw_read d d' \<Longrightarrow> length (bd_r d') \<le> length (bd_r d)"
  by (auto simp: raw_read_def consumed_def)

lemma raw_reads:
  "readOneValue k d = Inr (ok, d') \<Longrightarrow> raw_read d d' \<and> (if ok then length (bd_r d') < length (bd_r d) else d' = d)"
  "readValues k d = Inr d' \<Longrightarrow> raw_read d d'"
proof (induction k d and k d arbitrary: ok d' and d' rule: readOneValue_readValues.induct)
  case (2 k d)
  then obtain b r where r: "bd_r d = b # r" by (auto split: list.splits)
  define d1 where "d1 = d\<lparr>bd_r := r, bd_Offset := bd_Offset d + 1, bd_buf := bd_buf d @ [b]\<rparr>"
  note p = "2.prems" [unfolded readOneValue.simps r list.case Let_def, folded d1_def]
  have fin: ?case if "raw_read d1 d'" ok
    using that raw_read_byte [OF r] raw_read_trans [of d d1 d'] raw_read_length [OF that(1)] r by (simp add: d1_def)
  consider "b = CHR ''e''" | "b = CHR ''d'' \<or> b = CHR ''l''" | "b = CHR ''i''" | "b \<noteq> CHR ''e''" "b \<noteq> CHR ''d''" "b \<noteq> CHR ''l''" "b \<noteq> CHR ''i''" by blast
  then show ?case
  proof cases
    case 1
    then show ?thesis using p by (auto intro: raw_read_refl)
  next
    case 2
    then obtain d2 c d3 where d2: "readValues k d1 = Inr d2" "readByte d2 = Inr (c, d3)" "ok" "d' = d3\<lparr>bd_buf := bd_buf d3 @ [c]\<rparr>"
      using p by (auto simp: bbind_Inr)
    have "raw_read d1 d2" using "2.IH" [OF r _ d1_def 2 d2(1)] 2 by auto
    moreover have "raw_read d2 d'" using d2(2,4) by (auto simp: readByte_def raw_read_def consumed_def split: list.splits)
    ultimately show ?thesis using fin d2(3) raw_read_trans by blast
  next
    case 3
    then obtain d2 where "readUntil (CHR ''e'') d1 = Inr d2" "ok" "d' = d2\<lparr>bd_buf := bd_buf d2 @ ''e''\<rparr>" using p by (auto simp: bbind_Inr)
    then show ?thesis using fin raw_read_until by blast
  next
    case 4
    then have "read_raw_string (length (bd_buf d1) - 1) d1 = Inr d'" "ok" using p by (auto simp: bbind_Inr split: if_splits)
    then show ?thesis using fin raw_read_string by blast
  qed
next
  case (4 k d)
  obtain ok d1 where o: "readOneValue k d = Inr (ok, d1)" using "4.prems" by (auto simp: bbind_Inr)
  show ?case
  proof (cases ok)
    case True
    then have "readValues k d1 = Inr d'" using "4.prems" o by (simp add: bbind_def)
    then show ?thesis using "4.IH"(1) [OF o] "4.IH"(2) True raw_read_trans by blast
  next
    case False
    then show ?thesis using "4.prems" o raw_read_refl by (auto simp: bbind_def dest: "4.IH"(1))
  qed
qed simp_all

lemma raw_string_fuel: "read_raw_string start d \<noteq> Inl OutOfFuel"
  using read_until_fuel(1) [of "CHR '':''" "bd_r d"] by (auto simp: read_raw_string_def readUntil_def bbind_fuel Let_def split: option.splits if_splits)

lemma raw_fuel:
  "2 * length (bd_r d) < k \<Longrightarrow> readOneValue k d \<noteq> Inl OutOfFuel"
  "2 * length (bd_r d) + 1 < k \<Longrightarrow> readValues k d \<noteq> Inl OutOfFuel"
proof (induction k d and k d rule: readOneValue_readValues.induct)
  case (2 k d)
  then show ?case
    by (auto simp: Let_def bbind_fuel raw_string_fuel readUntil_def read_until_fuel(1) readByte_def split: list.splits if_splits)
next
  case (4 k d)
  have "readValues k d1 \<noteq> Inl OutOfFuel" if "readOneValue k d = Inr (True, d1)" for d1
    using raw_reads(1) [OF that] "4.IH"(2) "4.prems" by simp
  then show ?case using "4.IH"(1) "4.prems" by (auto simp: bbind_fuel)
qed simp_all

definition raw_ok :: "string \<Rightarrow> bool" where
  "raw_ok c \<longleftrightarrow> length c \<ge> 2 \<and> (\<forall>k r ofs buf. 2 * length c < k \<longrightarrow>
     readOneValue k \<lparr>bd_r = c @ r, bd_Offset = ofs, bd_buf = buf\<rparr> = Inr (True, \<lparr>bd_r = r, bd_Offset = ofs + int (length c), bd_buf = buf @ c\<rparr>))"

lemma raw_okI:
  assumes "length c \<ge> 2" "\<And>j r ofs buf. 2 * length c \<le> j \<Longrightarrow>
     readOneValue (Suc j) \<lparr>bd_r = c @ r, bd_Offset = ofs, bd_buf = buf\<rparr> = Inr (True, \<lparr>bd_r = r, bd_Offset = ofs + int (length c), bd_buf = buf @ c\<rparr>)"
  shows "raw_ok c"
  unfolding raw_ok_def using assms by (metis Suc_le_mono Suc_le_D less_eq_Suc_le)

lemma raw_ok_int: "raw_ok (''i'' @ show_int n @ ''e'')"
  by (rule raw_okI) (simp_all add: readUntil_def read_until_append stop_not_shown bbind_def)

lemma raw_ok_string:
  assumes "length s < 2 ^ 63"
  shows "raw_ok (bstring s)"
proof (rule raw_okI)
  obtain c ns where n: "show_nat (length s) = c # ns" by (cases "show_nat (length s)") auto
  have c: "is_digit c" using hd_show_nat_digit [of "length s"] n by simp
  have colon: "CHR '':'' \<notin> set ns" using stop_not_shown(2) [of "length s"] n by simp
  have i: "show_int (int (length s)) = c # ns" using n by (simp add: show_int_def)
  have p: "parse_int64 (c # ns) = Some (int (length s))" using assms unfolding i [symmetric] by (simp add: parse_int64_SetString)
  show "2 \<le> length (bstring s)" using n by (simp add: bstring_def)
  show "readOneValue (Suc j) \<lparr>bd_r = bstring s @ r, bd_Offset = ofs, bd_buf = buf\<rparr> =
      Inr (True, \<lparr>bd_r = r, bd_Offset = ofs + int (length (bstring s)), bd_buf = buf @ bstring s\<rparr>)" for j r ofs buf
    using digit_not_mark [OF c] c p by (simp add: bstring_def n read_raw_string_def readUntil_def read_until_append [OF colon] bbind_def Let_def)
qed

lemma raw_list:
  assumes "\<forall>c \<in> set cs. raw_ok c" "2 * length (concat cs) + 2 \<le> k"
  shows "readValues k \<lparr>bd_r = concat cs @ CHR ''e'' # r, bd_Offset = ofs, bd_buf = buf\<rparr> =
    Inr \<lparr>bd_r = CHR ''e'' # r, bd_Offset = ofs + int (length (concat cs)), bd_buf = buf @ concat cs\<rparr>"
  using assms
proof (induction cs arbitrary: k ofs buf)
  case Nil
  then obtain j where "k = Suc (Suc j)" by (cases k; cases "k - 1") auto
  then show ?case by (simp add: bbind_def)
next
  case (Cons c cs)
  then obtain j where k: "k = Suc j" by (cases k) auto
  have j: "2 * length c < j" "2 * length (concat cs) + 2 \<le> j" using Cons.prems k by (auto simp: raw_ok_def)
  then show ?case using Cons.IH [OF _ j(2)] Cons.prems(1) by (simp add: k raw_ok_def bbind_def add.assoc)
qed

lemma raw_ok_seq:
  assumes "\<forall>c \<in> set cs. raw_ok c" "b = CHR ''d'' \<or> b = CHR ''l''"
  shows "raw_ok (b # concat cs @ ''e'')"
proof (rule raw_okI)
  show "readOneValue (Suc j) \<lparr>bd_r = (b # concat cs @ ''e'') @ r, bd_Offset = ofs, bd_buf = buf\<rparr> =
      Inr (True, \<lparr>bd_r = r, bd_Offset = ofs + int (length (b # concat cs @ ''e'')), bd_buf = buf @ b # concat cs @ ''e''\<rparr>)"
    if "2 * length (b # concat cs @ ''e'') \<le> j" for j r ofs buf
    using assms that raw_list [OF assms(1), of j r "ofs + 1" "buf @ [b]"] by (auto simp: bbind_def readByte_def)
qed simp

lemma raw_ok_Marshal: "wf_bval mx v \<Longrightarrow> raw_ok (Marshal v)"
proof (induction v rule: measure_induct_rule [of size])
  case (less v)
  show ?case
  proof (cases v)
    case (BList vs)
    have "\<forall>c \<in> set (map Marshal vs). raw_ok c" using less BList by (auto simp: less_Suc_eq_le size_list_estimation')
    then show ?thesis using raw_ok_seq [of "map Marshal vs" "CHR ''l''"] BList by (simp add: Marshal_simps)
  next
    case (BDict kvs)
    let ?cs = "concat (map (\<lambda>(k, v). [bstring k, Marshal v]) (sort_key fst kvs))"
    have "\<forall>c \<in> set ?cs. raw_ok c" using less BDict bval_size_dict [of _ _ kvs] raw_ok_string by fastforce
    moreover have "concat (map (\<lambda>(k, v). bstring k @ Marshal v) xs) = concat (concat (map (\<lambda>(k, v). [bstring k, Marshal v]) xs))" for xs
      by (induction xs) auto
    ultimately show ?thesis using raw_ok_seq [of ?cs "CHR ''d''"] BDict by (simp add: Marshal_simps)
  qed (use less.prems raw_ok_int raw_ok_string in \<open>auto simp: Marshal_simps\<close>)
qed

section \<open>Properties\<close>

lemma DecodeInterface_Inr: "DecodeInterface mx d = Inr (v, d') \<longleftrightarrow> parseValueInterface (2 * length (bd_r d) + 1) mx d = Inr (Some v, d')"
  unfolding DecodeInterface_def by (cases "parseValueInterface (2 * length (bd_r d) + 1) mx d") (auto simp del: parseValueInterface.simps split: berr.splits option.splits)

lemma DecodeInterface_fuel: "DecodeInterface mx d \<noteq> Inl OutOfFuel"
  using parse_fuel(1) [of d "2 * length (bd_r d) + 1" mx] unfolding DecodeInterface_def
  by (cases "parseValueInterface (2 * length (bd_r d) + 1) mx d") (auto simp del: parseValueInterface.simps split: berr.splits option.splits)

lemma Decode_canonical: "DecodeInterface mx d = Inr (v, d') \<Longrightarrow> bd_buf d = [] \<Longrightarrow> canonical mx v \<and> consumed (Marshal v) d d' \<and> bd_buf d' = []"
  using parse_canonical(1) by (fastforce simp: DecodeInterface_Inr value_read_def simp del: parseValueInterface.simps)

lemma Unmarshal_Marshal:
  assumes "wf_bval 0 v"
  shows "Unmarshal (Marshal v) = Inr (norm_bval v)"
proof -
  have "DecodeInterface 0 \<lparr>bd_r = Marshal v @ [], bd_Offset = 0, bd_buf = []\<rparr> = Inr (norm_bval v, \<lparr>bd_r = [], bd_Offset = int (length (Marshal v)), bd_buf = []\<rparr>)"
    unfolding DecodeInterface_Inr using decode_Marshal [OF assms, unfolded decodes_def, rule_format, of "2 * length (Marshal v) + 1" "[]" 0]
    by (simp del: parseValueInterface.simps)
  then show ?thesis by (simp add: Unmarshal_def bbind_def)
qed

text \<open>C15: Unmarshalling accepts exactly the encodings of values, each as the one value it encodes with its keys in order: every other
  input is refused. It always comes to an end.\<close>

theorem unmarshal_canonical: "(Unmarshal data = Inr v \<longleftrightarrow> canonical 0 v \<and> data = Marshal v) \<and> Unmarshal data \<noteq> Inl OutOfFuel"
proof -
  let ?d = "\<lparr>bd_r = data, bd_Offset = 0, bd_buf = []\<rparr>"
  have "canonical 0 v \<and> data = Marshal v" if u: "Unmarshal data = Inr v"
  proof -
    obtain d' where d: "DecodeInterface 0 ?d = Inr (v, d')" "bd_r d' = []" using u by (auto simp: Unmarshal_def bbind_Inr split: if_splits)
    then show ?thesis using Decode_canonical [OF d(1)] by (simp add: consumed_def)
  qed
  moreover have "Unmarshal data = Inr v" if "canonical 0 v" "data = Marshal v" using Unmarshal_Marshal [of v] that by (simp add: canonical_def)
  moreover have "Unmarshal data \<noteq> Inl OutOfFuel" using DecodeInterface_fuel [of 0 ?d] by (auto simp: Unmarshal_def bbind_fuel split: if_splits)
  ultimately show ?thesis by blast
qed

text \<open>Any value of integers of both kinds, strings within the limit, lists and maps survives encoding and decoding; maps come back as
  the same map, listed by key.\<close>

theorem bencode_roundtrip:
  assumes "wf_bval 0 v"
  shows "Unmarshal (Marshal v) = Inr (norm_bval v)"
  by (rule Unmarshal_Marshal [OF assms])

theorem bencode_roundtrip_witness:
  "Unmarshal (Marshal (BDict [(''pieces'', BStr ''ab''), (''length'', BBig (2 ^ 63)), (''files'', BList [BInt (- 5), BDict []])])) =
    Inr (BDict [(''files'', BList [BInt (- 5), BDict []]), (''length'', BBig (2 ^ 63)), (''pieces'', BStr ''ab'')])"
proof -
  let ?v = "BDict [(''pieces'', BStr ''ab''), (''length'', BBig (2 ^ 63)), (''files'', BList [BInt (- 5), BDict []])]"
  have "wf_bval 0 ?v" by (simp add: getMaxStrLen_def int64_def)
  moreover have "norm_bval ?v = BDict [(''files'', BList [BInt (- 5), BDict []]), (''length'', BBig (2 ^ 63)), (''pieces'', BStr ''ab'')]"
    by (simp add: less_eq_char_def less_char_def less_list_code less_eq_list_code)
  ultimately show ?thesis using bencode_roundtrip by metis
qed

lemma DecodeBytes_Inr: "DecodeBytes d = Inr (raw, d1) \<longleftrightarrow> readOneValue (2 * length (bd_r d) + 2) (d\<lparr>bd_buf := []\<rparr>) = Inr (True, d1) \<and> raw = bd_buf d1"
  unfolding DecodeBytes_def
  by (cases "readOneValue (2 * length (bd_r d) + 2) (d\<lparr>bd_buf := []\<rparr>)") (auto simp del: readOneValue.simps split: berr.splits bool.splits)

lemma DecodeBytes_fuel: "DecodeBytes d \<noteq> Inl OutOfFuel"
  using raw_fuel(1) [of "d\<lparr>bd_buf := []\<rparr>" "2 * length (bd_r d) + 2"] unfolding DecodeBytes_def
  by (cases "readOneValue (2 * length (bd_r d) + 2) (d\<lparr>bd_buf := []\<rparr>)") (auto simp del: readOneValue.simps split: berr.splits bool.splits)

lemma DecodeBytes_raw: "DecodeBytes d = Inr (raw, d1) \<Longrightarrow> consumed raw d d1 \<and> bd_buf d1 = raw"
  using raw_reads(1) [of "2 * length (bd_r d) + 2" "d\<lparr>bd_buf := []\<rparr>" True d1]
  by (auto simp: DecodeBytes_Inr raw_read_def consumed_def simp del: readOneValue.simps)

lemma DecodeBytes_Marshal:
  assumes "wf_bval mx v" "consumed (Marshal v) d d2"
  shows "DecodeBytes d = Inr (Marshal v, \<lparr>bd_r = bd_r d2, bd_Offset = bd_Offset d2, bd_buf = Marshal v\<rparr>)"
proof -
  have d: "d\<lparr>bd_buf := []\<rparr> = \<lparr>bd_r = Marshal v @ bd_r d2, bd_Offset = bd_Offset d, bd_buf = []\<rparr>" using assms(2) by (cases d) (simp add: consumed_def)
  have "2 * length (Marshal v) < 2 * length (bd_r d) + 2" using assms(2) by (simp add: consumed_def)
  then show ?thesis using raw_ok_Marshal [OF assms(1)] assms(2) unfolding DecodeBytes_Inr d by (simp add: raw_ok_def consumed_def del: readOneValue.simps)
qed

text \<open>C35: A value that unmarshals itself is handed exactly the bytes that were read, and where decoding reads a value, these bytes are its
  encoding and the rest of the input is the same. Reading the bytes always comes to an end.\<close>

theorem raw_bytes_exact:
  "DecodeBytes d \<noteq> Inl OutOfFuel
    \<and> (DecodeBytes d = Inr (raw, d1) \<longrightarrow> bd_r d = raw @ bd_r d1 \<and> bd_Offset d1 = bd_Offset d + int (length raw))
    \<and> (DecodeInterface mx d = Inr (v, d2) \<and> bd_buf d = [] \<longrightarrow>
        DecodeBytes d = Inr (Marshal v, \<lparr>bd_r = bd_r d2, bd_Offset = bd_Offset d2, bd_buf = Marshal v\<rparr>))"
  using DecodeBytes_raw [of d raw d1] Decode_canonical [of mx d v d2] DecodeBytes_Marshal [of mx v d d2] DecodeBytes_fuel [of d]
  by (auto simp: consumed_def canonical_def)

theorem raw_bytes_exact_witness:
  "DecodeBytes \<lparr>bd_r = ''d1:ai7ee1:x'', bd_Offset = 3, bd_buf = []\<rparr> = Inr (''d1:ai7ee'', \<lparr>bd_r = ''1:x'', bd_Offset = 11, bd_buf = ''d1:ai7ee''\<rparr>)"
proof -
  have "DecodeInterface 0 \<lparr>bd_r = ''d1:ai7ee1:x'', bd_Offset = 3, bd_buf = []\<rparr> = Inr (BDict [(''a'', BInt 7)], \<lparr>bd_r = ''1:x'', bd_Offset = 11, bd_buf = []\<rparr>)"
    by code_simp
  moreover have "Marshal (BDict [(''a'', BInt 7)]) = ''d1:ai7ee''" by code_simp
  ultimately show ?thesis using raw_bytes_exact [of "\<lparr>bd_r = ''d1:ai7ee1:x'', bd_Offset = 3, bd_buf = []\<rparr>" "[]" undefined 0] by simp
qed

lemma SetString_chars: "SetString s = Some n \<Longrightarrow> c \<in> set s \<Longrightarrow> is_digit c \<or> c = CHR ''-'' \<or> c = CHR ''+''"
  by (cases s) (auto simp: SetString_def Let_def list_all_iff split: if_splits)

lemma raw_not_decimal:
  assumes "DecodeBytes d = Inr (raw, d1)"
  shows "\<exists>c \<in> set raw. \<not> is_digit c \<and> c \<noteq> CHR ''-'' \<and> c \<noteq> CHR ''+''"
proof -
  obtain k where k: "2 * length (bd_r d) + 2 = Suc k" by simp
  have o: "readOneValue (Suc k) (d\<lparr>bd_buf := []\<rparr>) = Inr (True, d1)" "raw = bd_buf d1" "consumed raw d d1"
    using assms DecodeBytes_raw [OF assms] unfolding DecodeBytes_Inr k by auto
  obtain b r where r: "bd_r d = b # r" using o(1) by (auto split: list.splits)
  show ?thesis
  proof (cases "is_digit b")
    case True
    then obtain d0 where "read_raw_string 0 d0 = Inr d1" using o(1) r digit_not_mark [OF True] by (auto simp: bbind_Inr)
    then have "CHR '':'' \<in> set (bd_buf d1)" by (auto simp: read_raw_string_def bbind_Inr Let_def split: option.splits if_splits)
    then show ?thesis using o(2) by (intro bexI [of _ "CHR '':''"]) auto
  next
    case False
    then have b: "b = CHR ''d'' \<or> b = CHR ''l'' \<or> b = CHR ''i''" using o(1) r by (auto simp: Let_def split: if_splits)
    have "length raw \<noteq> 0" using raw_reads(1) [OF o(1)] o(3) by (auto simp: consumed_def)
    then have "b \<in> set raw" using o(3) r by (cases raw) (auto simp: consumed_def)
    then show ?thesis using b False by (intro bexI [of _ b]) auto
  qed
qed

text \<open>A decoder that has just read a raw value keeps its bytes in the buffer: an integer that follows is refused, whatever its value.\<close>

theorem int_after_raw_fails:
  assumes "DecodeBytes d = Inr (raw, d1)" "bd_r d1 = ''i'' @ show_int n @ ''e'' @ r"
  shows "\<exists>e. DecodeInterface mx d1 = Inl e"
proof -
  have "SetString (raw @ show_int n) = None" using raw_not_decimal [OF assms(1)] SetString_chars [of "raw @ show_int n"] by (cases "SetString (raw @ show_int n)") auto
  then have "\<exists>e. parseIntInterface (d1\<lparr>bd_r := show_int n @ CHR ''e'' # r, bd_Offset := bd_Offset d1 + 1\<rparr>) = Inl e"
    using DecodeBytes_raw [OF assms(1)] by (simp add: parseIntInterface_def readUntil_def read_until_append stop_not_shown bbind_def Let_def parse_int64_SetString)
  then show ?thesis using assms(2) by (auto simp: DecodeInterface_def bbind_def split: berr.splits)
qed

theorem int_after_raw_fails_witness: "\<exists>e. DecodeInterface 0 \<lparr>bd_r = ''i7e'', bd_Offset = 3, bd_buf = ''1:x''\<rparr> = Inl e"
proof -
  have "DecodeBytes \<lparr>bd_r = ''1:xi7e'', bd_Offset = 0, bd_buf = []\<rparr> = Inr (''1:x'', \<lparr>bd_r = ''i7e'', bd_Offset = 3, bd_buf = ''1:x''\<rparr>)" by code_simp
  then show ?thesis using int_after_raw_fails [where n = 7 and r = "[]"] by (simp add: show_int_def digit_chars)
qed

end
