(* ===== verification/SettingsDB.thy ===== *)
theory SettingsDB
  imports TorrsHash "HOL-Library.AList" "HOL-Library.Multiset" "HOL-Library.Char_ord" "HOL-Library.List_Lexorder"
begin

text \<open>
  The settings stores of the torrent server (\<^verbatim>\<open>internal/gostorm/settings\<close>): the interface \<^verbatim>\<open>GoStormDB\<close> with its implementations in a bbolt
  database (\<^verbatim>\<open>db.go\<close>) and in JSON files (\<^verbatim>\<open>jsondb.go\<close>), the router between them, the read cache in front, and the migrations from
  one store to another. An interface value is a record of operations with a state; a result \<open>None\<close> of an operation is a panic.

  Values are JSON texts in the compact form of \<^verbatim>\<open>json.Marshal\<close>, given by their parse tree with members in the order of the text, or bytes
  that are no JSON. Numbers are integers that a \<^verbatim>\<open>float64\<close> holds exactly. The bbolt database is a parameter.
\<close>

section \<open>JSON texts\<close>

datatype jval = JNull | JBool bool | JNum int | JStr string | JArr "jval list" | JObj "(string \<times> jval) list"

datatype jtext = Text jval | NotJson string

lemma jval_size_obj [termination_simp]: "(k, v) \<in> set kvs \<Longrightarrow> size v < Suc (size_list (size_prod (\<lambda>x. 0) size) kvs)"
  by (induction kvs) auto

text \<open>The members of a map, by key, with the last value of each; and what a text is after \<^verbatim>\<open>json.Unmarshal\<close> into an interface and
  \<^verbatim>\<open>json.Marshal\<close> of that.\<close>

definition map_members :: "(string \<times> jval) list \<Rightarrow> (string \<times> jval) list" where
  "map_members kvs = sort_key fst (fold (\<lambda>(k, v). AList.update k v) kvs [])"

fun go_value :: "jval \<Rightarrow> jval" where
  "go_value (JArr vs) = JArr (map go_value vs)"
| "go_value (JObj kvs) = JObj (map_members (map (\<lambda>(k, v). (k, go_value v)) kvs))"
| "go_value v = v"

text \<open>The length of a string in a text: \<^verbatim>\<open>json.Marshal\<close> escapes quotes, backslashes, control characters and \<^verbatim>\<open><\<close>, \<^verbatim>\<open>>\<close>, \<^verbatim>\<open>&\<close>.\<close>

definition esc_len :: "char \<Rightarrow> nat" where
  "esc_len c =
     (let n = of_char c
      in if n = 34 \<or> n = 92 \<or> n = 8 \<or> n = 9 \<or> n = 10 \<or> n = 12 \<or> n = 13 then 2
         else if n < (32 :: nat) \<or> n = 60 \<or> n = 62 \<or> n = 38 then 6 else 1)"

definition str_len :: "string \<Rightarrow> nat" where
  "str_len s = 2 + sum_list (map esc_len s)"

fun val_len :: "jval \<Rightarrow> nat" where
  "val_len JNull = 4"
| "val_len (JBool b) = (if b then 4 else 5)"
| "val_len (JNum n) = length (show_int n)"
| "val_len (JStr s) = str_len s"
| "val_len (JArr vs) = 2 + sum_list (map val_len vs) + (length vs - 1)"
| "val_len (JObj kvs) = 2 + sum_list (map (\<lambda>(k, v). str_len k + 1 + val_len v) kvs) + (length kvs - 1)"

fun text_len :: "jtext \<Rightarrow> nat" where
  "text_len (Text v) = val_len v"
| "text_len (NotJson s) = length s"

section \<open>The interface\<close>

record 's GoStormDB =
  opGet :: "'s \<Rightarrow> string \<Rightarrow> string \<Rightarrow> (jtext option \<times> 's) option"
  opSet :: "'s \<Rightarrow> string \<Rightarrow> string \<Rightarrow> jtext \<Rightarrow> 's option"
  opList :: "'s \<Rightarrow> string \<Rightarrow> (string list \<times> 's) option"
  opRem :: "'s \<Rightarrow> string \<Rightarrow> string \<Rightarrow> 's option"
  opClear :: "'s \<Rightarrow> string \<Rightarrow> 's option"

section \<open>JSON files\<close>

text \<open>The files of the directory, and whether a file can be written.\<close>

record json_dir =
  jd_files :: "string \<rightharpoonup> jtext"
  jd_writable :: "string \<Rightarrow> bool"

definition xPathToFilename :: "string \<Rightarrow> string" where
  "xPathToFilename x = ToLower (map (\<lambda>c. if c = CHR ''/'' then CHR ''.'' else c) x @ ''.json'')"

text \<open>\<^verbatim>\<open>readJsonFileAsMap\<close>. Its error is that of an outer variable which is never set, so that a file that is missing or no JSON object
  gives an empty map. A file \<^verbatim>\<open>null\<close> makes the map nil, \<open>None\<close> here.\<close>

definition readJsonFileAsMap :: "json_dir \<Rightarrow> string \<Rightarrow> (string \<times> jval) list option" where
  "readJsonFileAsMap s f =
     (case jd_files s f of
        Some (Text JNull) \<Rightarrow> None
      | Some (Text (JObj kvs)) \<Rightarrow> (case go_value (JObj kvs) of JObj m \<Rightarrow> Some m | _ \<Rightarrow> Some [])
      | _ \<Rightarrow> Some [])"

text \<open>\<^verbatim>\<open>writeMapAsJsonFile\<close> writes the members by key; it reports no error either.\<close>

definition writeMapAsJsonFile :: "json_dir \<Rightarrow> string \<Rightarrow> (string \<times> jval) list option \<Rightarrow> json_dir" where
  "writeMapAsJsonFile s f root =
     (if jd_writable s f
      then s\<lparr>jd_files := (jd_files s)(f \<mapsto> Text (case root of None \<Rightarrow> JNull | Some m \<Rightarrow> JObj (sort_key fst m)))\<rparr> else s)"

text \<open>\<^verbatim>\<open>Set\<close> takes the text of an object, or null; it drops anything else. An assignment to an entry of a nil map panics.\<close>

definition JsonDB_Set :: "json_dir \<Rightarrow> string \<Rightarrow> string \<Rightarrow> jtext \<Rightarrow> json_dir option" where
  "JsonDB_Set s x name value =
     (let f = xPathToFilename x
      in case value of
           Text (JObj kvs) \<Rightarrow>
             (case readJsonFileAsMap s f of
                None \<Rightarrow> None
              | Some root \<Rightarrow> Some (writeMapAsJsonFile s f (Some (AList.update name (go_value (JObj kvs)) root))))
         | Text JNull \<Rightarrow>
             (case readJsonFileAsMap s f of None \<Rightarrow> None | Some root \<Rightarrow> Some (writeMapAsJsonFile s f (Some (AList.update name JNull root))))
         | _ \<Rightarrow> Some s)"

definition JsonDB_Get :: "json_dir \<Rightarrow> string \<Rightarrow> string \<Rightarrow> (jtext option \<times> json_dir) option" where
  "JsonDB_Get s x name =
     Some (case readJsonFileAsMap s (xPathToFilename x) of
             None \<Rightarrow> None
           | Some root \<Rightarrow> map_option (\<lambda>v. Text (go_value v)) (map_of root name), s)"

definition JsonDB_List :: "json_dir \<Rightarrow> string \<Rightarrow> (string list \<times> json_dir) option" where
  "JsonDB_List s x = Some (case readJsonFileAsMap s (xPathToFilename x) of None \<Rightarrow> [] | Some root \<Rightarrow> map fst root, s)"

definition JsonDB_Rem :: "json_dir \<Rightarrow> string \<Rightarrow> string \<Rightarrow> json_dir option" where
  "JsonDB_Rem s x name =
     (let f = xPathToFilename x in Some (writeMapAsJsonFile s f (map_option (AList.delete name) (readJsonFileAsMap s f))))"

definition JsonDB_Clear :: "json_dir \<Rightarrow> string \<Rightarrow> json_dir option" where
  "JsonDB_Clear s x = (let f = xPathToFilename x in Some (if jd_writable s f then s\<lparr>jd_files := (jd_files s)(f \<mapsto> Text (JObj []))\<rparr> else s))"

definition JsonDB :: "json_dir GoStormDB" where
  "JsonDB = \<lparr>opGet = JsonDB_Get, opSet = JsonDB_Set, opList = JsonDB_List, opRem = JsonDB_Rem, opClear = JsonDB_Clear\<rparr>"

section \<open>The bbolt database\<close>

text \<open>What the code uses of bbolt: whether there is a bucket at a path of names, making one below an existing bucket, and the keys
  and values of a bucket. An update that fails is \<open>None\<close>, and its transaction is undone. Deleting keys in the middle of \<^verbatim>\<open>ForEach\<close> is
  an operation of its own, as bbolt leaves it undefined.\<close>

record 'b bolt =
  bBucket :: "'b \<Rightarrow> string list \<Rightarrow> bool"
  bCreate :: "'b \<Rightarrow> string list \<Rightarrow> 'b option"
  bGet :: "'b \<Rightarrow> string list \<Rightarrow> string \<Rightarrow> jtext option"
  bPut :: "'b \<Rightarrow> string list \<Rightarrow> string \<Rightarrow> jtext \<Rightarrow> 'b option"
  bDelete :: "'b \<Rightarrow> string list \<Rightarrow> string \<Rightarrow> 'b option"
  bKeys :: "'b \<Rightarrow> string list \<Rightarrow> string list"
  bForEachDelete :: "'b \<Rightarrow> string list \<Rightarrow> 'b option"

text \<open>\<^verbatim>\<open>strings.Split(xpath, "/")\<close>.\<close>

fun split_slash :: "string \<Rightarrow> string list" where
  "split_slash [] = [[]]"
| "split_slash (c # s) = (if c = CHR ''/'' then [] # split_slash s else case split_slash s of p # ps \<Rightarrow> (c # p) # ps | [] \<Rightarrow> [[c]])"

fun find_bucket :: "('b, 'm) bolt_scheme \<Rightarrow> 'b \<Rightarrow> string list \<Rightarrow> string list \<Rightarrow> string list option" where
  "find_bucket B db path [] = Some path"
| "find_bucket B db path (p # ps) = (if bBucket B db (path @ [p]) then find_bucket B db (path @ [p]) ps else None)"

fun make_buckets :: "('b, 'm) bolt_scheme \<Rightarrow> 'b \<Rightarrow> string list \<Rightarrow> string list \<Rightarrow> 'b option" where
  "make_buckets B db path [] = Some db"
| "make_buckets B db path (p # ps) = (case bCreate B db (path @ [p]) of None \<Rightarrow> None | Some db \<Rightarrow> make_buckets B db (path @ [p]) ps)"

definition TDB_Get :: "('b, 'm) bolt_scheme \<Rightarrow> 'b \<Rightarrow> string \<Rightarrow> string \<Rightarrow> (jtext option \<times> 'b) option" where
  "TDB_Get B db x name = Some (case find_bucket B db [] (split_slash x) of None \<Rightarrow> None | Some b \<Rightarrow> bGet B db b name, db)"

definition TDB_Set :: "('b, 'm) bolt_scheme \<Rightarrow> 'b \<Rightarrow> string \<Rightarrow> string \<Rightarrow> jtext \<Rightarrow> 'b option" where
  "TDB_Set B db x name value =
     Some (case make_buckets B db [] (split_slash x) of
             None \<Rightarrow> db
           | Some db' \<Rightarrow> (case bPut B db' (split_slash x) name value of None \<Rightarrow> db | Some db'' \<Rightarrow> db''))"

definition TDB_List :: "('b, 'm) bolt_scheme \<Rightarrow> 'b \<Rightarrow> string \<Rightarrow> (string list \<times> 'b) option" where
  "TDB_List B db x = Some (case find_bucket B db [] (split_slash x) of None \<Rightarrow> [] | Some b \<Rightarrow> filter (\<lambda>k. k \<noteq> []) (bKeys B db b), db)"

definition TDB_Rem :: "('b, 'm) bolt_scheme \<Rightarrow> 'b \<Rightarrow> string \<Rightarrow> string \<Rightarrow> 'b option" where
  "TDB_Rem B db x name =
     Some (case find_bucket B db [] (split_slash x) of
             None \<Rightarrow> db
           | Some b \<Rightarrow> (case bDelete B db b name of None \<Rightarrow> db | Some db' \<Rightarrow> db'))"

definition TDB_Clear :: "('b, 'm) bolt_scheme \<Rightarrow> 'b \<Rightarrow> string \<Rightarrow> 'b option" where
  "TDB_Clear B db x =
     Some (case find_bucket B db [] (split_slash x) of
             None \<Rightarrow> db
           | Some b \<Rightarrow> (case bForEachDelete B db b of None \<Rightarrow> db | Some db' \<Rightarrow> db'))"

definition TDB :: "('b, 'm) bolt_scheme \<Rightarrow> 'b GoStormDB" where
  "TDB B = \<lparr>opGet = TDB_Get B, opSet = TDB_Set B, opList = TDB_List B, opRem = TDB_Rem B, opClear = TDB_Clear B\<rparr>"

section \<open>The read cache\<close>

text \<open>A cached value may be nil, too. \<open>rc_open\<close> tells that \<^verbatim>\<open>CloseDB\<close> has not set the store and the maps to nil.\<close>

record 's DBReadCache =
  rc_db :: 's
  rc_list :: "string \<rightharpoonup> string list"
  rc_data :: "string \<times> string \<rightharpoonup> jtext option"
  rc_open :: bool

definition NewDBReadCache :: "'s \<Rightarrow> 's DBReadCache" where
  "NewDBReadCache db = \<lparr>rc_db = db, rc_list = Map.empty, rc_data = Map.empty, rc_open = True\<rparr>"

definition rc_Get :: "'s GoStormDB \<Rightarrow> 's DBReadCache \<Rightarrow> string \<Rightarrow> string \<Rightarrow> (jtext option \<times> 's DBReadCache) option" where
  "rc_Get D c x name =
     (if \<not> rc_open c then Some (None, c)
      else case rc_data c (x, name) of
             Some data \<Rightarrow> Some (data, c)
           | None \<Rightarrow>
               (case opGet D (rc_db c) x name of
                  None \<Rightarrow> None
                | Some (data, db) \<Rightarrow> Some (data, c\<lparr>rc_db := db, rc_data := (rc_data c)((x, name) \<mapsto> data)\<rparr>)))"

definition rc_Set :: "bool \<Rightarrow> 's GoStormDB \<Rightarrow> 's DBReadCache \<Rightarrow> string \<Rightarrow> string \<Rightarrow> jtext \<Rightarrow> 's DBReadCache option" where
  "rc_Set ReadOnly D c x name value =
     (if ReadOnly \<or> \<not> rc_open c then Some c
      else let c = c\<lparr>rc_data := (rc_data c)((x, name) \<mapsto> Some value), rc_list := (rc_list c)(x := None)\<rparr>
        in map_option (\<lambda>db. c\<lparr>rc_db := db\<rparr>) (opSet D (rc_db c) x name value))"

definition rc_List :: "'s GoStormDB \<Rightarrow> 's DBReadCache \<Rightarrow> string \<Rightarrow> (string list \<times> 's DBReadCache) option" where
  "rc_List D c x =
     (if \<not> rc_open c then Some ([], c)
      else case rc_list c x of
             Some names \<Rightarrow> Some (names, c)
           | None \<Rightarrow>
               (case opList D (rc_db c) x of
                  None \<Rightarrow> None
                | Some (names, db) \<Rightarrow> Some (names, c\<lparr>rc_db := db, rc_list := (rc_list c)(x \<mapsto> names)\<rparr>)))"

definition rc_Rem :: "bool \<Rightarrow> 's GoStormDB \<Rightarrow> 's DBReadCache \<Rightarrow> string \<Rightarrow> string \<Rightarrow> 's DBReadCache option" where
  "rc_Rem ReadOnly D c x name =
     (if ReadOnly \<or> \<not> rc_open c then Some c
      else let c = c\<lparr>rc_data := (rc_data c)((x, name) := None), rc_list := (rc_list c)(x := None)\<rparr>
        in map_option (\<lambda>db. c\<lparr>rc_db := db\<rparr>) (opRem D (rc_db c) x name))"

definition rc_Clear :: "bool \<Rightarrow> 's GoStormDB \<Rightarrow> 's DBReadCache \<Rightarrow> string \<Rightarrow> 's DBReadCache option" where
  "rc_Clear ReadOnly D c x =
     (if ReadOnly then Some c
      else map_option (\<lambda>db. c\<lparr>rc_db := db, rc_list := (rc_list c)(x := None), rc_data := (\<lambda>key. if fst key = x then None else rc_data c key)\<rparr>)
        (if rc_open c then opClear D (rc_db c) x else Some (rc_db c)))"

definition rc_CloseDB :: "'s DBReadCache \<Rightarrow> 's DBReadCache" where
  "rc_CloseDB c = c\<lparr>rc_open := False, rc_list := Map.empty, rc_data := Map.empty\<rparr>"

definition ReadCacheDB :: "bool \<Rightarrow> 's GoStormDB \<Rightarrow> 's DBReadCache GoStormDB" where
  "ReadCacheDB ReadOnly D = \<lparr>opGet = rc_Get D, opSet = rc_Set ReadOnly D, opList = rc_List D, opRem = rc_Rem ReadOnly D, opClear = rc_Clear ReadOnly D\<rparr>"

section \<open>The router\<close>

datatype dbid = BboltDB | JsonFiles

text \<open>The routing table, and the stores it routes to.\<close>

record 'b XPathDBRouter =
  rt_bolt :: 'b
  rt_json :: json_dir
  rt_dbs :: "dbid list"
  rt_routes :: "string list"
  rt_route2db :: "string \<rightharpoonup> dbid"

definition NewXPathDBRouter :: "'b \<Rightarrow> json_dir \<Rightarrow> 'b XPathDBRouter" where
  "NewXPathDBRouter b j = \<lparr>rt_bolt = b, rt_json = j, rt_dbs = [], rt_routes = [], rt_route2db = Map.empty\<rparr>"

definition xPathToRoute :: "string \<Rightarrow> string" where
  "xPathToRoute x = ToLower (TrimSpace x)"

text \<open>\<^verbatim>\<open>sort.Slice\<close> by descending length is not stable, but different routes of one length cannot both be prefixes of a path, so that their
  order does not matter.\<close>

definition add_route :: "dbid \<Rightarrow> string \<Rightarrow> 'b XPathDBRouter \<Rightarrow> 'b XPathDBRouter" where
  "add_route db route r =
     r\<lparr>rt_dbs := (if db \<in> set (rt_dbs r) then rt_dbs r else rt_dbs r @ [db]), rt_route2db := (rt_route2db r)(route \<mapsto> db),
       rt_routes := sort_key (\<lambda>p. - int (length p)) (rt_routes r @ [route])\<rparr>"

text \<open>\<^verbatim>\<open>RegisterRoute\<close>; the first store also gets the empty route. Its errors are ignored by the callers.\<close>

definition RegisterRoute :: "dbid \<Rightarrow> string \<Rightarrow> 'b XPathDBRouter \<Rightarrow> 'b XPathDBRouter" where
  "RegisterRoute db x r =
     (let newRoute = xPathToRoute x
      in if newRoute \<in> set (rt_routes r) then r
         else add_route db newRoute (if rt_dbs r = [] \<and> newRoute \<noteq> [] then add_route db [] r else r))"

definition getDBForXPath :: "string \<Rightarrow> 'b XPathDBRouter \<Rightarrow> dbid option" where
  "getDBForXPath x r =
     (if rt_dbs r = [] then None
      else case List.find (\<lambda>p. prefix p (xPathToRoute x)) (rt_routes r) of None \<Rightarrow> None | Some p \<Rightarrow> rt_route2db r p)"

text \<open>A call on the store of a path; a call on a nil interface panics.\<close>

definition route_read :: "string \<Rightarrow> ('b \<Rightarrow> ('a \<times> 'b) option) \<Rightarrow> (json_dir \<Rightarrow> ('a \<times> json_dir) option) \<Rightarrow>
    'b XPathDBRouter \<Rightarrow> ('a \<times> 'b XPathDBRouter) option" where
  "route_read x f g r =
     (case getDBForXPath x r of
        None \<Rightarrow> None
      | Some BboltDB \<Rightarrow> map_option (\<lambda>(a, b). (a, r\<lparr>rt_bolt := b\<rparr>)) (f (rt_bolt r))
      | Some JsonFiles \<Rightarrow> map_option (\<lambda>(a, j). (a, r\<lparr>rt_json := j\<rparr>)) (g (rt_json r)))"

definition route_write :: "string \<Rightarrow> ('b \<Rightarrow> 'b option) \<Rightarrow> (json_dir \<Rightarrow> json_dir option) \<Rightarrow> 'b XPathDBRouter \<Rightarrow> 'b XPathDBRouter option" where
  "route_write x f g r =
     (case getDBForXPath x r of
        None \<Rightarrow> None
      | Some BboltDB \<Rightarrow> map_option (\<lambda>b. r\<lparr>rt_bolt := b\<rparr>) (f (rt_bolt r))
      | Some JsonFiles \<Rightarrow> map_option (\<lambda>j. r\<lparr>rt_json := j\<rparr>) (g (rt_json r)))"

definition RouterDB :: "('b, 'm) bolt_scheme \<Rightarrow> 'b XPathDBRouter GoStormDB" where
  "RouterDB B =
     \<lparr>opGet = (\<lambda>r x name. route_read x (\<lambda>b. TDB_Get B b x name) (\<lambda>j. JsonDB_Get j x name) r),
      opSet = (\<lambda>r x name v. route_write x (\<lambda>b. TDB_Set B b x name v) (\<lambda>j. JsonDB_Set j x name v) r),
      opList = (\<lambda>r x. route_read x (\<lambda>b. TDB_List B b x) (\<lambda>j. JsonDB_List j x) r),
      opRem = (\<lambda>r x name. route_write x (\<lambda>b. TDB_Rem B b x name) (\<lambda>j. JsonDB_Rem j x name) r),
      opClear = (\<lambda>r x. route_write x (\<lambda>b. TDB_Clear B b x) (\<lambda>j. JsonDB_Clear j x) r)\<rparr>"

section \<open>Migrations\<close>

text \<open>\<^verbatim>\<open>isByteArraysEqualJson\<close>: \<open>None\<close> is its error.\<close>

definition isByteArraysEqualJson :: "jtext \<Rightarrow> jtext \<Rightarrow> bool option" where
  "isByteArraysEqualJson a b =
     (if text_len a = 0 \<and> text_len b = 0 then Some True
      else if text_len a = 0 \<or> text_len b = 0 then Some False
      else if a = b then Some True
      else case (a, b) of (Text v, Text w) \<Rightarrow> Some (go_value v = go_value w) | _ \<Rightarrow> None)"

definition isByteArraysEqualJsonOptimized :: "jtext \<Rightarrow> jtext \<Rightarrow> bool option" where
  "isByteArraysEqualJsonOptimized a b =
     (if text_len a \<noteq> text_len b then Some False else if text_len a = 0 then Some True else if a = b then Some True else isByteArraysEqualJson a b)"

definition verifyMigration :: "'t GoStormDB \<Rightarrow> string \<Rightarrow> string \<Rightarrow> jtext \<Rightarrow> 't \<Rightarrow> (bool \<times> 't) option" where
  "verifyMigration T x name orig t =
     map_option (\<lambda>(d, t). (case d of None \<Rightarrow> False | Some d \<Rightarrow> isByteArraysEqualJsonOptimized orig d = Some True, t)) (opGet T t x name)"

datatype migration = Migrated | Skipped | Failed

definition MigrateSingle :: "'s GoStormDB \<Rightarrow> 't GoStormDB \<Rightarrow> string \<Rightarrow> string \<Rightarrow> 's \<times> 't \<Rightarrow> (migration \<times> 's \<times> 't) option" where
  "MigrateSingle S T x name st =
     (case opGet S (fst st) x name of
        None \<Rightarrow> None
      | Some (None, s) \<Rightarrow> Some (Skipped, s, snd st)
      | Some (Some d, s) \<Rightarrow>
          (case opGet T (snd st) x name of
             None \<Rightarrow> None
           | Some (td, t) \<Rightarrow>
               if (case td of None \<Rightarrow> False | Some e \<Rightarrow> isByteArraysEqualJson d e = Some True) then Some (Skipped, s, t)
               else case opSet T t x name d of
                      None \<Rightarrow> None
                    | Some t \<Rightarrow> map_option (\<lambda>(ok, t). (if ok then Migrated else Failed, s, t)) (verifyMigration T x name d t)))"

definition safeMigrate :: "'s GoStormDB \<Rightarrow> 't GoStormDB \<Rightarrow> string \<Rightarrow> string \<Rightarrow> bool \<Rightarrow> 's \<times> 't \<Rightarrow> ('s \<times> 't) option" where
  "safeMigrate S T x name clearSource st =
     (case MigrateSingle S T x name st of
        None \<Rightarrow> None
      | Some (m, s, t) \<Rightarrow> if m = Migrated \<and> clearSource then map_option (\<lambda>s. (s, t)) (opRem S s x name) else Some (s, t))"

text \<open>\<^verbatim>\<open>migrateMissing\<close> copies what one of the stores lacks.\<close>

definition copy_missing :: "'s GoStormDB \<Rightarrow> 't GoStormDB \<Rightarrow> string \<Rightarrow> string \<Rightarrow> 's \<times> 't \<Rightarrow> ('s \<times> 't) option" where
  "copy_missing S T x name st =
     (case opGet T (snd st) x name of
        None \<Rightarrow> None
      | Some (Some _, t) \<Rightarrow> Some (fst st, t)
      | Some (None, t) \<Rightarrow>
          (case opGet S (fst st) x name of
             None \<Rightarrow> None
           | Some (None, s) \<Rightarrow> Some (s, t)
           | Some (Some d, s) \<Rightarrow> map_option (\<lambda>t. (s, t)) (opSet T t x name d)))"

definition migrateMissing :: "'s GoStormDB \<Rightarrow> 't GoStormDB \<Rightarrow> string \<Rightarrow> string \<Rightarrow> 's \<times> 't \<Rightarrow> ('s \<times> 't) option" where
  "migrateMissing S T x name st =
     (case copy_missing S T x name st of
        None \<Rightarrow> None
      | Some (s, t) \<Rightarrow> map_option (\<lambda>(t, s). (s, t)) (copy_missing T S x name (t, s)))"

text \<open>\<^verbatim>\<open>MigrateAll\<close>: how many entries were migrated and skipped, and whether one failed.\<close>

fun migrate_names :: "'s GoStormDB \<Rightarrow> 't GoStormDB \<Rightarrow> string \<Rightarrow> string list \<Rightarrow> nat \<times> nat \<times> bool \<Rightarrow> 's \<times> 't \<Rightarrow> ((nat \<times> nat \<times> bool) \<times> 's \<times> 't) option" where
  "migrate_names S T x [] acc st = Some (acc, st)"
| "migrate_names S T x (n # ns) (mi, sk, er) st =
     (case MigrateSingle S T x n st of
        None \<Rightarrow> None
      | Some (Migrated, st) \<Rightarrow> migrate_names S T x ns (Suc mi, sk, er) st
      | Some (Skipped, st) \<Rightarrow> migrate_names S T x ns (mi, Suc sk, er) st
      | Some (Failed, st) \<Rightarrow> migrate_names S T x ns (mi, sk, True) st)"

definition MigrateAll :: "'s GoStormDB \<Rightarrow> 't GoStormDB \<Rightarrow> string \<Rightarrow> 's \<times> 't \<Rightarrow> ((nat \<times> nat \<times> bool) \<times> 's \<times> 't) option" where
  "MigrateAll S T x st =
     (case opList S (fst st) x of None \<Rightarrow> None | Some (names, s) \<Rightarrow> migrate_names S T x names (0, 0, False) (s, snd st))"

section \<open>Normal forms\<close>

lemma fold_update_distinct:
  "distinct (map fst kvs) \<Longrightarrow> fst ` set al \<inter> fst ` set kvs = {} \<Longrightarrow> fold (\<lambda>(k, v). AList.update k v) kvs al = al @ kvs"
proof (induction kvs arbitrary: al)
  case (Cons kv kvs)
  have "AList.update (fst kv) (snd kv) al = al @ [kv]" using Cons.prems(2) by (induction al) auto
  then show ?case using Cons by (cases kv) auto
qed simp

lemma fold_update_keys: "distinct (map fst al) \<Longrightarrow> distinct (map fst (fold (\<lambda>(k, v). AList.update k v) kvs al))"
  by (induction kvs arbitrary: al) (auto simp: distinct_update)

lemma fold_update_map: "map_of (fold (\<lambda>(k, v). AList.update k v) kvs al) = map_of al ++ map_of (rev kvs)"
  by (induction kvs arbitrary: al) (auto simp: update_conv' map_add_def fun_eq_iff split: option.splits)

lemma map_of_sort: "distinct (map fst kvs) \<Longrightarrow> map_of (sort_key fst kvs) = map_of kvs"
  by (intro map_of_eqI) (auto simp: map_of_eq_Some_iff distinct_map inj_on_def)

lemma sorted_members: "sorted_wrt (<) (map fst (map_members kvs))"
  using fold_update_keys [of "[]" kvs] by (simp add: map_members_def strict_sorted_iff distinct_map)

lemma map_members_sorted: "sorted_wrt (<) (map fst kvs) \<Longrightarrow> map_members kvs = kvs"
  using fold_update_distinct [of kvs "[]"] by (simp add: map_members_def strict_sorted_iff sort_key_id_if_sorted)

lemma map_of_members: "map_of (map_members kvs) = map_of (rev kvs)"
  using fold_update_keys [of "[]" kvs] by (simp add: map_members_def map_of_sort fold_update_map)

lemma update_subset: "set (AList.update k v al) \<subseteq> insert (k, v) (set al)"
  by (induction al) auto

lemma members_subset: "set (map_members kvs) \<subseteq> set kvs"
proof -
  have "set (fold (\<lambda>(k, v). AList.update k v) kvs al) \<subseteq> set al \<union> set kvs" for al
    using update_subset by (induction kvs arbitrary: al) fastforce+
  then show ?thesis by (fastforce simp: map_members_def)
qed

lemma go_value_idem [simp]: "go_value (go_value v) = go_value v"
proof (induction v rule: measure_induct_rule [of size])
  case (less v)
  show ?case
  proof (cases v)
    case (JArr vs)
    then show ?thesis using less by (auto simp: less_Suc_eq_le size_list_estimation')
  next
    case (JObj kvs)
    let ?m = "map_members (map (\<lambda>(k, v). (k, go_value v)) kvs)"
    have "map (\<lambda>(k, v). (k, go_value v)) ?m = ?m"
      using less JObj jval_size_obj [of _ _ kvs] members_subset [of "map (\<lambda>(k, v). (k, go_value v)) kvs"] by (intro map_idI) fastforce
    then show ?thesis using JObj by (simp add: map_members_sorted sorted_members)
  qed simp_all
qed

text \<open>Texts of objects without double keys, as the program writes them.\<close>

fun tidy :: "jval \<Rightarrow> bool" where
  "tidy (JArr vs) = (\<forall>v \<in> set vs. tidy v)"
| "tidy (JObj kvs) = (distinct (map fst kvs) \<and> (\<forall>(k, v) \<in> set kvs. tidy v))"
| "tidy v = True"

lemma tidy_members: "distinct (map fst kvs) \<Longrightarrow> map_members kvs = sort_key fst kvs"
  using fold_update_distinct [of kvs "[]"] by (simp add: map_members_def)

lemma distinct_sort_fst: "distinct (map fst (sort_key fst xs)) \<longleftrightarrow> distinct (map fst xs)"
  by (metis mset_map mset_sort mset_eq_imp_distinct_iff)

lemma sum_sort: "sum_list (map f (sort_key g xs)) = (sum_list (map f xs) :: nat)"
proof -
  have "sum_mset (mset (map f (sort_key g xs))) = sum_mset (mset (map f xs))" by simp
  then show ?thesis by (simp only: sum_mset_sum_list)
qed

lemma tidy_go_value: "tidy v \<Longrightarrow> tidy (go_value v) \<and> val_len (go_value v) = val_len v"
proof (induction v rule: measure_induct_rule [of size])
  case (less v)
  show ?case
  proof (cases v)
    case (JArr vs)
    have "tidy (go_value w) \<and> val_len (go_value w) = val_len w" if "w \<in> set vs" for w
      using less that JArr by (auto simp: less_Suc_eq_le size_list_estimation')
    then show ?thesis using JArr by (auto intro!: arg_cong [of _ _ sum_list] map_cong)
  next
    case (JObj kvs)
    have e: "tidy (go_value w) \<and> val_len (go_value w) = val_len w" if "(k, w) \<in> set kvs" for k w
      using less that JObj jval_size_obj [OF that] by fastforce
    let ?m = "map (\<lambda>(k, v). (k, go_value v)) kvs"
    have d: "distinct (map fst ?m)" using less.prems JObj by (simp add: case_prod_unfold comp_def)
    have "sum_list (map (\<lambda>(k, v). str_len k + 1 + val_len v) (sort_key fst ?m)) = sum_list (map (\<lambda>(k, v). str_len k + 1 + val_len v) ?m)"
      by (rule sum_sort)
    also have "\<dots> = sum_list (map (\<lambda>(k, v). str_len k + 1 + val_len v) kvs)" using e
      by (simp add: comp_def case_prod_unfold) (intro arg_cong [of _ _ sum_list] map_cong, auto)
    finally show ?thesis using JObj e d distinct_sort_fst [of ?m] by (auto simp: tidy_members [OF d])
  qed simp_all
qed

section \<open>The contract of a store\<close>

text \<open>The paths the program uses, and the entries it writes.\<close>

definition settings_paths :: "string set" where
  "settings_paths = {''Settings'', ''Torrents''}"

definition good :: "string \<Rightarrow> jtext \<Rightarrow> bool" where
  "good name v \<longleftrightarrow> name \<noteq> [] \<and> (\<exists>kvs. v = Text (JObj kvs) \<and> tidy (JObj kvs))"

text \<open>The same object, in a text of the same length.\<close>

fun same_json :: "jtext \<Rightarrow> jtext \<Rightarrow> bool" where
  "same_json (Text v) (Text w) = (go_value v = go_value w \<and> val_len v = val_len w)"
| "same_json _ _ = False"

locale settings_store =
  fixes D :: "'s GoStormDB" and look :: "'s \<Rightarrow> string \<Rightarrow> string \<rightharpoonup> jtext" and ok :: "'s \<Rightarrow> bool" and norm :: "'s \<Rightarrow> string \<Rightarrow> jtext \<Rightarrow> jtext"
  assumes get_law: "ok s \<Longrightarrow> x \<in> settings_paths \<Longrightarrow>
      \<exists>s'. opGet D s x n = Some (look s x n, s') \<and> ok s' \<and> (\<forall>y \<in> settings_paths. look s' y = look s y)"
    and set_law: "ok s \<Longrightarrow> x \<in> settings_paths \<Longrightarrow> good n v \<Longrightarrow>
      \<exists>s'. opSet D s x n v = Some s' \<and> ok s' \<and> (\<forall>y \<in> settings_paths. look s' y = (if y = x then (look s x)(n \<mapsto> norm s x v) else look s y))"
    and rem_law: "ok s \<Longrightarrow> x \<in> settings_paths \<Longrightarrow>
      \<exists>s'. opRem D s x n = Some s' \<and> ok s' \<and> (\<forall>y \<in> settings_paths. look s' y = (if y = x then (look s x)(n := None) else look s y))"
    and list_law: "ok s \<Longrightarrow> x \<in> settings_paths \<Longrightarrow>
      \<exists>ns s'. opList D s x = Some (ns, s') \<and> set ns = dom (look s x) \<and> ok s' \<and> (\<forall>y \<in> settings_paths. look s' y = look s y)"
    and look_good: "ok s \<Longrightarrow> x \<in> settings_paths \<Longrightarrow> look s x n = Some v \<Longrightarrow> good n v"
    and norm_good: "good n v \<Longrightarrow> good n (norm s x v) \<and> same_json v (norm s x v)"

section \<open>The JSON files keep the contract\<close>

definition json_look :: "json_dir \<Rightarrow> string \<Rightarrow> string \<rightharpoonup> jtext" where
  "json_look s x = (case readJsonFileAsMap s (xPathToFilename x) of None \<Rightarrow> Map.empty | Some root \<Rightarrow> (\<lambda>n. map_option (\<lambda>v. Text (go_value v)) (map_of root n)))"

definition json_norm :: "jtext \<Rightarrow> jtext" where
  "json_norm v = (case v of Text v \<Rightarrow> Text (go_value v) | NotJson s \<Rightarrow> NotJson s)"

text \<open>Every file can be written and is an object whose members are objects.\<close>

definition json_ok :: "json_dir \<Rightarrow> bool" where
  "json_ok s \<longleftrightarrow> (\<forall>f. jd_writable s f) \<and> (\<forall>f t. jd_files s f = Some t \<longrightarrow> (\<exists>kvs. t = Text (JObj kvs) \<and> tidy (JObj kvs) \<and> (\<forall>(k, v) \<in> set kvs. good k (Text v))))"

lemma settings_files: "x \<in> settings_paths \<Longrightarrow> y \<in> settings_paths \<Longrightarrow> xPathToFilename x = xPathToFilename y \<longleftrightarrow> x = y"
  by (auto simp: settings_paths_def xPathToFilename_def ToLower_def lower_def)

definition root_ok :: "(string \<times> jval) list \<Rightarrow> bool" where
  "root_ok m \<longleftrightarrow> sorted_wrt (<) (map fst m) \<and> (\<forall>(k, v) \<in> set m. go_value v = v \<and> good k (Text v))"

lemma good_go_value: "good k (Text v) \<Longrightarrow> good k (Text (go_value v))"
proof -
  assume "good k (Text v)"
  then obtain kvs where "v = JObj kvs" "tidy v" "k \<noteq> []" by (auto simp: good_def)
  then show ?thesis using tidy_go_value [of v] by (auto simp: good_def)
qed

lemma json_root:
  assumes "json_ok s"
  shows "\<exists>m. readJsonFileAsMap s f = Some m \<and> root_ok m"
proof (cases "jd_files s f")
  case None
  then show ?thesis by (simp add: readJsonFileAsMap_def root_ok_def)
next
  case (Some t)
  then obtain kvs where k: "t = Text (JObj kvs)" "tidy (JObj kvs)" "\<forall>(k, v) \<in> set kvs. good k (Text v)" using assms unfolding json_ok_def by blast
  let ?m = "map (\<lambda>(k, v). (k, go_value v)) kvs"
  have "root_ok (map_members ?m)" using k(3) members_subset [of ?m] good_go_value by (fastforce simp: root_ok_def sorted_members)
  then show ?thesis using Some k(1) by (simp add: readJsonFileAsMap_def)
qed

lemma root_read:
  assumes "root_ok m" "jd_files s f = Some (Text (JObj m))"
  shows "readJsonFileAsMap s f = Some m"
proof -
  have "map (\<lambda>(k, v). (k, go_value v)) m = m" using assms(1) by (intro map_idI) (auto simp: root_ok_def)
  then show ?thesis using assms by (simp add: readJsonFileAsMap_def root_ok_def map_members_sorted)
qed

lemma root_tidy: "root_ok m \<Longrightarrow> tidy (JObj m)"
  by (auto simp: root_ok_def good_def strict_sorted_iff)

lemma root_update:
  assumes "root_ok m" "good n (Text v)"
  shows "root_ok (sort_key fst (AList.update n (go_value v) m))" "map_of (sort_key fst (AList.update n (go_value v) m)) = (map_of m)(n \<mapsto> go_value v)"
proof -
  have "distinct (map fst (AList.update n (go_value v) m))" using assms(1) by (simp add: root_ok_def strict_sorted_iff distinct_update)
  then show "root_ok (sort_key fst (AList.update n (go_value v) m))" "map_of (sort_key fst (AList.update n (go_value v) m)) = (map_of m)(n \<mapsto> go_value v)"
    using assms update_subset [of n "go_value v" m] good_go_value [OF assms(2)]
    by (auto simp: root_ok_def strict_sorted_iff distinct_map map_of_sort update_conv')
qed

lemma root_delete:
  assumes "root_ok m"
  shows "root_ok (sort_key fst (AList.delete n m))" "map_of (sort_key fst (AList.delete n m)) = (map_of m)(n := None)"
proof -
  have d: "distinct (map fst (AList.delete n m))" using assms by (simp add: root_ok_def strict_sorted_iff distinct_delete)
  have "set (AList.delete n m) \<subseteq> set m" by (induction m) auto
  then show "root_ok (sort_key fst (AList.delete n m))" using assms d by (auto simp: root_ok_def strict_sorted_iff distinct_map)
  show "map_of (sort_key fst (AList.delete n m)) = (map_of m)(n := None)" using d by (simp add: map_of_sort delete_conv')
qed

lemma json_write:
  assumes "json_ok s" "root_ok m" "x \<in> settings_paths"
    and "s' = s\<lparr>jd_files := (jd_files s)(xPathToFilename x \<mapsto> Text (JObj m))\<rparr>"
  shows "json_ok s'" "\<forall>y \<in> settings_paths. json_look s' y = (if y = x then (\<lambda>n. map_option Text (map_of m n)) else json_look s y)"
proof -
  show "json_ok s'" using assms root_tidy [OF assms(2)] by (auto simp: json_ok_def root_ok_def)
  have "readJsonFileAsMap s' (xPathToFilename x) = Some m" using assms(2,4) by (intro root_read) auto
  moreover have "readJsonFileAsMap s' (xPathToFilename y) = readJsonFileAsMap s (xPathToFilename y)" if "y \<in> settings_paths" "y \<noteq> x" for y
    using that settings_files [OF that(1) assms(3)] assms(4) by (simp add: readJsonFileAsMap_def)
  moreover have "go_value v = v" if "map_of m n = Some v" for n v using assms(2) map_of_SomeD [OF that] by (auto simp: root_ok_def)
  ultimately show "\<forall>y \<in> settings_paths. json_look s' y = (if y = x then (\<lambda>n. map_option Text (map_of m n)) else json_look s y)"
    by (auto simp: json_look_def fun_eq_iff option.map_comp split: option.split intro!: map_option_cong)
qed

lemma root_map: "root_ok m \<Longrightarrow> map_option (\<lambda>v. Text (go_value v)) (map_of m n) = map_option Text (map_of m n)"
  by (cases "map_of m n") (auto simp: root_ok_def dest!: map_of_SomeD)

lemma json_look_root: "readJsonFileAsMap s (xPathToFilename x) = Some m \<Longrightarrow> root_ok m \<Longrightarrow> json_look s x = (\<lambda>n. map_option Text (map_of m n))"
  by (simp add: json_look_def root_map fun_eq_iff)

interpretation json: settings_store JsonDB json_look json_ok "\<lambda>s x. json_norm"
proof unfold_locales
  fix s x n v
  assume ok: "json_ok s" and x: "x \<in> settings_paths"
  obtain m where m: "readJsonFileAsMap s (xPathToFilename x) = Some m" "root_ok m" using json_root [OF ok] by blast
  note l = json_look_root [OF m]
  show "\<exists>s'. opGet JsonDB s x n = Some (json_look s x n, s') \<and> json_ok s' \<and> (\<forall>y \<in> settings_paths. json_look s' y = json_look s y)"
    using ok m by (auto simp: JsonDB_def JsonDB_Get_def json_look_def)
  show "\<exists>ns s'. opList JsonDB s x = Some (ns, s') \<and> set ns = dom (json_look s x) \<and> json_ok s' \<and> (\<forall>y \<in> settings_paths. json_look s' y = json_look s y)"
    using ok m l by (auto simp: JsonDB_def JsonDB_List_def dom_def map_of_eq_None_iff)
  show "good n v" if "json_look s x n = Some v" using that m(2) l by (auto simp: root_ok_def dest!: map_of_SomeD)
  have w: "writeMapAsJsonFile s (xPathToFilename x) (Some m') = s\<lparr>jd_files := (jd_files s)(xPathToFilename x \<mapsto> Text (JObj (sort_key fst m')))\<rparr>" for m'
    using ok by (simp add: writeMapAsJsonFile_def json_ok_def)
  show "\<exists>s'. opRem JsonDB s x n = Some s' \<and> json_ok s' \<and> (\<forall>y \<in> settings_paths. json_look s' y = (if y = x then (json_look s x)(n := None) else json_look s y))"
    using json_write [OF ok root_delete(1) [OF m(2)] x refl, of n] m w l
    by (auto simp: JsonDB_def JsonDB_Rem_def Let_def root_delete(2) fun_eq_iff)
  show "\<exists>s'. opSet JsonDB s x n v = Some s' \<and> json_ok s' \<and> (\<forall>y \<in> settings_paths. json_look s' y = (if y = x then (json_look s x)(n \<mapsto> json_norm v) else json_look s y))"
    if g: "good n v"
  proof -
    obtain kvs where v: "v = Text (JObj kvs)" using g by (auto simp: good_def)
    show ?thesis using json_write [OF ok root_update(1) [OF m(2) g [unfolded v]] x refl] m w l root_update(2) [OF m(2) g [unfolded v]]
      by (auto simp: JsonDB_def JsonDB_Set_def Let_def v json_norm_def fun_eq_iff simp del: go_value.simps)
  qed
next
  fix n v and s :: json_dir and x :: string
  assume g: "good n v"
  then obtain kvs where v: "v = Text (JObj kvs)" "tidy (JObj kvs)" by (auto simp: good_def)
  show "good n (json_norm v) \<and> same_json v (json_norm v)"
    using good_go_value [of n "JObj kvs"] tidy_go_value [OF v(2)] g v(1) by (simp add: json_norm_def del: go_value.simps)
qed

section \<open>The bbolt database keeps the contract\<close>

text \<open>The documented behaviour of bbolt: a new bucket is empty, puts and deletes change one key, and the keys of a bucket are those with
  a value or a bucket.\<close>

definition bolt_ok :: "('b, 'm) bolt_scheme \<Rightarrow> bool" where
  "bolt_ok B \<longleftrightarrow>
     (\<forall>db p db'. bCreate B db p = Some db' \<longrightarrow>
        (\<forall>q. bBucket B db' q \<longleftrightarrow> bBucket B db q \<or> q = p) \<and> (\<forall>q n. bGet B db' q n = (if q = p \<and> \<not> bBucket B db p then None else bGet B db q n)))
     \<and> (\<forall>db p n v db'. bBucket B db p \<longrightarrow> bPut B db p n v = Some db' \<longrightarrow>
        bBucket B db' = bBucket B db \<and> (\<forall>q m. bGet B db' q m = (if q = p \<and> m = n then Some v else bGet B db q m)))
     \<and> (\<forall>db p n db'. bBucket B db p \<longrightarrow> bDelete B db p n = Some db' \<longrightarrow>
        bBucket B db' = bBucket B db \<and> (\<forall>q m. bGet B db' q m = (if q = p \<and> m = n then None else bGet B db q m)))
     \<and> (\<forall>db p n. bBucket B db p \<longrightarrow> (n \<in> set (bKeys B db p) \<longleftrightarrow> bGet B db p n \<noteq> None \<or> bBucket B db (p @ [n])))"

text \<open>Updates in the buckets of the program do not fail.\<close>

definition bolt_writes :: "('b, 'm) bolt_scheme \<Rightarrow> bool" where
  "bolt_writes B \<longleftrightarrow> (\<forall>x \<in> settings_paths. \<forall>db.
     bCreate B db [x] \<noteq> None \<and> (\<forall>n v. n \<noteq> [] \<longrightarrow> bPut B db [x] n v \<noteq> None) \<and> (\<forall>n. bDelete B db [x] n \<noteq> None))"

definition tdb_look :: "('b, 'm) bolt_scheme \<Rightarrow> 'b \<Rightarrow> string \<Rightarrow> string \<rightharpoonup> jtext" where
  "tdb_look B db x = (if bBucket B db [x] then bGet B db [x] else Map.empty)"

definition tdb_ok :: "('b, 'm) bolt_scheme \<Rightarrow> 'b \<Rightarrow> bool" where
  "tdb_ok B db \<longleftrightarrow> (\<forall>x \<in> settings_paths. \<forall>n. \<not> bBucket B db [x, n] \<and> (\<forall>v. bBucket B db [x] \<and> bGet B db [x] n = Some v \<longrightarrow> good n v))"

lemma split_settings: "x \<in> settings_paths \<Longrightarrow> split_slash x = [x]"
  by (auto simp: settings_paths_def)

lemma bolt_laws:
  assumes "bolt_ok B"
  shows "bCreate B db p = Some db' \<Longrightarrow> bBucket B db' q \<longleftrightarrow> bBucket B db q \<or> q = p"
    and "bCreate B db p = Some db' \<Longrightarrow> bGet B db' q n = (if q = p \<and> \<not> bBucket B db p then None else bGet B db q n)"
    and "bBucket B db p \<Longrightarrow> bPut B db p n v = Some db' \<Longrightarrow> bBucket B db' = bBucket B db"
    and "bBucket B db p \<Longrightarrow> bPut B db p n v = Some db' \<Longrightarrow> bGet B db' q m = (if q = p \<and> m = n then Some v else bGet B db q m)"
    and "bBucket B db p \<Longrightarrow> bDelete B db p n = Some db' \<Longrightarrow> bBucket B db' = bBucket B db"
    and "bBucket B db p \<Longrightarrow> bDelete B db p n = Some db' \<Longrightarrow> bGet B db' q m = (if q = p \<and> m = n then None else bGet B db q m)"
    and "bBucket B db p \<Longrightarrow> n \<in> set (bKeys B db p) \<longleftrightarrow> bGet B db p n \<noteq> None \<or> bBucket B db (p @ [n])"
proof -
  note c = assms [unfolded bolt_ok_def, THEN conjunct1, rule_format]
    and u = assms [unfolded bolt_ok_def, THEN conjunct2, THEN conjunct1, rule_format]
    and d = assms [unfolded bolt_ok_def, THEN conjunct2, THEN conjunct2, THEN conjunct1, rule_format]
    and k = assms [unfolded bolt_ok_def, THEN conjunct2, THEN conjunct2, THEN conjunct2, rule_format]
  show "bBucket B db' q \<longleftrightarrow> bBucket B db q \<or> q = p" "bGet B db' q n = (if q = p \<and> \<not> bBucket B db p then None else bGet B db q n)"
    if "bCreate B db p = Some db'" using c [OF that] by simp_all
  show "bBucket B db' = bBucket B db" "bGet B db' q m = (if q = p \<and> m = n then Some v else bGet B db q m)"
    if "bBucket B db p" "bPut B db p n v = Some db'" using u [OF that] by simp_all
  show "bBucket B db' = bBucket B db" "bGet B db' q m = (if q = p \<and> m = n then None else bGet B db q m)"
    if "bBucket B db p" "bDelete B db p n = Some db'" using d [OF that] by simp_all
  show "n \<in> set (bKeys B db p) \<longleftrightarrow> bGet B db p n \<noteq> None \<or> bBucket B db (p @ [n])" if "bBucket B db p" using k [OF that] .
qed

lemma tdb_okD: "tdb_ok B db \<Longrightarrow> x \<in> settings_paths \<Longrightarrow> \<not> bBucket B db [x, n] \<and> (bBucket B db [x] \<and> bGet B db [x] n = Some v \<longrightarrow> good n v)"
  unfolding tdb_ok_def by blast

lemma tdb_okI: "(\<And>x n v. x \<in> settings_paths \<Longrightarrow> \<not> bBucket B db [x, n] \<and> (bBucket B db [x] \<and> bGet B db [x] n = Some v \<longrightarrow> good n v)) \<Longrightarrow> tdb_ok B db"
  unfolding tdb_ok_def by blast

lemma tdb_Rem:
  assumes "bolt_ok B" "bolt_writes B" "tdb_ok B db" "x \<in> settings_paths"
  shows "\<exists>db'. TDB_Rem B db x n = Some db' \<and> tdb_ok B db' \<and> (\<forall>y \<in> settings_paths. tdb_look B db' y = (if y = x then (tdb_look B db x)(n := None) else tdb_look B db y))"
proof (cases "bBucket B db [x]")
  case True
  obtain db' where d: "bDelete B db [x] n = Some db'" using assms(2,4) unfolding bolt_writes_def by blast
  note e = bolt_laws(5,6) [OF assms(1) True d]
  have "tdb_ok B db'" by (rule tdb_okI) (use e tdb_okD [OF assms(3)] in \<open>auto split: if_splits\<close>)
  then show ?thesis using True d e by (auto simp: TDB_Rem_def split_settings [OF assms(4)] tdb_look_def fun_eq_iff)
next
  case False
  then show ?thesis using assms(3) by (auto simp: TDB_Rem_def split_settings [OF assms(4)] tdb_look_def)
qed

lemma tdb_Set:
  assumes "bolt_ok B" "bolt_writes B" "tdb_ok B db" "x \<in> settings_paths" "good n v"
  shows "\<exists>db'. TDB_Set B db x n v = Some db' \<and> tdb_ok B db' \<and> (\<forall>y \<in> settings_paths. tdb_look B db' y = (if y = x then (tdb_look B db x)(n \<mapsto> v) else tdb_look B db y))"
proof -
  obtain d1 where d1: "bCreate B db [x] = Some d1" using assms(2,4) unfolding bolt_writes_def by blast
  obtain d2 where d2: "bPut B d1 [x] n v = Some d2" using assms(2,4,5) unfolding bolt_writes_def good_def by blast
  note e1 = bolt_laws(1,2) [OF assms(1) d1]
  have b: "bBucket B d1 [x]" by (simp add: e1(1))
  note e2 = bolt_laws(3,4) [OF assms(1) b d2]
  have "tdb_ok B d2" by (rule tdb_okI) (use e1 e2 tdb_okD [OF assms(3)] assms(5) in \<open>auto split: if_splits\<close>)
  then show ?thesis using d1 d2 e1 e2 by (auto simp: TDB_Set_def split_settings [OF assms(4)] tdb_look_def fun_eq_iff)
qed

lemma tdb_List:
  assumes "bolt_ok B" "tdb_ok B db" "x \<in> settings_paths"
  shows "\<exists>ns. TDB_List B db x = Some (ns, db) \<and> set ns = dom (tdb_look B db x)"
proof -
  have "set (filter (\<lambda>k. k \<noteq> []) (bKeys B db [x])) = dom (bGet B db [x])" if b: "bBucket B db [x]"
  proof -
    have k: "n \<in> set (bKeys B db [x]) \<longleftrightarrow> n \<in> dom (bGet B db [x])" for n using bolt_laws(7) [OF assms(1) b, of n] tdb_okD [OF assms(2,3), of n] by (simp add: dom_def)
    have "[] \<notin> dom (bGet B db [x])" using tdb_okD [OF assms(2,3), of "[]"] b by (auto simp: good_def)
    then show ?thesis using k by auto
  qed
  then have "set (if bBucket B db [x] then filter (\<lambda>k. k \<noteq> []) (bKeys B db [x]) else []) = dom (tdb_look B db x)"
    by (cases "bBucket B db [x]") (simp_all only: tdb_look_def if_True if_False list.set dom_empty refl)
  moreover have "TDB_List B db x = Some (if bBucket B db [x] then filter (\<lambda>k. k \<noteq> []) (bKeys B db [x]) else [], db)"
    by (simp add: TDB_List_def split_settings [OF assms(3)])
  ultimately show ?thesis by blast
qed

lemma tdb_store:
  assumes "bolt_ok B" "bolt_writes B"
  shows "settings_store (TDB B) (tdb_look B) (tdb_ok B) (\<lambda>db x v. v)"
proof unfold_locales
  fix db x n v
  assume ok: "tdb_ok B db" and x: "x \<in> settings_paths"
  show "\<exists>s'. opGet (TDB B) db x n = Some (tdb_look B db x n, s') \<and> tdb_ok B s' \<and> (\<forall>y \<in> settings_paths. tdb_look B s' y = tdb_look B db y)"
    using ok by (auto simp: TDB_def TDB_Get_def split_settings [OF x] tdb_look_def)
  show "\<exists>ns s'. opList (TDB B) db x = Some (ns, s') \<and> set ns = dom (tdb_look B db x) \<and> tdb_ok B s' \<and> (\<forall>y \<in> settings_paths. tdb_look B s' y = tdb_look B db y)"
    using tdb_List [OF assms(1) ok x] ok by (auto simp: TDB_def)
  show "good n v" if "tdb_look B db x n = Some v" using that tdb_okD [OF ok x] by (auto simp: tdb_look_def split: if_splits)
  show "\<exists>s'. opRem (TDB B) db x n = Some s' \<and> tdb_ok B s' \<and> (\<forall>y \<in> settings_paths. tdb_look B s' y = (if y = x then (tdb_look B db x)(n := None) else tdb_look B db y))"
    using tdb_Rem [OF assms ok x] by (simp add: TDB_def)
  show "\<exists>s'. opSet (TDB B) db x n v = Some s' \<and> tdb_ok B s' \<and> (\<forall>y \<in> settings_paths. tdb_look B s' y = (if y = x then (tdb_look B db x)(n \<mapsto> v) else tdb_look B db y))"
    if "good n v" using tdb_Set [OF assms ok x that] by (simp add: TDB_def)
next
  show "good n v \<and> same_json v v" if "good n v" for n v using that by (auto simp: good_def)
qed

section \<open>The read cache keeps the contract\<close>

definition rc_look :: "('s \<Rightarrow> string \<Rightarrow> string \<rightharpoonup> jtext) \<Rightarrow> 's DBReadCache \<Rightarrow> string \<Rightarrow> string \<rightharpoonup> jtext" where
  "rc_look look c x n = (case rc_data c (x, n) of Some d \<Rightarrow> d | None \<Rightarrow> look (rc_db c) x n)"

text \<open>What a cached value and the stored one have in common.\<close>

definition agrees :: "string \<Rightarrow> jtext option \<Rightarrow> jtext option \<Rightarrow> bool" where
  "agrees n d w = (case (d, w) of (None, None) \<Rightarrow> True | (Some v, Some w) \<Rightarrow> good n v \<and> same_json v w | _ \<Rightarrow> False)"

definition rc_ok :: "('s \<Rightarrow> string \<Rightarrow> string \<rightharpoonup> jtext) \<Rightarrow> ('s \<Rightarrow> bool) \<Rightarrow> 's DBReadCache \<Rightarrow> bool" where
  "rc_ok look ok c \<longleftrightarrow> rc_open c \<and> ok (rc_db c)
     \<and> (\<forall>x \<in> settings_paths. \<forall>n d. rc_data c (x, n) = Some d \<longrightarrow> agrees n d (look (rc_db c) x n))
     \<and> (\<forall>x \<in> settings_paths. \<forall>ns. rc_list c x = Some ns \<longrightarrow> set ns = dom (look (rc_db c) x))"

lemma good_same: "good n v \<Longrightarrow> same_json v v"
  by (auto simp: good_def)

lemma agrees_dom: "agrees n d w \<Longrightarrow> d = None \<longleftrightarrow> w = None"
  by (auto simp: agrees_def split: option.splits)

lemma rc_okI:
  assumes "rc_open c" "ok (rc_db c)" "\<And>x n d. x \<in> settings_paths \<Longrightarrow> rc_data c (x, n) = Some d \<Longrightarrow> agrees n d (look (rc_db c) x n)"
    and "\<And>x ns. x \<in> settings_paths \<Longrightarrow> rc_list c x = Some ns \<Longrightarrow> set ns = dom (look (rc_db c) x)"
  shows "rc_ok look ok c"
  unfolding rc_ok_def using assms by blast

lemma rc_okD:
  assumes "rc_ok look ok c"
  shows "rc_open c" "ok (rc_db c)" "x \<in> settings_paths \<Longrightarrow> rc_data c (x, n) = Some d \<Longrightarrow> agrees n d (look (rc_db c) x n)"
    and "x \<in> settings_paths \<Longrightarrow> rc_list c x = Some ns \<Longrightarrow> set ns = dom (look (rc_db c) x)"
  using assms unfolding rc_ok_def by blast+

lemma rc_look_dom: "rc_ok look ok c \<Longrightarrow> x \<in> settings_paths \<Longrightarrow> dom (rc_look look c x) = dom (look (rc_db c) x)"
  by (auto simp: rc_look_def dom_def split: option.splits dest!: rc_okD(3) dest: agrees_dom)

context settings_store
begin

lemma agrees_look: "ok s \<Longrightarrow> x \<in> settings_paths \<Longrightarrow> agrees n (look s x n) (look s x n)"
  using look_good [of s x n] good_same [of n] by (auto simp: agrees_def split: option.split)

lemma cache_Get:
  assumes "rc_ok look ok c" "x \<in> settings_paths"
  shows "\<exists>c'. rc_Get D c x n = Some (rc_look look c x n, c') \<and> rc_ok look ok c' \<and> (\<forall>y \<in> settings_paths. rc_look look c' y = rc_look look c y)"
proof (cases "rc_data c (x, n)")
  case (Some d)
  then show ?thesis using assms rc_okD(1) [OF assms(1)] by (auto simp: rc_Get_def rc_look_def)
next
  case None
  obtain s' where s: "opGet D (rc_db c) x n = Some (look (rc_db c) x n, s')" "ok s'" "\<forall>y \<in> settings_paths. look s' y = look (rc_db c) y"
    using get_law [OF rc_okD(2) [OF assms(1)] assms(2)] by blast
  define c' where "c' = c\<lparr>rc_db := s', rc_data := (rc_data c)((x, n) \<mapsto> look (rc_db c) x n)\<rparr>"
  have "rc_ok look ok c'"
    by (rule rc_okI) (use s(2,3) rc_okD [OF assms(1)] agrees_look [OF rc_okD(2) [OF assms(1)] assms(2)] in \<open>auto simp: c'_def split: if_splits\<close>)
  moreover have "\<forall>y \<in> settings_paths. rc_look look c' y = rc_look look c y" using None s(3) by (auto simp: rc_look_def c'_def fun_eq_iff split: option.split)
  ultimately show ?thesis using None s(1) rc_okD(1) [OF assms(1)] by (auto simp: rc_Get_def rc_look_def c'_def)
qed

lemma cache_List:
  assumes "rc_ok look ok c" "x \<in> settings_paths"
  shows "\<exists>ns c'. rc_List D c x = Some (ns, c') \<and> set ns = dom (rc_look look c x) \<and> rc_ok look ok c' \<and> (\<forall>y \<in> settings_paths. rc_look look c' y = rc_look look c y)"
proof (cases "rc_list c x")
  case (Some ns)
  then show ?thesis using assms rc_okD [OF assms(1)] rc_look_dom [OF assms] by (auto simp: rc_List_def)
next
  case None
  obtain ns s' where s: "opList D (rc_db c) x = Some (ns, s')" "set ns = dom (look (rc_db c) x)" "ok s'" "\<forall>y \<in> settings_paths. look s' y = look (rc_db c) y"
    using list_law [OF rc_okD(2) [OF assms(1)] assms(2)] by blast
  define c' where "c' = c\<lparr>rc_db := s', rc_list := (rc_list c)(x \<mapsto> ns)\<rparr>"
  have "rc_ok look ok c'" by (rule rc_okI) (use s(2-4) rc_okD [OF assms(1)] in \<open>auto simp: c'_def split: if_splits\<close>)
  moreover have "\<forall>y \<in> settings_paths. rc_look look c' y = rc_look look c y" using s(4) by (auto simp: rc_look_def c'_def fun_eq_iff split: option.split)
  ultimately show ?thesis using None s(1,2) rc_okD(1) [OF assms(1)] rc_look_dom [OF assms] by (auto simp: rc_List_def c'_def)
qed

lemma cache_Set:
  assumes "rc_ok look ok c" "x \<in> settings_paths" "good n v"
  shows "\<exists>c'. rc_Set False D c x n v = Some c' \<and> rc_ok look ok c' \<and> (\<forall>y \<in> settings_paths. rc_look look c' y = (if y = x then (rc_look look c x)(n \<mapsto> v) else rc_look look c y))"
proof -
  obtain s' where s: "opSet D (rc_db c) x n v = Some s'" "ok s'"
      "\<forall>y \<in> settings_paths. look s' y = (if y = x then (look (rc_db c) x)(n \<mapsto> norm (rc_db c) x v) else look (rc_db c) y)"
    using set_law [OF rc_okD(2) [OF assms(1)] assms(2,3)] by blast
  define c' where "c' = c\<lparr>rc_data := (rc_data c)((x, n) \<mapsto> Some v), rc_list := (rc_list c)(x := None), rc_db := s'\<rparr>"
  have "agrees n (Some v) (Some (norm (rc_db c) x v))" using assms(3) norm_good [OF assms(3)] by (simp add: agrees_def)
  then have "rc_ok look ok c'" by (intro rc_okI) (use s(2,3) rc_okD [OF assms(1)] in \<open>auto simp: c'_def split: if_splits\<close>)
  moreover have "\<forall>y \<in> settings_paths. rc_look look c' y = (if y = x then (rc_look look c x)(n \<mapsto> v) else rc_look look c y)"
    using s(3) by (auto simp: rc_look_def c'_def fun_eq_iff split: option.split)
  ultimately show ?thesis using s(1) rc_okD(1) [OF assms(1)] by (auto simp: rc_Set_def c'_def)
qed

lemma cache_Rem:
  assumes "rc_ok look ok c" "x \<in> settings_paths"
  shows "\<exists>c'. rc_Rem False D c x n = Some c' \<and> rc_ok look ok c' \<and> (\<forall>y \<in> settings_paths. rc_look look c' y = (if y = x then (rc_look look c x)(n := None) else rc_look look c y))"
proof -
  obtain s' where s: "opRem D (rc_db c) x n = Some s'" "ok s'" "\<forall>y \<in> settings_paths. look s' y = (if y = x then (look (rc_db c) x)(n := None) else look (rc_db c) y)"
    using rem_law [OF rc_okD(2) [OF assms(1)] assms(2)] by blast
  define c' where "c' = c\<lparr>rc_data := (rc_data c)((x, n) := None), rc_list := (rc_list c)(x := None), rc_db := s'\<rparr>"
  have "rc_ok look ok c'" by (rule rc_okI) (use s(2,3) rc_okD [OF assms(1)] in \<open>auto simp: c'_def split: if_splits\<close>)
  moreover have "\<forall>y \<in> settings_paths. rc_look look c' y = (if y = x then (rc_look look c x)(n := None) else rc_look look c y)"
    using s(3) by (auto simp: rc_look_def c'_def fun_eq_iff split: option.split)
  ultimately show ?thesis using s(1) rc_okD(1) [OF assms(1)] by (auto simp: rc_Rem_def c'_def)
qed

lemma cache_store: "settings_store (ReadCacheDB False D) (rc_look look) (rc_ok look ok) (\<lambda>c x v. v)"
proof
  fix c x n v
  assume c: "rc_ok look ok c" and x: "x \<in> settings_paths"
  show "good n v" if "rc_look look c x n = Some v"
    using that rc_okD(3) [OF c x, of n "Some v"] look_good [OF rc_okD(2) [OF c] x] by (auto simp: rc_look_def agrees_def split: option.splits)
qed (simp_all add: ReadCacheDB_def cache_Get cache_Set cache_Rem cache_List good_same)

end

section \<open>The router keeps the contract\<close>

definition router_look :: "('b, 'm) bolt_scheme \<Rightarrow> 'b XPathDBRouter \<Rightarrow> string \<Rightarrow> string \<rightharpoonup> jtext" where
  "router_look B r x =
     (case getDBForXPath x r of None \<Rightarrow> Map.empty | Some BboltDB \<Rightarrow> tdb_look B (rt_bolt r) x | Some JsonFiles \<Rightarrow> json_look (rt_json r) x)"

definition router_ok :: "('b, 'm) bolt_scheme \<Rightarrow> 'b XPathDBRouter \<Rightarrow> bool" where
  "router_ok B r \<longleftrightarrow> tdb_ok B (rt_bolt r) \<and> json_ok (rt_json r) \<and> (\<forall>x \<in> settings_paths. getDBForXPath x r \<noteq> None)"

definition router_norm :: "'b XPathDBRouter \<Rightarrow> string \<Rightarrow> jtext \<Rightarrow> jtext" where
  "router_norm r x v = (if getDBForXPath x r = Some JsonFiles then json_norm v else v)"

lemma route_unchanged [simp]: "getDBForXPath x (r\<lparr>rt_bolt := b\<rparr>) = getDBForXPath x r" "getDBForXPath x (r\<lparr>rt_json := j\<rparr>) = getDBForXPath x r"
  by (simp_all add: getDBForXPath_def split: option.split)

lemma dbid_two: "(d :: dbid) = BboltDB \<or> d = JsonFiles"
  by (cases d) auto

lemma router_store:
  assumes "bolt_ok B" "bolt_writes B"
  shows "settings_store (RouterDB B) (router_look B) (router_ok B) router_norm"
proof
  note t = tdb_store [OF assms]
  fix r x n v
  assume ok: "router_ok B r" and x: "x \<in> settings_paths"
  then consider (b) "getDBForXPath x r = Some BboltDB" | (j) "getDBForXPath x r = Some JsonFiles" using dbid_two unfolding router_ok_def by (metis not_None_eq)
  note c = this
  have okb: "tdb_ok B (rt_bolt r)" and okj: "json_ok (rt_json r)" using ok by (simp_all add: router_ok_def)
  show "\<exists>r'. opGet (RouterDB B) r x n = Some (router_look B r x n, r') \<and> router_ok B r' \<and> (\<forall>y \<in> settings_paths. router_look B r' y = router_look B r y)"
    using c ok settings_store.get_law [OF t okb x, of n] json.get_law [OF okj x, of n]
    by cases (auto simp: RouterDB_def TDB_def JsonDB_def route_read_def router_look_def router_ok_def split: option.split dbid.split)
  show "\<exists>ns r'. opList (RouterDB B) r x = Some (ns, r') \<and> set ns = dom (router_look B r x) \<and> router_ok B r' \<and> (\<forall>y \<in> settings_paths. router_look B r' y = router_look B r y)"
    using c ok settings_store.list_law [OF t okb x] json.list_law [OF okj x]
    by cases (auto simp: RouterDB_def TDB_def JsonDB_def route_read_def router_look_def router_ok_def split: option.split dbid.split)
  show "\<exists>r'. opRem (RouterDB B) r x n = Some r' \<and> router_ok B r' \<and> (\<forall>y \<in> settings_paths. router_look B r' y = (if y = x then (router_look B r x)(n := None) else router_look B r y))"
    using c ok settings_store.rem_law [OF t okb x, of n] json.rem_law [OF okj x, of n]
    by cases (auto simp: RouterDB_def TDB_def JsonDB_def route_write_def router_look_def router_ok_def split: option.split dbid.split)
  show "\<exists>r'. opSet (RouterDB B) r x n v = Some r' \<and> router_ok B r' \<and> (\<forall>y \<in> settings_paths. router_look B r' y = (if y = x then (router_look B r x)(n \<mapsto> router_norm r x v) else router_look B r y))"
    if "good n v"
    using c ok settings_store.set_law [OF t okb x that] json.set_law [OF okj x that]
    by cases (auto simp: RouterDB_def TDB_def JsonDB_def route_write_def router_look_def router_ok_def router_norm_def split: option.split dbid.split)
  show "good n v" if "router_look B r x n = Some v"
    using c that settings_store.look_good [OF t okb x] json.look_good [OF okj x] by cases (auto simp: router_look_def)
next
  show "good n (router_norm r x v) \<and> same_json v (router_norm r x v)" if "good n v" for n v r x
    using that json.norm_good [OF that] good_same by (simp add: router_norm_def)
qed

section \<open>What a migration does\<close>

text \<open>The same object, in texts that may differ in the order of members.\<close>

fun equal_json :: "jtext \<Rightarrow> jtext \<Rightarrow> bool" where
  "equal_json (Text v) (Text w) = (go_value v = go_value w)"
| "equal_json _ _ = False"

lemma good_len: "good n v \<Longrightarrow> text_len v > 0"
  by (auto simp: good_def)

lemma isByteArraysEqualJson_good: "good n v \<Longrightarrow> good n w \<Longrightarrow> isByteArraysEqualJson v w = Some (equal_json v w)"
  using good_len [of n v] good_len [of n w] by (auto simp: isByteArraysEqualJson_def good_def)

lemma verify_same: "good n v \<Longrightarrow> good n w \<Longrightarrow> same_json v w \<Longrightarrow> isByteArraysEqualJsonOptimized v w = Some True"
  using good_len [of n v] isByteArraysEqualJson_good [of n v w] by (auto simp: isByteArraysEqualJsonOptimized_def good_def)

definition copied :: "('t \<Rightarrow> string \<Rightarrow> string \<rightharpoonup> jtext) \<Rightarrow> string \<Rightarrow> string \<Rightarrow> jtext \<Rightarrow> 't \<Rightarrow> 't \<Rightarrow> bool" where
  "copied look x n d t t' \<longleftrightarrow> (\<exists>w. equal_json d w \<and> (\<forall>y \<in> settings_paths. look t' y = (if y = x then (look t x)(n \<mapsto> w) else look t y)))"

context settings_store
begin

lemma verify_written:
  assumes "ok s" "x \<in> settings_paths" "good n v" "look s x n = Some (norm s0 x v)"
  shows "\<exists>s'. verifyMigration D x n v s = Some (True, s') \<and> ok s' \<and> (\<forall>y \<in> settings_paths. look s' y = look s y)"
  using get_law [OF assms(1,2), of n] assms(4) verify_same [OF assms(3)] norm_good [OF assms(3)] by (auto simp: verifyMigration_def)

lemma migrate_to:
  assumes "settings_store T tlook tok tnorm" "ok s" "tok t" "x \<in> settings_paths"
  shows "\<exists>m s' t'. MigrateSingle D T x n (s, t) = Some (m, s', t') \<and> ok s' \<and> tok t' \<and> (\<forall>y \<in> settings_paths. look s' y = look s y)
    \<and> (case look s x n of
         None \<Rightarrow> m = Skipped \<and> t' = t
       | Some d \<Rightarrow> if (\<exists>e. tlook t x n = Some e \<and> equal_json d e) then m = Skipped \<and> (\<forall>y \<in> settings_paths. tlook t' y = tlook t y)
           else m = Migrated \<and> copied tlook x n d t t')"
proof -
  obtain s' where s: "opGet D s x n = Some (look s x n, s')" "ok s'" "\<forall>y \<in> settings_paths. look s' y = look s y" using get_law [OF assms(2,4)] by blast
  show ?thesis
  proof (cases "look s x n")
    case None
    then show ?thesis using s assms(3) by (auto simp: MigrateSingle_def)
  next
    case (Some d)
    have d: "good n d" using look_good [OF assms(2,4) Some] .
    obtain t1 where t1: "opGet T t x n = Some (tlook t x n, t1)" "tok t1" "\<forall>y \<in> settings_paths. tlook t1 y = tlook t y"
      using settings_store.get_law [OF assms(1,3,4)] by blast
    have eq: "(case tlook t x n of None \<Rightarrow> False | Some e \<Rightarrow> isByteArraysEqualJson d e = Some True) \<longleftrightarrow> (\<exists>e. tlook t x n = Some e \<and> equal_json d e)"
      using isByteArraysEqualJson_good [OF d] settings_store.look_good [OF assms(1,3,4)] by (auto split: option.split)
    show ?thesis
    proof (cases "\<exists>e. tlook t x n = Some e \<and> equal_json d e")
      case True
      then show ?thesis using s t1 Some eq by (auto simp: MigrateSingle_def)
    next
      case False
      obtain t2 where t2: "opSet T t1 x n d = Some t2" "tok t2" "\<forall>y \<in> settings_paths. tlook t2 y = (if y = x then (tlook t1 x)(n \<mapsto> tnorm t1 x d) else tlook t1 y)"
        using settings_store.set_law [OF assms(1) t1(2) assms(4) d] by blast
      obtain t3 where t3: "verifyMigration T x n d t2 = Some (True, t3)" "tok t3" "\<forall>y \<in> settings_paths. tlook t3 y = tlook t2 y"
        using settings_store.verify_written [OF assms(1) t2(2) assms(4) d, of t1] t2(3) assms(4) by auto
      have "equal_json d (tnorm t1 x d)" using settings_store.norm_good [OF assms(1) d, of t1 x] d by (auto simp: good_def)
      then have "copied tlook x n d t t3" using t1(3) t2(3) t3(3) assms(4) unfolding copied_def by (intro exI [of _ "tnorm t1 x d"]) simp
      then show ?thesis using s t1 t2 t3 Some False eq by (auto simp: MigrateSingle_def)
    qed
  qed
qed

lemma safe_migrate_to:
  assumes "settings_store T tlook tok tnorm" "ok s" "tok t" "x \<in> settings_paths"
  shows "\<exists>s' t'. safeMigrate D T x n True (s, t) = Some (s', t') \<and> ok s' \<and> tok t'
    \<and> (case look s x n of
         None \<Rightarrow> (\<forall>y \<in> settings_paths. look s' y = look s y) \<and> t' = t
       | Some d \<Rightarrow> if (\<exists>e. tlook t x n = Some e \<and> equal_json d e) then (\<forall>y \<in> settings_paths. look s' y = look s y \<and> tlook t' y = tlook t y)
           else (\<forall>y \<in> settings_paths. look s' y = (if y = x then (look s x)(n := None) else look s y)) \<and> copied tlook x n d t t')"
proof -
  obtain m s1 t1 where m: "MigrateSingle D T x n (s, t) = Some (m, s1, t1)" "ok s1" "tok t1" "\<forall>y \<in> settings_paths. look s1 y = look s y"
    and r: "case look s x n of
         None \<Rightarrow> m = Skipped \<and> t1 = t
       | Some d \<Rightarrow> if (\<exists>e. tlook t x n = Some e \<and> equal_json d e) then m = Skipped \<and> (\<forall>y \<in> settings_paths. tlook t1 y = tlook t y)
           else m = Migrated \<and> copied tlook x n d t t1"
    using migrate_to [OF assms] by blast
  show ?thesis
  proof (cases "m = Migrated")
    case True
    obtain s2 where "opRem D s1 x n = Some s2" "ok s2" "\<forall>y \<in> settings_paths. look s2 y = (if y = x then (look s1 x)(n := None) else look s1 y)"
      using rem_law [OF m(2) assms(4)] by blast
    then show ?thesis using m r True assms(4) by (auto simp: safeMigrate_def split: option.splits if_splits)
  next
    case False
    then show ?thesis using m r by (auto simp: safeMigrate_def split: option.splits if_splits)
  qed
qed

end

end
