(* ===== verification/Settings.thy ===== *)
theory Settings
  imports SettingsDB
begin

text \<open>
  The settings of the torrent server (\<^verbatim>\<open>internal/gostorm/settings\<close>): \<^verbatim>\<open>BTSets\<close> with its limits (\<^verbatim>\<open>btsets.go\<close>), the start with its
  migrations and routing and the switch between stores (\<^verbatim>\<open>settings.go\<close>), and the torrents kept in the database (\<^verbatim>\<open>torrent.go\<close>). A result
  \<open>None\<close> is a panic. The functions run under their locks, one after another. The search for a cache directory on disk and the
  import of an old database file are left out.
\<close>

section \<open>The settings\<close>

record BTSets =
  bt_CacheSize :: int
  bt_ReaderReadAHead :: int
  bt_PreloadCache :: int
  bt_UseDisk :: bool
  bt_TorrentsSavePath :: string
  bt_RemoveCacheOnDrop :: bool
  bt_ForceEncrypt :: bool
  bt_RetrackersMode :: int
  bt_TorrentDisconnectTimeout :: int
  bt_EnableDebug :: bool
  bt_EnableIPv6 :: bool
  bt_DisableTCP :: bool
  bt_DisableUTP :: bool
  bt_DisableUPNP :: bool
  bt_DisableDHT :: bool
  bt_DisablePEX :: bool
  bt_DisableUpload :: bool
  bt_DownloadRateLimit :: int
  bt_UploadRateLimit :: int
  bt_ConnectionsLimit :: int
  bt_PeersListenPort :: int
  bt_BlockListURL :: string
  bt_SslPort :: int
  bt_SslCert :: string
  bt_SslKey :: string
  bt_ResponsiveMode :: bool
  bt_AdaptiveShield :: bool
  bt_ShowFSActiveTorr :: bool
  bt_StoreSettingsInJson :: bool

definition zero_sets :: BTSets where
  "zero_sets =
     \<lparr>bt_CacheSize = 0, bt_ReaderReadAHead = 0, bt_PreloadCache = 0, bt_UseDisk = False, bt_TorrentsSavePath = [],
      bt_RemoveCacheOnDrop = False, bt_ForceEncrypt = False, bt_RetrackersMode = 0, bt_TorrentDisconnectTimeout = 0,
      bt_EnableDebug = False, bt_EnableIPv6 = False, bt_DisableTCP = False, bt_DisableUTP = False, bt_DisableUPNP = False,
      bt_DisableDHT = False, bt_DisablePEX = False, bt_DisableUpload = False, bt_DownloadRateLimit = 0, bt_UploadRateLimit = 0,
      bt_ConnectionsLimit = 0, bt_PeersListenPort = 0, bt_BlockListURL = [], bt_SslPort = 0, bt_SslCert = [], bt_SslKey = [],
      bt_ResponsiveMode = False, bt_AdaptiveShield = False, bt_ShowFSActiveTorr = False, bt_StoreSettingsInJson = False\<rparr>"

text \<open>\<^verbatim>\<open>json.Marshal\<close> of the settings.\<close>

definition bt_json :: "BTSets \<Rightarrow> jval" where
  "bt_json s = JObj
     [(''CacheSize'', JNum (bt_CacheSize s)), (''ReaderReadAHead'', JNum (bt_ReaderReadAHead s)),
      (''PreloadCache'', JNum (bt_PreloadCache s)), (''UseDisk'', JBool (bt_UseDisk s)),
      (''TorrentsSavePath'', JStr (bt_TorrentsSavePath s)), (''RemoveCacheOnDrop'', JBool (bt_RemoveCacheOnDrop s)),
      (''ForceEncrypt'', JBool (bt_ForceEncrypt s)), (''RetrackersMode'', JNum (bt_RetrackersMode s)),
      (''TorrentDisconnectTimeout'', JNum (bt_TorrentDisconnectTimeout s)), (''EnableDebug'', JBool (bt_EnableDebug s)),
      (''EnableIPv6'', JBool (bt_EnableIPv6 s)), (''DisableTCP'', JBool (bt_DisableTCP s)),
      (''DisableUTP'', JBool (bt_DisableUTP s)), (''DisableUPNP'', JBool (bt_DisableUPNP s)),
      (''DisableDHT'', JBool (bt_DisableDHT s)), (''DisablePEX'', JBool (bt_DisablePEX s)),
      (''DisableUpload'', JBool (bt_DisableUpload s)), (''DownloadRateLimit'', JNum (bt_DownloadRateLimit s)),
      (''UploadRateLimit'', JNum (bt_UploadRateLimit s)), (''ConnectionsLimit'', JNum (bt_ConnectionsLimit s)),
      (''PeersListenPort'', JNum (bt_PeersListenPort s)), (''BlockListURL'', JStr (bt_BlockListURL s)),
      (''SslPort'', JNum (bt_SslPort s)), (''SslCert'', JStr (bt_SslCert s)), (''SslKey'', JStr (bt_SslKey s)),
      (''ResponsiveMode'', JBool (bt_ResponsiveMode s)), (''AdaptiveShield'', JBool (bt_AdaptiveShield s)),
      (''ShowFSActiveTorr'', JBool (bt_ShowFSActiveTorr s)), (''StoreSettingsInJson'', JBool (bt_StoreSettingsInJson s))]"

text \<open>\<^verbatim>\<open>json.Unmarshal\<close>: of a key that occurs twice the last value counts; a missing or null member leaves the zero value, and a member
  of the wrong type is an error. Names are compared exactly.\<close>

definition get_member :: "string \<Rightarrow> (string \<times> jval) list \<Rightarrow> jval" where
  "get_member k kvs = (case map_of (rev kvs) k of None \<Rightarrow> JNull | Some v \<Rightarrow> v)"

definition get_num :: "string \<Rightarrow> (string \<times> jval) list \<Rightarrow> int" where
  "get_num k kvs = (case get_member k kvs of JNum n \<Rightarrow> n | _ \<Rightarrow> 0)"

definition get_flag :: "string \<Rightarrow> (string \<times> jval) list \<Rightarrow> bool" where
  "get_flag k kvs = (case get_member k kvs of JBool b \<Rightarrow> b | _ \<Rightarrow> False)"

definition get_text :: "string \<Rightarrow> (string \<times> jval) list \<Rightarrow> string" where
  "get_text k kvs = (case get_member k kvs of JStr s \<Rightarrow> s | _ \<Rightarrow> [])"

definition num_fields :: "string list" where
  "num_fields =
     [''CacheSize'', ''ReaderReadAHead'', ''PreloadCache'', ''RetrackersMode'', ''TorrentDisconnectTimeout'',
      ''DownloadRateLimit'', ''UploadRateLimit'', ''ConnectionsLimit'', ''PeersListenPort'', ''SslPort'']"

definition flag_fields :: "string list" where
  "flag_fields =
     [''UseDisk'', ''RemoveCacheOnDrop'', ''ForceEncrypt'', ''EnableDebug'', ''EnableIPv6'', ''DisableTCP'', ''DisableUTP'',
      ''DisableUPNP'', ''DisableDHT'', ''DisablePEX'', ''DisableUpload'', ''ResponsiveMode'', ''AdaptiveShield'',
      ''ShowFSActiveTorr'', ''StoreSettingsInJson'']"

definition text_fields :: "string list" where
  "text_fields =
     [''TorrentsSavePath'', ''BlockListURL'', ''SslCert'', ''SslKey'']"

definition types_ok :: "(string \<times> jval) list \<Rightarrow> bool" where
  "types_ok kvs \<longleftrightarrow>
     list_all (\<lambda>k. case get_member k kvs of JNull \<Rightarrow> True | JNum _ \<Rightarrow> True | _ \<Rightarrow> False) num_fields
     \<and> list_all (\<lambda>k. case get_member k kvs of JNull \<Rightarrow> True | JBool _ \<Rightarrow> True | _ \<Rightarrow> False) flag_fields
     \<and> list_all (\<lambda>k. case get_member k kvs of JNull \<Rightarrow> True | JStr _ \<Rightarrow> True | _ \<Rightarrow> False) text_fields"

definition bt_members :: "(string \<times> jval) list \<Rightarrow> BTSets" where
  "bt_members kvs =
     \<lparr>bt_CacheSize = get_num ''CacheSize'' kvs, bt_ReaderReadAHead = get_num ''ReaderReadAHead'' kvs,
            bt_PreloadCache = get_num ''PreloadCache'' kvs, bt_UseDisk = get_flag ''UseDisk'' kvs,
            bt_TorrentsSavePath = get_text ''TorrentsSavePath'' kvs, bt_RemoveCacheOnDrop = get_flag ''RemoveCacheOnDrop'' kvs,
            bt_ForceEncrypt = get_flag ''ForceEncrypt'' kvs, bt_RetrackersMode = get_num ''RetrackersMode'' kvs,
            bt_TorrentDisconnectTimeout = get_num ''TorrentDisconnectTimeout'' kvs,
            bt_EnableDebug = get_flag ''EnableDebug'' kvs, bt_EnableIPv6 = get_flag ''EnableIPv6'' kvs,
            bt_DisableTCP = get_flag ''DisableTCP'' kvs, bt_DisableUTP = get_flag ''DisableUTP'' kvs,
            bt_DisableUPNP = get_flag ''DisableUPNP'' kvs, bt_DisableDHT = get_flag ''DisableDHT'' kvs,
            bt_DisablePEX = get_flag ''DisablePEX'' kvs, bt_DisableUpload = get_flag ''DisableUpload'' kvs,
            bt_DownloadRateLimit = get_num ''DownloadRateLimit'' kvs, bt_UploadRateLimit = get_num ''UploadRateLimit'' kvs,
            bt_ConnectionsLimit = get_num ''ConnectionsLimit'' kvs, bt_PeersListenPort = get_num ''PeersListenPort'' kvs,
            bt_BlockListURL = get_text ''BlockListURL'' kvs, bt_SslPort = get_num ''SslPort'' kvs,
            bt_SslCert = get_text ''SslCert'' kvs, bt_SslKey = get_text ''SslKey'' kvs,
            bt_ResponsiveMode = get_flag ''ResponsiveMode'' kvs, bt_AdaptiveShield = get_flag ''AdaptiveShield'' kvs,
            bt_ShowFSActiveTorr = get_flag ''ShowFSActiveTorr'' kvs, bt_StoreSettingsInJson = get_flag ''StoreSettingsInJson'' kvs\<rparr>"

fun bt_parse :: "jtext \<Rightarrow> BTSets option" where
  "bt_parse (Text (JObj kvs)) = (if types_ok kvs then Some (bt_members kvs) else None)"
| "bt_parse (Text JNull) = Some zero_sets"
| "bt_parse _ = None"

text \<open>The limits that \<^verbatim>\<open>SetBTSets\<close> enforces.\<close>

definition fix_sets :: "BTSets \<Rightarrow> BTSets" where
  "fix_sets s =
     (let s = (if bt_CacheSize s \<le> 0 then s\<lparr>bt_CacheSize := 128 * 1024 * 1024\<rparr> else s);
          s = (if bt_ConnectionsLimit s \<le> 0 then s\<lparr>bt_ConnectionsLimit := 25\<rparr> else s);
          s = (if bt_TorrentDisconnectTimeout s \<le> 0 then s\<lparr>bt_TorrentDisconnectTimeout := 30\<rparr> else s);
          s = (if bt_ReaderReadAHead s < 5 then s\<lparr>bt_ReaderReadAHead := 5\<rparr> else s);
          s = (if bt_ReaderReadAHead s > 100 then s\<lparr>bt_ReaderReadAHead := 100\<rparr> else s);
          s = (if bt_PreloadCache s < 0 then s\<lparr>bt_PreloadCache := 0\<rparr> else s);
          s = (if bt_PreloadCache s > 100 then s\<lparr>bt_PreloadCache := 100\<rparr> else s)
      in if bt_TorrentsSavePath s = [] then s\<lparr>bt_UseDisk := False\<rparr> else s)"

definition default_sets :: BTSets where
  "default_sets = zero_sets\<lparr>bt_CacheSize := 128 * 1024 * 1024, bt_PreloadCache := 0, bt_ConnectionsLimit := 25, bt_RetrackersMode := 1,
     bt_TorrentDisconnectTimeout := 30, bt_ReaderReadAHead := 75, bt_ResponsiveMode := True, bt_ShowFSActiveTorr := True,
     bt_StoreSettingsInJson := True\<rparr>"

section \<open>The running program\<close>

text \<open>The package variables: \<^verbatim>\<open>tdb\<close>, a read cache before the router, \<^verbatim>\<open>BTsets\<close> and \<^verbatim>\<open>ReadOnly\<close>.\<close>

record 'b sets_state =
  ss_tdb :: "'b XPathDBRouter DBReadCache"
  ss_BTsets :: "BTSets option"
  ss_ReadOnly :: bool

definition tdb_ops :: "('b, 'm) bolt_scheme \<Rightarrow> bool \<Rightarrow> 'b XPathDBRouter DBReadCache GoStormDB" where
  "tdb_ops B ReadOnly = ReadCacheDB ReadOnly (RouterDB B)"

definition store_sets :: "('b, 'm) bolt_scheme \<Rightarrow> BTSets \<Rightarrow> 'b sets_state \<Rightarrow> 'b sets_state option" where
  "store_sets B sets s =
     map_option (\<lambda>t. s\<lparr>ss_BTsets := Some sets, ss_tdb := t\<rparr>)
       (opSet (tdb_ops B (ss_ReadOnly s)) (ss_tdb s) ''Settings'' ''BitTorr'' (Text (bt_json sets)))"

definition SetBTSets :: "('b, 'm) bolt_scheme \<Rightarrow> BTSets \<Rightarrow> 'b sets_state \<Rightarrow> 'b sets_state option" where
  "SetBTSets B sets s = (if ss_ReadOnly s then Some s else store_sets B (fix_sets sets) s)"

definition SetDefaultConfig :: "('b, 'm) bolt_scheme \<Rightarrow> 'b sets_state \<Rightarrow> 'b sets_state option" where
  "SetDefaultConfig B s = (if ss_ReadOnly s then Some (s\<lparr>ss_BTsets := Some default_sets\<rparr>) else store_sets B default_sets s)"

text \<open>\<^verbatim>\<open>loadBTSets\<close>. A text \<^verbatim>\<open>null\<close> leaves a nil pointer, which is then dereferenced.\<close>

definition loadBTSets :: "('b, 'm) bolt_scheme \<Rightarrow> 'b sets_state \<Rightarrow> 'b sets_state option" where
  "loadBTSets B s =
     (case opGet (tdb_ops B (ss_ReadOnly s)) (ss_tdb s) ''Settings'' ''BitTorr'' of
        None \<Rightarrow> None
      | Some (buf, t) \<Rightarrow>
          let s = s\<lparr>ss_tdb := t\<rparr>
          in if buf = Some (Text JNull) then None
             else case (case buf of None \<Rightarrow> None | Some d \<Rightarrow> if text_len d > 0 then bt_parse d else None) of
                    Some sets \<Rightarrow> Some (s\<lparr>ss_BTsets := Some (if bt_ReaderReadAHead sets < 5 then sets\<lparr>bt_ReaderReadAHead := 5\<rparr> else sets)\<rparr>)
                  | None \<Rightarrow> SetDefaultConfig B s)"

section \<open>The start\<close>

definition loadExistingSettings :: "('b, 'm) bolt_scheme \<Rightarrow> 'b \<times> json_dir \<Rightarrow> BTSets option" where
  "loadExistingSettings B st =
     (let j = (case JsonDB_Get (snd st) ''Settings'' ''BitTorr'' of Some (Some buf, _) \<Rightarrow> bt_parse buf | _ \<Rightarrow> None);
          b = (case TDB_Get B (fst st) ''Settings'' ''BitTorr'' of Some (Some buf, _) \<Rightarrow> bt_parse buf | _ \<Rightarrow> None)
      in case j of Some sets \<Rightarrow> Some sets | None \<Rightarrow> b)"

text \<open>The variables \<^verbatim>\<open>TS_MIGRATION_MODE\<close> and \<^verbatim>\<open>TS_SETTINGS_STORAGE\<close> of the environment, empty if unset.\<close>

record sets_env =
  env_mode :: string
  env_storage :: string

definition determineStoragePreferences :: "('b, 'm) bolt_scheme \<Rightarrow> sets_env \<Rightarrow> 'b \<times> json_dir \<Rightarrow> bool" where
  "determineStoragePreferences B env st =
     (case loadExistingSettings B st of
        Some sets \<Rightarrow> bt_StoreSettingsInJson sets
      | None \<Rightarrow> if env_storage env \<noteq> [] then env_storage env = ''json'' else True)"

definition swap_stores :: "('a \<times> 'c) option \<Rightarrow> ('c \<times> 'a) option" where
  "swap_stores r = map_option prod.swap r"

definition SmartMigrate :: "('b, 'm) bolt_scheme \<Rightarrow> string \<Rightarrow> 'b \<times> json_dir \<Rightarrow> ('b \<times> json_dir) option" where
  "SmartMigrate B direction st =
     (if direction = ''settings_to_json'' then map_option snd (MigrateSingle (TDB B) JsonDB ''Settings'' ''BitTorr'' st)
      else if direction = ''settings_to_bbolt'' then swap_stores (map_option snd (MigrateSingle JsonDB (TDB B) ''Settings'' ''BitTorr'' (prod.swap st)))
      else if direction = ''sync_both'' then migrateMissing (TDB B) JsonDB ''Settings'' ''BitTorr'' st
      else Some st)"

definition applyCleanMigrations :: "('b, 'm) bolt_scheme \<Rightarrow> bool \<Rightarrow> 'b \<times> json_dir \<Rightarrow> ('b \<times> json_dir) option" where
  "applyCleanMigrations B settingsInJson st =
     (if settingsInJson then safeMigrate (TDB B) JsonDB ''Settings'' ''BitTorr'' True st
      else swap_stores (safeMigrate JsonDB (TDB B) ''Settings'' ''BitTorr'' True (prod.swap st)))"

definition setupDatabaseRouting :: "bool \<Rightarrow> 'b \<times> json_dir \<Rightarrow> 'b XPathDBRouter DBReadCache" where
  "setupDatabaseRouting settingsInJson st =
     NewDBReadCache (RegisterRoute BboltDB ''Torrents''
       (RegisterRoute (if settingsInJson then JsonFiles else BboltDB) ''Settings'' (NewXPathDBRouter (fst st) (snd st))))"

definition InitSets :: "('b, 'm) bolt_scheme \<Rightarrow> bool \<Rightarrow> sets_env \<Rightarrow> 'b \<times> json_dir \<Rightarrow> 'b sets_state option" where
  "InitSets B readOnly env st =
     Option.bind (if env_mode env \<noteq> [] then SmartMigrate B (env_mode env) st else Some st) (\<lambda>st.
     let pref = determineStoragePreferences B env st
     in Option.bind (applyCleanMigrations B pref st) (\<lambda>st.
        Option.bind (loadBTSets B \<lparr>ss_tdb = setupDatabaseRouting pref st, ss_BTsets = None, ss_ReadOnly = readOnly\<rparr>) (\<lambda>s.
        case ss_BTsets s of
          Some sets \<Rightarrow>
            if bt_StoreSettingsInJson sets \<noteq> pref
            then let sets = sets\<lparr>bt_StoreSettingsInJson := pref\<rparr> in SetBTSets B sets (s\<lparr>ss_BTsets := Some sets\<rparr>) else Some s
        | None \<Rightarrow> Some s)))"

section \<open>Switching the store\<close>

definition stores :: "'b sets_state \<Rightarrow> 'b \<times> json_dir" where
  "stores s = (rt_bolt (rc_db (ss_tdb s)), rt_json (rc_db (ss_tdb s)))"

definition put_stores :: "'b \<times> json_dir \<Rightarrow> 'b sets_state \<Rightarrow> 'b sets_state" where
  "put_stores st s = s\<lparr>ss_tdb := (ss_tdb s)\<lparr>rc_db := (rc_db (ss_tdb s))\<lparr>rt_bolt := fst st, rt_json := snd st\<rparr>\<rparr>\<rparr>"

text \<open>\<^verbatim>\<open>SwitchSettingsStorage\<close> returns whether there was no error. The stores it migrates are those behind the router.\<close>

definition SwitchSettingsStorage :: "('b, 'm) bolt_scheme \<Rightarrow> bool \<Rightarrow> 'b sets_state \<Rightarrow> (bool \<times> 'b sets_state) option" where
  "SwitchSettingsStorage B useJson s =
     (if ss_ReadOnly s then Some (False, s)
      else Option.bind
        (case ss_BTsets s of
           None \<Rightarrow> Some s
         | Some sets \<Rightarrow> let sets = sets\<lparr>bt_StoreSettingsInJson := useJson\<rparr> in SetBTSets B sets (s\<lparr>ss_BTsets := Some sets\<rparr>))
        (\<lambda>s. if useJson
             then map_option (\<lambda>(m, st). (m \<noteq> Failed, put_stores st s)) (MigrateSingle (TDB B) JsonDB ''Settings'' ''BitTorr'' (stores s))
             else map_option (\<lambda>(m, st). (m \<noteq> Failed, put_stores (prod.swap st) s))
               (MigrateSingle JsonDB (TDB B) ''Settings'' ''BitTorr'' (prod.swap (stores s)))))"

text \<open>\<^verbatim>\<open>SetStoragePreferences\<close> with the string of the preference, if there is one.\<close>

definition SetStoragePreferences :: "('b, 'm) bolt_scheme \<Rightarrow> string option \<Rightarrow> 'b sets_state \<Rightarrow> (bool \<times> 'b sets_state) option" where
  "SetStoragePreferences B pref s =
     (case (ss_ReadOnly s, ss_BTsets s) of
        (False, Some sets) \<Rightarrow>
          (case pref of
             None \<Rightarrow> Some (True, s)
           | Some p \<Rightarrow> if p \<noteq> [] \<and> bt_StoreSettingsInJson sets \<noteq> (p = ''json'') then SwitchSettingsStorage B (p = ''json'') s else Some (True, s))
      | _ \<Rightarrow> Some (False, s))"

definition GetStoragePreferences :: "'b sets_state \<Rightarrow> string" where
  "GetStoragePreferences s = (case ss_BTsets s of None \<Rightarrow> ''json'' | Some sets \<Rightarrow> if bt_StoreSettingsInJson sets then ''json'' else ''bbolt'')"

section \<open>Torrents in the database\<close>

text \<open>A torrent is kept as the members of its JSON object under its hash.\<close>

definition AddTorrent :: "('b, 'm) bolt_scheme \<Rightarrow> string \<Rightarrow> (string \<times> jval) list \<Rightarrow> 'b sets_state \<Rightarrow> 'b sets_state option" where
  "AddTorrent B hash torr s = map_option (\<lambda>t. s\<lparr>ss_tdb := t\<rparr>) (opSet (tdb_ops B (ss_ReadOnly s)) (ss_tdb s) ''Torrents'' hash (Text (JObj torr)))"

definition GetTorrent :: "('b, 'm) bolt_scheme \<Rightarrow> string \<Rightarrow> 'b sets_state \<Rightarrow> ((string \<times> jval) list option \<times> 'b sets_state) option" where
  "GetTorrent B hash s =
     map_option (\<lambda>(buf, t). (case buf of Some (Text (JObj torr)) \<Rightarrow> Some torr | _ \<Rightarrow> None, s\<lparr>ss_tdb := t\<rparr>))
       (opGet (tdb_ops B (ss_ReadOnly s)) (ss_tdb s) ''Torrents'' hash)"

definition RemTorrent :: "('b, 'm) bolt_scheme \<Rightarrow> string \<Rightarrow> 'b sets_state \<Rightarrow> 'b sets_state option" where
  "RemTorrent B hash s = map_option (\<lambda>t. s\<lparr>ss_tdb := t\<rparr>) (opRem (tdb_ops B (ss_ReadOnly s)) (ss_tdb s) ''Torrents'' hash)"

section \<open>Reading back what was written\<close>

lemma get_member_go_value: "get_member k (map_members (map (\<lambda>(k, v). (k, go_value v)) kvs)) = go_value (get_member k kvs)"
proof -
  let ?m = "map (\<lambda>(k, v). (k, go_value v)) kvs"
  have "map_of (rev (map_members ?m)) = map_of (map_members ?m)" using sorted_members [of ?m] by (subst map_of_inject_set) (simp_all add: strict_sorted_iff rev_map [symmetric])
  then have "map_of (rev (map_members ?m)) k = map_option go_value (map_of (rev kvs) k)" by (simp add: map_of_members rev_map map_of_map)
  then show ?thesis by (simp add: get_member_def split: option.split)
qed

lemma bt_parse_go_value: "bt_parse (Text (go_value v)) = bt_parse (Text v)"
proof (cases v)
  case (JObj kvs)
  let ?m = "map_members (map (\<lambda>(k, v). (k, go_value v)) kvs)"
  have g: "get_num k ?m = get_num k kvs" "get_flag k ?m = get_flag k kvs" "get_text k ?m = get_text k kvs" for k
    by (simp_all add: get_num_def get_flag_def get_text_def get_member_go_value split: jval.split)
  have "types_ok ?m = types_ok kvs" unfolding types_ok_def get_member_go_value
    by (intro arg_cong2 [of _ _ _ _ "(\<and>)"] list_all_cong) (auto split: jval.splits)
  then show ?thesis using JObj g by (simp add: bt_members_def)
qed simp_all

lemma bt_parse_equal:
  assumes "equal_json d e"
  shows "bt_parse d = bt_parse e"
proof -
  obtain v w where "d = Text v" "e = Text w" "go_value v = go_value w" using assms by (cases d; cases e) auto
  then show ?thesis using bt_parse_go_value by metis
qed

lemma bt_parse_json [simp]: "bt_parse (Text (bt_json s)) = Some s"
  by (simp add: bt_json_def types_ok_def num_fields_def flag_fields_def text_fields_def bt_members_def get_num_def get_flag_def get_text_def get_member_def)

lemma good_json: "good ''BitTorr'' (Text (bt_json s))"
  by (simp add: good_def bt_json_def)

section \<open>The router after the start\<close>

lemma TrimSpace_settings: "TrimSpace ''Settings'' = ''Settings''" "TrimSpace ''Torrents'' = ''Torrents''"
  by (rule TrimSpace_id, simp add: printable_def)+

lemma routes: "xPathToRoute ''Settings'' = ''settings''" "xPathToRoute ''Torrents'' = ''torrents''"
  by (simp_all add: xPathToRoute_def TrimSpace_settings ToLower_def lower_def char_of_def bit_iff_odd)

lemma setup_routes:
  "getDBForXPath ''Settings'' (rc_db (setupDatabaseRouting useJson st)) = Some (if useJson then JsonFiles else BboltDB)"
  "getDBForXPath ''Torrents'' (rc_db (setupDatabaseRouting useJson st)) = Some BboltDB"
  by (simp_all add: setupDatabaseRouting_def NewDBReadCache_def NewXPathDBRouter_def RegisterRoute_def add_route_def getDBForXPath_def routes Let_def)

text \<open>The settings in the JSON files or in bbolt, and the torrents.\<close>

definition set_look :: "('b, 'm) bolt_scheme \<Rightarrow> 'b \<times> json_dir \<Rightarrow> bool \<Rightarrow> jtext option" where
  "set_look B st inJson = (if inJson then json_look (snd st) ''Settings'' ''BitTorr'' else tdb_look B (fst st) ''Settings'' ''BitTorr'')"

definition stores_ok :: "('b, 'm) bolt_scheme \<Rightarrow> 'b \<times> json_dir \<Rightarrow> bool" where
  "stores_ok B st \<longleftrightarrow> tdb_ok B (fst st) \<and> json_ok (snd st)"

definition sets_ok :: "('b, 'm) bolt_scheme \<Rightarrow> 'b sets_state \<Rightarrow> bool" where
  "sets_ok B s \<longleftrightarrow> rc_ok (router_look B) (router_ok B) (ss_tdb s)"

lemma settings_in_paths [simp]: "''Settings'' \<in> settings_paths" "''Torrents'' \<in> settings_paths"
  by (simp_all add: settings_paths_def)

lemma copied_look: "copied look x n d t t' \<Longrightarrow> x \<in> settings_paths \<Longrightarrow> (\<exists>w. look t' x n = Some w \<and> equal_json d w) \<and> (\<forall>y \<in> settings_paths. y \<noteq> x \<longrightarrow> look t' y = look t y)"
  by (auto simp: copied_def)

text \<open>What the migration at the start does: the copy in the other store wins and is removed there, unless both are equal.\<close>

lemma clean_law:
  assumes "bolt_ok B" "bolt_writes B" "stores_ok B st"
  shows "\<exists>st'. applyCleanMigrations B p st = Some st' \<and> stores_ok B st' \<and> tdb_look B (fst st') ''Torrents'' = tdb_look B (fst st) ''Torrents''
    \<and> (case set_look B st (\<not> p) of
         None \<Rightarrow> set_look B st' = set_look B st
       | Some d \<Rightarrow> if \<exists>e. set_look B st p = Some e \<and> equal_json d e then set_look B st' = set_look B st
           else set_look B st' (\<not> p) = None \<and> (\<exists>w. set_look B st' p = Some w \<and> equal_json d w))"
proof -
  obtain b j where st: "st = (b, j)" by (cases st)
  have ok: "tdb_ok B b" "json_ok j" using assms(3) st by (simp_all add: stores_ok_def)
  note t = tdb_store [OF assms(1,2)]
  have ne: "''Torrents'' \<noteq> ''Settings''" by simp
  show ?thesis
  proof (cases p)
    case True
    obtain b' j' where m: "safeMigrate (TDB B) JsonDB ''Settings'' ''BitTorr'' True (b, j) = Some (b', j')" "tdb_ok B b'" "json_ok j'"
      and r: "case tdb_look B b ''Settings'' ''BitTorr'' of
         None \<Rightarrow> (\<forall>y \<in> settings_paths. tdb_look B b' y = tdb_look B b y) \<and> j' = j
       | Some d \<Rightarrow> if (\<exists>e. json_look j ''Settings'' ''BitTorr'' = Some e \<and> equal_json d e) then (\<forall>y \<in> settings_paths. tdb_look B b' y = tdb_look B b y \<and> json_look j' y = json_look j y)
           else (\<forall>y \<in> settings_paths. tdb_look B b' y = (if y = ''Settings'' then (tdb_look B b ''Settings'')(''BitTorr'' := None) else tdb_look B b y))
             \<and> copied json_look ''Settings'' ''BitTorr'' d j j'"
      using settings_store.safe_migrate_to [OF t json.settings_store_axioms ok settings_in_paths(1), of "''BitTorr''"] by blast
    show ?thesis using m r True st ne settings_in_paths copied_look [of json_look "''Settings''" "''BitTorr''" _ j j']
      by (auto simp: applyCleanMigrations_def stores_ok_def set_look_def fun_eq_iff split: option.splits if_splits)
  next
    case False
    obtain b' j' where m: "safeMigrate JsonDB (TDB B) ''Settings'' ''BitTorr'' True (j, b) = Some (j', b')" "json_ok j'" "tdb_ok B b'"
      and r: "case json_look j ''Settings'' ''BitTorr'' of
         None \<Rightarrow> (\<forall>y \<in> settings_paths. json_look j' y = json_look j y) \<and> b' = b
       | Some d \<Rightarrow> if (\<exists>e. tdb_look B b ''Settings'' ''BitTorr'' = Some e \<and> equal_json d e) then (\<forall>y \<in> settings_paths. json_look j' y = json_look j y \<and> tdb_look B b' y = tdb_look B b y)
           else (\<forall>y \<in> settings_paths. json_look j' y = (if y = ''Settings'' then (json_look j ''Settings'')(''BitTorr'' := None) else json_look j y))
             \<and> copied (tdb_look B) ''Settings'' ''BitTorr'' d b b'"
      using json.safe_migrate_to [OF t ok(2,1) settings_in_paths(1), of "''BitTorr''"] by blast
    show ?thesis using m r False st ne settings_in_paths copied_look [of "tdb_look B" "''Settings''" "''BitTorr''" _ b b']
      by (auto simp: applyCleanMigrations_def swap_stores_def stores_ok_def set_look_def fun_eq_iff split: option.splits if_splits)
  qed
qed

section \<open>What a start finds\<close>

lemma setup_fields: "rt_bolt (rc_db (setupDatabaseRouting p st)) = fst st" "rt_json (rc_db (setupDatabaseRouting p st)) = snd st"
    "rc_open (setupDatabaseRouting p st)" "rc_data (setupDatabaseRouting p st) = Map.empty" "rc_list (setupDatabaseRouting p st) = Map.empty"
  by (simp_all add: setupDatabaseRouting_def NewDBReadCache_def NewXPathDBRouter_def RegisterRoute_def add_route_def Let_def)

lemma setup_ok: "stores_ok B st \<Longrightarrow> rc_ok (router_look B) (router_ok B) (setupDatabaseRouting p st)"
  by (rule rc_okI) (auto simp: setup_fields router_ok_def stores_ok_def settings_paths_def setup_routes)

lemma setup_look: "rc_look (router_look B) (setupDatabaseRouting p st) ''Settings'' ''BitTorr'' = set_look B st p"
  by (simp add: rc_look_def setup_fields router_look_def setup_routes set_look_def)

lemma look_gets:
  assumes "stores_ok B st"
  shows "JsonDB_Get (snd st) ''Settings'' ''BitTorr'' = Some (set_look B st True, snd st)" "TDB_Get B (fst st) ''Settings'' ''BitTorr'' = Some (set_look B st False, fst st)"
  using json_root [of "snd st" "xPathToFilename ''Settings''"] assms
  by (auto simp: stores_ok_def JsonDB_Get_def json_look_def TDB_Get_def tdb_look_def set_look_def)

lemma existing: "stores_ok B st \<Longrightarrow> loadExistingSettings B st =
    (case Option.bind (set_look B st True) bt_parse of Some sets \<Rightarrow> Some sets | None \<Rightarrow> Option.bind (set_look B st False) bt_parse)"
  by (simp add: loadExistingSettings_def look_gets split: option.split)

lemma rc_Get_routing:
  assumes "rc_Get (RouterDB B) c x n = Some (v, c')"
  shows "getDBForXPath y (rc_db c') = getDBForXPath y (rc_db c) \<and> rt_bolt (rc_db c') = rt_bolt (rc_db c) \<and> rt_json (rc_db c') = rt_json (rc_db c)"
  using assms by (auto simp: rc_Get_def RouterDB_def route_read_def TDB_Get_def JsonDB_Get_def split: if_splits option.splits dbid.splits prod.splits)

lemma set_look_good:
  assumes "bolt_ok B" "bolt_writes B" "stores_ok B st" "set_look B st q = Some e"
  shows "good ''BitTorr'' e" "equal_json e e" "e \<noteq> Text JNull" "text_len e > 0"
proof -
  show g: "good ''BitTorr'' e"
    using assms(3,4) json.look_good [of "snd st" "''Settings''"] settings_store.look_good [OF tdb_store [OF assms(1,2)], of "fst st" "''Settings''"]
    by (auto simp: set_look_def stores_ok_def split: if_splits)
  show "text_len e > 0" by (rule good_len [OF g])
  obtain kvs where "e = Text (JObj kvs)" using g unfolding good_def by blast
  then show "equal_json e e" "e \<noteq> Text JNull" by simp_all
qed

text \<open>A start with settings in one of the stores whose preference is that of the settings.\<close>

lemma InitSets_law:
  assumes B: "bolt_ok B" "bolt_writes B" and st: "stores_ok B st" and env: "env_mode env = []" and p: "determineStoragePreferences B env st = p"
    and eff: "(case set_look B st (\<not> p) of Some d \<Rightarrow> Some d | None \<Rightarrow> set_look B st p) = Some d"
    and sets: "bt_parse d = Some sets" "bt_StoreSettingsInJson sets = p" "bt_ReaderReadAHead sets \<ge> 5"
  shows "\<exists>s. InitSets B ro env st = Some s \<and> sets_ok B s \<and> ss_ReadOnly s = ro \<and> ss_BTsets s = Some sets
    \<and> getDBForXPath ''Settings'' (rc_db (ss_tdb s)) = Some (if p then JsonFiles else BboltDB) \<and> getDBForXPath ''Torrents'' (rc_db (ss_tdb s)) = Some BboltDB
    \<and> tdb_look B (fst (stores s)) ''Torrents'' = tdb_look B (fst st) ''Torrents'' \<and> (\<exists>w. set_look B (stores s) p = Some w \<and> equal_json d w)
    \<and> (if set_look B st (\<not> p) = None \<or> (\<exists>e. set_look B st p = Some e \<and> equal_json d e) then set_look B (stores s) = set_look B st else set_look B (stores s) (\<not> p) = None)"
proof -
  obtain st1 where a: "applyCleanMigrations B p st = Some st1" "stores_ok B st1" "tdb_look B (fst st1) ''Torrents'' = tdb_look B (fst st) ''Torrents''"
    and m: "case set_look B st (\<not> p) of
         None \<Rightarrow> set_look B st1 = set_look B st
       | Some d \<Rightarrow> if \<exists>e. set_look B st p = Some e \<and> equal_json d e then set_look B st1 = set_look B st
           else set_look B st1 (\<not> p) = None \<and> (\<exists>w. set_look B st1 p = Some w \<and> equal_json d w)" using clean_law [OF B st, of p] by blast
  obtain w where w: "set_look B st1 p = Some w" "equal_json d w"
  proof -
    have "equal_json d d" using eff set_look_good(2) [OF B st] by (auto split: option.splits)
    then show ?thesis using m eff that by (auto split: option.splits if_splits)
  qed
  let ?t = "setupDatabaseRouting p st1"
  have t: "rc_ok (router_look B) (router_ok B) ?t" by (rule setup_ok [OF a(2)])
  obtain t1 where t1: "rc_Get (RouterDB B) ?t ''Settings'' ''BitTorr'' = Some (Some w, t1)" "rc_ok (router_look B) (router_ok B) t1"
    using settings_store.cache_Get [OF router_store [OF B] t settings_in_paths(1), of "''BitTorr''"] w(1) by (auto simp: setup_look)
  note r = rc_Get_routing [OF t1(1)]
  have parse: "bt_parse w = Some sets" using sets(1) bt_parse_equal [OF w(2)] by simp
  define s where "s = \<lparr>ss_tdb = t1, ss_BTsets = Some sets, ss_ReadOnly = ro\<rparr>"
  have "loadBTSets B \<lparr>ss_tdb = ?t, ss_BTsets = None, ss_ReadOnly = ro\<rparr> = Some s"
    using t1(1) parse sets(3) set_look_good(3,4) [OF B a(2) w(1)] by (simp add: loadBTSets_def tdb_ops_def ReadCacheDB_def s_def)
  then have i: "InitSets B ro env st = Some s" using a(1) env p sets(2) by (simp add: InitSets_def Let_def s_def)
  have st1: "stores s = st1" using r by (simp add: stores_def s_def setup_fields)
  have f: "sets_ok B s" "ss_ReadOnly s = ro" "ss_BTsets s = Some sets" "getDBForXPath ''Settings'' (rc_db (ss_tdb s)) = Some (if p then JsonFiles else BboltDB)"
      "getDBForXPath ''Torrents'' (rc_db (ss_tdb s)) = Some BboltDB"
    using t1(2) r setup_routes [of p st1] by (simp_all add: s_def sets_ok_def)
  have "if set_look B st (\<not> p) = None \<or> (\<exists>e. set_look B st p = Some e \<and> equal_json d e) then set_look B st1 = set_look B st else set_look B st1 (\<not> p) = None"
    using m eff by (auto split: option.splits if_splits)
  then show ?thesis using i f a(3) w by (intro exI [of _ s]) (simp add: st1)
qed

end
