(* ===== verification/SettingsRuns.thy ===== *)
theory SettingsRuns
  imports Settings
begin

text \<open>
  Runs of the settings of the torrent server across restarts: what a write leaves in the two stores, what switching the store leaves
  there, and which settings the next start finds. A restart is \<^verbatim>\<open>InitSets\<close> on the stores that the program before it left.
\<close>

section \<open>A write\<close>

lemma router_Set_stores:
  assumes "opSet (RouterDB B) r ''Settings'' n v = Some r'"
  shows "getDBForXPath x r' = getDBForXPath x r"
    and "getDBForXPath ''Settings'' r = Some JsonFiles \<Longrightarrow> rt_bolt r' = rt_bolt r"
    and "getDBForXPath ''Settings'' r = Some BboltDB \<Longrightarrow> rt_json r' = rt_json r"
  using assms by (auto simp: RouterDB_def route_write_def split: option.splits dbid.splits)

lemma equal_json_same: "same_json v w \<Longrightarrow> equal_json v w"
  by (cases v; cases w) auto

lemma router_look_settings:
  assumes "getDBForXPath ''Settings'' (rc_db (ss_tdb s)) = Some (if p then JsonFiles else BboltDB)"
  shows "router_look B (rc_db (ss_tdb s)) ''Settings'' ''BitTorr'' = set_look B (stores s) p"
  using assms by (simp add: router_look_def set_look_def stores_def)

lemma router_look_torrents:
  assumes "getDBForXPath ''Torrents'' (rc_db (ss_tdb s)) = Some BboltDB"
  shows "router_look B (rc_db (ss_tdb s)) ''Torrents'' = tdb_look B (fst (stores s)) ''Torrents''"
  using assms by (simp add: router_look_def stores_def)

definition routed :: "bool \<Rightarrow> 'b sets_state \<Rightarrow> bool" where
  "routed p s \<longleftrightarrow> getDBForXPath ''Settings'' (rc_db (ss_tdb s)) = Some (if p then JsonFiles else BboltDB) \<and> getDBForXPath ''Torrents'' (rc_db (ss_tdb s)) = Some BboltDB"

lemma stores_ok: "sets_ok B s \<Longrightarrow> stores_ok B (stores s)"
  using rc_okD(2) [of "router_look B" "router_ok B" "ss_tdb s"] by (simp add: sets_ok_def stores_ok_def stores_def router_ok_def)

lemma store_sets_law:
  assumes B: "bolt_ok B" "bolt_writes B" and s: "sets_ok B s" "\<not> ss_ReadOnly s" "routed p s"
  shows "\<exists>s'. store_sets B sets s = Some s' \<and> sets_ok B s' \<and> \<not> ss_ReadOnly s' \<and> routed p s' \<and> ss_BTsets s' = Some sets
    \<and> set_look B (stores s') (\<not> p) = set_look B (stores s) (\<not> p) \<and> tdb_look B (fst (stores s')) ''Torrents'' = tdb_look B (fst (stores s)) ''Torrents''
    \<and> (\<exists>w. set_look B (stores s') p = Some w \<and> equal_json (Text (bt_json sets)) w)"
proof -
  let ?c = "ss_tdb s" let ?v = "Text (bt_json sets)"
  have c: "rc_ok (router_look B) (router_ok B) ?c" using s(1) by (simp add: sets_ok_def)
  note R = router_store [OF B]
  obtain r' where r: "opSet (RouterDB B) (rc_db ?c) ''Settings'' ''BitTorr'' ?v = Some r'"
    and l: "\<forall>y \<in> settings_paths. router_look B r' y = (if y = ''Settings'' then (router_look B (rc_db ?c) ''Settings'')(''BitTorr'' \<mapsto> router_norm (rc_db ?c) ''Settings'' ?v) else router_look B (rc_db ?c) y)"
    using settings_store.set_law [OF R rc_okD(2) [OF c] settings_in_paths(1) good_json] by blast
  obtain c' where w: "rc_Set False (RouterDB B) ?c ''Settings'' ''BitTorr'' ?v = Some c'" "rc_ok (router_look B) (router_ok B) c'"
    using settings_store.cache_Set [OF R c settings_in_paths(1) good_json] by blast
  have db: "rc_db c' = r'" using w(1) r rc_okD(1) [OF c] by (auto simp: rc_Set_def Let_def)
  define s' where "s' = s\<lparr>ss_BTsets := Some sets, ss_tdb := c'\<rparr>"
  have st: "store_sets B sets s = Some s'" using w(1) s(2) by (simp add: store_sets_def tdb_ops_def ReadCacheDB_def s'_def)
  have f: "rc_db (ss_tdb s') = r'" "sets_ok B s'" "\<not> ss_ReadOnly s'" "ss_BTsets s' = Some sets" using w(2) s(2) db by (simp_all add: s'_def sets_ok_def)
  have ro: "routed p s'" using s(3) f(1) router_Set_stores(1) [OF r] by (simp add: routed_def)
  have "set_look B (stores s') (\<not> p) = set_look B (stores s) (\<not> p)"
    using s(3) f(1) router_Set_stores(2,3) [OF r] by (cases p) (simp_all add: routed_def set_look_def stores_def)
  moreover have "tdb_look B (fst (stores s')) ''Torrents'' = tdb_look B (fst (stores s)) ''Torrents''"
    using l settings_in_paths(2) router_look_torrents [of s' B] router_look_torrents [of s B] ro s(3) f(1) by (simp add: routed_def)
  moreover have "set_look B (stores s') p = Some (router_norm (rc_db ?c) ''Settings'' ?v)"
    using l settings_in_paths(1) router_look_settings [of s' p B] ro f(1) by (simp add: routed_def)
  moreover have "equal_json ?v (router_norm (rc_db ?c) ''Settings'' ?v)" using settings_store.norm_good [OF R good_json] equal_json_same by blast
  ultimately show ?thesis using st f(2-4) ro by blast
qed

lemma fix_sets_fields [simp]: "bt_StoreSettingsInJson (fix_sets sets) = bt_StoreSettingsInJson sets" "bt_ReaderReadAHead (fix_sets sets) \<ge> 5"
  by (simp_all add: fix_sets_def Let_def)

lemma parse_written: "equal_json (Text (bt_json sets)) w \<Longrightarrow> bt_parse w = Some sets"
  using bt_parse_equal [of "Text (bt_json sets)" w] by simp

lemma equal_json_trans: "equal_json u v \<Longrightarrow> equal_json u w \<Longrightarrow> equal_json v w"
  by (cases u; cases v; cases w) simp_all

lemma equal_json_sym: "equal_json v w \<longleftrightarrow> equal_json w v"
  by (cases v; cases w) auto

lemma SetBTSets_law:
  assumes "bolt_ok B" "bolt_writes B" "sets_ok B s" "\<not> ss_ReadOnly s" "routed p s"
  shows "\<exists>s'. SetBTSets B sets s = Some s' \<and> sets_ok B s' \<and> \<not> ss_ReadOnly s' \<and> routed p s' \<and> ss_BTsets s' = Some (fix_sets sets)
    \<and> set_look B (stores s') (\<not> p) = set_look B (stores s) (\<not> p) \<and> tdb_look B (fst (stores s')) ''Torrents'' = tdb_look B (fst (stores s)) ''Torrents''
    \<and> (\<exists>w. set_look B (stores s') p = Some w \<and> equal_json (Text (bt_json (fix_sets sets))) w)"
  using store_sets_law [OF assms, of "fix_sets sets"] assms(4) by (simp add: SetBTSets_def)

section \<open>Switching the store\<close>

lemma stores_put [simp]: "stores (put_stores st s) = st"
  by (simp add: stores_def put_stores_def)

lemma copy_settings:
  assumes B: "bolt_ok B" "bolt_writes B" and st: "stores_ok B st" and d: "set_look B st p = Some d"
  shows "\<exists>m st'. (if p then map_option (\<lambda>(m, st). (m, prod.swap st)) (MigrateSingle JsonDB (TDB B) ''Settings'' ''BitTorr'' (prod.swap st))
      else MigrateSingle (TDB B) JsonDB ''Settings'' ''BitTorr'' st) = Some (m, st')
    \<and> m \<noteq> Failed \<and> stores_ok B st' \<and> set_look B st' p = Some d \<and> (\<exists>e. set_look B st' (\<not> p) = Some e \<and> equal_json d e)
    \<and> tdb_look B (fst st') ''Torrents'' = tdb_look B (fst st) ''Torrents''"
proof -
  obtain b j where s: "st = (b, j)" by (cases st)
  have ok: "tdb_ok B b" "json_ok j" using st s by (simp_all add: stores_ok_def)
  note t = tdb_store [OF B]
  have ne: "''Torrents'' \<noteq> ''Settings''" by simp
  show ?thesis
  proof (cases p)
    case True
    have l: "json_look j ''Settings'' ''BitTorr'' = Some d" using d s True by (simp add: set_look_def)
    obtain m j' b' where m: "MigrateSingle JsonDB (TDB B) ''Settings'' ''BitTorr'' (j, b) = Some (m, j', b')" "json_ok j'" "tdb_ok B b'"
        "\<forall>y \<in> settings_paths. json_look j' y = json_look j y"
      and r: "if \<exists>e. tdb_look B b ''Settings'' ''BitTorr'' = Some e \<and> equal_json d e then m = Skipped \<and> (\<forall>y \<in> settings_paths. tdb_look B b' y = tdb_look B b y)
        else m = Migrated \<and> copied (tdb_look B) ''Settings'' ''BitTorr'' d b b'"
      using json.migrate_to [OF t ok(2,1) settings_in_paths(1), of "''BitTorr''"] unfolding l option.case by blast
    show ?thesis using m l r ne settings_in_paths copied_look [of "tdb_look B" "''Settings''" "''BitTorr''" d b b']
      by (intro exI [of _ m] exI [of _ "(b', j')"]) (auto simp: s True stores_ok_def set_look_def split: if_splits)
  next
    case False
    have l: "tdb_look B b ''Settings'' ''BitTorr'' = Some d" using d s False by (simp add: set_look_def)
    obtain m b' j' where m: "MigrateSingle (TDB B) JsonDB ''Settings'' ''BitTorr'' (b, j) = Some (m, b', j')" "tdb_ok B b'" "json_ok j'"
        "\<forall>y \<in> settings_paths. tdb_look B b' y = tdb_look B b y"
      and r: "if \<exists>e. json_look j ''Settings'' ''BitTorr'' = Some e \<and> equal_json d e then m = Skipped \<and> (\<forall>y \<in> settings_paths. json_look j' y = json_look j y)
        else m = Migrated \<and> copied json_look ''Settings'' ''BitTorr'' d j j'"
      using settings_store.migrate_to [OF t json.settings_store_axioms ok settings_in_paths(1), of "''BitTorr''"] unfolding l option.case by blast
    show ?thesis using m l r ne settings_in_paths copied_look [of json_look "''Settings''" "''BitTorr''" d j j']
      by (intro exI [of _ m] exI [of _ "(b', j')"]) (auto simp: s False stores_ok_def set_look_def split: if_splits)
  qed
qed

lemma switch_law:
  assumes B: "bolt_ok B" "bolt_writes B" and s: "sets_ok B s" "\<not> ss_ReadOnly s" "routed p s" "ss_BTsets s = Some old" "bt_StoreSettingsInJson old = p"
  shows "\<exists>s' d e. SetStoragePreferences B (Some (if p then ''bbolt'' else ''json'')) s = Some (True, s') \<and> stores_ok B (stores s')
    \<and> set_look B (stores s') p = Some d \<and> set_look B (stores s') (\<not> p) = Some e \<and> equal_json d e
    \<and> bt_parse d = Some (fix_sets (old\<lparr>bt_StoreSettingsInJson := \<not> p\<rparr>))
    \<and> tdb_look B (fst (stores s')) ''Torrents'' = tdb_look B (fst (stores s)) ''Torrents''"
proof -
  let ?o = "old\<lparr>bt_StoreSettingsInJson := \<not> p\<rparr>" let ?s = "s\<lparr>ss_BTsets := Some ?o\<rparr>"
  have u: "sets_ok B ?s" "\<not> ss_ReadOnly ?s" "routed p ?s" "stores ?s = stores s" using s by (simp_all add: sets_ok_def routed_def stores_def)
  obtain s1 d where s1: "SetBTSets B ?o ?s = Some s1" "sets_ok B s1" "tdb_look B (fst (stores s1)) ''Torrents'' = tdb_look B (fst (stores s)) ''Torrents''"
    and d: "set_look B (stores s1) p = Some d" "equal_json (Text (bt_json (fix_sets ?o))) d"
    using SetBTSets_law [OF B u(1-3), of ?o] u(4) by auto
  obtain m st' e where c: "(if p then map_option (\<lambda>(m, st). (m, prod.swap st)) (MigrateSingle JsonDB (TDB B) ''Settings'' ''BitTorr'' (prod.swap (stores s1)))
      else MigrateSingle (TDB B) JsonDB ''Settings'' ''BitTorr'' (stores s1)) = Some (m, st')"
    and m: "m \<noteq> Failed" "stores_ok B st'" "set_look B st' p = Some d" "set_look B st' (\<not> p) = Some e" "equal_json d e"
      "tdb_look B (fst st') ''Torrents'' = tdb_look B (fst (stores s1)) ''Torrents''"
    using copy_settings [OF B stores_ok [OF s1(2)] d(1)] by blast
  have sw: "SwitchSettingsStorage B (\<not> p) s = Some (True, put_stores st' s1)"
    using s(2,4) s1(1) c m(1) by (cases p) (auto simp: SwitchSettingsStorage_def)
  have "SetStoragePreferences B (Some (if p then ''bbolt'' else ''json'')) s = Some (True, put_stores st' s1)"
    using sw s(2,4,5) by (cases p) (simp_all add: SetStoragePreferences_def)
  then show ?thesis using m s1(3) parse_written [OF d(2)] by (intro exI [of _ "put_stores st' s1"] exI [of _ d] exI [of _ e]) simp
qed

section \<open>A torrent\<close>

lemma router_Set_torrents:
  assumes "opSet (RouterDB B) r ''Torrents'' n v = Some r'" "getDBForXPath ''Torrents'' r = Some BboltDB"
  shows "getDBForXPath x r' = getDBForXPath x r" "rt_json r' = rt_json r" "TDB_Set B (rt_bolt r) ''Torrents'' n v = Some (rt_bolt r')"
  using assms by (auto simp: RouterDB_def route_write_def)

lemma AddTorrent_law:
  assumes B: "bolt_ok B" "bolt_writes B" and s: "sets_ok B s" "\<not> ss_ReadOnly s" "routed p s" and g: "good h (Text (JObj torr))"
  shows "\<exists>s'. AddTorrent B h torr s = Some s' \<and> sets_ok B s' \<and> \<not> ss_ReadOnly s' \<and> routed p s' \<and> ss_BTsets s' = ss_BTsets s
    \<and> set_look B (stores s') = set_look B (stores s)
    \<and> tdb_look B (fst (stores s')) ''Torrents'' = (tdb_look B (fst (stores s)) ''Torrents'')(h \<mapsto> Text (JObj torr))"
proof -
  let ?c = "ss_tdb s" let ?v = "Text (JObj torr)"
  have c: "rc_ok (router_look B) (router_ok B) ?c" using s(1) by (simp add: sets_ok_def)
  note R = router_store [OF B] and t = tdb_store [OF B]
  have b: "tdb_ok B (rt_bolt (rc_db ?c))" using rc_okD(2) [OF c] by (simp add: router_ok_def)
  obtain c' where w: "rc_Set False (RouterDB B) ?c ''Torrents'' h ?v = Some c'" "rc_ok (router_look B) (router_ok B) c'"
    using settings_store.cache_Set [OF R c settings_in_paths(2) g] by blast
  have r: "opSet (RouterDB B) (rc_db ?c) ''Torrents'' h ?v = Some (rc_db c')" using w(1) rc_okD(1) [OF c] by (auto simp: rc_Set_def Let_def)
  note k = router_Set_torrents [OF r s(3) [unfolded routed_def, THEN conjunct2]]
  have l: "\<forall>y \<in> settings_paths. tdb_look B (rt_bolt (rc_db c')) y = (if y = ''Torrents'' then (tdb_look B (rt_bolt (rc_db ?c)) y)(h \<mapsto> ?v) else tdb_look B (rt_bolt (rc_db ?c)) y)"
    using settings_store.set_law [OF t b settings_in_paths(2) g] k(3) by (auto simp: TDB_def)
  define s' where "s' = s\<lparr>ss_tdb := c'\<rparr>"
  have "AddTorrent B h torr s = Some s'" using w(1) s(2) by (simp add: AddTorrent_def tdb_ops_def ReadCacheDB_def s'_def)
  moreover have "sets_ok B s'" "\<not> ss_ReadOnly s'" "ss_BTsets s' = ss_BTsets s" "routed p s'" using w(2) s(2,3) k(1) by (simp_all add: s'_def sets_ok_def routed_def)
  moreover have "set_look B (stores s') = set_look B (stores s)" using l k(2) by (simp add: fun_eq_iff set_look_def stores_def s'_def)
  moreover have "tdb_look B (fst (stores s')) ''Torrents'' = (tdb_look B (fst (stores s)) ''Torrents'')(h \<mapsto> ?v)"
    using l settings_in_paths(2) by (simp add: stores_def s'_def)
  ultimately show ?thesis by blast
qed

section \<open>Restarts\<close>

lemma preference:
  assumes "stores_ok B st" "bt_StoreSettingsInJson sets = p" "set_look B st p = Some d" "bt_parse d = Some sets"
    and "\<And>e. set_look B st (\<not> p) = Some e \<Longrightarrow> \<exists>q. bt_parse e = Some q \<and> bt_StoreSettingsInJson q = p"
  shows "determineStoragePreferences B env st = p"
proof (cases "set_look B st True")
  case (Some x)
  have "\<exists>q. bt_parse x = Some q \<and> bt_StoreSettingsInJson q = p" using assms(2-5) Some by (cases p) auto
  then show ?thesis using assms(1) Some by (auto simp: determineStoragePreferences_def existing)
next
  case None
  then have "\<not> p" using assms(3) by (cases p) auto
  then show ?thesis using assms None by (simp add: determineStoragePreferences_def existing)
qed

text \<open>A restart with the settings in one store only, and one with a copy in the other store.\<close>

lemma restart_single:
  assumes B: "bolt_ok B" "bolt_writes B" and st: "stores_ok B st" and env: "env_mode env = []"
    and d: "set_look B st p = Some d" "set_look B st (\<not> p) = None" "bt_parse d = Some sets" "bt_StoreSettingsInJson sets = p" "bt_ReaderReadAHead sets \<ge> 5"
  shows "\<exists>s. InitSets B ro env st = Some s \<and> sets_ok B s \<and> ss_ReadOnly s = ro \<and> routed p s \<and> ss_BTsets s = Some sets
    \<and> set_look B (stores s) = set_look B st \<and> tdb_look B (fst (stores s)) ''Torrents'' = tdb_look B (fst st) ''Torrents''"
proof -
  have "determineStoragePreferences B env st = p" by (rule preference [OF st d(4,1,3)]) (simp add: d(2))
  from InitSets_law [OF B st env this, of d sets ro] show ?thesis using d unfolding routed_def by auto
qed

lemma restart_copy:
  assumes B: "bolt_ok B" "bolt_writes B" and st: "stores_ok B st" and env: "env_mode env = []"
    and d: "set_look B st p = Some d" "bt_parse d = Some sets" "bt_StoreSettingsInJson sets = p"
    and e: "set_look B st (\<not> p) = Some e" "bt_parse e = Some left" "bt_StoreSettingsInJson left = p" "bt_ReaderReadAHead left \<ge> 5"
  shows "\<exists>s. InitSets B ro env st = Some s \<and> sets_ok B s \<and> ss_ReadOnly s = ro \<and> routed p s \<and> ss_BTsets s = Some left
    \<and> (equal_json e d \<longrightarrow> set_look B (stores s) = set_look B st) \<and> tdb_look B (fst (stores s)) ''Torrents'' = tdb_look B (fst st) ''Torrents''"
proof -
  have "determineStoragePreferences B env st = p" by (rule preference [OF st d(3,1,2)]) (simp add: e)
  from InitSets_law [OF B st env this, of e left ro] show ?thesis using d e unfolding routed_def by auto
qed

lemma GetTorrent_law:
  assumes B: "bolt_ok B" "bolt_writes B" and s: "sets_ok B s" "routed p s"
  shows "\<exists>r s'. GetTorrent B h s = Some (r, s') \<and> (tdb_look B (fst (stores s)) ''Torrents'' h = None \<longrightarrow> r = None)
    \<and> (\<forall>torr. tdb_look B (fst (stores s)) ''Torrents'' h = Some (Text (JObj torr)) \<longrightarrow> (\<exists>t. r = Some t \<and> equal_json (Text (JObj t)) (Text (JObj torr))))"
proof -
  let ?c = "ss_tdb s"
  have c: "rc_ok (router_look B) (router_ok B) ?c" using s(1) by (simp add: sets_ok_def)
  note R = router_store [OF B]
  have l: "router_look B (rc_db ?c) ''Torrents'' h = tdb_look B (fst (stores s)) ''Torrents'' h" using s(2) by (simp add: routed_def router_look_torrents)
  have "agrees h (rc_look (router_look B) ?c ''Torrents'' h) (tdb_look B (fst (stores s)) ''Torrents'' h)"
    using rc_okD(3) [OF c settings_in_paths(2), of h] settings_store.agrees_look [OF R rc_okD(2) [OF c] settings_in_paths(2), of h]
    by (simp add: rc_look_def l split: option.split)
  moreover obtain c' where "rc_Get (RouterDB B) ?c ''Torrents'' h = Some (rc_look (router_look B) ?c ''Torrents'' h, c')"
    using settings_store.cache_Get [OF R c settings_in_paths(2), of h] by blast
  ultimately show ?thesis
    by (auto simp: GetTorrent_def tdb_ops_def ReadCacheDB_def agrees_def good_def split: option.splits)
qed

section \<open>A bbolt database in memory\<close>

text \<open>Buckets by path and values by bucket and key: an instance of the parameter that meets its hypotheses.\<close>

definition mem_bolt :: "(string list list \<times> ((string list \<times> string) \<times> jtext) list) bolt" where
  "mem_bolt =
     \<lparr>bBucket = (\<lambda>(bs, kvs) p. p \<in> set bs),
      bCreate = (\<lambda>(bs, kvs) p. Some (if p \<in> set bs then (bs, kvs) else (p # bs, filter (\<lambda>kv. fst (fst kv) \<noteq> p) kvs))),
      bGet = (\<lambda>(bs, kvs) p n. map_of kvs (p, n)),
      bPut = (\<lambda>(bs, kvs) p n v. if n = [] then None else Some (bs, AList.update (p, n) v kvs)),
      bDelete = (\<lambda>(bs, kvs) p n. Some (bs, AList.delete (p, n) kvs)),
      bKeys = (\<lambda>(bs, kvs) p. map (snd \<circ> fst) (filter (\<lambda>kv. fst (fst kv) = p) kvs) @ map List.last (filter (\<lambda>b. b \<noteq> [] \<and> butlast b = p) bs)),
      bForEachDelete = (\<lambda>(bs, kvs) p. Some (bs, filter (\<lambda>kv. fst (fst kv) \<noteq> p) kvs))\<rparr>"

lemma map_of_other: "map_of (filter (\<lambda>kv. fst (fst kv) \<noteq> p) kvs) (q, n) = (if q = p then None else map_of kvs (q, n))"
  by (induction kvs) auto

lemma mem_keys:
  "n \<in> set (bKeys mem_bolt (bs, kvs) p) \<longleftrightarrow> map_of kvs (p, n) \<noteq> None \<or> p @ [n] \<in> set bs"
proof -
  have "n \<in> List.last ` {b \<in> set bs. b \<noteq> [] \<and> butlast b = p} \<longleftrightarrow> p @ [n] \<in> set bs" by (force simp: image_iff snoc_eq_iff_butlast)
  moreover have "n \<in> (snd \<circ> fst) ` {kv \<in> set kvs. fst (fst kv) = p} \<longleftrightarrow> map_of kvs (p, n) \<noteq> None" unfolding map_of_eq_None_iff by (force simp: image_iff)
  ultimately show ?thesis by (simp add: mem_bolt_def)
qed

lemma mem_bolt_ok: "bolt_ok mem_bolt"
  unfolding bolt_ok_def
proof (intro conjI allI impI)
  fix db p n
  show "(n \<in> set (bKeys mem_bolt db p)) = (bGet mem_bolt db p n \<noteq> None \<or> bBucket mem_bolt db (p @ [n]))"
    using mem_keys [of n "fst db" "snd db" p] by (simp add: mem_bolt_def split_beta)
qed (auto simp: mem_bolt_def map_of_other update_conv' delete_conv' split: if_splits)

lemma mem_bolt_writes: "bolt_writes mem_bolt"
  by (auto simp: bolt_writes_def mem_bolt_def)

text \<open>A program over empty stores, with the default settings in memory.\<close>

definition no_files :: json_dir where
  "no_files = \<lparr>jd_files = Map.empty, jd_writable = (\<lambda>_. True)\<rparr>"

definition first_state :: "(string list list \<times> ((string list \<times> string) \<times> jtext) list) sets_state" where
  "first_state = \<lparr>ss_tdb = setupDatabaseRouting True (([], []), no_files), ss_BTsets = Some default_sets, ss_ReadOnly = False\<rparr>"

lemma first_state_ok: "sets_ok mem_bolt first_state" "\<not> ss_ReadOnly first_state" "routed True first_state" "ss_BTsets first_state = Some default_sets"
    "bt_StoreSettingsInJson default_sets" "set_look mem_bolt (stores first_state) (\<not> True) = None"
  by (simp_all add: first_state_def sets_ok_def setup_ok stores_ok_def tdb_ok_def json_ok_def no_files_def mem_bolt_def routed_def setup_routes default_sets_def
      set_look_def tdb_look_def stores_def setup_fields)

section \<open>Sequences of operations\<close>

datatype db_op = DGet string string | DSet string string jtext | DRem string string | DList string

datatype db_result = Value "jtext option" | Names "string set" | Done

definition db_run1 :: "'s GoStormDB \<Rightarrow> db_op \<Rightarrow> 's \<Rightarrow> (db_result \<times> 's) option" where
  "db_run1 D op s =
     (case op of
        DGet x n \<Rightarrow> map_option (\<lambda>(v, s). (Value v, s)) (opGet D s x n)
      | DSet x n v \<Rightarrow> map_option (\<lambda>s. (Done, s)) (opSet D s x n v)
      | DRem x n \<Rightarrow> map_option (\<lambda>s. (Done, s)) (opRem D s x n)
      | DList x \<Rightarrow> map_option (\<lambda>(ns, s). (Names (set ns), s)) (opList D s x))"

fun db_run :: "'s GoStormDB \<Rightarrow> db_op list \<Rightarrow> 's \<Rightarrow> (db_result list \<times> 's) option" where
  "db_run D [] s = Some ([], s)"
| "db_run D (op # ops) s = (case db_run1 D op s of None \<Rightarrow> None | Some (r, s) \<Rightarrow> map_option (\<lambda>(rs, s). (r # rs, s)) (db_run D ops s))"

text \<open>The same on a map of paths and names, and the operations of the program: objects under a name, below its two paths.\<close>

fun spec_run :: "db_op list \<Rightarrow> (string \<Rightarrow> string \<rightharpoonup> jtext) \<Rightarrow> db_result list" where
  "spec_run [] m = []"
| "spec_run (DGet x n # ops) m = Value (m x n) # spec_run ops m"
| "spec_run (DSet x n v # ops) m = Done # spec_run ops (m(x := (m x)(n \<mapsto> v)))"
| "spec_run (DRem x n # ops) m = Done # spec_run ops (m(x := (m x)(n := None)))"
| "spec_run (DList x # ops) m = Names (dom (m x)) # spec_run ops m"

fun op_ok :: "db_op \<Rightarrow> bool" where
  "op_ok (DGet x n) \<longleftrightarrow> x \<in> settings_paths"
| "op_ok (DSet x n v) \<longleftrightarrow> x \<in> settings_paths \<and> good n v"
| "op_ok (DRem x n) \<longleftrightarrow> x \<in> settings_paths"
| "op_ok (DList x) \<longleftrightarrow> x \<in> settings_paths"

context settings_store
begin

lemma run_exact:
  assumes "\<And>s x v. norm s x v = v" "ok s" "list_all op_ok ops" "\<And>x. x \<in> settings_paths \<Longrightarrow> m x = look s x"
  shows "\<exists>s'. db_run D ops s = Some (spec_run ops m, s') \<and> ok s'"
  using assms(2-4)
proof (induction ops arbitrary: s m)
  case (Cons op ops)
  have "\<exists>r s1 m1. db_run1 D op s = Some (r, s1) \<and> spec_run (op # ops) m = r # spec_run ops m1 \<and> ok s1 \<and> (\<forall>x \<in> settings_paths. m1 x = look s1 x)"
  proof (cases op)
    case (DGet x n)
    then show ?thesis using get_law [OF Cons.prems(1), of x n] Cons.prems by (fastforce simp: db_run1_def)
  next
    case (DSet x n v)
    then show ?thesis using set_law [OF Cons.prems(1), of x n v] Cons.prems assms(1) by (fastforce simp: db_run1_def)
  next
    case (DRem x n)
    then show ?thesis using rem_law [OF Cons.prems(1), of x n] Cons.prems by (fastforce simp: db_run1_def)
  next
    case (DList x)
    then show ?thesis using list_law [OF Cons.prems(1), of x] Cons.prems by (fastforce simp: db_run1_def)
  qed
  then obtain r s1 m1 where r: "db_run1 D op s = Some (r, s1)" "spec_run (op # ops) m = r # spec_run ops m1" "ok s1" "\<And>x. x \<in> settings_paths \<Longrightarrow> m1 x = look s1 x" by blast
  then show ?case using Cons.IH [OF r(3) _ r(4)] Cons.prems(2) by auto
qed simp

end

section \<open>Properties\<close>

text \<open>C16: On a program whose settings are in one store only, changed settings survive a restart: the limits are applied to them, they
  are written to the store the settings are routed to, the next start finds exactly them, keeps the single copy and the torrents, and
  uses the same store.\<close>

theorem settings_survive_restart:
  assumes "bolt_ok B" "bolt_writes B" "sets_ok B s" "\<not> ss_ReadOnly s" "routed p s" "set_look B (stores s) (\<not> p) = None"
    and "env_mode env = []" "bt_StoreSettingsInJson new = p"
  shows "\<exists>s1 s2. SetBTSets B new s = Some s1 \<and> ss_BTsets s1 = Some (fix_sets new) \<and> InitSets B ro env (stores s1) = Some s2 \<and> ss_BTsets s2 = Some (fix_sets new)
    \<and> sets_ok B s2 \<and> routed p s2 \<and> set_look B (stores s2) (\<not> p) = None \<and> tdb_look B (fst (stores s2)) ''Torrents'' = tdb_look B (fst (stores s)) ''Torrents''"
proof -
  obtain s1 w where s1: "SetBTSets B new s = Some s1" "sets_ok B s1" "ss_BTsets s1 = Some (fix_sets new)" "set_look B (stores s1) (\<not> p) = None"
      "tdb_look B (fst (stores s1)) ''Torrents'' = tdb_look B (fst (stores s)) ''Torrents''"
    and w: "set_look B (stores s1) p = Some w" "equal_json (Text (bt_json (fix_sets new))) w"
    using SetBTSets_law [OF assms(1-5), of new] assms(6) by auto
  show ?thesis
    using restart_single [OF assms(1,2) stores_ok [OF s1(2)] assms(7) w(1) s1(4) parse_written [OF w(2)], of ro] s1 assms(8) by auto
qed

theorem settings_survive_restart_witness:
  "\<exists>s1 s2. SetBTSets mem_bolt (default_sets\<lparr>bt_ReaderReadAHead := 200\<rparr>) first_state = Some s1
    \<and> InitSets mem_bolt False \<lparr>env_mode = [], env_storage = []\<rparr> (stores s1) = Some s2
    \<and> ss_BTsets s2 = Some (default_sets\<lparr>bt_ReaderReadAHead := 100, bt_UseDisk := False\<rparr>)"
proof -
  have f: "fix_sets (default_sets\<lparr>bt_ReaderReadAHead := 200\<rparr>) = default_sets\<lparr>bt_ReaderReadAHead := 100, bt_UseDisk := False\<rparr>"
    by (simp add: fix_sets_def default_sets_def zero_sets_def Let_def)
  show ?thesis
    using settings_survive_restart [OF mem_bolt_ok mem_bolt_writes first_state_ok(1-3,6), of "\<lparr>env_mode = [], env_storage = []\<rparr>" "default_sets\<lparr>bt_ReaderReadAHead := 200\<rparr>" False]
      first_state_ok(5) f by auto
qed

text \<open>C34: Switching the store of the settings loses later changes. The switch leaves a copy in the store it comes from. After a restart
  settings are written to the new store only, and at the next start the copy left behind replaces them: the settings are those of the
  time of the switch, whatever was set since.\<close>

theorem switched_settings_revert:
  assumes "bolt_ok B" "bolt_writes B" "sets_ok B s" "\<not> ss_ReadOnly s" "routed p s" "ss_BTsets s = Some old" "bt_StoreSettingsInJson old = p"
    and "env_mode env = []" "bt_StoreSettingsInJson new = (\<not> p)"
  shows "\<exists>s1 s2 s3 s4. SetStoragePreferences B (Some (if p then ''bbolt'' else ''json'')) s = Some (True, s1) \<and> InitSets B False env (stores s1) = Some s2
    \<and> SetBTSets B new s2 = Some s3 \<and> ss_BTsets s3 = Some (fix_sets new)
    \<and> InitSets B False env (stores s3) = Some s4 \<and> ss_BTsets s4 = Some (fix_sets (old\<lparr>bt_StoreSettingsInJson := \<not> p\<rparr>))"
proof -
  note B = assms(1,2)
  let ?o = "fix_sets (old\<lparr>bt_StoreSettingsInJson := \<not> p\<rparr>)"
  obtain s1 d e where s1: "SetStoragePreferences B (Some (if p then ''bbolt'' else ''json'')) s = Some (True, s1)" "stores_ok B (stores s1)"
    and d: "set_look B (stores s1) p = Some d" "bt_parse d = Some ?o" and e: "set_look B (stores s1) (\<not> p) = Some e" "equal_json d e"
    using switch_law [OF assms(1-7)] by blast
  have pe: "bt_parse e = Some ?o" using d(2) bt_parse_equal [OF e(2)] by simp
  have o: "bt_StoreSettingsInJson ?o = (\<not> p)" "bt_ReaderReadAHead ?o \<ge> 5" by simp_all
  obtain s2 where s2: "InitSets B False env (stores s1) = Some s2" "sets_ok B s2" "ss_ReadOnly s2 = False" "routed (\<not> p) s2" "set_look B (stores s2) = set_look B (stores s1)"
    using restart_copy [OF B s1(2) assms(8) e(1) pe o(1), of d ?o False] d e(2) o by auto
  obtain s3 w where s3: "SetBTSets B new s2 = Some s3" "sets_ok B s3" "ss_BTsets s3 = Some (fix_sets new)" "set_look B (stores s3) p = Some d"
    and w: "set_look B (stores s3) (\<not> p) = Some w" "equal_json (Text (bt_json (fix_sets new))) w"
    using SetBTSets_law [OF B s2(2) _ s2(4), of new] s2(3,5) d(1) by auto
  obtain s4 where "InitSets B False env (stores s3) = Some s4" "ss_BTsets s4 = Some ?o"
    using restart_copy [OF B stores_ok [OF s3(2)] assms(8) w(1) parse_written [OF w(2)], of d ?o False] s3(4) d(2) o assms(9) by auto
  then show ?thesis using s1(1) s2(1) s3(1,3) by blast
qed

theorem switched_settings_revert_witness:
  "\<exists>s1 s2 s3 s4. SetStoragePreferences mem_bolt (Some ''bbolt'') first_state = Some (True, s1)
    \<and> InitSets mem_bolt False \<lparr>env_mode = [], env_storage = []\<rparr> (stores s1) = Some s2
    \<and> SetBTSets mem_bolt (default_sets\<lparr>bt_StoreSettingsInJson := False, bt_ConnectionsLimit := 50\<rparr>) s2 = Some s3 \<and> map_option bt_ConnectionsLimit (ss_BTsets s3) = Some 50
    \<and> InitSets mem_bolt False \<lparr>env_mode = [], env_storage = []\<rparr> (stores s3) = Some s4 \<and> map_option bt_ConnectionsLimit (ss_BTsets s4) = Some 25"
proof -
  have f: "bt_ConnectionsLimit (fix_sets (default_sets\<lparr>bt_StoreSettingsInJson := False, bt_ConnectionsLimit := 50\<rparr>)) = 50"
    "bt_ConnectionsLimit (fix_sets (default_sets\<lparr>bt_StoreSettingsInJson := False\<rparr>)) = 25"
    by (simp_all add: fix_sets_def default_sets_def zero_sets_def Let_def)
  show ?thesis
    using switched_settings_revert [OF mem_bolt_ok mem_bolt_writes first_state_ok(1-4), of "\<lparr>env_mode = [], env_storage = []\<rparr>"
        "default_sets\<lparr>bt_StoreSettingsInJson := False, bt_ConnectionsLimit := 50\<rparr>"] first_state_ok(5) f by auto
qed

text \<open>A torrent that was added is found after a restart, as the same JSON object, while the settings are in one store; all other
  torrents are kept.\<close>

theorem torrent_survives_restart:
  assumes "bolt_ok B" "bolt_writes B" "sets_ok B s" "\<not> ss_ReadOnly s" "routed p s" "good h (Text (JObj torr))"
    and "set_look B (stores s) p = Some d" "set_look B (stores s) (\<not> p) = None" "bt_parse d = Some sets" "bt_StoreSettingsInJson sets = p" "bt_ReaderReadAHead sets \<ge> 5"
    and "env_mode env = []"
  shows "\<exists>s1 s2 t s3. AddTorrent B h torr s = Some s1 \<and> InitSets B ro env (stores s1) = Some s2
    \<and> GetTorrent B h s2 = Some (Some t, s3) \<and> equal_json (Text (JObj t)) (Text (JObj torr))
    \<and> (\<forall>k. k \<noteq> h \<longrightarrow> tdb_look B (fst (stores s2)) ''Torrents'' k = tdb_look B (fst (stores s)) ''Torrents'' k)"
proof -
  obtain s1 where s1: "AddTorrent B h torr s = Some s1" "sets_ok B s1" "set_look B (stores s1) = set_look B (stores s)"
      "tdb_look B (fst (stores s1)) ''Torrents'' = (tdb_look B (fst (stores s)) ''Torrents'')(h \<mapsto> Text (JObj torr))"
    using AddTorrent_law [OF assms(1-6)] by blast
  obtain s2 where s2: "InitSets B ro env (stores s1) = Some s2" "sets_ok B s2" "routed p s2"
      "tdb_look B (fst (stores s2)) ''Torrents'' = tdb_look B (fst (stores s1)) ''Torrents''"
    using restart_single [OF assms(1,2) stores_ok [OF s1(2)] assms(12), of p d sets ro] s1(3) assms(7-11) by auto
  show ?thesis using GetTorrent_law [OF assms(1,2) s2(2,3), of h] s1(1,4) s2(1,4) by auto
qed

theorem torrent_survives_restart_witness:
  "\<exists>s0 s1 s2 t s3. SetBTSets mem_bolt default_sets first_state = Some s0 \<and> AddTorrent mem_bolt ''ab'' [(''title'', JStr ''x''), (''size'', JNum 7)] s0 = Some s1
    \<and> InitSets mem_bolt False \<lparr>env_mode = [], env_storage = []\<rparr> (stores s1) = Some s2
    \<and> GetTorrent mem_bolt ''ab'' s2 = Some (Some t, s3) \<and> equal_json (Text (JObj t)) (Text (JObj [(''title'', JStr ''x''), (''size'', JNum 7)]))"
proof -
  obtain s0 w where s: "SetBTSets mem_bolt default_sets first_state = Some s0" "sets_ok mem_bolt s0" "\<not> ss_ReadOnly s0" "routed True s0"
      "set_look mem_bolt (stores s0) (\<not> True) = None" and w: "set_look mem_bolt (stores s0) True = Some w" "equal_json (Text (bt_json (fix_sets default_sets))) w"
    using SetBTSets_law [OF mem_bolt_ok mem_bolt_writes first_state_ok(1-3), of default_sets] first_state_ok(6) by auto
  have g: "good ''ab'' (Text (JObj [(''title'', JStr ''x''), (''size'', JNum 7)]))" by (simp add: good_def)
  show ?thesis
    using torrent_survives_restart [OF mem_bolt_ok mem_bolt_writes s(2-4) g w(1) s(5) parse_written [OF w(2)], of "\<lparr>env_mode = [], env_storage = []\<rparr>" False]
      s(1) first_state_ok(5) unfolding fix_sets_fields by fastforce
qed

text \<open>C17: The read cache before the router is exact for any sequence of reads, writes, removals and listings: the results are those of
  one map, whichever of the two stores each path is routed to and whatever was cached before.\<close>

theorem cached_stores_exact:
  assumes "bolt_ok B" "bolt_writes B" "rc_ok (router_look B) (router_ok B) c" "list_all op_ok ops"
  shows "\<exists>c'. db_run (ReadCacheDB False (RouterDB B)) ops c = Some (spec_run ops (rc_look (router_look B) c), c') \<and> rc_ok (router_look B) (router_ok B) c'"
  by (rule settings_store.run_exact [OF settings_store.cache_store [OF router_store [OF assms(1,2)]] _ assms(3,4)]) simp_all

theorem cached_stores_exact_witness:
  "\<exists>c'. db_run (ReadCacheDB False (RouterDB mem_bolt))
      [DGet ''Torrents'' ''a'', DSet ''Torrents'' ''a'' (Text (JObj [])), DList ''Torrents'', DGet ''Torrents'' ''a'', DRem ''Torrents'' ''a'', DGet ''Torrents'' ''a'']
      (ss_tdb first_state)
    = Some ([Value None, Done, Names {''a''}, Value (Some (Text (JObj []))), Done, Value None], c')"
proof -
  have e: "rc_look (router_look mem_bolt) (ss_tdb first_state) ''Torrents'' = Map.empty"
    by (simp add: fun_eq_iff rc_look_def router_look_def first_state_def setup_fields setup_routes tdb_look_def mem_bolt_def)
  show ?thesis
    using cached_stores_exact [OF mem_bolt_ok mem_bolt_writes first_state_ok(1) [unfolded sets_ok_def],
        of "[DGet ''Torrents'' ''a'', DSet ''Torrents'' ''a'' (Text (JObj [])), DList ''Torrents'', DGet ''Torrents'' ''a'', DRem ''Torrents'' ''a'', DGet ''Torrents'' ''a'']"]
      e by (auto simp: good_def)
qed

end
